(* ===== verification/Prelude.thy ===== *)
theory Prelude
  imports Main "HOL-Library.Word"
begin

unbundle bit_operations_syntax

text \<open>
  Shared vocabulary of the development: the machine types of the IA32 port
  (\<^verbatim>\<open>portmacro.h\<close>: \<open>TickType_t\<close> and \<open>UBaseType_t\<close> are 32 bit), the
  constants every component uses, the theorem collections the component proofs draw on, and
  the generic lemmas on lists, function updates and words that no single component owns.
\<close>

type_synonym u32 = "32 word"
type_synonym u16 = "16 word"
type_synonym u8 = "8 word"

definition portMAX_DELAY :: u32 where
  "portMAX_DELAY = 0xFFFFFFFF"

text \<open>
  Collections: \<open>list_laws\<close> holds the facts about the list store that clients of
  \<^verbatim>\<open>list.c\<close> rewrite with, \<open>kernel_frame\<close> what a kernel operation leaves unchanged,
  \<open>word_facts\<close> the arithmetic of 32-bit words.
\<close>

named_theorems list_laws
named_theorems kernel_frame
named_theorems word_facts

section \<open>Lists\<close>

lemma distinct_takeWhile_neq:
  "distinct xs \<Longrightarrow> x \<in> set xs \<Longrightarrow> xs = takeWhile (\<lambda>z. z \<noteq> x) xs @ x # tl (dropWhile (\<lambda>z. z \<noteq> x) xs)"
proof (induction xs)
  case Nil
  then show ?case by simp
next
  case (Cons a xs)
  then show ?case by (cases "a = x") auto
qed

lemma remove1_mid:
  "x \<notin> set ys \<Longrightarrow> remove1 x (ys @ x # zs) = ys @ zs"
  by (simp add: remove1_append)

lemma sorted_wrt_insert_mid:
  assumes "sorted (map f (ys @ zs))"
    and "\<forall>y \<in> set ys. f y \<le> f x" and "\<forall>z \<in> set zs. f x \<le> f z"
  shows "sorted (map f (ys @ x # zs))"
  using assms by (auto simp: sorted_append)

lemma takeWhile_le_dropWhile:
  fixes f :: "'a \<Rightarrow> 'b::linorder"
  assumes "sorted (map f xs)" and "z \<in> set (dropWhile (\<lambda>y. f y \<le> v) xs)"
  shows "v \<le> f z"
  using assms
proof (induction xs)
  case Nil
  then show ?case by simp
next
  case (Cons a xs)
  then show ?case
  proof (cases "f a \<le> v")
    case True
    with Cons show ?thesis by simp
  next
    case False
    with Cons.prems show ?thesis by (auto simp: not_le intro: less_imp_le order.trans)
  qed
qed

lemma length_le_card:
  assumes "distinct xs" and "set xs \<subseteq> A" and "finite A"
  shows "length xs \<le> card A"
  by (metis assms card_mono distinct_card)

section \<open>Words\<close>

lemma max_delay_eq: "portMAX_DELAY = - 1"
  by (simp add: portMAX_DELAY_def)

lemma max_word_is_max_delay: "(w :: u32) \<le> portMAX_DELAY"
  by (simp add: max_delay_eq)

lemma not_max_delay_less: "(w :: u32) \<noteq> portMAX_DELAY \<Longrightarrow> w < portMAX_DELAY"
  using max_word_is_max_delay [of w] by (simp add: order.not_eq_order_implies_strict)

lemma of_nat_length_0_iff:
  "length xs < 2 ^ 32 \<Longrightarrow> (of_nat (length xs) :: u32) = 0 \<longleftrightarrow> xs = []"
  by (auto simp: word_of_nat_eq_0_iff dest: dvd_imp_le)

lemma of_nat_length_gt_1_iff:
  "length xs < 2 ^ 32 \<Longrightarrow> (of_nat (length xs) :: u32) > 1 \<longleftrightarrow> length xs > 1"
  by (simp add: word_less_nat_alt unat_of_nat take_bit_eq_mod)

lemma unat_u32_less: "unat (w :: u32) < 2 ^ 32"
  by (rule order.strict_trans2 [OF unsigned_less]) simp

lemma unat_sub_wrap:
  fixes g c :: u32
  assumes "g < c"
  shows "unat (g - c) = 2 ^ 32 + unat g - unat c"
  using assms by (simp add: unat_sub_if_size word_less_nat_alt word_size)

declare unat_u32_less [word_facts] unat_sub_wrap [word_facts]
declare max_word_is_max_delay [word_facts] not_max_delay_less [word_facts]

end
