(* ===== verification/RtosList.thy ===== *)
theory RtosList
  imports Prelude
begin

text \<open>
  The intrusive, circular, doubly linked lists of \<^verbatim>\<open>list.c\<close> and \<^verbatim>\<open>list.h\<close>.
  A node is either the end marker \<open>xListEnd\<close> of a list or a list item; the store keeps
  the fields of every node and of every list, so that two lists can share the store the way
  they share memory, and an operation on one list could damage another. The operations are
  the pointer assignments of the source in their order.

  The second half abstracts a list to the sequence of its items (\<open>items\<close>), states what
  it means for a store to hold well-formed lists (\<open>wf_lists\<close>), and proves that every
  operation refines the corresponding operation on sequences and leaves all other lists
  alone. The locale \<open>intrusive_lists\<close> is the contract the rest of the kernel relies on;
  it is interpreted on the pointer operations at the end of the theory.
\<close>

section \<open>The data model\<close>

datatype ('l, 'i) node = End 'l | Item 'i

record ('l, 'i) lstore =
  pxNext :: "('l, 'i) node \<Rightarrow> ('l, 'i) node"
  pxPrevious :: "('l, 'i) node \<Rightarrow> ('l, 'i) node"
  xItemValue :: "('l, 'i) node \<Rightarrow> u32"
  pvOwner :: "'i \<Rightarrow> nat"
  pvContainer :: "'i \<Rightarrow> 'l option"
  uxNumberOfItems :: "'l \<Rightarrow> u32"
  pxIndex :: "'l \<Rightarrow> ('l, 'i) node"

section \<open>The operations of list.c\<close>

definition vListInitialise :: "'l \<Rightarrow> ('l, 'i) lstore \<Rightarrow> ('l, 'i) lstore" where
  "vListInitialise l s = s\<lparr>
     pxIndex := (pxIndex s)(l := End l),
     xItemValue := (xItemValue s)(End l := portMAX_DELAY),
     pxNext := (pxNext s)(End l := End l),
     pxPrevious := (pxPrevious s)(End l := End l),
     uxNumberOfItems := (uxNumberOfItems s)(l := 0)\<rparr>"

definition vListInitialiseItem :: "'i \<Rightarrow> ('l, 'i) lstore \<Rightarrow> ('l, 'i) lstore" where
  "vListInitialiseItem i s = s\<lparr>pvContainer := (pvContainer s)(i := None)\<rparr>"

definition vListInsertEnd :: "'l \<Rightarrow> 'i \<Rightarrow> ('l, 'i) lstore \<Rightarrow> ('l, 'i) lstore" where
  "vListInsertEnd l i s =
     (let idx = pxIndex s l;
          s1 = s\<lparr>pxNext := (pxNext s)(Item i := idx)\<rparr>;
          s2 = s1\<lparr>pxPrevious := (pxPrevious s1)(Item i := pxPrevious s1 idx)\<rparr>;
          s3 = s2\<lparr>pxNext := (pxNext s2)(pxPrevious s2 idx := Item i)\<rparr>;
          s4 = s3\<lparr>pxPrevious := (pxPrevious s3)(idx := Item i)\<rparr>;
          s5 = s4\<lparr>pvContainer := (pvContainer s4)(i := Some l)\<rparr>
      in s5\<lparr>uxNumberOfItems := (uxNumberOfItems s5)(l := uxNumberOfItems s5 l + 1)\<rparr>)"

text \<open>
  The search loop of \<open>vListInsert\<close>: \<open>None\<close> stands for a loop that does not end, which
  the source warns about; \<open>vListInsert_iter_eq\<close> below shows that it always ends on a
  well-formed list.
\<close>

partial_function (option) vListInsert_iter ::
  "('l, 'i) lstore \<Rightarrow> u32 \<Rightarrow> ('l, 'i) node \<Rightarrow> ('l, 'i) node option" where
  "vListInsert_iter s v it =
     (if xItemValue s (pxNext s it) \<le> v then vListInsert_iter s v (pxNext s it) else Some it)"

definition vListInsert :: "'l \<Rightarrow> 'i \<Rightarrow> ('l, 'i) lstore \<Rightarrow> ('l, 'i) lstore" where
  "vListInsert l i s =
     (let v = xItemValue s (Item i)
      in case (if v = portMAX_DELAY then Some (pxPrevious s (End l))
               else vListInsert_iter s v (End l)) of
           None \<Rightarrow> s
         | Some it \<Rightarrow>
             (let s1 = s\<lparr>pxNext := (pxNext s)(Item i := pxNext s it)\<rparr>;
                  s2 = s1\<lparr>pxPrevious := (pxPrevious s1)(pxNext s1 (Item i) := Item i)\<rparr>;
                  s3 = s2\<lparr>pxPrevious := (pxPrevious s2)(Item i := it)\<rparr>;
                  s4 = s3\<lparr>pxNext := (pxNext s3)(it := Item i)\<rparr>;
                  s5 = s4\<lparr>pvContainer := (pvContainer s4)(i := Some l)\<rparr>
              in s5\<lparr>uxNumberOfItems := (uxNumberOfItems s5)(l := uxNumberOfItems s5 l + 1)\<rparr>))"

text \<open>
  \<open>uxListRemove\<close> finds the list through the item. An item that is in no list has a null
  container, which the source would dereference: that case changes nothing here and no
  caller in the kernel reaches it in a well-formed state. The second component is the
  number of items that remain.
\<close>

definition uxListRemove :: "'i \<Rightarrow> ('l, 'i) lstore \<Rightarrow> ('l, 'i) lstore \<times> u32" where
  "uxListRemove i s =
     (case pvContainer s i of
        None \<Rightarrow> (s, 0)
      | Some l \<Rightarrow>
          (let s1 = s\<lparr>pxPrevious := (pxPrevious s)(pxNext s (Item i) := pxPrevious s (Item i))\<rparr>;
               s2 = s1\<lparr>pxNext := (pxNext s1)(pxPrevious s1 (Item i) := pxNext s1 (Item i))\<rparr>;
               s3 = (if pxIndex s2 l = Item i
                     then s2\<lparr>pxIndex := (pxIndex s2)(l := pxPrevious s2 (Item i))\<rparr> else s2);
               s4 = s3\<lparr>pvContainer := (pvContainer s3)(i := None)\<rparr>;
               s5 = s4\<lparr>uxNumberOfItems := (uxNumberOfItems s4)(l := uxNumberOfItems s4 l - 1)\<rparr>
           in (s5, uxNumberOfItems s5 l)))"

section \<open>The access macros of list.h\<close>

definition listSET_LIST_ITEM_OWNER :: "'i \<Rightarrow> nat \<Rightarrow> ('l, 'i) lstore \<Rightarrow> ('l, 'i) lstore" where
  "listSET_LIST_ITEM_OWNER i ow s = s\<lparr>pvOwner := (pvOwner s)(i := ow)\<rparr>"

definition listSET_LIST_ITEM_VALUE :: "'i \<Rightarrow> u32 \<Rightarrow> ('l, 'i) lstore \<Rightarrow> ('l, 'i) lstore" where
  "listSET_LIST_ITEM_VALUE i v s = s\<lparr>xItemValue := (xItemValue s)(Item i := v)\<rparr>"

definition listGET_LIST_ITEM_VALUE :: "'i \<Rightarrow> ('l, 'i) lstore \<Rightarrow> u32" where
  "listGET_LIST_ITEM_VALUE i s = xItemValue s (Item i)"

definition listGET_ITEM_VALUE_OF_HEAD_ENTRY :: "'l \<Rightarrow> ('l, 'i) lstore \<Rightarrow> u32" where
  "listGET_ITEM_VALUE_OF_HEAD_ENTRY l s = xItemValue s (pxNext s (End l))"

definition listGET_HEAD_ENTRY :: "'l \<Rightarrow> ('l, 'i) lstore \<Rightarrow> ('l, 'i) node" where
  "listGET_HEAD_ENTRY l s = pxNext s (End l)"

definition listGET_NEXT :: "('l, 'i) node \<Rightarrow> ('l, 'i) lstore \<Rightarrow> ('l, 'i) node" where
  "listGET_NEXT n s = pxNext s n"

definition listGET_END_MARKER :: "'l \<Rightarrow> ('l, 'i) node" where
  "listGET_END_MARKER l = End l"

definition listLIST_IS_EMPTY :: "'l \<Rightarrow> ('l, 'i) lstore \<Rightarrow> bool" where
  "listLIST_IS_EMPTY l s \<longleftrightarrow> uxNumberOfItems s l = 0"

definition listCURRENT_LIST_LENGTH :: "'l \<Rightarrow> ('l, 'i) lstore \<Rightarrow> u32" where
  "listCURRENT_LIST_LENGTH l s = uxNumberOfItems s l"

text \<open>
  \<open>pvOwner\<close> of a node: the end marker is a \<open>MiniListItem_t\<close> without an owner field, so
  reading it through the macro is reading past the structure; \<open>None\<close> marks that case.
\<close>

definition node_owner :: "('l, 'i) node \<Rightarrow> ('l, 'i) lstore \<Rightarrow> nat option" where
  "node_owner n s = (case n of End _ \<Rightarrow> None | Item i \<Rightarrow> Some (pvOwner s i))"

definition listGET_OWNER_OF_NEXT_ENTRY ::
  "'l \<Rightarrow> ('l, 'i) lstore \<Rightarrow> ('l, 'i) lstore \<times> nat option" where
  "listGET_OWNER_OF_NEXT_ENTRY l s =
     (let s1 = s\<lparr>pxIndex := (pxIndex s)(l := pxNext s (pxIndex s l))\<rparr>;
          s2 = (if pxIndex s1 l = End l
                then s1\<lparr>pxIndex := (pxIndex s1)(l := pxNext s1 (pxIndex s1 l))\<rparr> else s1)
      in (s2, node_owner (pxIndex s2 l) s2))"

definition listGET_OWNER_OF_HEAD_ENTRY :: "'l \<Rightarrow> ('l, 'i) lstore \<Rightarrow> nat option" where
  "listGET_OWNER_OF_HEAD_ENTRY l s = node_owner (pxNext s (End l)) s"

definition listIS_CONTAINED_WITHIN :: "'l option \<Rightarrow> 'i \<Rightarrow> ('l, 'i) lstore \<Rightarrow> bool" where
  "listIS_CONTAINED_WITHIN lo i s \<longleftrightarrow> pvContainer s i = lo"

definition listLIST_ITEM_CONTAINER :: "'i \<Rightarrow> ('l, 'i) lstore \<Rightarrow> 'l option" where
  "listLIST_ITEM_CONTAINER i s = pvContainer s i"

definition listLIST_IS_INITIALISED :: "'l \<Rightarrow> ('l, 'i) lstore \<Rightarrow> bool" where
  "listLIST_IS_INITIALISED l s \<longleftrightarrow> xItemValue s (End l) = portMAX_DELAY"

lemmas list_macros =
  listSET_LIST_ITEM_OWNER_def listSET_LIST_ITEM_VALUE_def listGET_LIST_ITEM_VALUE_def
  listGET_ITEM_VALUE_OF_HEAD_ENTRY_def listGET_HEAD_ENTRY_def listGET_NEXT_def
  listGET_END_MARKER_def listLIST_IS_EMPTY_def listCURRENT_LIST_LENGTH_def
  listGET_OWNER_OF_HEAD_ENTRY_def listIS_CONTAINED_WITHIN_def listLIST_ITEM_CONTAINER_def
  listLIST_IS_INITIALISED_def

section \<open>Doubly linked paths\<close>

text \<open>
  \<open>dpath nx pv a xs b\<close>: following \<open>nx\<close> from node \<open>a\<close> one meets the items \<open>xs\<close> in
  order and then node \<open>b\<close>, and \<open>pv\<close> leads back along every link.
\<close>

fun dpath :: "(('l, 'i) node \<Rightarrow> ('l, 'i) node) \<Rightarrow> (('l, 'i) node \<Rightarrow> ('l, 'i) node) \<Rightarrow>
    ('l, 'i) node \<Rightarrow> 'i list \<Rightarrow> ('l, 'i) node \<Rightarrow> bool" where
  "dpath nx pv a [] b \<longleftrightarrow> nx a = b \<and> pv b = a"
| "dpath nx pv a (x # xs) b \<longleftrightarrow> nx a = Item x \<and> pv (Item x) = a \<and> dpath nx pv (Item x) xs b"

definition last_node :: "('l, 'i) node \<Rightarrow> 'i list \<Rightarrow> ('l, 'i) node" where
  "last_node a xs = (if xs = [] then a else Item (last xs))"

definition first_node :: "'i list \<Rightarrow> ('l, 'i) node \<Rightarrow> ('l, 'i) node" where
  "first_node xs b = (if xs = [] then b else Item (hd xs))"

lemma last_node_simps [simp]:
  "last_node a [] = a" "last_node a (xs @ [x]) = Item x"
  by (simp_all add: last_node_def)

lemma first_node_simps [simp]:
  "first_node [] b = b" "first_node (x # xs) b = Item x"
  by (simp_all add: first_node_def)

lemma dpath_append_Cons [simp]:
  "dpath nx pv a (xs @ x # ys) b \<longleftrightarrow> dpath nx pv a xs (Item x) \<and> dpath nx pv (Item x) ys b"
  by (induction xs arbitrary: a) auto

lemma dpath_nx_upd:
  "n \<noteq> a \<Longrightarrow> n \<notin> Item ` set xs \<Longrightarrow> dpath (nx(n := m)) pv a xs b = dpath nx pv a xs b"
  by (induction xs arbitrary: a) auto

lemma dpath_pv_upd:
  "n \<noteq> b \<Longrightarrow> n \<notin> Item ` set xs \<Longrightarrow> dpath nx (pv(n := m)) a xs b = dpath nx pv a xs b"
  by (induction xs arbitrary: a) auto

lemma dpath_upd_Item [simp]:
  "Item y \<noteq> a \<Longrightarrow> y \<notin> set xs \<Longrightarrow> dpath (nx(Item y := m)) pv a xs b = dpath nx pv a xs b"
  "Item y \<noteq> b \<Longrightarrow> y \<notin> set xs \<Longrightarrow> dpath nx (pv(Item y := m)) a xs b = dpath nx pv a xs b"
  by ((rule dpath_nx_upd | rule dpath_pv_upd); auto)+

lemma dpath_upd_End [simp]:
  "End l \<noteq> a \<Longrightarrow> dpath (nx(End l := m)) pv a xs b = dpath nx pv a xs b"
  "End l \<noteq> b \<Longrightarrow> dpath nx (pv(End l := m)) a xs b = dpath nx pv a xs b"
  by ((rule dpath_nx_upd | rule dpath_pv_upd); auto)+

lemma dpath_first: "dpath nx pv a xs b \<Longrightarrow> nx a = first_node xs b"
  by (cases xs) auto

lemma dpath_last: "dpath nx pv a xs b \<Longrightarrow> pv b = last_node a xs"
  by (cases xs rule: rev_cases) auto

text \<open>Linking an item in between two neighbours, and unlinking it.\<close>

lemma dpath_link:
  assumes "dpath nx pv (End l) (ys @ zs) (End l)"
    and "distinct (ys @ zs)" and "x \<notin> set (ys @ zs)"
    and "m = last_node (End l) ys" and "w = first_node zs (End l)"
  shows "dpath (nx(Item x := w, m := Item x)) (pv(w := Item x, Item x := m))
           (End l) (ys @ x # zs) (End l)"
  using assms
  by (cases ys rule: rev_cases; cases zs)
     auto

lemma dpath_unlink:
  assumes "dpath nx pv (End l) (ys @ x # zs) (End l)" and "distinct (ys @ x # zs)"
    and "m = last_node (End l) ys" and "w = first_node zs (End l)"
  shows "dpath (nx(m := w)) (pv(w := m)) (End l) (ys @ zs) (End l)"
  using assms
  by (cases ys rule: rev_cases; cases zs)
     auto

section \<open>Abstraction to sequences\<close>

text \<open>
  \<open>items s l\<close> reads the list \<open>l\<close> off the store by following \<open>pxNext\<close> from its end
  marker. \<open>is_list s l xs\<close> says that the store represents the sequence \<open>xs\<close> at \<open>l\<close>:
  the links are consistent in both directions, exactly the items of \<open>xs\<close> name \<open>l\<close> as
  their container, the item count agrees (modulo the width of the counter), the index
  points into the list, and the end marker carries the largest value.
\<close>

partial_function (option) chain :: "('l, 'i) lstore \<Rightarrow> ('l, 'i) node \<Rightarrow> 'i list option" where
  "chain s n =
     (case pxNext s n of
        End _ \<Rightarrow> Some []
      | Item i \<Rightarrow> Option.bind (chain s (Item i)) (\<lambda>xs. Some (i # xs)))"

definition items :: "('l, 'i) lstore \<Rightarrow> 'l \<Rightarrow> 'i list" where
  "items s l = (case chain s (End l) of None \<Rightarrow> [] | Some xs \<Rightarrow> xs)"

definition is_list :: "('l, 'i) lstore \<Rightarrow> 'l \<Rightarrow> 'i list \<Rightarrow> bool" where
  "is_list s l xs \<longleftrightarrow>
     dpath (pxNext s) (pxPrevious s) (End l) xs (End l) \<and> distinct xs \<and>
     (\<forall>i. i \<in> set xs \<longleftrightarrow> pvContainer s i = Some l) \<and>
     uxNumberOfItems s l = of_nat (length xs) \<and>
     (pxIndex s l = End l \<or> (\<exists>i \<in> set xs. pxIndex s l = Item i)) \<and>
     xItemValue s (End l) = portMAX_DELAY"

definition wf_lists :: "'l set \<Rightarrow> ('l, 'i) lstore \<Rightarrow> bool" where
  "wf_lists L s \<longleftrightarrow>
     (\<forall>l \<in> L. is_list s l (items s l)) \<and> (\<forall>i l. pvContainer s i = Some l \<longrightarrow> l \<in> L)"

text \<open>The operations on sequences that the pointer operations implement.\<close>

definition insert_before :: "('l, 'i) node \<Rightarrow> 'i \<Rightarrow> 'i list \<Rightarrow> 'i list" where
  "insert_before n x xs =
     (case n of End _ \<Rightarrow> xs @ [x]
      | Item y \<Rightarrow> takeWhile (\<lambda>z. z \<noteq> y) xs @ x # dropWhile (\<lambda>z. z \<noteq> y) xs)"

definition insert_by :: "('i \<Rightarrow> u32) \<Rightarrow> 'i \<Rightarrow> 'i list \<Rightarrow> 'i list" where
  "insert_by f x xs = takeWhile (\<lambda>y. f y \<le> f x) xs @ x # dropWhile (\<lambda>y. f y \<le> f x) xs"

lemma set_insert_before [simp]: "set (insert_before n x xs) = insert x (set xs)"
proof (cases n)
  case (Item y)
  have "set xs = set (takeWhile (\<lambda>z. z \<noteq> y) xs) \<union> set (dropWhile (\<lambda>z. z \<noteq> y) xs)"
    by (metis set_append takeWhile_dropWhile_id)
  with Item show ?thesis by (simp add: insert_before_def)
qed (simp add: insert_before_def)

lemma length_insert_before [simp]: "length (insert_before n x xs) = Suc (length xs)"
proof (cases n)
  case (Item y)
  have "length (takeWhile (\<lambda>z. z \<noteq> y) xs) + length (dropWhile (\<lambda>z. z \<noteq> y) xs) = length xs"
    by (metis length_append takeWhile_dropWhile_id)
  with Item show ?thesis by (simp add: insert_before_def)
qed (simp add: insert_before_def)

lemma set_insert_by [simp]: "set (insert_by f x xs) = insert x (set xs)"
proof -
  have "set xs = set (takeWhile (\<lambda>y. f y \<le> f x) xs) \<union> set (dropWhile (\<lambda>y. f y \<le> f x) xs)"
    by (metis set_append takeWhile_dropWhile_id)
  then show ?thesis by (simp add: insert_by_def)
qed

lemma length_insert_by [simp]: "length (insert_by f x xs) = Suc (length xs)"
proof -
  have "length (takeWhile (\<lambda>y. f y \<le> f x) xs) + length (dropWhile (\<lambda>y. f y \<le> f x) xs) = length xs"
    by (metis length_append takeWhile_dropWhile_id)
  then show ?thesis by (simp add: insert_by_def)
qed

lemma sorted_insert_by:
  assumes "sorted (map f xs)"
  shows "sorted (map f (insert_by f x xs))"
  unfolding insert_by_def
proof (rule sorted_wrt_insert_mid)
  show "sorted (map f (takeWhile (\<lambda>y. f y \<le> f x) xs @ dropWhile (\<lambda>y. f y \<le> f x) xs))"
    using assms by simp
  show "\<forall>y \<in> set (takeWhile (\<lambda>y. f y \<le> f x) xs). f y \<le> f x"
    by (auto dest: set_takeWhileD)
  show "\<forall>z \<in> set (dropWhile (\<lambda>y. f y \<le> f x) xs). f x \<le> f z"
    using assms by (auto dest: takeWhile_le_dropWhile)
qed

section \<open>Reading a list off the store\<close>

lemma dpath_chain:
  "dpath (pxNext s) pv a xs (End l) \<Longrightarrow> chain s a = Some xs"
proof (induction xs arbitrary: a)
  case Nil
  then show ?case by (simp add: chain.simps)
next
  case (Cons x xs)
  then have "chain s (Item x) = Some xs" by simp
  with Cons.prems show ?case by (simp add: chain.simps [of s a])
qed

lemma is_list_items: "is_list s l xs \<Longrightarrow> items s l = xs"
  by (auto simp: is_list_def items_def dest: dpath_chain)

lemma wf_lists_is_list: "wf_lists L s \<Longrightarrow> l \<in> L \<Longrightarrow> is_list s l (items s l)"
  by (simp add: wf_lists_def)

lemma wf_listsI:
  assumes "\<And>l. l \<in> L \<Longrightarrow> is_list s l (xs l)" and "\<And>i l. pvContainer s i = Some l \<Longrightarrow> l \<in> L"
  shows "wf_lists L s" and "\<And>l. l \<in> L \<Longrightarrow> items s l = xs l"
proof -
  have "items s l = xs l" if "l \<in> L" for l
    using assms(1) [OF that] by (rule is_list_items)
  then show "wf_lists L s" and "\<And>l. l \<in> L \<Longrightarrow> items s l = xs l"
    using assms by (auto simp: wf_lists_def)
qed

lemma set_items:
  assumes "wf_lists L s" and "l \<in> L"
  shows "set (items s l) = {i. pvContainer s i = Some l}"
  using wf_lists_is_list [OF assms] by (auto simp: is_list_def)

lemma distinct_items: "wf_lists L s \<Longrightarrow> l \<in> L \<Longrightarrow> distinct (items s l)"
  using wf_lists_is_list [of L s l] by (simp add: is_list_def)

lemma uxNumberOfItems_items:
  "wf_lists L s \<Longrightarrow> l \<in> L \<Longrightarrow> uxNumberOfItems s l = of_nat (length (items s l))"
  using wf_lists_is_list [of L s l] by (simp add: is_list_def)

text \<open>A list survives every change that does not touch its own nodes.\<close>

lemma is_list_frame:
  assumes "is_list s l xs"
    and "\<And>n. n = End l \<or> n \<in> Item ` set xs \<Longrightarrow>
           pxNext s' n = pxNext s n \<and> pxPrevious s' n = pxPrevious s n"
    and "\<And>i. pvContainer s' i = Some l \<longleftrightarrow> pvContainer s i = Some l"
    and "uxNumberOfItems s' l = uxNumberOfItems s l" and "pxIndex s' l = pxIndex s l"
    and "xItemValue s' (End l) = xItemValue s (End l)"
  shows "is_list s' l xs"
proof -
  have "dpath (pxNext s') (pxPrevious s') a ys (End l)"
    if "dpath (pxNext s) (pxPrevious s) a ys (End l)" "a = End l \<or> a \<in> Item ` set xs"
      "set ys \<subseteq> set xs" for a ys
    using that
  proof (induction ys arbitrary: a)
    case Nil
    then show ?case using assms(2) [of a] assms(2) [of "End l"] by simp
  next
    case (Cons y ys)
    then show ?case using assms(2) [of a] assms(2) [of "Item y"] by auto
  qed
  then show ?thesis using assms by (simp add: is_list_def)
qed

section \<open>Each operation refines its operation on sequences\<close>

text \<open>
  Where the index of a list points splits its sequence: the items before the index and
  those from the index on.
\<close>

lemma index_split:
  assumes "is_list s l xs"
  obtains ys zs where "xs = ys @ zs" and "pxIndex s l = first_node zs (End l)"
    and "insert_before (pxIndex s l) x xs = ys @ x # zs"
proof (cases "pxIndex s l = End l")
  case True
  then show ?thesis using that [of xs "[]"] by (simp add: insert_before_def)
next
  case False
  with assms obtain y where y: "y \<in> set xs" "pxIndex s l = Item y" and d: "distinct xs"
    by (auto simp: is_list_def)
  let ?ys = "takeWhile (\<lambda>z. z \<noteq> y) xs" and ?zs = "dropWhile (\<lambda>z. z \<noteq> y) xs"
  have "xs = ?ys @ ?zs" by simp
  moreover have "?zs \<noteq> []" using y(1) by (auto simp: dropWhile_eq_Nil_conv)
  moreover from this have "hd ?zs = y" using hd_dropWhile [of "\<lambda>z. z \<noteq> y" xs] by simp
  ultimately have "xs = ?ys @ ?zs" and "first_node ?zs (End l) = Item y"
    by (simp_all add: first_node_def)
  then show ?thesis using that [of ?ys ?zs] y(2) by (simp add: insert_before_def)
qed

lemma vListInsertEnd_is_list:
  assumes l: "is_list s l xs" and i: "pvContainer s i = None"
  shows "is_list (vListInsertEnd l i s) l (insert_before (pxIndex s l) i xs)"
proof -
  obtain ys zs where sp: "xs = ys @ zs" "pxIndex s l = first_node zs (End l)"
    "insert_before (pxIndex s l) i xs = ys @ i # zs"
    by (rule index_split [OF l])
  have fresh: "i \<notin> set xs" and d: "distinct xs"
    and p: "dpath (pxNext s) (pxPrevious s) (End l) (ys @ zs) (End l)"
    using l i sp by (auto simp: is_list_def)
  have ne: "pxIndex s l \<noteq> Item i" using sp fresh by (auto simp: first_node_def)
  have pv: "pxPrevious s (pxIndex s l) = last_node (End l) ys"
    using p sp(2) by (cases zs) (auto dest: dpath_last)
  have nx': "pxNext (vListInsertEnd l i s) =
      (pxNext s)(Item i := first_node zs (End l), last_node (End l) ys := Item i)"
    and pv': "pxPrevious (vListInsertEnd l i s) =
      (pxPrevious s)(first_node zs (End l) := Item i, Item i := last_node (End l) ys)"
    using sp ne pv by (auto simp: vListInsertEnd_def Let_def fun_upd_twist)
  have "dpath (pxNext (vListInsertEnd l i s)) (pxPrevious (vListInsertEnd l i s))
          (End l) (ys @ i # zs) (End l)"
    unfolding nx' pv' using p d fresh sp(1) by (intro dpath_link) auto
  moreover have "distinct (ys @ i # zs)" using d fresh sp by auto
  ultimately show ?thesis
    using l sp unfolding is_list_def by (auto simp: vListInsertEnd_def Let_def)
qed

lemma vListInsertEnd_frame:
  assumes "is_list s l' xs" and "is_list s l ys" and "l' \<noteq> l" and "pvContainer s i = None"
  shows "is_list (vListInsertEnd l i s) l' xs"
proof (rule is_list_frame [OF assms(1)])
  have idx: "pxIndex s l = End l \<or> (\<exists>j. pxIndex s l = Item j \<and> pvContainer s j = Some l)"
    and path: "dpath (pxNext s) (pxPrevious s) (End l) ys (End l)"
    using assms(2) by (auto simp: is_list_def)
  obtain us vs where "ys = us @ vs" "pxIndex s l = first_node vs (End l)"
    by (rule index_split [OF assms(2)])
  then have "pxPrevious s (pxIndex s l) = last_node (End l) us"
    using path by (cases vs) (auto dest: dpath_last)
  then have prev: "pxPrevious s (pxIndex s l) = End l \<or>
      (\<exists>j. pxPrevious s (pxIndex s l) = Item j \<and> pvContainer s j = Some l)"
    using assms(2) \<open>ys = us @ vs\<close> by (auto simp: last_node_def is_list_def)
  have ni: "pxIndex s l \<noteq> Item i" using idx assms(4) by auto
  fix n assume n: "n = End l' \<or> n \<in> Item ` set xs"
  have nn: "n \<noteq> Item i" "n \<noteq> pxIndex s l" "n \<noteq> pxPrevious s (pxIndex s l)"
    using n idx prev assms by (auto simp: is_list_def)
  then show "pxNext (vListInsertEnd l i s) n = pxNext s n \<and>
      pxPrevious (vListInsertEnd l i s) n = pxPrevious s n"
    using ni by (simp add: vListInsertEnd_def Let_def)
qed (use assms in \<open>auto simp: vListInsertEnd_def Let_def\<close>)

lemma last_node_Cons: "last_node a (x # xs) = last_node (Item x) xs"
  by (simp add: last_node_def)

lemma vListInsert_iter_eq:
  assumes "dpath (pxNext s) pv a xs (End l)" and "xItemValue s (End l) = portMAX_DELAY"
    and "v \<noteq> portMAX_DELAY"
  shows "vListInsert_iter s v a =
    Some (last_node a (takeWhile (\<lambda>y. xItemValue s (Item y) \<le> v) xs))"
  using assms
proof (induction xs arbitrary: a)
  case Nil
  then have "\<not> xItemValue s (pxNext s a) \<le> v"
    using not_max_delay_less [of v] by auto
  then show ?case by (simp add: vListInsert_iter.simps [of s v a])
next
  case (Cons x xs)
  then show ?case by (simp add: vListInsert_iter.simps [of s v a] last_node_Cons)
qed

text \<open>The insertion point of \<open>vListInsert\<close>, on both of its branches.\<close>

lemma vListInsert_position:
  assumes "is_list s l xs" and "v = xItemValue s (Item i)"
  shows "(if v = portMAX_DELAY then Some (pxPrevious s (End l)) else vListInsert_iter s v (End l)) =
    Some (last_node (End l) (takeWhile (\<lambda>y. xItemValue s (Item y) \<le> v) xs))"
proof (cases "v = portMAX_DELAY")
  case True
  have "takeWhile (\<lambda>y. xItemValue s (Item y) \<le> v) xs = xs"
    using True by (simp add: takeWhile_eq_all_conv max_word_is_max_delay)
  moreover have "pxPrevious s (End l) = last_node (End l) xs"
    using assms by (auto simp: is_list_def dest: dpath_last)
  ultimately show ?thesis using True by (simp only: if_True refl)
next
  case False
  with assms show ?thesis by (auto simp: is_list_def intro!: vListInsert_iter_eq)
qed

text \<open>
  The effect of \<open>vListInsert\<close> on a well-formed list as one simultaneous update between
  the two neighbours of the insertion point.
\<close>

lemma vListInsert_eq:
  fixes s :: "('l, 'i) lstore"
  assumes l: "is_list s l xs" and i: "pvContainer s i = None"
    and ys: "ys = takeWhile (\<lambda>y. xItemValue s (Item y) \<le> xItemValue s (Item i)) xs"
    and zs: "zs = dropWhile (\<lambda>y. xItemValue s (Item y) \<le> xItemValue s (Item i)) xs"
  shows "vListInsert l i s = s\<lparr>
      pxNext := (pxNext s)(Item i := first_node zs (End l), last_node (End l) ys := Item i),
      pxPrevious := (pxPrevious s)(first_node zs (End l) := Item i, Item i := last_node (End l) ys),
      pvContainer := (pvContainer s)(i := Some l),
      uxNumberOfItems := (uxNumberOfItems s)(l := uxNumberOfItems s l + 1)\<rparr>"
proof -
  have xs: "xs = ys @ zs" using ys zs by simp
  have fresh: "i \<notin> set xs" and p: "dpath (pxNext s) (pxPrevious s) (End l) (ys @ zs) (End l)"
    using l i xs by (auto simp: is_list_def)
  have nx: "pxNext s (last_node (End l) ys) = first_node zs (End l)"
  proof (cases ys rule: rev_cases)
    case Nil
    with p show ?thesis by (auto dest: dpath_first)
  next
    case (snoc us y)
    with p show ?thesis by (auto dest: dpath_first)
  qed
  have ne: "last_node (End l) ys \<noteq> Item i" "first_node zs (End l) \<noteq> Item i"
    using fresh xs by (auto simp: last_node_def first_node_def)
  show ?thesis
    using nx ne unfolding vListInsert_def Let_def vListInsert_position [OF l refl] ys [symmetric]
    by (simp add: fun_upd_twist)
qed

lemma vListInsert_is_list:
  assumes l: "is_list s l xs" and i: "pvContainer s i = None"
  shows "is_list (vListInsert l i s) l (insert_by (\<lambda>y. xItemValue s (Item y)) i xs)"
proof -
  define ys where ys: "ys = takeWhile (\<lambda>y. xItemValue s (Item y) \<le> xItemValue s (Item i)) xs"
  define zs where zs: "zs = dropWhile (\<lambda>y. xItemValue s (Item y) \<le> xItemValue s (Item i)) xs"
  have xs: "xs = ys @ zs" using ys zs by simp
  have ins: "insert_by (\<lambda>y. xItemValue s (Item y)) i xs = ys @ i # zs"
    by (simp add: insert_by_def ys zs)
  have f: "i \<notin> set (ys @ zs)" and d: "distinct (ys @ zs)"
    and p: "dpath (pxNext s) (pxPrevious s) (End l) (ys @ zs) (End l)"
    using l i by (auto simp: is_list_def xs)
  show ?thesis
    using dpath_link [OF p d f refl refl] l [unfolded is_list_def xs] f d
    unfolding ins vListInsert_eq [OF l i ys zs] is_list_def
    by (auto simp del: dpath_append_Cons)
qed

lemma vListInsert_frame:
  assumes "is_list s l' xs" and "is_list s l ys" and "l' \<noteq> l" and i: "pvContainer s i = None"
  shows "is_list (vListInsert l i s) l' xs"
proof (rule is_list_frame [OF assms(1)])
  define us where us: "us = takeWhile (\<lambda>y. xItemValue s (Item y) \<le> xItemValue s (Item i)) ys"
  define vs where vs: "vs = dropWhile (\<lambda>y. xItemValue s (Item y) \<le> xItemValue s (Item i)) ys"
  note eq = vListInsert_eq [OF assms(2) i us vs]
  have "ys = us @ vs" using us vs by simp
  then have c: "\<forall>j \<in> set us \<union> set vs. pvContainer s j = Some l"
    using assms(2) by (auto simp: is_list_def)
  fix n assume "n = End l' \<or> n \<in> Item ` set xs"
  then have "n \<noteq> Item i" "n \<noteq> first_node vs (End l)" "n \<noteq> last_node (End l) us"
    using c assms by (auto simp: is_list_def first_node_def last_node_def)
  then show "pxNext (vListInsert l i s) n = pxNext s n \<and>
      pxPrevious (vListInsert l i s) n = pxPrevious s n"
    by (simp add: eq)
qed (use assms vListInsert_eq [OF assms(2) i refl refl] in auto)

text \<open>Removing an item.\<close>

lemma uxListRemove_eq:
  assumes l: "is_list s l (ys @ i # zs)"
  shows "uxListRemove i s = (let s' = s\<lparr>
      pxNext := (pxNext s)(last_node (End l) ys := first_node zs (End l)),
      pxPrevious := (pxPrevious s)(first_node zs (End l) := last_node (End l) ys),
      pvContainer := (pvContainer s)(i := None),
      uxNumberOfItems := (uxNumberOfItems s)(l := uxNumberOfItems s l - 1),
      pxIndex := (pxIndex s)(l := if pxIndex s l = Item i then last_node (End l) ys else pxIndex s l)\<rparr>
    in (s', uxNumberOfItems s' l))"
proof -
  have c: "pvContainer s i = Some l" and d: "distinct (ys @ i # zs)"
    and p: "dpath (pxNext s) (pxPrevious s) (End l) (ys @ i # zs) (End l)"
    using l by (auto simp: is_list_def)
  have nx: "pxNext s (Item i) = first_node zs (End l)" and
    pv: "pxPrevious s (Item i) = last_node (End l) ys"
    using p by (auto dest: dpath_first dpath_last)
  have "first_node zs (End l) \<noteq> Item i" using d by (auto simp: first_node_def)
  with c nx pv show ?thesis by (simp add: uxListRemove_def Let_def)
qed

lemma uxListRemove_is_list:
  assumes l: "is_list s l xs" and i: "pvContainer s i = Some l"
  shows "is_list (fst (uxListRemove i s)) l (remove1 i xs)"
proof -
  have "i \<in> set xs" using l i by (auto simp: is_list_def)
  then obtain ys zs where xs: "xs = ys @ i # zs" and ni: "i \<notin> set ys"
    by (auto dest: split_list_first)
  have d: "distinct (ys @ i # zs)"
    and p: "dpath (pxNext s) (pxPrevious s) (End l) (ys @ i # zs) (End l)"
    using l by (auto simp: is_list_def xs)
  have rm: "remove1 i xs = ys @ zs" using ni xs by (simp add: remove1_mid)
  have idx: "last_node (End l) ys = End l \<or> (\<exists>j \<in> set (ys @ zs). last_node (End l) ys = Item j)"
    by (auto simp: last_node_def)
  show ?thesis
    using dpath_unlink [OF p d refl refl] l [unfolded is_list_def xs] idx d
    unfolding rm uxListRemove_eq [OF l [unfolded xs]] is_list_def Let_def
    by (auto simp del: dpath_append_Cons)
qed

lemma uxListRemove_frame:
  assumes "is_list s l' xs" and "is_list s l ys" and "l' \<noteq> l" and i: "pvContainer s i = Some l"
  shows "is_list (fst (uxListRemove i s)) l' xs"
proof -
  have "i \<in> set ys" using assms(2) i by (auto simp: is_list_def)
  then obtain us vs where ys: "ys = us @ i # vs" by (auto dest: split_list)
  note eq = uxListRemove_eq [OF assms(2) [unfolded ys]]
  show ?thesis
  proof (rule is_list_frame [OF assms(1)])
    have c: "\<forall>j \<in> set us \<union> set vs. pvContainer s j = Some l"
      using assms(2) by (auto simp: is_list_def ys)
    fix n assume "n = End l' \<or> n \<in> Item ` set xs"
    then have "n \<noteq> first_node vs (End l)" "n \<noteq> last_node (End l) us"
      using c assms by (auto simp: is_list_def first_node_def last_node_def)
    then show "pxNext (fst (uxListRemove i s)) n = pxNext s n \<and>
        pxPrevious (fst (uxListRemove i s)) n = pxPrevious s n"
      by (simp add: eq Let_def)
  qed (use assms eq in \<open>auto simp: Let_def\<close>)
qed

lemma uxListRemove_count:
  assumes l: "is_list s l xs" and i: "pvContainer s i = Some l"
  shows "snd (uxListRemove i s) = of_nat (length (remove1 i xs))"
  using uxListRemove_is_list [OF assms] i
  by (auto simp: is_list_def uxListRemove_def Let_def split: if_splits)

section \<open>The whole store\<close>

text \<open>
  The same facts for all lists at once: every operation keeps the store well formed,
  changes the sequence of one list only, and moves no item but its own.
\<close>

lemma vListInitialise_store:
  assumes "wf_lists L s" and "l \<notin> L"
  shows "wf_lists (insert l L) (vListInitialise l s)"
    and "items (vListInitialise l s) l = []"
    and "l' \<in> L \<Longrightarrow> items (vListInitialise l s) l' = items s l'"
proof -
  let ?s' = "vListInitialise l s" and ?xs = "(items s)(l := [])"
  have "is_list ?s' l' (?xs l')" if "l' \<in> insert l L" for l'
  proof (cases "l' = l")
    case True
    then show ?thesis using assms by (auto simp: is_list_def vListInitialise_def wf_lists_def)
  next
    case False
    with that assms have "is_list s l' (items s l')" by (auto simp: wf_lists_def)
    then have "is_list ?s' l' (items s l')"
      by (rule is_list_frame) (use False in \<open>auto simp: vListInitialise_def\<close>)
    with False show ?thesis by simp
  qed
  moreover have "l' \<in> insert l L" if "pvContainer ?s' i = Some l'" for i l'
    using that assms by (auto simp: vListInitialise_def wf_lists_def)
  ultimately have wf: "wf_lists (insert l L) ?s'"
    and it: "\<And>l'. l' \<in> insert l L \<Longrightarrow> items ?s' l' = ?xs l'"
    using wf_listsI [of "insert l L" ?s' ?xs] by blast+
  show "wf_lists (insert l L) ?s'" by (rule wf)
  show "items ?s' l = []" using it by simp
  show "l' \<in> L \<Longrightarrow> items ?s' l' = items s l'" using it [of l'] assms(2) by auto
qed

lemma vListInsertEnd_store:
  assumes wf: "wf_lists L s" and l: "l \<in> L" and i: "pvContainer s i = None"
  shows "wf_lists L (vListInsertEnd l i s)"
    and "l' \<in> L \<Longrightarrow> items (vListInsertEnd l i s) l' =
      (if l' = l then insert_before (pxIndex s l) i (items s l) else items s l')"
proof -
  let ?s' = "vListInsertEnd l i s"
  let ?xs = "(items s)(l := insert_before (pxIndex s l) i (items s l))"
  note il = wf_lists_is_list [OF wf]
  have "is_list ?s' l' (?xs l')" if "l' \<in> L" for l'
    using vListInsertEnd_is_list [OF il [OF l] i] vListInsertEnd_frame [OF il [OF that] il [OF l] _ i]
    by simp
  moreover have "l' \<in> L" if "pvContainer ?s' j = Some l'" for j l'
    using that wf l by (auto simp: vListInsertEnd_def Let_def wf_lists_def split: if_splits)
  ultimately have *: "wf_lists L ?s'" "\<And>l'. l' \<in> L \<Longrightarrow> items ?s' l' = ?xs l'"
    using wf_listsI [of L ?s' ?xs] by blast+
  show "wf_lists L ?s'" by (rule *)
  show "l' \<in> L \<Longrightarrow> items ?s' l' =
      (if l' = l then insert_before (pxIndex s l) i (items s l) else items s l')"
    using *(2) [of l'] by auto
qed

lemma vListInsertEnd_fields [simp]:
  "pvContainer (vListInsertEnd l i s) = (pvContainer s)(i := Some l)"
  "xItemValue (vListInsertEnd l i s) = xItemValue s"
  "pvOwner (vListInsertEnd l i s) = pvOwner s"
  by (simp_all add: vListInsertEnd_def Let_def)

lemma vListInsert_store:
  assumes wf: "wf_lists L s" and l: "l \<in> L" and i: "pvContainer s i = None"
  shows "wf_lists L (vListInsert l i s)"
    and "l' \<in> L \<Longrightarrow> items (vListInsert l i s) l' =
      (if l' = l then insert_by (\<lambda>y. xItemValue s (Item y)) i (items s l) else items s l')"
    and "pvContainer (vListInsert l i s) = (pvContainer s)(i := Some l)"
    and "xItemValue (vListInsert l i s) = xItemValue s"
    and "pvOwner (vListInsert l i s) = pvOwner s"
proof -
  let ?s' = "vListInsert l i s"
  let ?xs = "(items s)(l := insert_by (\<lambda>y. xItemValue s (Item y)) i (items s l))"
  note il = wf_lists_is_list [OF wf]
  note eq = vListInsert_eq [OF il [OF l] i refl refl]
  have "is_list ?s' l' (?xs l')" if "l' \<in> L" for l'
    using vListInsert_is_list [OF il [OF l] i] vListInsert_frame [OF il [OF that] il [OF l] _ i]
    by simp
  moreover have "l' \<in> L" if "pvContainer ?s' j = Some l'" for j l'
    using that wf l by (auto simp: eq wf_lists_def split: if_splits)
  ultimately have *: "wf_lists L ?s'" "\<And>l'. l' \<in> L \<Longrightarrow> items ?s' l' = ?xs l'"
    using wf_listsI [of L ?s' ?xs] by blast+
  show "wf_lists L ?s'" by (rule *)
  show "l' \<in> L \<Longrightarrow> items ?s' l' =
      (if l' = l then insert_by (\<lambda>y. xItemValue s (Item y)) i (items s l) else items s l')"
    using *(2) [of l'] by auto
  show "pvContainer ?s' = (pvContainer s)(i := Some l)" and "xItemValue ?s' = xItemValue s"
    and "pvOwner ?s' = pvOwner s"
    by (simp_all add: eq)
qed

lemma uxListRemove_fields [simp]:
  "pvContainer (fst (uxListRemove i s)) = (pvContainer s)(i := None)"
  "xItemValue (fst (uxListRemove i s)) = xItemValue s"
  "pvOwner (fst (uxListRemove i s)) = pvOwner s"
  by (auto simp: uxListRemove_def Let_def split: option.splits)

lemma uxListRemove_store:
  assumes wf: "wf_lists L s"
  shows "wf_lists L (fst (uxListRemove i s))"
    and "l' \<in> L \<Longrightarrow> items (fst (uxListRemove i s)) l' = remove1 i (items s l')"
    and "pvContainer s i = Some l \<Longrightarrow>
      snd (uxListRemove i s) = of_nat (length (items (fst (uxListRemove i s)) l))"
proof -
  let ?s' = "fst (uxListRemove i s)"
  note il = wf_lists_is_list [OF wf]
  have main: "wf_lists L ?s' \<and> (\<forall>l' \<in> L. items ?s' l' = remove1 i (items s l'))"
  proof (cases "pvContainer s i")
    case None
    then have "i \<notin> set (items s l')" if "l' \<in> L" for l' using set_items [OF wf that] by auto
    with None wf show ?thesis by (simp add: uxListRemove_def remove1_idem)
  next
    case (Some l)
    then have l: "l \<in> L" using wf by (auto simp: wf_lists_def)
    have "is_list ?s' l' (remove1 i (items s l'))" if "l' \<in> L" for l'
    proof (cases "l' = l")
      case True
      then show ?thesis using uxListRemove_is_list [OF il [OF l] Some] by simp
    next
      case False
      then have "i \<notin> set (items s l')" using set_items [OF wf that] Some by auto
      then show ?thesis
        using uxListRemove_frame [OF il [OF that] il [OF l] False Some] by (simp add: remove1_idem)
    qed
    moreover have "l' \<in> L" if "pvContainer ?s' j = Some l'" for j l'
      using that wf by (auto simp: wf_lists_def split: if_splits)
    ultimately show ?thesis
      using wf_listsI [of L ?s' "\<lambda>l'. remove1 i (items s l')"] by blast
  qed
  then show "wf_lists L ?s'" and it: "l' \<in> L \<Longrightarrow> items ?s' l' = remove1 i (items s l')" by auto
  assume c: "pvContainer s i = Some l"
  then have "l \<in> L" using wf by (auto simp: wf_lists_def)
  with main uxListRemove_count [OF il c] show "snd (uxListRemove i s) = of_nat (length (items ?s' l))"
    by simp
qed

text \<open>Values and owners are not part of the list structure.\<close>

lemma set_value_store:
  "wf_lists L s \<Longrightarrow> wf_lists L (listSET_LIST_ITEM_VALUE i v s)"
  "wf_lists L s \<Longrightarrow> l \<in> L \<Longrightarrow> items (listSET_LIST_ITEM_VALUE i v s) l = items s l"
proof -
  let ?s' = "listSET_LIST_ITEM_VALUE i v s"
  assume wf: "wf_lists L s"
  have "is_list ?s' l (items s l)" if "l \<in> L" for l
    by (rule is_list_frame [OF wf_lists_is_list [OF wf that]])
       (auto simp: listSET_LIST_ITEM_VALUE_def)
  moreover have "l' \<in> L" if "pvContainer ?s' j = Some l'" for j l'
    using that wf by (auto simp: wf_lists_def listSET_LIST_ITEM_VALUE_def)
  ultimately show "wf_lists L ?s'" and "l \<in> L \<Longrightarrow> items ?s' l = items s l"
    using wf_listsI [of L ?s' "items s"] by blast+
qed

lemma set_value_fields [simp]:
  "pvContainer (listSET_LIST_ITEM_VALUE i v s) = pvContainer s"
  "xItemValue (listSET_LIST_ITEM_VALUE i v s) = (xItemValue s)(Item i := v)"
  "pvOwner (listSET_LIST_ITEM_VALUE i v s) = pvOwner s"
  by (simp_all add: listSET_LIST_ITEM_VALUE_def)

lemma set_owner_fields [simp]:
  "pvContainer (listSET_LIST_ITEM_OWNER i ow s) = pvContainer s"
  "xItemValue (listSET_LIST_ITEM_OWNER i ow s) = xItemValue s"
  "pvOwner (listSET_LIST_ITEM_OWNER i ow s) = (pvOwner s)(i := ow)"
  by (simp_all add: listSET_LIST_ITEM_OWNER_def)

lemma set_owner_store:
  "wf_lists L s \<Longrightarrow> wf_lists L (listSET_LIST_ITEM_OWNER i ow s)"
  "wf_lists L s \<Longrightarrow> l \<in> L \<Longrightarrow> items (listSET_LIST_ITEM_OWNER i ow s) l = items s l"
proof -
  let ?s' = "listSET_LIST_ITEM_OWNER i ow s"
  assume wf: "wf_lists L s"
  have "is_list ?s' l (items s l)" if "l \<in> L" for l
    by (rule is_list_frame [OF wf_lists_is_list [OF wf that]])
       (auto simp: listSET_LIST_ITEM_OWNER_def)
  moreover have "l' \<in> L" if "pvContainer ?s' j = Some l'" for j l'
    using that wf by (auto simp: wf_lists_def listSET_LIST_ITEM_OWNER_def)
  ultimately show "wf_lists L ?s'" and "l \<in> L \<Longrightarrow> items ?s' l = items s l"
    using wf_listsI [of L ?s' "items s"] by blast+
qed

lemma initialise_item_store:
  "wf_lists L s \<Longrightarrow> pvContainer s i = None \<Longrightarrow> vListInitialiseItem i s = s"
  by (simp add: vListInitialiseItem_def fun_upd_idem)

lemma head_owner:
  assumes "wf_lists L s" and "l \<in> L"
  shows "listGET_OWNER_OF_HEAD_ENTRY l s =
      (case items s l of [] \<Rightarrow> None | x # _ \<Rightarrow> Some (pvOwner s x))"
    and "listGET_ITEM_VALUE_OF_HEAD_ENTRY l s =
      (case items s l of [] \<Rightarrow> portMAX_DELAY | x # _ \<Rightarrow> xItemValue s (Item x))"
  using wf_lists_is_list [OF assms]
  by (auto simp: is_list_def list_macros node_owner_def split: list.splits)

section \<open>Round robin over a list\<close>

text \<open>
  \<open>listGET_OWNER_OF_NEXT_ENTRY\<close> moves the index one item on, skipping the end marker.
  \<open>index_pos\<close> is the position of the index in the sequence; the end marker counts as the
  last position, because the next item after it is the first.
\<close>

definition index_pos :: "('l, 'i) lstore \<Rightarrow> 'l \<Rightarrow> nat \<Rightarrow> bool" where
  "index_pos s l p \<longleftrightarrow> p < length (items s l) \<and>
     (pxIndex s l = Item (items s l ! p) \<or> pxIndex s l = End l \<and> Suc p = length (items s l))"

fun next_entries :: "nat \<Rightarrow> 'l \<Rightarrow> ('l, 'i) lstore \<Rightarrow> nat option list" where
  "next_entries 0 l s = []"
| "next_entries (Suc k) l s =
     (let (s', ow) = listGET_OWNER_OF_NEXT_ENTRY l s in ow # next_entries k l s')"

lemma index_pos_exists:
  assumes "wf_lists L s" and "l \<in> L" and "items s l \<noteq> []"
  shows "\<exists>p. index_pos s l p"
proof (cases "pxIndex s l")
  case (End l')
  then have "pxIndex s l = End l" using wf_lists_is_list [OF assms(1,2)] by (auto simp: is_list_def)
  with assms(3) have "index_pos s l (length (items s l) - 1)" by (simp add: index_pos_def)
  then show ?thesis ..
next
  case (Item i)
  then have "i \<in> set (items s l)" using wf_lists_is_list [OF assms(1,2)] by (auto simp: is_list_def)
  then obtain p where "p < length (items s l)" "items s l ! p = i" by (auto simp: in_set_conv_nth)
  with Item have "index_pos s l p" by (simp add: index_pos_def)
  then show ?thesis ..
qed

lemma dpath_nth_next:
  "dpath nx pv a xs b \<Longrightarrow> p < length xs \<Longrightarrow>
     nx (Item (xs ! p)) = (if Suc p < length xs then Item (xs ! Suc p) else b)"
proof (induction xs arbitrary: a p)
  case Nil
  then show ?case by simp
next
  case (Cons x xs)
  show ?case
  proof (cases p)
    case 0
    with Cons.prems show ?thesis by (cases xs) auto
  next
    case (Suc q)
    with Cons.prems Cons.IH [of "Item x" q] show ?thesis by simp
  qed
qed

lemma next_entry_step:
  assumes wf: "wf_lists L s" and l: "l \<in> L" and p: "index_pos s l p"
    and s': "listGET_OWNER_OF_NEXT_ENTRY l s = (s', ow)"
  shows "ow = Some (pvOwner s (items s l ! (Suc p mod length (items s l))))"
    and "wf_lists L s'" and "l' \<in> L \<Longrightarrow> items s' l' = items s l'"
    and "index_pos s' l (Suc p mod length (items s l))"
    and "s' = s\<lparr>pxIndex := (pxIndex s)(l := Item (items s l ! (Suc p mod length (items s l))))\<rparr>"
proof -
  let ?xs = "items s l" and ?q = "Suc p mod length (items s l)"
  have d: "dpath (pxNext s) (pxPrevious s) (End l) ?xs (End l)"
    using wf_lists_is_list [OF wf l] by (simp add: is_list_def)
  have pl: "p < length ?xs" and ne: "?xs \<noteq> []" using p by (auto simp: index_pos_def)
  have hd: "pxNext s (End l) = Item (?xs ! 0)" using d ne by (cases ?xs) auto
  have q: "?q = (if Suc p < length ?xs then Suc p else 0)" using pl by (simp add: mod_Suc)
  have key: "s' = s\<lparr>pxIndex := (pxIndex s)(l := Item (?xs ! ?q))\<rparr> \<and> ow = Some (pvOwner s (?xs ! ?q))"
    using p s' hd q dpath_nth_next [OF d pl]
    by (auto simp: index_pos_def listGET_OWNER_OF_NEXT_ENTRY_def Let_def node_owner_def split: if_splits)
  then show eq: "s' = s\<lparr>pxIndex := (pxIndex s)(l := Item (?xs ! ?q))\<rparr>"
    and "ow = Some (pvOwner s (?xs ! ?q))" by auto
  have qi: "?xs ! ?q \<in> set ?xs" using pl ne by (intro nth_mem) (simp add: q)
  have "is_list s' k (items s k)" if "k \<in> L" for k
    using wf_lists_is_list [OF wf that] qi by (auto simp: is_list_def eq)
  moreover have "k \<in> L" if "pvContainer s' j = Some k" for j k
    using that wf by (auto simp: wf_lists_def eq)
  ultimately have *: "wf_lists L s'" "\<And>k. k \<in> L \<Longrightarrow> items s' k = items s k"
    using wf_listsI [of L s' "items s"] by blast+
  then show "wf_lists L s'" and "l' \<in> L \<Longrightarrow> items s' l' = items s l'" by auto
  show "index_pos s' l ?q" using *(2) [OF l] pl ne by (simp add: index_pos_def eq q)
qed

lemma next_entries_from:
  assumes "wf_lists L s" and "l \<in> L" and "index_pos s l p"
  shows "next_entries k l s =
    map (\<lambda>j. Some (pvOwner s (items s l ! ((Suc p + j) mod length (items s l))))) [0..<k]"
  using assms
proof (induction k arbitrary: s p)
  case 0
  then show ?case by simp
next
  case (Suc k)
  obtain s' ow where e: "listGET_OWNER_OF_NEXT_ENTRY l s = (s', ow)" by fastforce
  note st = next_entry_step [OF Suc.prems e]
  have own: "pvOwner s' = pvOwner s" by (simp add: st(5))
  have it: "items s' l = items s l" by (rule st(3) [OF Suc.prems(2)])
  have mod: "(Suc (Suc p mod n) + j) mod n = (Suc p + Suc j) mod n" for j n :: nat
    by (metis add_Suc add_Suc_right mod_Suc_eq mod_add_left_eq)
  have "next_entries k l s' = map (\<lambda>j. Some (pvOwner s (items s l !
      ((Suc p + Suc j) mod length (items s l))))) [0..<k]"
    using Suc.IH [OF st(2) Suc.prems(2) st(4)] by (simp only: own it mod)
  then show ?case
    by (simp add: e st(1) map_upt_Suc del: upt_Suc)
qed

lemma next_entries_rotate:
  assumes "wf_lists L s" and "l \<in> L" and "items s l \<noteq> []"
  shows "\<exists>j. next_entries (length (items s l)) l s =
    map (\<lambda>i. Some (pvOwner s i)) (rotate j (items s l))"
proof -
  obtain p where p: "index_pos s l p" using index_pos_exists [OF assms] ..
  have "next_entries (length (items s l)) l s =
      map (\<lambda>i. Some (pvOwner s i)) (rotate (Suc p) (items s l))"
    unfolding next_entries_from [OF assms(1,2) p]
    by (rule nth_equalityI) (simp_all add: nth_rotate del: rotate_Suc)
  then show ?thesis ..
qed

section \<open>The interface of list.c\<close>

text \<open>
  What the scheduler, the queues and the other clients use of \<^verbatim>\<open>list.c\<close>: the
  operations, the observable sequence, container, value and owner of an item, and the laws
  they satisfy on a well-formed store. The client lemmas proved inside the locale are the
  ones every component needs: a count is zero exactly for an empty list, moving an item
  between lists, and sorted insertion and removal.
\<close>

locale intrusive_lists =
  fixes ins_end :: "'l \<Rightarrow> 'i \<Rightarrow> 's \<Rightarrow> 's"
    and ins :: "'l \<Rightarrow> 'i \<Rightarrow> 's \<Rightarrow> 's"
    and rem :: "'i \<Rightarrow> 's \<Rightarrow> 's \<times> u32"
    and setv :: "'i \<Rightarrow> u32 \<Rightarrow> 's \<Rightarrow> 's"
    and seq :: "'s \<Rightarrow> 'l \<Rightarrow> 'i list"
    and cont :: "'s \<Rightarrow> 'i \<Rightarrow> 'l option"
    and val :: "'s \<Rightarrow> 'i \<Rightarrow> u32"
    and own :: "'s \<Rightarrow> 'i \<Rightarrow> nat"
    and cnt :: "'s \<Rightarrow> 'l \<Rightarrow> u32"
    and ok :: "'l set \<Rightarrow> 's \<Rightarrow> bool"
  assumes set_seq: "ok L s \<Longrightarrow> l \<in> L \<Longrightarrow> set (seq s l) = {i. cont s i = Some l}"
    and distinct_seq: "ok L s \<Longrightarrow> l \<in> L \<Longrightarrow> distinct (seq s l)"
    and cnt_seq: "ok L s \<Longrightarrow> l \<in> L \<Longrightarrow> cnt s l = of_nat (length (seq s l))"
    and cont_ok: "ok L s \<Longrightarrow> cont s i = Some l \<Longrightarrow> l \<in> L"
    and ins_end_ok: "ok L s \<Longrightarrow> l \<in> L \<Longrightarrow> cont s i = None \<Longrightarrow> ok L (ins_end l i s)"
    and ins_end_cont: "cont (ins_end l i s) = (cont s)(i := Some l)"
    and ins_end_val: "val (ins_end l i s) = val s"
    and ins_end_own: "own (ins_end l i s) = own s"
    and ins_end_other: "ok L s \<Longrightarrow> l \<in> L \<Longrightarrow> cont s i = None \<Longrightarrow> l' \<in> L \<Longrightarrow> l' \<noteq> l \<Longrightarrow>
      seq (ins_end l i s) l' = seq s l'"
    and ins_ok: "ok L s \<Longrightarrow> l \<in> L \<Longrightarrow> cont s i = None \<Longrightarrow> ok L (ins l i s)"
    and ins_cont: "ok L s \<Longrightarrow> l \<in> L \<Longrightarrow> cont s i = None \<Longrightarrow> cont (ins l i s) = (cont s)(i := Some l)"
    and ins_val: "ok L s \<Longrightarrow> l \<in> L \<Longrightarrow> cont s i = None \<Longrightarrow> val (ins l i s) = val s"
    and ins_own: "ok L s \<Longrightarrow> l \<in> L \<Longrightarrow> cont s i = None \<Longrightarrow> own (ins l i s) = own s"
    and ins_seq: "ok L s \<Longrightarrow> l \<in> L \<Longrightarrow> cont s i = None \<Longrightarrow> l' \<in> L \<Longrightarrow>
      seq (ins l i s) l' = (if l' = l then insert_by (val s) i (seq s l) else seq s l')"
    and rem_ok: "ok L s \<Longrightarrow> ok L (fst (rem i s))"
    and rem_cont: "cont (fst (rem i s)) = (cont s)(i := None)"
    and rem_val: "val (fst (rem i s)) = val s"
    and rem_own: "own (fst (rem i s)) = own s"
    and rem_seq: "ok L s \<Longrightarrow> l \<in> L \<Longrightarrow> seq (fst (rem i s)) l = remove1 i (seq s l)"
    and rem_cnt: "ok L s \<Longrightarrow> cont s i = Some l \<Longrightarrow>
      snd (rem i s) = of_nat (length (seq (fst (rem i s)) l))"
    and setv_ok: "ok L s \<Longrightarrow> ok L (setv i v s)"
    and setv_cont: "cont (setv i v s) = cont s"
    and setv_val: "val (setv i v s) = (val s)(i := v)"
    and setv_own: "own (setv i v s) = own s"
    and setv_seq: "ok L s \<Longrightarrow> l \<in> L \<Longrightarrow> seq (setv i v s) l = seq s l"
begin

text \<open>A list is bounded by any finite set of items it draws from.\<close>

lemma seq_bound:
  assumes "ok L s" and "l \<in> L" and "{i. cont s i = Some l} \<subseteq> A" and "finite A" and "card A < 2 ^ 32"
  shows "length (seq s l) < 2 ^ 32"
  using length_le_card [of "seq s l" A] assms set_seq distinct_seq by fastforce

lemma cnt_zero_iff:
  assumes "ok L s" and "l \<in> L" and "{i. cont s i = Some l} \<subseteq> A" and "finite A" and "card A < 2 ^ 32"
  shows "cnt s l = 0 \<longleftrightarrow> (\<forall>i. cont s i \<noteq> Some l)"
proof -
  have "cnt s l = 0 \<longleftrightarrow> seq s l = []"
    using cnt_seq [OF assms(1,2)] of_nat_length_0_iff [OF seq_bound [OF assms]] by simp
  also have "\<dots> \<longleftrightarrow> {i. cont s i = Some l} = {}" using set_seq [OF assms(1,2)] by auto
  finally show ?thesis by auto
qed

lemma rem_zero_iff:
  assumes "ok L s" and "cont s i = Some l"
    and "{j. cont s j = Some l} \<subseteq> A" and "finite A" and "card A < 2 ^ 32"
  shows "snd (rem i s) = 0 \<longleftrightarrow> (\<forall>j. j \<noteq> i \<longrightarrow> cont s j \<noteq> Some l)"
proof -
  have l: "l \<in> L" using assms cont_ok by blast
  have sub: "{j. cont (fst (rem i s)) j = Some l} \<subseteq> A" using assms(3) by (auto simp: rem_cont)
  have "snd (rem i s) = 0 \<longleftrightarrow> cnt (fst (rem i s)) l = 0"
    using rem_cnt [OF assms(1,2)] cnt_seq [OF rem_ok [OF assms(1)] l] by simp
  also have "\<dots> \<longleftrightarrow> (\<forall>j. cont (fst (rem i s)) j \<noteq> Some l)"
    by (rule cnt_zero_iff [OF rem_ok [OF assms(1)] l sub assms(4,5)])
  finally show ?thesis by (auto simp: rem_cont)
qed

text \<open>Taking an item out of its list and putting it into another one.\<close>

lemma move_end_ok:
  "ok L s \<Longrightarrow> l \<in> L \<Longrightarrow> ok L (ins_end l i (fst (rem i s)))"
  "cont (ins_end l i (fst (rem i s))) = (cont s)(i := Some l)"
  by (auto simp: ins_end_ok rem_ok rem_cont ins_end_cont)

lemma move_ok:
  assumes "ok L s" and "l \<in> L"
  shows "ok L (ins l i (setv i v (fst (rem i s))))"
    and "cont (ins l i (setv i v (fst (rem i s)))) = (cont s)(i := Some l)"
  using assms ins_cont [OF setv_ok [OF rem_ok [OF assms(1)]] assms(2)]
  by (auto simp: ins_ok rem_ok rem_cont setv_ok setv_cont)

lemma sorted_ins:
  assumes "ok L s" and "l \<in> L" and "cont s i = None" and "sorted (map (val s) (seq s l))"
  shows "sorted (map (val (ins l i s)) (seq (ins l i s) l))"
  using assms by (simp add: ins_val ins_seq sorted_insert_by)

lemma sorted_rem:
  assumes "ok L s" and "l \<in> L" and "sorted (map (val s) (seq s l))"
  shows "sorted (map (val (fst (rem i s))) (seq (fst (rem i s)) l))"
  using assms by (simp add: rem_val rem_seq sorted_map_remove1)

end

interpretation kl: intrusive_lists vListInsertEnd vListInsert uxListRemove listSET_LIST_ITEM_VALUE
  items pvContainer "\<lambda>s i. xItemValue s (Item i)" pvOwner uxNumberOfItems wf_lists
proof unfold_locales
  fix L :: "'l set" and s :: "('l, 'i) lstore" and l l' :: 'l and i :: 'i and v :: u32
  show "wf_lists L s \<Longrightarrow> l \<in> L \<Longrightarrow> set (items s l) = {i. pvContainer s i = Some l}"
    by (rule set_items)
  show "wf_lists L s \<Longrightarrow> l \<in> L \<Longrightarrow> distinct (items s l)" by (rule distinct_items)
  show "wf_lists L s \<Longrightarrow> l \<in> L \<Longrightarrow> uxNumberOfItems s l = of_nat (length (items s l))"
    by (rule uxNumberOfItems_items)
  show "wf_lists L s \<Longrightarrow> pvContainer s i = Some l \<Longrightarrow> l \<in> L" by (simp add: wf_lists_def)
qed (auto simp: vListInsertEnd_store vListInsert_store uxListRemove_store set_value_store)

end
