(* ===== verification/KernelState.thy ===== *)
theory KernelState
  imports RtosList
begin

unbundle bit_operations_syntax

text \<open>
  The state the kernel keeps (the file-scope variables of \<^verbatim>\<open>tasks.c\<close> and
  \<^verbatim>\<open>port.c\<close>, the task control blocks of \<^verbatim>\<open>task.h\<close>), the ready-list macros, the
  critical sections and yields of the IA32 port, and the context switch. A task handle is a
  number that names its TCB; the two list items inside a TCB are \<open>Generic t\<close> and
  \<open>Event t\<close>. The configuration is that of \<^verbatim>\<open>FreeRTOSConfig.h\<close>: eight priorities,
  preemption and time slicing on, port-optimised task selection, mutexes, timers, tick hook
  and task notifications on, \<open>configASSERT\<close> empty.
\<close>

section \<open>Names of lists and items\<close>

datatype lid =
    Ready u32
  | Delayed1 | Delayed2 | PendingReady | Termination | Suspended
  | TasksWaitingToSend nat | TasksWaitingToReceive nat
  | TasksWaitingForBits nat
  | TimerList1 | TimerList2

datatype item = Generic nat | Event nat | TimerItem nat

type_synonym store = "(lid, item) lstore"

section \<open>Task control blocks\<close>

datatype eNotifyValue = eNotWaitingNotification | eWaitingNotification | eNotified

record TCB =
  uxPriority :: u32
  pxStack :: u32
  pcTaskName :: string
  uxBasePriority :: u32
  uxMutexesHeld :: u32
  ulNotifiedValue :: u32
  eNotifyState :: eNotifyValue
  fpContextPtr :: "nat option"
  stack_limit_words :: "u32 list"

text \<open>
  \<open>stack_limit_words\<close> are the four words at the end of the stack that
  \<open>taskCHECK_FOR_STACK_OVERFLOW\<close> compares with the fill pattern; \<open>fpContextPtr\<close> is
  the slot of the FPU context pool the task owns, if any.
\<close>

datatype ext_call = TickHook | StackOverflowHook nat | FatalDeviceNotAvailable

record kernel =
  lists :: store
  evlists :: "lid set"
  tcb :: "nat \<Rightarrow> TCB"
  live :: "nat set"
  pxCurrentTCB :: "nat option"
  pxFpTcbOwner :: "nat option"
  pxDelayedTaskList :: lid
  pxOverflowDelayedTaskList :: lid
  uxTasksDeleted :: u32
  uxCurrentNumberOfTasks :: u32
  xTickCount :: u32
  uxTopReadyPriority :: u32
  xSchedulerRunning :: bool
  uxPendedTicks :: u32
  xYieldPending :: bool
  xNumOfOverflows :: u32
  uxTaskNumber :: u32
  xNextTaskUnblockTime :: u32
  uxSchedulerSuspended :: u32
  ulCriticalNesting :: u32
  ulPortYieldPending :: bool
  interrupts_on :: bool
  cr0_TS :: bool
  fpu_regs :: nat
  fpu_mem :: "nat \<Rightarrow> nat"
  currentNumberOfFpTasks :: u8
  ext_calls :: "ext_call list"

text \<open>
  History variables, not C variables: \<open>live\<close> is the set of TCBs that are allocated and
  not yet freed, \<open>evlists\<close> the lists other components have initialised, \<open>ext_calls\<close>
  the calls made to application hooks, latest first. \<open>fpu_regs\<close> and \<open>fpu_mem\<close> are the
  contents of the FPU register file and of the save areas, each as one value.
\<close>

definition configMAX_PRIORITIES :: u32 where
  "configMAX_PRIORITIES = 8"

definition tskIDLE_PRIORITY :: u32 where
  "tskIDLE_PRIORITY = 0"

definition taskEVENT_LIST_ITEM_VALUE_IN_USE :: u32 where
  "taskEVENT_LIST_ITEM_VALUE_IN_USE = 0x80000000"

definition update_tcb :: "nat \<Rightarrow> (TCB \<Rightarrow> TCB) \<Rightarrow> kernel \<Rightarrow> kernel" where
  "update_tcb t f k = k\<lparr>tcb := (tcb k)(t := f (tcb k t))\<rparr>"

definition cur :: "kernel \<Rightarrow> nat" where
  "cur k = the (pxCurrentTCB k)"

definition prvGetTCBFromHandle :: "nat option \<Rightarrow> kernel \<Rightarrow> nat" where
  "prvGetTCBFromHandle h k = (case h of None \<Rightarrow> cur k | Some t \<Rightarrow> t)"

section \<open>The ready bit map\<close>

definition portRECORD_READY_PRIORITY :: "u32 \<Rightarrow> u32 \<Rightarrow> u32" where
  "portRECORD_READY_PRIORITY p w = w OR push_bit (unat p) 1"

definition portRESET_READY_PRIORITY :: "u32 \<Rightarrow> u32 \<Rightarrow> u32" where
  "portRESET_READY_PRIORITY p w = w AND NOT (push_bit (unat p) 1)"

text \<open>
  \<open>portGET_HIGHEST_PRIORITY\<close> is the \<open>bsr\<close> instruction: the index of the highest bit that
  is set. On zero the destination is undefined, which is \<open>None\<close> here.
\<close>

fun bsr_from :: "nat \<Rightarrow> u32 \<Rightarrow> nat option" where
  "bsr_from 0 w = (if bit w 0 then Some 0 else None)"
| "bsr_from (Suc n) w = (if bit w (Suc n) then Some (Suc n) else bsr_from n w)"

definition portGET_HIGHEST_PRIORITY :: "u32 \<Rightarrow> u32 option" where
  "portGET_HIGHEST_PRIORITY w = map_option of_nat (bsr_from 31 w)"

definition taskRECORD_READY_PRIORITY :: "u32 \<Rightarrow> kernel \<Rightarrow> kernel" where
  "taskRECORD_READY_PRIORITY p k =
     k\<lparr>uxTopReadyPriority := portRECORD_READY_PRIORITY p (uxTopReadyPriority k)\<rparr>"

definition reset_ready_priority :: "u32 \<Rightarrow> kernel \<Rightarrow> kernel" where
  "reset_ready_priority p k =
     k\<lparr>uxTopReadyPriority := portRESET_READY_PRIORITY p (uxTopReadyPriority k)\<rparr>"

definition taskRESET_READY_PRIORITY :: "u32 \<Rightarrow> kernel \<Rightarrow> kernel" where
  "taskRESET_READY_PRIORITY p k =
     (if listCURRENT_LIST_LENGTH (Ready p) (lists k) = 0 then reset_ready_priority p k else k)"

definition prvAddTaskToReadyList :: "nat \<Rightarrow> kernel \<Rightarrow> kernel" where
  "prvAddTaskToReadyList t k =
     (let k1 = taskRECORD_READY_PRIORITY (uxPriority (tcb k t)) k
      in k1\<lparr>lists := vListInsertEnd (Ready (uxPriority (tcb k1 t))) (Generic t) (lists k1)\<rparr>)"

text \<open>
  Two idioms of \<^verbatim>\<open>tasks.c\<close> for taking a task out of its state list: test the number of
  items that remain and, when it is zero, clear the ready bit of the priority, either
  directly (the task is known to be in that ready list) or through the macro that looks at
  the ready list again (the task may be in any list).
\<close>

definition remove_ready_item :: "nat \<Rightarrow> u32 \<Rightarrow> kernel \<Rightarrow> kernel" where
  "remove_ready_item t p k =
     (let (s, n) = uxListRemove (Generic t) (lists k); k1 = k\<lparr>lists := s\<rparr>
      in if n = 0 then reset_ready_priority p k1 else k1)"

definition remove_state_item :: "nat \<Rightarrow> kernel \<Rightarrow> kernel" where
  "remove_state_item t k =
     (let (s, n) = uxListRemove (Generic t) (lists k); k1 = k\<lparr>lists := s\<rparr>
      in if n = 0 then taskRESET_READY_PRIORITY (uxPriority (tcb k1 t)) k1 else k1)"

definition remove_event_item :: "nat \<Rightarrow> kernel \<Rightarrow> kernel" where
  "remove_event_item t k = k\<lparr>lists := fst (uxListRemove (Event t) (lists k))\<rparr>"

definition remove_generic_item :: "nat \<Rightarrow> kernel \<Rightarrow> kernel" where
  "remove_generic_item t k = k\<lparr>lists := fst (uxListRemove (Generic t) (lists k))\<rparr>"

definition taskSELECT_HIGHEST_PRIORITY_TASK :: "kernel \<Rightarrow> kernel" where
  "taskSELECT_HIGHEST_PRIORITY_TASK k =
     (case portGET_HIGHEST_PRIORITY (uxTopReadyPriority k) of
        None \<Rightarrow> k
      | Some p \<Rightarrow>
          (let (s, ow) = listGET_OWNER_OF_NEXT_ENTRY (Ready p) (lists k)
           in k\<lparr>lists := s, pxCurrentTCB := ow\<rparr>))"

section \<open>The delayed lists\<close>

definition prvAddCurrentTaskToDelayedList :: "u32 \<Rightarrow> kernel \<Rightarrow> kernel" where
  "prvAddCurrentTaskToDelayedList xTimeToWake k =
     (let t = cur k; k1 = k\<lparr>lists := listSET_LIST_ITEM_VALUE (Generic t) xTimeToWake (lists k)\<rparr>
      in if xTimeToWake < xTickCount k1
         then k1\<lparr>lists := vListInsert (pxOverflowDelayedTaskList k1) (Generic t) (lists k1)\<rparr>
         else (let k2 = k1\<lparr>lists := vListInsert (pxDelayedTaskList k1) (Generic t) (lists k1)\<rparr>
               in if xTimeToWake < xNextTaskUnblockTime k2
                  then k2\<lparr>xNextTaskUnblockTime := xTimeToWake\<rparr> else k2))"

definition prvResetNextTaskUnblockTime :: "kernel \<Rightarrow> kernel" where
  "prvResetNextTaskUnblockTime k =
     (if listLIST_IS_EMPTY (pxDelayedTaskList k) (lists k)
      then k\<lparr>xNextTaskUnblockTime := portMAX_DELAY\<rparr>
      else case listGET_OWNER_OF_HEAD_ENTRY (pxDelayedTaskList k) (lists k) of
             None \<Rightarrow> k
           | Some t \<Rightarrow> k\<lparr>xNextTaskUnblockTime := listGET_LIST_ITEM_VALUE (Generic t) (lists k)\<rparr>)"

section \<open>The context switch\<close>

definition taskCHECK_FOR_STACK_OVERFLOW :: "kernel \<Rightarrow> kernel" where
  "taskCHECK_FOR_STACK_OVERFLOW k =
     (if \<exists>w \<in> set (stack_limit_words (tcb k (cur k))). w \<noteq> 0xA5A5A5A5
      then k\<lparr>ext_calls := StackOverflowHook (cur k) # ext_calls k\<rparr> else k)"

text \<open>
  \<open>fnsave\<close> stores the register file and reinitialises it (as \<open>fninit\<close>, value 0);
  \<open>frstor\<close> loads it from a save area.
\<close>

definition fnsave :: "nat \<Rightarrow> kernel \<Rightarrow> kernel" where
  "fnsave a k = k\<lparr>fpu_mem := (fpu_mem k)(a := fpu_regs k), fpu_regs := 0\<rparr>"

definition frstor :: "nat \<Rightarrow> kernel \<Rightarrow> kernel" where
  "frstor a k = k\<lparr>fpu_regs := fpu_mem k a\<rparr>"

definition switch_fpu :: "kernel \<Rightarrow> kernel" where
  "switch_fpu k =
     (case fpContextPtr (tcb k (cur k)) of
        None \<Rightarrow> k\<lparr>cr0_TS := True\<rparr>
      | Some a \<Rightarrow>
          (let k1 = k\<lparr>cr0_TS := False\<rparr>
           in if pxFpTcbOwner k1 = pxCurrentTCB k1 then k1
              else (let k2 = (case pxFpTcbOwner k1 of
                                None \<Rightarrow> k1
                              | Some ow \<Rightarrow>
                                  frstor a (case fpContextPtr (tcb k1 ow) of
                                              None \<Rightarrow> k1
                                            | Some b \<Rightarrow> fnsave b k1))
                    in k2\<lparr>pxFpTcbOwner := pxCurrentTCB k2\<rparr>)))"

definition vTaskSwitchContext :: "kernel \<Rightarrow> kernel" where
  "vTaskSwitchContext k =
     (if uxSchedulerSuspended k \<noteq> 0 then k\<lparr>xYieldPending := True\<rparr>
      else switch_fpu (taskSELECT_HIGHEST_PRIORITY_TASK
             (taskCHECK_FOR_STACK_OVERFLOW (k\<lparr>xYieldPending := False\<rparr>))))"

section \<open>Yields and critical sections of the port\<close>

text \<open>
  The yield interrupt runs \<open>vTaskSwitchContext\<close> at once; \<open>portYIELD\<close> holds it pending
  inside a critical section, and the outermost \<open>vPortExitCritical\<close> performs it.
\<close>

definition vPortYieldCall :: "kernel \<Rightarrow> kernel" where
  "vPortYieldCall k = vTaskSwitchContext k"

definition portYIELD :: "kernel \<Rightarrow> kernel" where
  "portYIELD k =
     (if ulCriticalNesting k \<noteq> 0 then k\<lparr>ulPortYieldPending := True\<rparr> else vPortYieldCall k)"

definition portEND_SWITCHING_ISR :: "bool \<Rightarrow> kernel \<Rightarrow> kernel" where
  "portEND_SWITCHING_ISR req k = (if req then k\<lparr>ulPortYieldPending := True\<rparr> else k)"

definition vPortEnterCritical :: "kernel \<Rightarrow> kernel" where
  "vPortEnterCritical k =
     (let k1 = (if ulCriticalNesting k = 0 then k\<lparr>interrupts_on := False\<rparr> else k)
      in k1\<lparr>ulCriticalNesting := ulCriticalNesting k1 + 1\<rparr>)"

definition vPortExitCritical :: "kernel \<Rightarrow> kernel" where
  "vPortExitCritical k =
     (if ulCriticalNesting k > 0
      then (let k1 = k\<lparr>ulCriticalNesting := ulCriticalNesting k - 1\<rparr>
            in if ulCriticalNesting k1 = 0
               then (let k2 = k1\<lparr>interrupts_on := True\<rparr>
                     in if ulPortYieldPending k2
                        then vPortYieldCall (k2\<lparr>ulPortYieldPending := False\<rparr>) else k2)
               else k1)
      else k)"

definition ulPortSetInterruptMask :: "kernel \<Rightarrow> kernel \<times> bool" where
  "ulPortSetInterruptMask k = (k\<lparr>interrupts_on := False\<rparr>, interrupts_on k)"

definition vPortClearInterruptMask :: "bool \<Rightarrow> kernel \<Rightarrow> kernel" where
  "vPortClearInterruptMask m k = (if m then k\<lparr>interrupts_on := True\<rparr> else k)"

end
