(* ===== verification/KernelInv.thy ===== *)
theory KernelInv
  imports KernelState
begin

unbundle bit_operations_syntax

text \<open>
  The invariant of the kernel state and how the list primitives keep it. An operation that
  moves a task takes its \<open>xGenericListItem\<close> out of one list before it puts it into
  another, so the invariant \<open>kinv X\<close> is indexed by the set \<open>X\<close> of tasks whose item is
  in no list at the moment; between operations \<open>X\<close> is empty. The parts:
  \<^item> \<open>kinv_lists\<close>: the store holds well-formed lists;
  \<^item> \<open>kinv_tasks\<close>: every task is in exactly one state list, the ready list of its own
    priority among them, list items name their owners, the counters count;
  \<^item> \<open>kinv_ready\<close>: the bit map of ready priorities says which ready lists are not empty;
  \<^item> \<open>kinv_time\<close>: the two delayed lists are sorted by wake time and split at the tick count.
  Inside the tick interrupt, after the count has moved on, tasks that are due are still in the
  delayed list; the flag \<open>D\<close> of \<open>kinvd\<close> allows this, \<open>kinv\<close> does not.
\<close>

section \<open>Definition\<close>

definition task_lists :: "lid set" where
  "task_lists = Ready ` {p. p < configMAX_PRIORITIES} \<union>
     {Delayed1, Delayed2, PendingReady, Termination, Suspended}"

fun is_event_list :: "lid \<Rightarrow> bool" where
  "is_event_list (TasksWaitingToSend q) = True"
| "is_event_list (TasksWaitingToReceive q) = True"
| "is_event_list (TasksWaitingForBits g) = True"
| "is_event_list TimerList1 = True"
| "is_event_list TimerList2 = True"
| "is_event_list l = False"

definition timer_lists :: "lid set" where
  "timer_lists = {TimerList1, TimerList2}"

definition state_lists :: "u32 \<Rightarrow> lid set" where
  "state_lists p = {Ready p, Delayed1, Delayed2, Suspended, Termination}"

abbreviation KL :: "kernel \<Rightarrow> lid set" where
  "KL k \<equiv> task_lists \<union> evlists k"

abbreviation gcont :: "kernel \<Rightarrow> nat \<Rightarrow> lid option" where
  "gcont k t \<equiv> pvContainer (lists k) (Generic t)"

abbreviation econt :: "kernel \<Rightarrow> nat \<Rightarrow> lid option" where
  "econt k t \<equiv> pvContainer (lists k) (Event t)"

abbreviation gval :: "kernel \<Rightarrow> nat \<Rightarrow> u32" where
  "gval k t \<equiv> xItemValue (lists k) (Item (Generic t))"

abbreviation prio :: "kernel \<Rightarrow> nat \<Rightarrow> u32" where
  "prio k t \<equiv> uxPriority (tcb k t)"

definition terminated :: "kernel \<Rightarrow> nat set" where
  "terminated k = {t. gcont k t = Some Termination}"

definition kinv_lists :: "kernel \<Rightarrow> bool" where
  "kinv_lists k \<longleftrightarrow> wf_lists (KL k) (lists k) \<and> (\<forall>l \<in> evlists k. is_event_list l)"

definition kinv_tasks :: "nat set \<Rightarrow> kernel \<Rightarrow> bool" where
  "kinv_tasks X k \<longleftrightarrow>
     finite (live k) \<and> card (live k) < 2 ^ 31 \<and> X \<subseteq> live k \<and>
     uxCurrentNumberOfTasks k = of_nat (card (live k)) \<and>
     uxTasksDeleted k = of_nat (card (terminated k)) \<and>
     (\<forall>t \<in> live k. prio k t < configMAX_PRIORITIES \<and>
        uxBasePriority (tcb k t) < configMAX_PRIORITIES \<and>
        pvOwner (lists k) (Generic t) = t \<and> pvOwner (lists k) (Event t) = t \<and>
        (gcont k t = None \<longleftrightarrow> t \<in> X)) \<and>
     (\<forall>t l. gcont k t = Some l \<longrightarrow> t \<in> live k \<and>
        l \<in> state_lists (prio k t)) \<and>
     (\<forall>t l. econt k t = Some l \<longrightarrow> t \<in> live k \<and> l \<in> insert PendingReady (evlists k - timer_lists) \<and>
        gcont k t \<noteq> Some Termination) \<and>
     (\<forall>m l. pvContainer (lists k) (TimerItem m) = Some l \<longrightarrow> l \<in> evlists k \<inter> timer_lists)"

definition kinv_ready :: "nat set \<Rightarrow> kernel \<Rightarrow> bool" where
  "kinv_ready X k \<longleftrightarrow>
     (\<forall>t p. gcont k t = Some (Ready p) \<longrightarrow> bit (uxTopReadyPriority k) (unat p)) \<and>
     (\<forall>n. bit (uxTopReadyPriority k) n \<longrightarrow> n < 8) \<and>
     (\<forall>p < configMAX_PRIORITIES. bit (uxTopReadyPriority k) (unat p) \<longrightarrow>
        (\<exists>t. gcont k t = Some (Ready p)) \<or> (\<exists>t \<in> X. prio k t = p))"

definition delayed_sorted :: "lid \<Rightarrow> kernel \<Rightarrow> bool" where
  "delayed_sorted l k \<longleftrightarrow> sorted (map (\<lambda>i. xItemValue (lists k) (Item i)) (items (lists k) l))"

definition kinv_time :: "bool \<Rightarrow> kernel \<Rightarrow> bool" where
  "kinv_time D k \<longleftrightarrow>
     (pxDelayedTaskList k = Delayed1 \<and> pxOverflowDelayedTaskList k = Delayed2 \<or>
      pxDelayedTaskList k = Delayed2 \<and> pxOverflowDelayedTaskList k = Delayed1) \<and>
     delayed_sorted Delayed1 k \<and> delayed_sorted Delayed2 k \<and>
     (\<forall>t. gcont k t = Some (pxDelayedTaskList k) \<longrightarrow>
        (if D then xTickCount k \<le> gval k t else xTickCount k < gval k t) \<and>
        xNextTaskUnblockTime k \<le> gval k t) \<and>
     (\<forall>t. gcont k t = Some (pxOverflowDelayedTaskList k) \<longrightarrow> gval k t < xTickCount k) \<and>
     (\<not> D \<and> xSchedulerRunning k \<longrightarrow>
        xTickCount k < xNextTaskUnblockTime k \<or> xNextTaskUnblockTime k = portMAX_DELAY)"

definition kinvd :: "bool \<Rightarrow> nat set \<Rightarrow> kernel \<Rightarrow> bool" where
  "kinvd D X k \<longleftrightarrow> kinv_lists k \<and> kinv_tasks X k \<and> kinv_ready X k \<and> kinv_time D k"

abbreviation kinv :: "nat set \<Rightarrow> kernel \<Rightarrow> bool" where
  "kinv \<equiv> kinvd False"

lemmas kinv_defs = kinvd_def kinv_lists_def kinv_tasks_def kinv_ready_def kinv_time_def

text \<open>Fields the invariant does not mention can change freely.\<close>

lemma kinv_frame [simp]:
  "kinvd D X (k\<lparr>pxCurrentTCB := a\<rparr>) = kinvd D X k"
  "kinvd D X (k\<lparr>pxFpTcbOwner := b\<rparr>) = kinvd D X k"
  "kinvd D X (k\<lparr>uxPendedTicks := c\<rparr>) = kinvd D X k"
  "kinvd D X (k\<lparr>xYieldPending := d\<rparr>) = kinvd D X k"
  "kinvd D X (k\<lparr>xNumOfOverflows := c\<rparr>) = kinvd D X k"
  "kinvd D X (k\<lparr>uxTaskNumber := c\<rparr>) = kinvd D X k"
  "kinvd D X (k\<lparr>uxSchedulerSuspended := c\<rparr>) = kinvd D X k"
  "kinvd D X (k\<lparr>ulCriticalNesting := c\<rparr>) = kinvd D X k"
  "kinvd D X (k\<lparr>ulPortYieldPending := d\<rparr>) = kinvd D X k"
  "kinvd D X (k\<lparr>interrupts_on := d\<rparr>) = kinvd D X k"
  "kinvd D X (k\<lparr>cr0_TS := d\<rparr>) = kinvd D X k"
  "kinvd D X (k\<lparr>fpu_regs := e\<rparr>) = kinvd D X k"
  "kinvd D X (k\<lparr>fpu_mem := f\<rparr>) = kinvd D X k"
  "kinvd D X (k\<lparr>currentNumberOfFpTasks := h\<rparr>) = kinvd D X k"
  "kinvd D X (k\<lparr>ext_calls := g\<rparr>) = kinvd D X k"
  by (simp_all add: kinv_defs delayed_sorted_def terminated_def)

section \<open>Facts of the invariant\<close>

lemma kinv_parts:
  assumes "kinvd D X k"
  shows "wf_lists (KL k) (lists k)" and "kinv_lists k" and "kinv_tasks X k" and "kinv_ready X k"
    and "kinv_time D k"
  using assms by (auto simp: kinvd_def kinv_lists_def)

lemmas kinv_wf = kinv_parts(1)

lemma task_lists_mem [simp]:
  "Ready p \<in> task_lists \<longleftrightarrow> p < configMAX_PRIORITIES"
  "Delayed1 \<in> task_lists" "Delayed2 \<in> task_lists" "PendingReady \<in> task_lists"
  "Termination \<in> task_lists" "Suspended \<in> task_lists"
  by (auto simp: task_lists_def)

lemma state_lists_mem [simp]:
  "Ready p \<in> state_lists q \<longleftrightarrow> p = q"
  "Delayed1 \<in> state_lists q" "Delayed2 \<in> state_lists q" "PendingReady \<notin> state_lists q"
  "Termination \<in> state_lists q" "Suspended \<in> state_lists q"
  by (auto simp: state_lists_def)

lemma state_lists_cases:
  assumes "l \<in> state_lists p"
  obtains "l = Ready p" | "l = Delayed1" | "l = Delayed2" | "l = Suspended" | "l = Termination"
  using assms by (auto simp: state_lists_def)

lemma state_lists_not_event: "l \<in> state_lists p \<Longrightarrow> \<not> is_event_list l"
  by (auto simp: state_lists_def)

lemma task_lists_not_event: "l \<in> task_lists \<Longrightarrow> \<not> is_event_list l"
  by (auto simp: task_lists_def)

lemma evlists_not_task:
  "kinvd D X k \<Longrightarrow> l \<in> task_lists \<Longrightarrow> l \<notin> evlists k"
  using task_lists_not_event by (auto simp: kinvd_def kinv_lists_def)

lemma kinv_liveD:
  assumes "kinvd D X k"
  shows "gcont k t = Some l \<Longrightarrow> t \<in> live k" and "econt k t = Some l \<Longrightarrow> t \<in> live k"
    and "t \<in> X \<Longrightarrow> t \<in> live k" and "t \<in> X \<Longrightarrow> gcont k t = None"
    and "t \<in> live k \<Longrightarrow> t \<notin> X \<Longrightarrow> \<exists>l. gcont k t = Some l"
  using assms by (auto simp: kinvd_def kinv_tasks_def)

lemma kinv_contD:
  assumes "kinvd D X k"
  shows "gcont k t = Some l \<Longrightarrow> l \<in> state_lists (prio k t)"
    and "gcont k t = Some (Ready p) \<Longrightarrow> p = prio k t"
    and "econt k t = Some l \<Longrightarrow> l = PendingReady \<or> l \<in> evlists k"
    and "pvContainer (lists k) (TimerItem m) = Some l \<Longrightarrow> l \<in> evlists k"
    and "econt k t = Some l \<Longrightarrow> gcont k t \<noteq> Some Termination"
    and "econt k t = Some l \<Longrightarrow> l \<notin> timer_lists"
    and "pvContainer (lists k) (TimerItem m) = Some l \<Longrightarrow> l \<in> timer_lists"
  using assms by (fastforce simp: kinvd_def kinv_tasks_def timer_lists_def)+

lemma kinv_tcbD:
  assumes "kinvd D X k" and "t \<in> live k"
  shows "prio k t < configMAX_PRIORITIES" and "uxBasePriority (tcb k t) < configMAX_PRIORITIES"
    and "pvOwner (lists k) (Generic t) = t" and "pvOwner (lists k) (Event t) = t"
  using assms by (auto simp: kinvd_def kinv_tasks_def)

lemma priority_index: "p < configMAX_PRIORITIES \<Longrightarrow> unat p < 8"
  by (simp add: configMAX_PRIORITIES_def word_less_nat_alt)

text \<open>The items that can be in a list of the scheduler are bounded by the number of tasks.\<close>

definition task_items :: "kernel \<Rightarrow> item set" where
  "task_items k = Generic ` live k \<union> Event ` live k"

lemma task_items_bound:
  assumes "kinvd D X k"
  shows "finite (task_items k)" and "card (task_items k) < 2 ^ 32"
proof -
  have f: "finite (live k)" and c: "card (live k) < 2 ^ 31"
    using kinv_parts(3) [OF assms] by (auto simp: kinv_tasks_def)
  show "finite (task_items k)" using f by (simp add: task_items_def)
  have "card (task_items k) \<le> card (live k) + card (live k)"
    unfolding task_items_def using card_Un_le [of "Generic ` live k" "Event ` live k"]
      card_image_le [OF f, of Generic] card_image_le [OF f, of Event] by linarith
  with c show "card (task_items k) < 2 ^ 32" by simp
qed

lemma list_of_tasks:
  assumes "kinvd D X k" and "l \<in> task_lists"
  shows "{i. pvContainer (lists k) i = Some l} \<subseteq> task_items k"
proof
  fix i assume i: "i \<in> {i. pvContainer (lists k) i = Some l}"
  note ne = evlists_not_task [OF assms]
  show "i \<in> task_items k"
    using i ne kinv_liveD(1,2) [OF assms(1)] kinv_contD(4) [OF assms(1)]
    by (cases i) (auto simp: task_items_def)
qed

lemma empty_iff:
  assumes "kinvd D X k" and "l \<in> task_lists"
  shows "uxNumberOfItems (lists k) l = 0 \<longleftrightarrow> (\<forall>i. pvContainer (lists k) i \<noteq> Some l)"
  using kl.cnt_zero_iff [OF kinv_wf [OF assms(1)] _ list_of_tasks [OF assms]
      task_items_bound [OF assms(1)]] assms(2) by blast

lemma removed_zero_iff:
  assumes "kinvd D X k" and "l \<in> task_lists" and "pvContainer (lists k) i = Some l"
  shows "snd (uxListRemove i (lists k)) = 0 \<longleftrightarrow>
    (\<forall>j. j \<noteq> i \<longrightarrow> pvContainer (lists k) j \<noteq> Some l)"
  using kl.rem_zero_iff [OF kinv_wf [OF assms(1)] assms(3) list_of_tasks [OF assms(1,2)]
      task_items_bound [OF assms(1)]] .

lemma state_item_generic:
  assumes "kinvd D X k" and "l \<in> state_lists p" and "pvContainer (lists k) i = Some l"
  shows "\<exists>t. i = Generic t"
proof (cases i)
  case (Event t)
  then have "l = PendingReady \<or> l \<in> evlists k" using kinv_contD(3) [OF assms(1)] assms(3) by simp
  with assms state_lists_not_event [OF assms(2)] show ?thesis
    by (auto simp: kinvd_def kinv_lists_def)
next
  case (TimerItem m)
  then have "l \<in> evlists k" using kinv_contD(4) [OF assms(1)] assms(3) by simp
  with assms state_lists_not_event [OF assms(2)] show ?thesis
    by (auto simp: kinvd_def kinv_lists_def)
qed simp

section \<open>The list primitives keep the invariant\<close>

lemma delayed_sorted_remove:
  assumes "kinvd D X k" and "l \<in> task_lists" and "delayed_sorted l k"
  shows "delayed_sorted l (k\<lparr>lists := fst (uxListRemove i (lists k))\<rparr>)"
  using kl.sorted_rem [OF kinv_wf [OF assms(1)], of l i] assms by (simp add: delayed_sorted_def)

lemma kinv_lists_remove:
  "kinv_lists k \<Longrightarrow> kinv_lists (k\<lparr>lists := fst (uxListRemove i (lists k))\<rparr>)"
  by (simp add: kinv_lists_def uxListRemove_store)

text \<open>Taking a task's state item out of its list.\<close>

lemma kinv_remove_generic:
  assumes k: "kinvd D X k" and c: "gcont k t = Some l" and nt: "l \<noteq> Termination"
  shows "kinvd D (insert t X) (k\<lparr>lists := fst (uxListRemove (Generic t) (lists k))\<rparr>)"
    (is "kinvd _ _ ?k'")
proof -
  have tm: "terminated ?k' = terminated k" using c nt by (auto simp: terminated_def)
  have "kinv_tasks (insert t X) ?k'"
    using kinv_parts(3) [OF k] kinv_liveD(1) [OF k c] unfolding kinv_tasks_def tm by auto
  moreover have "kinv_ready (insert t X) ?k'"
    using kinv_parts(4) [OF k] kinv_contD(2) [OF k, of t] unfolding kinv_ready_def
    by (simp split: if_splits) metis
  moreover have "kinv_time D ?k'"
    using kinv_parts(5) [OF k] delayed_sorted_remove [OF k] unfolding kinv_time_def by auto
  ultimately show ?thesis
    using kinv_lists_remove [OF kinv_parts(2) [OF k]] by (simp add: kinvd_def)
qed

text \<open>Taking an event item out of its list, if it is in one.\<close>

lemma kinv_remove_event:
  assumes k: "kinvd D X k"
  shows "kinvd D X (k\<lparr>lists := fst (uxListRemove (Event t) (lists k))\<rparr>)" (is "kinvd _ _ ?k'")
proof -
  have tm: "terminated ?k' = terminated k" by (simp add: terminated_def)
  have "kinv_tasks X ?k'" using kinv_parts(3) [OF k] unfolding kinv_tasks_def tm by auto
  moreover have "kinv_ready X ?k'" using kinv_parts(4) [OF k] unfolding kinv_ready_def by simp
  moreover have "kinv_time D ?k'"
    using kinv_parts(5) [OF k] delayed_sorted_remove [OF k] unfolding kinv_time_def by auto
  ultimately show ?thesis
    using kinv_lists_remove [OF kinv_parts(2) [OF k]] by (simp add: kinvd_def)
qed

text \<open>The ready bit map.\<close>

lemma bit_record_ready [simp]:
  "p < configMAX_PRIORITIES \<Longrightarrow>
     bit (portRECORD_READY_PRIORITY p w) n \<longleftrightarrow> bit w n \<or> n = unat p"
  using priority_index [of p]
  by (auto simp: portRECORD_READY_PRIORITY_def bit_simps)

lemma bit_reset_ready [simp]:
  "p < configMAX_PRIORITIES \<Longrightarrow>
     bit (portRESET_READY_PRIORITY p w) n \<longleftrightarrow> bit w n \<and> n \<noteq> unat p"
  using priority_index [of p]
  by (auto simp: portRESET_READY_PRIORITY_def bit_simps dest: bit_imp_le_length)

text \<open>
  \<open>bit_exact\<close> says that the bit of one priority is not stale: it is what an operation has
  to establish before it can put a task that was ready anywhere but back into the ready list.
\<close>

definition bit_exact :: "u32 \<Rightarrow> kernel \<Rightarrow> bool" where
  "bit_exact p k \<longleftrightarrow>
     (bit (uxTopReadyPriority k) (unat p) \<longrightarrow> (\<exists>t. gcont k t = Some (Ready p)))"

lemma kinv_add_ready:
  assumes k: "kinvd D X k" and t: "t \<in> X"
  shows "kinvd D (X - {t}) (prvAddTaskToReadyList t k)" (is "kinvd _ _ ?k'")
proof -
  let ?p = "prio k t"
  have live: "t \<in> live k" and out: "gcont k t = None" and p: "?p < configMAX_PRIORITIES"
    using kinv_liveD(3,4) [OF k t] kinv_tcbD(1) [OF k] by auto
  have pi: "unat ?p < 8" by (rule priority_index [OF p])
  have k': "?k' = k\<lparr>uxTopReadyPriority := portRECORD_READY_PRIORITY ?p (uxTopReadyPriority k),
      lists := vListInsertEnd (Ready ?p) (Generic t) (lists k)\<rparr>"
    by (simp add: prvAddTaskToReadyList_def taskRECORD_READY_PRIORITY_def)
  have "Ready ?p \<in> KL k" using p by simp
  note st = vListInsertEnd_store [OF kinv_wf [OF k] this out]
  have "kinv_lists ?k'" using st(1) kinv_parts(2) [OF k] by (simp add: kinv_lists_def k')
  moreover have "kinv_tasks (X - {t}) ?k'"
  proof -
    have tm: "terminated ?k' = terminated k" using out by (auto simp: terminated_def k')
    show ?thesis
      using kinv_parts(3) [OF k] live t unfolding kinv_tasks_def tm unfolding k'
      by (auto split: if_splits)
  qed
  moreover have "kinv_ready (X - {t}) ?k'"
  proof -
    have old: "(\<exists>u. gcont k u = Some (Ready q)) \<or> (\<exists>u \<in> X. prio k u = q)"
      if "q < configMAX_PRIORITIES" "bit (uxTopReadyPriority k) (unat q)" for q
      using kinv_parts(4) [OF k] that by (auto simp: kinv_ready_def)
    have "(\<exists>u. gcont ?k' u = Some (Ready q)) \<or> (\<exists>u \<in> X - {t}. prio ?k' u = q)"
      if "q < configMAX_PRIORITIES" "bit (uxTopReadyPriority ?k') (unat q)" for q
    proof (cases "q = ?p")
      case True
      then show ?thesis by (auto simp: k')
    next
      case False
      with that p have "bit (uxTopReadyPriority k) (unat q)"
        by (simp add: k' flip: word_unat_eq_iff)
      from old [OF that(1) this] show ?thesis
      proof
        assume "\<exists>u. gcont k u = Some (Ready q)"
        then obtain u where "gcont k u = Some (Ready q)" ..
        with out have "gcont ?k' u = Some (Ready q)" by (auto simp: k')
        then show ?thesis by blast
      qed (use False in \<open>auto simp: k'\<close>)
    qed
    with kinv_parts(4) [OF k] p pi show ?thesis unfolding kinv_ready_def by (auto simp: k')
  qed
  moreover have "kinv_time D ?k'"
  proof -
    have "delayed_sorted l ?k'" if "l \<in> {Delayed1, Delayed2}" "delayed_sorted l k" for l
      using that st(2) [of l] by (auto simp: delayed_sorted_def k')
    then show ?thesis using kinv_parts(5) [OF k] unfolding kinv_time_def by (auto simp: k')
  qed
  ultimately show ?thesis by (simp add: kinvd_def)
qed

text \<open>The two idioms that also clear the ready bit.\<close>

lemma kinv_reset_bit:
  assumes k: "kinvd D X k" and p: "p < configMAX_PRIORITIES" and e: "\<forall>t. gcont k t \<noteq> Some (Ready p)"
  shows "kinvd D X (reset_ready_priority p k)" and "bit_exact p (reset_ready_priority p k)"
proof -
  have "kinv_ready X (reset_ready_priority p k)"
    using kinv_parts(4) [OF k] p e unfolding kinv_ready_def reset_ready_priority_def
    by (auto simp flip: word_unat_eq_iff)
  with k show "kinvd D X (reset_ready_priority p k)"
    by (simp add: kinvd_def kinv_lists_def kinv_tasks_def kinv_time_def terminated_def
        delayed_sorted_def reset_ready_priority_def)
  show "bit_exact p (reset_ready_priority p k)"
    using p by (simp add: bit_exact_def reset_ready_priority_def)
qed

lemma kinv_remove_ready_item:
  assumes k: "kinvd D X k" and c: "gcont k t = Some (Ready p)"
  shows "kinvd D (insert t X) (remove_ready_item t p k)" and "bit_exact p (remove_ready_item t p k)"
proof -
  let ?k1 = "k\<lparr>lists := fst (uxListRemove (Generic t) (lists k))\<rparr>"
  have p: "p < configMAX_PRIORITIES"
    using kinv_contD(2) [OF k c] kinv_tcbD(1) [OF k kinv_liveD(1) [OF k c]] by simp
  have k1: "kinvd D (insert t X) ?k1" using kinv_remove_generic [OF k c] by simp
  have z: "snd (uxListRemove (Generic t) (lists k)) = 0 \<longleftrightarrow>
      (\<forall>j. j \<noteq> Generic t \<longrightarrow> pvContainer (lists k) j \<noteq> Some (Ready p))"
    using removed_zero_iff [OF k _ c] p by simp
  have eq: "remove_ready_item t p k = (if snd (uxListRemove (Generic t) (lists k)) = 0
      then reset_ready_priority p ?k1 else ?k1)"
    by (simp add: remove_ready_item_def Let_def split_beta)
  show "kinvd D (insert t X) (remove_ready_item t p k)"
    using kinv_reset_bit(1) [OF k1 p] k1 z by (auto simp: eq)
  show "bit_exact p (remove_ready_item t p k)"
  proof (cases "snd (uxListRemove (Generic t) (lists k)) = 0")
    case True
    then show ?thesis using kinv_reset_bit(2) [OF k1 p] z by (auto simp: eq)
  next
    case False
    then obtain j where j: "j \<noteq> Generic t" "pvContainer (lists k) j = Some (Ready p)"
      using z by auto
    then obtain u where "j = Generic u" using state_item_generic [OF k, of "Ready p" p j] by auto
    with j False show ?thesis by (auto simp: eq bit_exact_def)
  qed
qed

lemma kinv_remove_state_item:
  assumes k: "kinvd D X k" and c: "gcont k t = Some l" and nt: "l \<noteq> Termination" and X: "X = {}"
  shows "kinvd D {t} (remove_state_item t k)" and "bit_exact (prio k t) (remove_state_item t k)"
proof -
  let ?k1 = "k\<lparr>lists := fst (uxListRemove (Generic t) (lists k))\<rparr>" and ?p = "prio k t"
  have p: "?p < configMAX_PRIORITIES" using kinv_tcbD(1) [OF k kinv_liveD(1) [OF k c]] .
  have k1: "kinvd D {t} ?k1" using kinv_remove_generic [OF k c nt] X by simp
  have emp: "uxNumberOfItems (lists ?k1) (Ready ?p) = 0 \<longleftrightarrow>
      (\<forall>i. pvContainer (lists ?k1) i \<noteq> Some (Ready ?p))"
    using empty_iff [OF k1, of "Ready ?p"] p by simp
  have eq: "remove_state_item t k = (if snd (uxListRemove (Generic t) (lists k)) = 0 \<and>
      uxNumberOfItems (lists ?k1) (Ready ?p) = 0 then reset_ready_priority ?p ?k1 else ?k1)"
    by (simp add: remove_state_item_def Let_def split_beta taskRESET_READY_PRIORITY_def list_macros)
  show "kinvd D {t} (remove_state_item t k)"
    using kinv_reset_bit(1) [OF k1 p] k1 emp by (auto simp: eq)
  show "bit_exact ?p (remove_state_item t k)"
  proof (cases "snd (uxListRemove (Generic t) (lists k)) = 0 \<and>
      uxNumberOfItems (lists ?k1) (Ready ?p) = 0")
    case True
    with emp have "\<forall>u. gcont ?k1 u \<noteq> Some (Ready ?p)" by blast
    with True show ?thesis using kinv_reset_bit(2) [OF k1 p] by (simp add: eq)
  next
    case False
    have "\<exists>u. gcont ?k1 u = Some (Ready ?p)" if "bit (uxTopReadyPriority ?k1) (unat ?p)"
    proof (rule ccontr)
      assume none: "\<nexists>u. gcont ?k1 u = Some (Ready ?p)"
      have "pvContainer (lists ?k1) i \<noteq> Some (Ready ?p)" for i
        using state_item_generic [OF k1, of "Ready ?p" ?p i] none
        by (metis state_lists_mem(1))
      then have z1: "uxNumberOfItems (lists ?k1) (Ready ?p) = 0" using emp by blast
      with False have nz: "snd (uxListRemove (Generic t) (lists k)) \<noteq> 0" by blast
      have "gcont k t = Some (Ready ?p)"
        using kinv_parts(4) [OF k] that p none X by (auto simp: kinv_ready_def split: if_splits)
      with removed_zero_iff [OF k, of "Ready ?p" "Generic t"] nz p obtain j
        where "j \<noteq> Generic t" "pvContainer (lists k) j = Some (Ready ?p)" by auto
      with \<open>\<And>i. pvContainer (lists ?k1) i \<noteq> Some (Ready ?p)\<close> [of j] show False by simp
    qed
    then show ?thesis using False by (auto simp: eq bit_exact_def)
  qed
qed

end
