(* ===== verification/KernelPrim.thy ===== *)
theory KernelPrim
  imports KernelInv
begin

unbundle bit_operations_syntax

text \<open>
  How the remaining building blocks of the kernel operations keep the invariant of
  \<open>KernelInv\<close>: putting a task that is in no state list into the suspended, delayed or
  termination list, putting an event item into an event list, changing event values,
  priorities and other fields of a TCB, recomputing the next unblock time, and the context
  switch with the yields and critical sections around it.
\<close>

section \<open>Putting a task into a state list\<close>

lemma kinv_ready_put:
  assumes k: "kinvd D X k" and t: "t \<in> X" and b: "bit_exact (prio k t) k"
    and c: "\<And>u. pvContainer s' (Generic u) = (if u = t then Some l else gcont k u)"
    and l: "\<And>p. l \<noteq> Ready p"
  shows "kinv_ready (X - {t}) (k\<lparr>lists := s'\<rparr>)" (is "kinv_ready _ ?k'")
proof -
  have out: "gcont k t = None" using kinv_liveD(4) [OF k t] .
  have "(\<exists>u. gcont ?k' u = Some (Ready q)) \<or> (\<exists>u \<in> X - {t}. prio ?k' u = q)"
    if q: "q < configMAX_PRIORITIES" "bit (uxTopReadyPriority k) (unat q)" for q
  proof (cases "\<exists>u. gcont k u = Some (Ready q)")
    case True
    then obtain u where "gcont k u = Some (Ready q)" ..
    with out have "gcont ?k' u = Some (Ready q)" by (auto simp: c)
    then show ?thesis by blast
  next
    case False
    then obtain u where u: "u \<in> X" "prio k u = q"
      using kinv_parts(4) [OF k] q by (auto simp: kinv_ready_def)
    with b q False have "u \<noteq> t" by (auto simp: bit_exact_def)
    with u show ?thesis by auto
  qed
  with kinv_parts(4) [OF k] l show ?thesis unfolding kinv_ready_def by (auto simp: c)
qed

lemma kinv_deleted_frame [simp]:
  "kinv_ready X (k\<lparr>uxTasksDeleted := n\<rparr>) = kinv_ready X k"
  "kinv_time D (k\<lparr>uxTasksDeleted := n\<rparr>) = kinv_time D k"
  by (simp_all add: kinv_ready_def kinv_time_def delayed_sorted_def)

lemma kinv_put:
  assumes k: "kinvd D X k" and t: "t \<in> X" and b: "bit_exact (prio k t) k"
    and wf: "wf_lists (KL k) s'"
    and c: "pvContainer s' = (pvContainer (lists k))(Generic t := Some l)"
    and ow: "pvOwner s' = pvOwner (lists k)" and l: "l \<in> {Delayed1, Delayed2, Suspended}"
    and tm: "kinv_time D (k\<lparr>lists := s'\<rparr>)"
  shows "kinvd D (X - {t}) (k\<lparr>lists := s'\<rparr>)" (is "kinvd _ _ ?k'")
proof -
  have live: "t \<in> live k" and out: "gcont k t = None"
    using kinv_liveD(3,4) [OF k t] by auto
  have "kinv_lists ?k'" using wf kinv_parts(2) [OF k] by (simp add: kinv_lists_def)
  moreover have "kinv_tasks (X - {t}) ?k'"
  proof -
    have tm: "terminated ?k' = terminated k" using out l by (auto simp: terminated_def c)
    show ?thesis
      using kinv_parts(3) [OF k] live t l unfolding kinv_tasks_def tm
      by (auto simp: c ow split: if_splits)
  qed
  moreover have "kinv_ready (X - {t}) ?k'"
    by (rule kinv_ready_put [OF k t b]) (use c l in auto)
  ultimately show ?thesis using tm by (simp add: kinvd_def)
qed

lemma kinv_time_same_lists:
  assumes "kinv_time D k" and "\<And>u l. l \<in> {Delayed1, Delayed2} \<Longrightarrow>
      pvContainer s' (Generic u) = Some l \<Longrightarrow> gcont k u = Some l \<and> xItemValue s' (Item (Generic u)) = gval k u"
    and "\<And>l. l \<in> {Delayed1, Delayed2} \<Longrightarrow> delayed_sorted l (k\<lparr>lists := s'\<rparr>)"
  shows "kinv_time D (k\<lparr>lists := s'\<rparr>)"
  using assms(1) assms(2) [of Delayed1] assms(2) [of Delayed2] assms(3)
  unfolding kinv_time_def by auto

text \<open>The time part of the invariant, as separate goals.\<close>

definition delayed_pair :: "kernel \<Rightarrow> bool" where
  "delayed_pair k \<longleftrightarrow>
     pxDelayedTaskList k = Delayed1 \<and> pxOverflowDelayedTaskList k = Delayed2 \<or>
     pxDelayedTaskList k = Delayed2 \<and> pxOverflowDelayedTaskList k = Delayed1"

lemma kinv_timeI:
  assumes "delayed_pair k" and "\<And>l. l \<in> {Delayed1, Delayed2} \<Longrightarrow> delayed_sorted l k"
    and "\<And>t. gcont k t = Some (pxDelayedTaskList k) \<Longrightarrow>
      (if D then xTickCount k \<le> gval k t else xTickCount k < gval k t)"
    and "\<And>t. gcont k t = Some (pxDelayedTaskList k) \<Longrightarrow> xNextTaskUnblockTime k \<le> gval k t"
    and "\<And>t. gcont k t = Some (pxOverflowDelayedTaskList k) \<Longrightarrow> gval k t < xTickCount k"
    and "\<not> D \<Longrightarrow> xSchedulerRunning k \<Longrightarrow>
      xTickCount k < xNextTaskUnblockTime k \<or> xNextTaskUnblockTime k = portMAX_DELAY"
  shows "kinv_time D k"
  using assms unfolding kinv_time_def delayed_pair_def by (intro conjI) auto

lemma kinv_timeD:
  assumes "kinvd D X k"
  shows "delayed_pair k"
    and "gcont k t = Some (pxDelayedTaskList k) \<Longrightarrow>
      (if D then xTickCount k \<le> gval k t else xTickCount k < gval k t)"
    and "gcont k t = Some (pxDelayedTaskList k) \<Longrightarrow> xNextTaskUnblockTime k \<le> gval k t"
    and "gcont k t = Some (pxOverflowDelayedTaskList k) \<Longrightarrow> gval k t < xTickCount k"
    and "\<not> D \<Longrightarrow> xSchedulerRunning k \<Longrightarrow>
      xTickCount k < xNextTaskUnblockTime k \<or> xNextTaskUnblockTime k = portMAX_DELAY"
  using kinv_parts(5) [OF assms] by (auto simp: kinv_time_def delayed_pair_def)

lemma delayed_pairD:
  assumes "delayed_pair k"
  shows "pxDelayedTaskList k \<in> {Delayed1, Delayed2}" and "pxOverflowDelayedTaskList k \<in> {Delayed1, Delayed2}"
    and "pxDelayedTaskList k \<noteq> pxOverflowDelayedTaskList k"
  using assms by (auto simp: delayed_pair_def)

lemma delayed_pair_frame [simp]:
  "delayed_pair (k\<lparr>lists := s\<rparr>) = delayed_pair k"
  "delayed_pair (k\<lparr>xNextTaskUnblockTime := n\<rparr>) = delayed_pair k"
  "delayed_pair (k\<lparr>xTickCount := n\<rparr>) = delayed_pair k"
  by (auto simp: delayed_pair_def)

lemma kinv_delayed_sorted:
  "kinvd D X k \<Longrightarrow> l \<in> {Delayed1, Delayed2} \<Longrightarrow> delayed_sorted l k"
  by (auto simp: kinvd_def kinv_time_def)

lemma kinv_put_suspended:
  assumes k: "kinvd D X k" and t: "t \<in> X" and b: "bit_exact (prio k t) k"
  shows "kinvd D (X - {t}) (k\<lparr>lists := vListInsertEnd Suspended (Generic t) (lists k)\<rparr>)"
proof -
  have out: "gcont k t = None" using kinv_liveD(4) [OF k t] .
  have l: "Suspended \<in> KL k" by simp
  note st = vListInsertEnd_store [OF kinv_wf [OF k] l out]
  have tm: "kinv_time D (k\<lparr>lists := vListInsertEnd Suspended (Generic t) (lists k)\<rparr>)"
    by (rule kinv_time_same_lists [OF kinv_parts(5) [OF k]])
       (use kinv_delayed_sorted [OF k] st(2) in \<open>auto simp: delayed_sorted_def split: if_splits\<close>)
  show ?thesis by (rule kinv_put [OF k t b st(1) _ _ _ tm]) auto
qed

lemma kinv_put_delayed:
  assumes k: "kinvd D X k" and t: "cur k \<in> X" and b: "bit_exact (prio k (cur k)) k"
    and w: "w \<noteq> xTickCount k"
  shows "kinvd D (X - {cur k}) (prvAddCurrentTaskToDelayedList w k)"
proof -
  let ?t = "cur k" and ?s1 = "listSET_LIST_ITEM_VALUE (Generic (cur k)) w (lists k)"
  let ?n = "if \<not> w < xTickCount k \<and> w < xNextTaskUnblockTime k then w else xNextTaskUnblockTime k"
  define dl where "dl = (if w < xTickCount k then pxOverflowDelayedTaskList k else pxDelayedTaskList k)"
  define s' where "s' = vListInsert dl (Generic ?t) ?s1"
  let ?k1 = "k\<lparr>xNextTaskUnblockTime := ?n\<rparr>"
  have eq: "prvAddCurrentTaskToDelayedList w k = ?k1\<lparr>lists := s'\<rparr>"
    by (simp add: prvAddCurrentTaskToDelayedList_def Let_def dl_def s'_def)
  have out: "gcont k ?t = None" using kinv_liveD(4) [OF k t] .
  have tk: "kinv_time D k" by (rule kinv_parts(5) [OF k])
  have l: "dl \<in> {Delayed1, Delayed2}" using tk by (auto simp: kinv_time_def dl_def)
  then have lK: "dl \<in> KL k" by auto
  have wf1: "wf_lists (KL k) ?s1" by (rule set_value_store [OF kinv_wf [OF k]])
  note st = vListInsert_store [OF wf1 lK, of "Generic ?t", folded s'_def]
  have c: "pvContainer s' = (pvContainer (lists k))(Generic ?t := Some dl)"
    and v: "xItemValue s' = (xItemValue (lists k))(Item (Generic ?t) := w)"
    and ow: "pvOwner s' = pvOwner (lists k)"
    using st(3-5) out by auto
  have k1: "kinvd D X ?k1"
  proof -
    have "kinv_time D ?k1"
    proof (rule kinv_timeI)
      show "delayed_pair ?k1" using kinv_timeD(1) [OF k] by simp
      show "delayed_sorted l ?k1" if "l \<in> {Delayed1, Delayed2}" for l
        using kinv_delayed_sorted [OF k that] by (simp add: delayed_sorted_def)
      show "xNextTaskUnblockTime ?k1 \<le> gval ?k1 t"
        if "gcont ?k1 t = Some (pxDelayedTaskList ?k1)" for t
        using kinv_timeD(3) [OF k, of t] that by (auto intro: order.trans less_imp_le)
    qed (use kinv_timeD [OF k] w in \<open>auto simp: not_less\<close>)
    with k show ?thesis by (simp add: kinvd_def kinv_lists_def kinv_tasks_def kinv_ready_def terminated_def)
  qed
  have srt: "delayed_sorted l' (?k1\<lparr>lists := s'\<rparr>)" if l': "l' \<in> {Delayed1, Delayed2}" for l'
  proof -
    have K: "l' \<in> KL k" using l' by auto
    have ni: "Generic ?t \<notin> set (items (lists k) l')"
      using set_items [OF kinv_wf [OF k] K] out by auto
    then have "map (\<lambda>i. xItemValue ?s1 (Item i)) (items ?s1 l') =
        map (\<lambda>i. xItemValue (lists k) (Item i)) (items (lists k) l')"
      using set_value_store(2) [OF kinv_wf [OF k] K] by auto
    then have s1: "sorted (map (\<lambda>i. xItemValue ?s1 (Item i)) (items ?s1 l'))"
      using kinv_delayed_sorted [OF k l'] by (simp add: delayed_sorted_def)
    show ?thesis
      using s1 st(2) [of l'] st(4) out K
      by (auto simp: delayed_sorted_def intro!: sorted_insert_by)
  qed
  note pr = delayed_pairD [OF kinv_timeD(1) [OF k]]
  have tm: "kinv_time D (?k1\<lparr>lists := s'\<rparr>)" (is "kinv_time D ?k2")
  proof (rule kinv_timeI)
    show "delayed_pair ?k2" using kinv_timeD(1) [OF k] by simp
    show "delayed_sorted l ?k2" if "l \<in> {Delayed1, Delayed2}" for l by (rule srt [OF that])
    fix u assume u: "gcont ?k2 u = Some (pxDelayedTaskList ?k2)"
    show "if D then xTickCount ?k2 \<le> gval ?k2 u else xTickCount ?k2 < gval ?k2 u"
      using u w pr(3) kinv_timeD(2) [OF k1, of u]
      by (cases "u = ?t") (auto simp: c v dl_def split: if_splits)
    show "xNextTaskUnblockTime ?k2 \<le> gval ?k2 u"
      using u w pr(3) kinv_timeD(3) [OF k1, of u]
      by (cases "u = ?t") (auto simp: c v dl_def split: if_splits)
  next
    fix u assume u: "gcont ?k2 u = Some (pxOverflowDelayedTaskList ?k2)"
    show "gval ?k2 u < xTickCount ?k2"
      using u w pr(3) kinv_timeD(4) [OF k1, of u]
      by (cases "u = ?t") (auto simp: c v dl_def split: if_splits)
  next
    assume "\<not> D" and "xSchedulerRunning ?k2"
    then show "xTickCount ?k2 < xNextTaskUnblockTime ?k2 \<or> xNextTaskUnblockTime ?k2 = portMAX_DELAY"
      using kinv_timeD(5) [OF k1] by simp
  qed
  show ?thesis unfolding eq
    by (rule kinv_put [OF k1 t _ _ _ _ _ tm]) (use b st(1) out c ow l in \<open>auto simp: bit_exact_def\<close>)
qed

text \<open>
  A deleted task waits in the termination list; the count of deleted tasks is that list's
  length.
\<close>

lemma kinv_put_termination:
  assumes k: "kinvd D X k" and t: "t \<in> X" and b: "bit_exact (prio k t) k"
    and ev: "econt k t = None"
  shows "kinvd D (X - {t}) (k\<lparr>lists := vListInsertEnd Termination (Generic t) (lists k),
    uxTasksDeleted := uxTasksDeleted k + 1\<rparr>)" (is "kinvd _ _ ?k'")
proof -
  have live: "t \<in> live k" and out: "gcont k t = None"
    using kinv_liveD(3,4) [OF k t] by auto
  have l: "Termination \<in> KL k" by simp
  note st = vListInsertEnd_store [OF kinv_wf [OF k] l out]
  have fin: "finite (terminated k)"
    using kinv_liveD(1) [OF k] kinv_parts(3) [OF k]
    by (auto simp: terminated_def kinv_tasks_def intro: finite_subset [of _ "live k"])
  have tmd: "terminated ?k' = insert t (terminated k)" and nt: "t \<notin> terminated k"
    using out by (auto simp: terminated_def)
  have "kinv_lists ?k'" using st(1) kinv_parts(2) [OF k] by (simp add: kinv_lists_def)
  moreover have "kinv_tasks (X - {t}) ?k'"
    using kinv_parts(3) [OF k] live t fin nt ev unfolding kinv_tasks_def tmd
    by (auto split: if_splits)
  moreover have "kinv_ready (X - {t}) ?k'"
    using kinv_ready_put [OF k t b, of "vListInsertEnd Termination (Generic t) (lists k)"] by simp
  moreover have "kinv_time D (k\<lparr>lists := vListInsertEnd Termination (Generic t) (lists k)\<rparr>)"
    by (rule kinv_time_same_lists [OF kinv_parts(5) [OF k]])
       (use kinv_delayed_sorted [OF k] st(2) in \<open>auto simp: delayed_sorted_def split: if_splits\<close>)
  ultimately show ?thesis by (simp add: kinvd_def)
qed

section \<open>Event items\<close>

lemma kinv_event_store:
  assumes k: "kinvd D X k" and wf: "wf_lists (KL k) s'"
    and c: "\<And>u. pvContainer s' (Generic u) = gcont k u"
    and tc: "\<And>m. pvContainer s' (TimerItem m) = pvContainer (lists k) (TimerItem m)"
    and ec: "\<And>u l. pvContainer s' (Event u) = Some l \<Longrightarrow>
      u \<in> live k \<and> l \<in> insert PendingReady (evlists k - timer_lists) \<and> gcont k u \<noteq> Some Termination"
    and v: "\<And>u. xItemValue s' (Item (Generic u)) = gval k u"
    and ow: "pvOwner s' = pvOwner (lists k)"
    and it: "\<And>l. l \<in> {Delayed1, Delayed2} \<Longrightarrow> items s' l = items (lists k) l"
  shows "kinvd D X (k\<lparr>lists := s'\<rparr>)" (is "kinvd _ _ ?k'")
proof -
  have tm: "terminated ?k' = terminated k" by (simp add: terminated_def c)
  have "kinv_lists ?k'" using wf kinv_parts(2) [OF k] by (simp add: kinv_lists_def)
  moreover have "kinv_tasks X ?k'"
    using kinv_parts(3) [OF k] ec unfolding kinv_tasks_def tm by (simp add: c ow tc)
  moreover have "kinv_ready X ?k'" using kinv_parts(4) [OF k] unfolding kinv_ready_def by (simp add: c)
  moreover have "kinv_time D ?k'"
  proof (rule kinv_time_same_lists [OF kinv_parts(5) [OF k]])
    fix l assume l: "l \<in> {Delayed1, Delayed2}"
    have lK: "l \<in> KL k" using l by auto
    have "\<exists>u. i = Generic u" if "i \<in> set (items (lists k) l)" for i
      using that set_items [OF kinv_wf [OF k] lK] state_item_generic [OF k, of l 0 i] l by auto
    then have "map (\<lambda>i. xItemValue s' (Item i)) (items s' l) =
        map (\<lambda>i. xItemValue (lists k) (Item i)) (items (lists k) l)"
      using it [OF l] v by force
    then show "delayed_sorted l ?k'" using kinv_delayed_sorted [OF k l] by (simp add: delayed_sorted_def)
  qed (simp add: c v)
  ultimately show ?thesis by (simp add: kinvd_def)
qed

lemma kinv_put_event:
  assumes k: "kinvd D X k" and t: "t \<in> live k" and l: "l \<in> insert PendingReady (evlists k - timer_lists)"
    and out: "econt k t = None" and nt: "gcont k t \<noteq> Some Termination"
  shows "kinvd D X (k\<lparr>lists := vListInsert l (Event t) (lists k)\<rparr>)"
    and "kinvd D X (k\<lparr>lists := vListInsertEnd l (Event t) (lists k)\<rparr>)"
proof -
  have lK: "l \<in> KL k" using l by auto
  have nd: "l \<noteq> Delayed1" "l \<noteq> Delayed2" using l evlists_not_task [OF k] by auto
  note st = vListInsert_store [OF kinv_wf [OF k] lK out]
  show "kinvd D X (k\<lparr>lists := vListInsert l (Event t) (lists k)\<rparr>)"
    by (rule kinv_event_store [OF k st(1)])
       (use t l nt st(2-5) nd kinv_contD(3,5,6) [OF k] kinv_liveD(2) [OF k] in \<open>auto split: if_splits\<close>)
  note st = vListInsertEnd_store [OF kinv_wf [OF k] lK out]
  show "kinvd D X (k\<lparr>lists := vListInsertEnd l (Event t) (lists k)\<rparr>)"
    by (rule kinv_event_store [OF k st(1)])
       (use t l nt st(2) nd kinv_contD(3,5,6) [OF k] kinv_liveD(2) [OF k] in \<open>auto split: if_splits\<close>)
qed

lemma kinv_set_event_value:
  assumes k: "kinvd D X k"
  shows "kinvd D X (k\<lparr>lists := listSET_LIST_ITEM_VALUE (Event t) v (lists k)\<rparr>)"
  by (rule kinv_event_store [OF k set_value_store(1) [OF kinv_wf [OF k]]])
     (use kinv_contD(3,5,6) [OF k] kinv_liveD(2) [OF k] set_value_store(2) [OF kinv_wf [OF k]] in auto)

lemma kinv_remove_event_item:
  "kinvd D X k \<Longrightarrow> kinvd D X (remove_event_item t k)"
  unfolding remove_event_item_def by (rule kinv_remove_event)

section \<open>Task control blocks\<close>

lemma kinv_update_tcb:
  assumes k: "kinvd D X k" and p: "uxPriority (f (tcb k t)) = prio k t"
    and b: "uxBasePriority (f (tcb k t)) < configMAX_PRIORITIES \<or>
      uxBasePriority (f (tcb k t)) = uxBasePriority (tcb k t)"
  shows "kinvd D X (update_tcb t f k)" (is "kinvd _ _ ?k'")
proof -
  have pr: "prio ?k' u = prio k u" for u using p by (simp add: update_tcb_def)
  have ba: "uxBasePriority (tcb ?k' u) < configMAX_PRIORITIES" if "u \<in> live k" for u
    using b kinv_tcbD(2) [OF k that] by (auto simp: update_tcb_def)
  have fr: "lists ?k' = lists k" "live ?k' = live k" "evlists ?k' = evlists k"
    "uxTopReadyPriority ?k' = uxTopReadyPriority k" "uxTasksDeleted ?k' = uxTasksDeleted k"
    "uxCurrentNumberOfTasks ?k' = uxCurrentNumberOfTasks k" "terminated ?k' = terminated k"
    by (simp_all add: update_tcb_def terminated_def)
  have "kinv_tasks X ?k'" using kinv_parts(3) [OF k] ba unfolding kinv_tasks_def pr fr by blast
  moreover have "kinv_ready X ?k'" using kinv_parts(4) [OF k] unfolding kinv_ready_def pr fr .
  ultimately show ?thesis
    using k by (simp add: kinvd_def kinv_lists_def kinv_time_def delayed_sorted_def update_tcb_def)
qed

text \<open>
  The priority of a task may change while the task is not in a ready list, or while it is
  between two lists and the bit of its old priority is exact.
\<close>

lemma kinv_set_priority:
  assumes k: "kinvd D X k" and t: "t \<in> live k"
    and p: "uxPriority (f (tcb k t)) < configMAX_PRIORITIES"
    and b: "uxBasePriority (f (tcb k t)) < configMAX_PRIORITIES"
    and nr: "\<And>q. gcont k t \<noteq> Some (Ready q)" and e: "t \<in> X \<Longrightarrow> bit_exact (prio k t) k"
  shows "kinvd D X (update_tcb t f k)" (is "kinvd _ _ ?k'")
proof -
  have fr: "lists ?k' = lists k" "live ?k' = live k" "evlists ?k' = evlists k"
    "uxTopReadyPriority ?k' = uxTopReadyPriority k" "uxTasksDeleted ?k' = uxTasksDeleted k"
    "uxCurrentNumberOfTasks ?k' = uxCurrentNumberOfTasks k" "terminated ?k' = terminated k"
    by (simp_all add: update_tcb_def terminated_def)
  have pr: "prio ?k' u = prio k u" if "u \<noteq> t" for u using that by (simp add: update_tcb_def)
  have bd: "prio ?k' u < configMAX_PRIORITIES" "uxBasePriority (tcb ?k' u) < configMAX_PRIORITIES"
    if "u \<in> live k" for u
    using p b kinv_tcbD(1,2) [OF k that] by (auto simp: update_tcb_def)
  have st: "l \<in> state_lists (prio ?k' u)" if "gcont k u = Some l" for u l
    using kinv_contD(1) [OF k that] nr pr [of u] that by (cases "u = t") (auto simp: state_lists_def)
  have "kinv_tasks X ?k'" using kinv_parts(3) [OF k] bd st unfolding kinv_tasks_def fr by blast
  moreover have "kinv_ready X ?k'"
  proof -
    have "(\<exists>u. gcont k u = Some (Ready q)) \<or> (\<exists>u \<in> X. prio ?k' u = q)"
      if q: "q < configMAX_PRIORITIES" "bit (uxTopReadyPriority k) (unat q)" for q
    proof (cases "\<exists>u. gcont k u = Some (Ready q)")
      case False
      then obtain u where u: "u \<in> X" "prio k u = q"
        using kinv_parts(4) [OF k] q by (auto simp: kinv_ready_def)
      with e q False have "u \<noteq> t" by (auto simp: bit_exact_def)
      with u pr show ?thesis by auto
    qed simp
    then show ?thesis using kinv_parts(4) [OF k] unfolding kinv_ready_def fr by blast
  qed
  ultimately show ?thesis
    using k by (simp add: kinvd_def kinv_lists_def kinv_time_def delayed_sorted_def update_tcb_def)
qed

section \<open>The next unblock time\<close>

lemma delayed_list_mem:
  assumes "kinvd D X k"
  shows "pxDelayedTaskList k \<in> task_lists" and "pxOverflowDelayedTaskList k \<in> task_lists"
    and "pxDelayedTaskList k \<in> KL k" and "pxOverflowDelayedTaskList k \<in> KL k"
    and "pxDelayedTaskList k \<in> state_lists p" and "pxOverflowDelayedTaskList k \<in> state_lists p"
  using delayed_pairD(1,2) [OF kinv_timeD(1) [OF assms]] by auto

text \<open>The head of the delayed list is the task that wakes first.\<close>

lemma delayed_head:
  assumes k: "kinvd D X k" and ne: "uxNumberOfItems (lists k) (pxDelayedTaskList k) \<noteq> 0"
  obtains t where "listGET_OWNER_OF_HEAD_ENTRY (pxDelayedTaskList k) (lists k) = Some t"
    and "gcont k t = Some (pxDelayedTaskList k)" and "t \<in> live k"
    and "\<And>u. gcont k u = Some (pxDelayedTaskList k) \<Longrightarrow> gval k t \<le> gval k u"
proof -
  let ?l = "pxDelayedTaskList k"
  note L = delayed_list_mem [OF k]
  note si = set_items [OF kinv_wf [OF k] L(3)]
  have "items (lists k) ?l \<noteq> []"
    using ne empty_iff [OF k L(1)] si by auto
  then obtain i js where i: "items (lists k) ?l = i # js" by (cases "items (lists k) ?l") auto
  then have ic: "pvContainer (lists k) i = Some ?l" using si by auto
  then obtain t where t: "i = Generic t" using state_item_generic [OF k L(5)] by blast
  have tl: "t \<in> live k" using ic t kinv_liveD(1) [OF k] by simp
  have so: "sorted (map (\<lambda>i. xItemValue (lists k) (Item i)) (Generic t # js))"
    using kinv_delayed_sorted [OF k, of ?l] delayed_pairD(1) [OF kinv_timeD(1) [OF k]]
    by (simp only: delayed_sorted_def i t)
  show thesis
  proof (rule that)
    show "listGET_OWNER_OF_HEAD_ENTRY ?l (lists k) = Some t"
      using head_owner(1) [OF kinv_wf [OF k] L(3)] kinv_tcbD(3) [OF k tl] by (simp add: i t)
    show "gcont k t = Some ?l" using ic t by simp
    show "t \<in> live k" by (rule tl)
    show "gval k t \<le> gval k u" if "gcont k u = Some ?l" for u
    proof -
      have "Generic u \<in> set (Generic t # js)" using that si i t by auto
      then show ?thesis using so by auto
    qed
  qed
qed

lemma kinv_set_next:
  assumes k: "kinvd D X k" and n: "\<And>t. gcont k t = Some (pxDelayedTaskList k) \<Longrightarrow> n \<le> gval k t"
    and s: "\<not> D' \<Longrightarrow> xSchedulerRunning k \<Longrightarrow> xTickCount k < n \<or> n = portMAX_DELAY"
    and d: "\<And>t. gcont k t = Some (pxDelayedTaskList k) \<Longrightarrow> \<not> D' \<Longrightarrow> xTickCount k < gval k t"
  shows "kinvd D' X (k\<lparr>xNextTaskUnblockTime := n\<rparr>)" (is "kinvd _ _ ?k'")
proof -
  have "kinv_time D' ?k'"
  proof (rule kinv_timeI)
    show "delayed_pair ?k'" using kinv_timeD(1) [OF k] by simp
    show "delayed_sorted l ?k'" if "l \<in> {Delayed1, Delayed2}" for l
      using kinv_delayed_sorted [OF k that] by (simp add: delayed_sorted_def)
    show "if D' then xTickCount ?k' \<le> gval ?k' t else xTickCount ?k' < gval ?k' t"
      if "gcont ?k' t = Some (pxDelayedTaskList ?k')" for t
      using d [of t] kinv_timeD(2) [OF k, of t] that by (auto split: if_splits)
  qed (use n s kinv_timeD(4) [OF k] in auto)
  with k show ?thesis
    by (simp add: kinvd_def kinv_lists_def kinv_tasks_def kinv_ready_def terminated_def)
qed

lemma kinv_reset_next:
  assumes k: "kinvd D X k"
  shows "kinvd D X (prvResetNextTaskUnblockTime k)"
proof (cases "uxNumberOfItems (lists k) (pxDelayedTaskList k) = 0")
  case True
  then have "gcont k t \<noteq> Some (pxDelayedTaskList k)" for t
    using empty_iff [OF k delayed_list_mem(1) [OF k]] by auto
  then show ?thesis
    using kinv_set_next [OF k, of portMAX_DELAY D] True
    by (auto simp: prvResetNextTaskUnblockTime_def list_macros)
next
  case False
  obtain t where t: "listGET_OWNER_OF_HEAD_ENTRY (pxDelayedTaskList k) (lists k) = Some t"
      "gcont k t = Some (pxDelayedTaskList k)"
      "\<And>u. gcont k u = Some (pxDelayedTaskList k) \<Longrightarrow> gval k t \<le> gval k u"
    using delayed_head [OF k False] by blast
  have "kinvd D X (k\<lparr>xNextTaskUnblockTime := gval k t\<rparr>)"
    by (rule kinv_set_next [OF k t(3)]) (use kinv_timeD(2) [OF k] t(2) in auto)
  with t(1) False show ?thesis
    by (simp add: prvResetNextTaskUnblockTime_def listLIST_IS_EMPTY_def listGET_LIST_ITEM_VALUE_def)
qed

section \<open>Selection of the task to run\<close>

lemma bsr_from_Some:
  "bsr_from n w = Some m \<Longrightarrow> m \<le> n \<and> bit w m \<and> (\<forall>j. m < j \<and> j \<le> n \<longrightarrow> \<not> bit w j)"
proof (induction n)
  case 0
  then show ?case by (simp split: if_splits)
next
  case (Suc n)
  then show ?case by (auto simp: le_Suc_eq split: if_splits)
qed

lemma bsr_from_None: "bsr_from n w = None \<longleftrightarrow> (\<forall>j \<le> n. \<not> bit w j)"
  by (induction n) (auto simp: le_Suc_eq)

lemma highest_priority_Some:
  assumes "portGET_HIGHEST_PRIORITY w = Some p"
  shows "bit w (unat p)" and "bit w j \<Longrightarrow> j \<le> unat p"
proof -
  obtain m where m: "bsr_from 31 w = Some m" "p = of_nat m"
    using assms by (auto simp: portGET_HIGHEST_PRIORITY_def)
  note b = bsr_from_Some [OF m(1)]
  then have u: "unat p = m" using m(2) by (simp add: unat_of_nat take_bit_eq_mod)
  show "bit w (unat p)" using b u by simp
  show "j \<le> unat p" if "bit w j"
    using b u that bit_imp_le_length [OF that] by (cases "j \<le> m") auto
qed

lemma highest_priority_None:
  "portGET_HIGHEST_PRIORITY w = None \<Longrightarrow> \<not> bit w j"
  using bsr_from_None [of 31 w] bit_imp_le_length [of w j]
  by (auto simp: portGET_HIGHEST_PRIORITY_def)

text \<open>The list the bit map points to has a task in it.\<close>

lemma highest_ready_nonempty:
  assumes k: "kinvd D {} k" and p: "portGET_HIGHEST_PRIORITY (uxTopReadyPriority k) = Some p"
  shows "p < configMAX_PRIORITIES" and "Ready p \<in> KL k" and "items (lists k) (Ready p) \<noteq> []"
proof -
  have "unat p < 8"
    using highest_priority_Some(1) [OF p] kinv_parts(4) [OF k] by (auto simp: kinv_ready_def)
  then show c: "p < configMAX_PRIORITIES" by (simp add: configMAX_PRIORITIES_def word_less_nat_alt)
  then show K: "Ready p \<in> KL k" by simp
  obtain t where "gcont k t = Some (Ready p)"
    using highest_priority_Some(1) [OF p] kinv_parts(4) [OF k] c by (auto simp: kinv_ready_def)
  then show "items (lists k) (Ready p) \<noteq> []" using set_items [OF kinv_wf [OF k] K] by auto
qed

text \<open>Moving an index changes neither the lists nor what the invariant says of them.\<close>

lemma kinv_index:
  assumes k: "kinvd D X k" and wf: "wf_lists (KL k) s'"
    and it: "\<And>l. l \<in> KL k \<Longrightarrow> items s' l = items (lists k) l"
    and c: "pvContainer s' = pvContainer (lists k)" and v: "xItemValue s' = xItemValue (lists k)"
    and ow: "pvOwner s' = pvOwner (lists k)"
  shows "kinvd D X (k\<lparr>lists := s'\<rparr>)"
  by (rule kinv_event_store [OF k wf])
     (use it kinv_liveD(2) [OF k] kinv_contD(3,5,6) [OF k] in \<open>auto simp: c v ow\<close>)

text \<open>
  The selection picks a ready task such that no ready task has a higher priority, and keeps
  the invariant.
\<close>

lemma select_cases:
  assumes k: "kinvd D {} k"
  obtains (none) "\<And>u p. gcont k u \<noteq> Some (Ready p)" and "taskSELECT_HIGHEST_PRIORITY_TASK k = k"
  | (some) t s' where
      "taskSELECT_HIGHEST_PRIORITY_TASK k = k\<lparr>lists := s', pxCurrentTCB := Some t\<rparr>"
      "gcont k t = Some (Ready (prio k t))"
      "\<And>u p. gcont k u = Some (Ready p) \<Longrightarrow> p \<le> prio k t"
      "kinvd D {} (k\<lparr>lists := s'\<rparr>)"
      "listGET_OWNER_OF_NEXT_ENTRY (Ready (prio k t)) (lists k) = (s', Some t)"
      "pvContainer s' = pvContainer (lists k)" "xItemValue s' = xItemValue (lists k)"
      "pvOwner s' = pvOwner (lists k)"
proof (cases "portGET_HIGHEST_PRIORITY (uxTopReadyPriority k)")
  case None
  then have "gcont k u \<noteq> Some (Ready p)" for u p
    using highest_priority_None kinv_parts(4) [OF k] by (auto simp: kinv_ready_def)
  with None show thesis by (intro none) (auto simp: taskSELECT_HIGHEST_PRIORITY_TASK_def)
next
  case (Some p)
  note ne = highest_ready_nonempty [OF k Some]
  obtain q where q: "index_pos (lists k) (Ready p) q"
    using index_pos_exists [OF kinv_wf [OF k] ne(2,3)] ..
  obtain s' ow where e: "listGET_OWNER_OF_NEXT_ENTRY (Ready p) (lists k) = (s', ow)" by fastforce
  note st = next_entry_step [OF kinv_wf [OF k] ne(2) q e]
  let ?i = "items (lists k) (Ready p) ! (Suc q mod length (items (lists k) (Ready p)))"
  have "?i \<in> set (items (lists k) (Ready p))" using ne(3) by (intro nth_mem) simp
  then have ci: "pvContainer (lists k) ?i = Some (Ready p)"
    using set_items [OF kinv_wf [OF k] ne(2)] by auto
  then obtain t where t: "?i = Generic t" using state_item_generic [OF k, of "Ready p" p] by auto
  have gt: "gcont k t = Some (Ready p)" using ci t by simp
  have pp: "prio k t = p" using kinv_contD(2) [OF k gt] by simp
  have ow: "ow = Some t" using st(1) t kinv_tcbD(3) [OF k kinv_liveD(1) [OF k gt]] by simp
  show thesis
  proof (rule some [of t s'])
    show "taskSELECT_HIGHEST_PRIORITY_TASK k = k\<lparr>lists := s', pxCurrentTCB := Some t\<rparr>"
      by (simp add: taskSELECT_HIGHEST_PRIORITY_TASK_def Some e ow)
    show "gcont k t = Some (Ready (prio k t))" using gt pp by simp
    show "listGET_OWNER_OF_NEXT_ENTRY (Ready (prio k t)) (lists k) = (s', Some t)"
      using e ow pp by simp
    show "r \<le> prio k t" if "gcont k u = Some (Ready r)" for u r
      using highest_priority_Some(2) [OF Some] kinv_parts(4) [OF k] that pp
      by (auto simp: kinv_ready_def word_le_nat_alt)
    show "kinvd D {} (k\<lparr>lists := s'\<rparr>)"
      by (rule kinv_index [OF k st(2) st(3)]) (auto simp: st(5))
  qed (auto simp: st(5))
qed

lemma select_frame [simp, kernel_frame]:
  "pvContainer (lists (taskSELECT_HIGHEST_PRIORITY_TASK k)) = pvContainer (lists k)"
  "xItemValue (lists (taskSELECT_HIGHEST_PRIORITY_TASK k)) = xItemValue (lists k)"
  "pvOwner (lists (taskSELECT_HIGHEST_PRIORITY_TASK k)) = pvOwner (lists k)"
  "tcb (taskSELECT_HIGHEST_PRIORITY_TASK k) = tcb k"
  "live (taskSELECT_HIGHEST_PRIORITY_TASK k) = live k"
  "evlists (taskSELECT_HIGHEST_PRIORITY_TASK k) = evlists k"
  "pxDelayedTaskList (taskSELECT_HIGHEST_PRIORITY_TASK k) = pxDelayedTaskList k"
  "pxOverflowDelayedTaskList (taskSELECT_HIGHEST_PRIORITY_TASK k) = pxOverflowDelayedTaskList k"
  "xTickCount (taskSELECT_HIGHEST_PRIORITY_TASK k) = xTickCount k"
  "xNextTaskUnblockTime (taskSELECT_HIGHEST_PRIORITY_TASK k) = xNextTaskUnblockTime k"
  "uxTopReadyPriority (taskSELECT_HIGHEST_PRIORITY_TASK k) = uxTopReadyPriority k"
  "uxTasksDeleted (taskSELECT_HIGHEST_PRIORITY_TASK k) = uxTasksDeleted k"
  "uxCurrentNumberOfTasks (taskSELECT_HIGHEST_PRIORITY_TASK k) = uxCurrentNumberOfTasks k"
  "xSchedulerRunning (taskSELECT_HIGHEST_PRIORITY_TASK k) = xSchedulerRunning k"
  "uxSchedulerSuspended (taskSELECT_HIGHEST_PRIORITY_TASK k) = uxSchedulerSuspended k"
  "uxPendedTicks (taskSELECT_HIGHEST_PRIORITY_TASK k) = uxPendedTicks k"
  "xNumOfOverflows (taskSELECT_HIGHEST_PRIORITY_TASK k) = xNumOfOverflows k"
  "uxTaskNumber (taskSELECT_HIGHEST_PRIORITY_TASK k) = uxTaskNumber k"
  "xYieldPending (taskSELECT_HIGHEST_PRIORITY_TASK k) = xYieldPending k"
  "ulCriticalNesting (taskSELECT_HIGHEST_PRIORITY_TASK k) = ulCriticalNesting k"
  "interrupts_on (taskSELECT_HIGHEST_PRIORITY_TASK k) = interrupts_on k"
  "ulPortYieldPending (taskSELECT_HIGHEST_PRIORITY_TASK k) = ulPortYieldPending k"
  by (simp_all add: taskSELECT_HIGHEST_PRIORITY_TASK_def listGET_OWNER_OF_NEXT_ENTRY_def Let_def split: option.split)

lemma stack_check_frame [simp, kernel_frame]:
  "pvContainer (lists (taskCHECK_FOR_STACK_OVERFLOW k)) = pvContainer (lists k)"
  "xItemValue (lists (taskCHECK_FOR_STACK_OVERFLOW k)) = xItemValue (lists k)"
  "pvOwner (lists (taskCHECK_FOR_STACK_OVERFLOW k)) = pvOwner (lists k)"
  "tcb (taskCHECK_FOR_STACK_OVERFLOW k) = tcb k"
  "live (taskCHECK_FOR_STACK_OVERFLOW k) = live k"
  "evlists (taskCHECK_FOR_STACK_OVERFLOW k) = evlists k"
  "pxDelayedTaskList (taskCHECK_FOR_STACK_OVERFLOW k) = pxDelayedTaskList k"
  "pxOverflowDelayedTaskList (taskCHECK_FOR_STACK_OVERFLOW k) = pxOverflowDelayedTaskList k"
  "xTickCount (taskCHECK_FOR_STACK_OVERFLOW k) = xTickCount k"
  "xNextTaskUnblockTime (taskCHECK_FOR_STACK_OVERFLOW k) = xNextTaskUnblockTime k"
  "uxTopReadyPriority (taskCHECK_FOR_STACK_OVERFLOW k) = uxTopReadyPriority k"
  "uxTasksDeleted (taskCHECK_FOR_STACK_OVERFLOW k) = uxTasksDeleted k"
  "uxCurrentNumberOfTasks (taskCHECK_FOR_STACK_OVERFLOW k) = uxCurrentNumberOfTasks k"
  "xSchedulerRunning (taskCHECK_FOR_STACK_OVERFLOW k) = xSchedulerRunning k"
  "uxSchedulerSuspended (taskCHECK_FOR_STACK_OVERFLOW k) = uxSchedulerSuspended k"
  "uxPendedTicks (taskCHECK_FOR_STACK_OVERFLOW k) = uxPendedTicks k"
  "xNumOfOverflows (taskCHECK_FOR_STACK_OVERFLOW k) = xNumOfOverflows k"
  "uxTaskNumber (taskCHECK_FOR_STACK_OVERFLOW k) = uxTaskNumber k"
  "pxCurrentTCB (taskCHECK_FOR_STACK_OVERFLOW k) = pxCurrentTCB k"
  "lists (taskCHECK_FOR_STACK_OVERFLOW k) = lists k"
  "xYieldPending (taskCHECK_FOR_STACK_OVERFLOW k) = xYieldPending k"
  "ulCriticalNesting (taskCHECK_FOR_STACK_OVERFLOW k) = ulCriticalNesting k"
  "interrupts_on (taskCHECK_FOR_STACK_OVERFLOW k) = interrupts_on k"
  "ulPortYieldPending (taskCHECK_FOR_STACK_OVERFLOW k) = ulPortYieldPending k"
  by (simp_all add: taskCHECK_FOR_STACK_OVERFLOW_def)

lemma switch_fpu_frame [simp, kernel_frame]:
  "pvContainer (lists (switch_fpu k)) = pvContainer (lists k)"
  "xItemValue (lists (switch_fpu k)) = xItemValue (lists k)"
  "pvOwner (lists (switch_fpu k)) = pvOwner (lists k)"
  "tcb (switch_fpu k) = tcb k"
  "live (switch_fpu k) = live k"
  "evlists (switch_fpu k) = evlists k"
  "pxDelayedTaskList (switch_fpu k) = pxDelayedTaskList k"
  "pxOverflowDelayedTaskList (switch_fpu k) = pxOverflowDelayedTaskList k"
  "xTickCount (switch_fpu k) = xTickCount k"
  "xNextTaskUnblockTime (switch_fpu k) = xNextTaskUnblockTime k"
  "uxTopReadyPriority (switch_fpu k) = uxTopReadyPriority k"
  "uxTasksDeleted (switch_fpu k) = uxTasksDeleted k"
  "uxCurrentNumberOfTasks (switch_fpu k) = uxCurrentNumberOfTasks k"
  "xSchedulerRunning (switch_fpu k) = xSchedulerRunning k"
  "uxSchedulerSuspended (switch_fpu k) = uxSchedulerSuspended k"
  "uxPendedTicks (switch_fpu k) = uxPendedTicks k"
  "xNumOfOverflows (switch_fpu k) = xNumOfOverflows k"
  "uxTaskNumber (switch_fpu k) = uxTaskNumber k"
  "pxCurrentTCB (switch_fpu k) = pxCurrentTCB k"
  "lists (switch_fpu k) = lists k"
  "xYieldPending (switch_fpu k) = xYieldPending k"
  "ulCriticalNesting (switch_fpu k) = ulCriticalNesting k"
  "interrupts_on (switch_fpu k) = interrupts_on k"
  "ulPortYieldPending (switch_fpu k) = ulPortYieldPending k"
  "ext_calls (switch_fpu k) = ext_calls k"
  by (simp_all add: switch_fpu_def frstor_def fnsave_def Let_def split: option.split)

lemma switch_context_frame [simp, kernel_frame]:
  "pvContainer (lists (vTaskSwitchContext k)) = pvContainer (lists k)"
  "xItemValue (lists (vTaskSwitchContext k)) = xItemValue (lists k)"
  "pvOwner (lists (vTaskSwitchContext k)) = pvOwner (lists k)"
  "tcb (vTaskSwitchContext k) = tcb k"
  "live (vTaskSwitchContext k) = live k"
  "evlists (vTaskSwitchContext k) = evlists k"
  "pxDelayedTaskList (vTaskSwitchContext k) = pxDelayedTaskList k"
  "pxOverflowDelayedTaskList (vTaskSwitchContext k) = pxOverflowDelayedTaskList k"
  "xTickCount (vTaskSwitchContext k) = xTickCount k"
  "xNextTaskUnblockTime (vTaskSwitchContext k) = xNextTaskUnblockTime k"
  "uxTopReadyPriority (vTaskSwitchContext k) = uxTopReadyPriority k"
  "uxTasksDeleted (vTaskSwitchContext k) = uxTasksDeleted k"
  "uxCurrentNumberOfTasks (vTaskSwitchContext k) = uxCurrentNumberOfTasks k"
  "xSchedulerRunning (vTaskSwitchContext k) = xSchedulerRunning k"
  "uxSchedulerSuspended (vTaskSwitchContext k) = uxSchedulerSuspended k"
  "uxPendedTicks (vTaskSwitchContext k) = uxPendedTicks k"
  "xNumOfOverflows (vTaskSwitchContext k) = xNumOfOverflows k"
  "uxTaskNumber (vTaskSwitchContext k) = uxTaskNumber k"
  "ulCriticalNesting (vTaskSwitchContext k) = ulCriticalNesting k"
  "interrupts_on (vTaskSwitchContext k) = interrupts_on k"
  "ulPortYieldPending (vTaskSwitchContext k) = ulPortYieldPending k"
  by (simp_all add: vTaskSwitchContext_def)

lemma portYIELD_frame [simp, kernel_frame]:
  "pvContainer (lists (portYIELD k)) = pvContainer (lists k)"
  "xItemValue (lists (portYIELD k)) = xItemValue (lists k)"
  "pvOwner (lists (portYIELD k)) = pvOwner (lists k)"
  "tcb (portYIELD k) = tcb k"
  "live (portYIELD k) = live k"
  "evlists (portYIELD k) = evlists k"
  "pxDelayedTaskList (portYIELD k) = pxDelayedTaskList k"
  "pxOverflowDelayedTaskList (portYIELD k) = pxOverflowDelayedTaskList k"
  "xTickCount (portYIELD k) = xTickCount k"
  "xNextTaskUnblockTime (portYIELD k) = xNextTaskUnblockTime k"
  "uxTopReadyPriority (portYIELD k) = uxTopReadyPriority k"
  "uxTasksDeleted (portYIELD k) = uxTasksDeleted k"
  "uxCurrentNumberOfTasks (portYIELD k) = uxCurrentNumberOfTasks k"
  "xSchedulerRunning (portYIELD k) = xSchedulerRunning k"
  "uxSchedulerSuspended (portYIELD k) = uxSchedulerSuspended k"
  "uxPendedTicks (portYIELD k) = uxPendedTicks k"
  "xNumOfOverflows (portYIELD k) = xNumOfOverflows k"
  "uxTaskNumber (portYIELD k) = uxTaskNumber k"
  "ulCriticalNesting (portYIELD k) = ulCriticalNesting k"
  "interrupts_on (portYIELD k) = interrupts_on k"
  by (simp_all add: portYIELD_def vPortYieldCall_def)

lemma end_switching_frame [simp, kernel_frame]:
  "pvContainer (lists (portEND_SWITCHING_ISR b k)) = pvContainer (lists k)"
  "xItemValue (lists (portEND_SWITCHING_ISR b k)) = xItemValue (lists k)"
  "pvOwner (lists (portEND_SWITCHING_ISR b k)) = pvOwner (lists k)"
  "tcb (portEND_SWITCHING_ISR b k) = tcb k"
  "live (portEND_SWITCHING_ISR b k) = live k"
  "evlists (portEND_SWITCHING_ISR b k) = evlists k"
  "pxDelayedTaskList (portEND_SWITCHING_ISR b k) = pxDelayedTaskList k"
  "pxOverflowDelayedTaskList (portEND_SWITCHING_ISR b k) = pxOverflowDelayedTaskList k"
  "xTickCount (portEND_SWITCHING_ISR b k) = xTickCount k"
  "xNextTaskUnblockTime (portEND_SWITCHING_ISR b k) = xNextTaskUnblockTime k"
  "uxTopReadyPriority (portEND_SWITCHING_ISR b k) = uxTopReadyPriority k"
  "uxTasksDeleted (portEND_SWITCHING_ISR b k) = uxTasksDeleted k"
  "uxCurrentNumberOfTasks (portEND_SWITCHING_ISR b k) = uxCurrentNumberOfTasks k"
  "xSchedulerRunning (portEND_SWITCHING_ISR b k) = xSchedulerRunning k"
  "uxSchedulerSuspended (portEND_SWITCHING_ISR b k) = uxSchedulerSuspended k"
  "uxPendedTicks (portEND_SWITCHING_ISR b k) = uxPendedTicks k"
  "xNumOfOverflows (portEND_SWITCHING_ISR b k) = xNumOfOverflows k"
  "uxTaskNumber (portEND_SWITCHING_ISR b k) = uxTaskNumber k"
  "lists (portEND_SWITCHING_ISR b k) = lists k"
  "pxCurrentTCB (portEND_SWITCHING_ISR b k) = pxCurrentTCB k"
  "ulCriticalNesting (portEND_SWITCHING_ISR b k) = ulCriticalNesting k"
  "interrupts_on (portEND_SWITCHING_ISR b k) = interrupts_on k"
  "xYieldPending (portEND_SWITCHING_ISR b k) = xYieldPending k"
  "ext_calls (portEND_SWITCHING_ISR b k) = ext_calls k"
  by (simp_all add: portEND_SWITCHING_ISR_def)

lemma enter_critical_frame [simp, kernel_frame]:
  "pvContainer (lists (vPortEnterCritical k)) = pvContainer (lists k)"
  "xItemValue (lists (vPortEnterCritical k)) = xItemValue (lists k)"
  "pvOwner (lists (vPortEnterCritical k)) = pvOwner (lists k)"
  "tcb (vPortEnterCritical k) = tcb k"
  "live (vPortEnterCritical k) = live k"
  "evlists (vPortEnterCritical k) = evlists k"
  "pxDelayedTaskList (vPortEnterCritical k) = pxDelayedTaskList k"
  "pxOverflowDelayedTaskList (vPortEnterCritical k) = pxOverflowDelayedTaskList k"
  "xTickCount (vPortEnterCritical k) = xTickCount k"
  "xNextTaskUnblockTime (vPortEnterCritical k) = xNextTaskUnblockTime k"
  "uxTopReadyPriority (vPortEnterCritical k) = uxTopReadyPriority k"
  "uxTasksDeleted (vPortEnterCritical k) = uxTasksDeleted k"
  "uxCurrentNumberOfTasks (vPortEnterCritical k) = uxCurrentNumberOfTasks k"
  "xSchedulerRunning (vPortEnterCritical k) = xSchedulerRunning k"
  "uxSchedulerSuspended (vPortEnterCritical k) = uxSchedulerSuspended k"
  "uxPendedTicks (vPortEnterCritical k) = uxPendedTicks k"
  "xNumOfOverflows (vPortEnterCritical k) = xNumOfOverflows k"
  "uxTaskNumber (vPortEnterCritical k) = uxTaskNumber k"
  "lists (vPortEnterCritical k) = lists k"
  "pxCurrentTCB (vPortEnterCritical k) = pxCurrentTCB k"
  "xYieldPending (vPortEnterCritical k) = xYieldPending k"
  "ulPortYieldPending (vPortEnterCritical k) = ulPortYieldPending k"
  "ext_calls (vPortEnterCritical k) = ext_calls k"
  by (simp_all add: vPortEnterCritical_def Let_def)

lemma exit_critical_frame [simp, kernel_frame]:
  "pvContainer (lists (vPortExitCritical k)) = pvContainer (lists k)"
  "xItemValue (lists (vPortExitCritical k)) = xItemValue (lists k)"
  "pvOwner (lists (vPortExitCritical k)) = pvOwner (lists k)"
  "tcb (vPortExitCritical k) = tcb k"
  "live (vPortExitCritical k) = live k"
  "evlists (vPortExitCritical k) = evlists k"
  "pxDelayedTaskList (vPortExitCritical k) = pxDelayedTaskList k"
  "pxOverflowDelayedTaskList (vPortExitCritical k) = pxOverflowDelayedTaskList k"
  "xTickCount (vPortExitCritical k) = xTickCount k"
  "xNextTaskUnblockTime (vPortExitCritical k) = xNextTaskUnblockTime k"
  "uxTopReadyPriority (vPortExitCritical k) = uxTopReadyPriority k"
  "uxTasksDeleted (vPortExitCritical k) = uxTasksDeleted k"
  "uxCurrentNumberOfTasks (vPortExitCritical k) = uxCurrentNumberOfTasks k"
  "xSchedulerRunning (vPortExitCritical k) = xSchedulerRunning k"
  "uxSchedulerSuspended (vPortExitCritical k) = uxSchedulerSuspended k"
  "uxPendedTicks (vPortExitCritical k) = uxPendedTicks k"
  "xNumOfOverflows (vPortExitCritical k) = xNumOfOverflows k"
  "uxTaskNumber (vPortExitCritical k) = uxTaskNumber k"
  by (simp_all add: vPortExitCritical_def vPortYieldCall_def Let_def)

lemma kinv_stack_check [simp]: "kinvd D X (taskCHECK_FOR_STACK_OVERFLOW k) = kinvd D X k"
  by (simp add: taskCHECK_FOR_STACK_OVERFLOW_def)

lemma kinv_switch_fpu [simp]: "kinvd D X (switch_fpu k) = kinvd D X k"
  by (simp add: switch_fpu_def frstor_def fnsave_def Let_def split: option.split)

lemma kinv_select:
  assumes "kinvd D {} k"
  shows "kinvd D {} (taskSELECT_HIGHEST_PRIORITY_TASK k)"
  by (rule select_cases [OF assms]) (use assms in simp_all)

lemma kinv_switch_context: "kinvd D {} k \<Longrightarrow> kinvd D {} (vTaskSwitchContext k)"
  by (simp add: vTaskSwitchContext_def kinv_select)

lemma kinv_portYIELD: "kinvd D {} k \<Longrightarrow> kinvd D {} (portYIELD k)"
  by (simp add: portYIELD_def vPortYieldCall_def kinv_switch_context)

lemma kinv_end_switching [simp]: "kinvd D X (portEND_SWITCHING_ISR b k) = kinvd D X k"
  by (simp add: portEND_SWITCHING_ISR_def)

lemma kinv_enter_critical [simp]: "kinvd D X (vPortEnterCritical k) = kinvd D X k"
  by (simp add: vPortEnterCritical_def Let_def)

lemma kinv_exit_critical: "kinvd D {} k \<Longrightarrow> kinvd D {} (vPortExitCritical k)"
  by (simp add: vPortExitCritical_def vPortYieldCall_def Let_def kinv_switch_context)

lemma kinv_interrupt_mask [simp]:
  "kinvd D X (fst (ulPortSetInterruptMask k)) = kinvd D X k"
  "kinvd D X (vPortClearInterruptMask m k) = kinvd D X k"
  by (simp_all add: ulPortSetInterruptMask_def vPortClearInterruptMask_def)

section \<open>What the building blocks leave unchanged\<close>

lemma remove_generic_frame [simp, kernel_frame]:
  "pvContainer (lists (remove_generic_item t k)) = (pvContainer (lists k))(Generic t := None)"
  "xItemValue (lists (remove_generic_item t k)) = xItemValue (lists k)"
  "pvOwner (lists (remove_generic_item t k)) = pvOwner (lists k)"
  "tcb (remove_generic_item t k) = tcb k"
  "live (remove_generic_item t k) = live k"
  "evlists (remove_generic_item t k) = evlists k"
  "pxCurrentTCB (remove_generic_item t k) = pxCurrentTCB k"
  "pxFpTcbOwner (remove_generic_item t k) = pxFpTcbOwner k"
  "pxDelayedTaskList (remove_generic_item t k) = pxDelayedTaskList k"
  "pxOverflowDelayedTaskList (remove_generic_item t k) = pxOverflowDelayedTaskList k"
  "uxTasksDeleted (remove_generic_item t k) = uxTasksDeleted k"
  "uxCurrentNumberOfTasks (remove_generic_item t k) = uxCurrentNumberOfTasks k"
  "xTickCount (remove_generic_item t k) = xTickCount k"
  "uxTopReadyPriority (remove_generic_item t k) = uxTopReadyPriority k"
  "xSchedulerRunning (remove_generic_item t k) = xSchedulerRunning k"
  "uxPendedTicks (remove_generic_item t k) = uxPendedTicks k"
  "xYieldPending (remove_generic_item t k) = xYieldPending k"
  "xNumOfOverflows (remove_generic_item t k) = xNumOfOverflows k"
  "uxTaskNumber (remove_generic_item t k) = uxTaskNumber k"
  "xNextTaskUnblockTime (remove_generic_item t k) = xNextTaskUnblockTime k"
  "uxSchedulerSuspended (remove_generic_item t k) = uxSchedulerSuspended k"
  "ulCriticalNesting (remove_generic_item t k) = ulCriticalNesting k"
  "ulPortYieldPending (remove_generic_item t k) = ulPortYieldPending k"
  "interrupts_on (remove_generic_item t k) = interrupts_on k"
  "ext_calls (remove_generic_item t k) = ext_calls k"
  by (simp_all add: remove_generic_item_def)

lemma remove_event_frame [simp, kernel_frame]:
  "pvContainer (lists (remove_event_item t k)) = (pvContainer (lists k))(Event t := None)"
  "xItemValue (lists (remove_event_item t k)) = xItemValue (lists k)"
  "pvOwner (lists (remove_event_item t k)) = pvOwner (lists k)"
  "tcb (remove_event_item t k) = tcb k"
  "live (remove_event_item t k) = live k"
  "evlists (remove_event_item t k) = evlists k"
  "pxCurrentTCB (remove_event_item t k) = pxCurrentTCB k"
  "pxFpTcbOwner (remove_event_item t k) = pxFpTcbOwner k"
  "pxDelayedTaskList (remove_event_item t k) = pxDelayedTaskList k"
  "pxOverflowDelayedTaskList (remove_event_item t k) = pxOverflowDelayedTaskList k"
  "uxTasksDeleted (remove_event_item t k) = uxTasksDeleted k"
  "uxCurrentNumberOfTasks (remove_event_item t k) = uxCurrentNumberOfTasks k"
  "xTickCount (remove_event_item t k) = xTickCount k"
  "uxTopReadyPriority (remove_event_item t k) = uxTopReadyPriority k"
  "xSchedulerRunning (remove_event_item t k) = xSchedulerRunning k"
  "uxPendedTicks (remove_event_item t k) = uxPendedTicks k"
  "xYieldPending (remove_event_item t k) = xYieldPending k"
  "xNumOfOverflows (remove_event_item t k) = xNumOfOverflows k"
  "uxTaskNumber (remove_event_item t k) = uxTaskNumber k"
  "xNextTaskUnblockTime (remove_event_item t k) = xNextTaskUnblockTime k"
  "uxSchedulerSuspended (remove_event_item t k) = uxSchedulerSuspended k"
  "ulCriticalNesting (remove_event_item t k) = ulCriticalNesting k"
  "ulPortYieldPending (remove_event_item t k) = ulPortYieldPending k"
  "interrupts_on (remove_event_item t k) = interrupts_on k"
  "ext_calls (remove_event_item t k) = ext_calls k"
  by (simp_all add: remove_event_item_def)

lemma remove_ready_frame [simp, kernel_frame]:
  "pvContainer (lists (remove_ready_item t p k)) = (pvContainer (lists k))(Generic t := None)"
  "xItemValue (lists (remove_ready_item t p k)) = xItemValue (lists k)"
  "pvOwner (lists (remove_ready_item t p k)) = pvOwner (lists k)"
  "tcb (remove_ready_item t p k) = tcb k"
  "live (remove_ready_item t p k) = live k"
  "evlists (remove_ready_item t p k) = evlists k"
  "pxCurrentTCB (remove_ready_item t p k) = pxCurrentTCB k"
  "pxFpTcbOwner (remove_ready_item t p k) = pxFpTcbOwner k"
  "pxDelayedTaskList (remove_ready_item t p k) = pxDelayedTaskList k"
  "pxOverflowDelayedTaskList (remove_ready_item t p k) = pxOverflowDelayedTaskList k"
  "uxTasksDeleted (remove_ready_item t p k) = uxTasksDeleted k"
  "uxCurrentNumberOfTasks (remove_ready_item t p k) = uxCurrentNumberOfTasks k"
  "xTickCount (remove_ready_item t p k) = xTickCount k"
  "xSchedulerRunning (remove_ready_item t p k) = xSchedulerRunning k"
  "uxPendedTicks (remove_ready_item t p k) = uxPendedTicks k"
  "xYieldPending (remove_ready_item t p k) = xYieldPending k"
  "xNumOfOverflows (remove_ready_item t p k) = xNumOfOverflows k"
  "uxTaskNumber (remove_ready_item t p k) = uxTaskNumber k"
  "xNextTaskUnblockTime (remove_ready_item t p k) = xNextTaskUnblockTime k"
  "uxSchedulerSuspended (remove_ready_item t p k) = uxSchedulerSuspended k"
  "ulCriticalNesting (remove_ready_item t p k) = ulCriticalNesting k"
  "ulPortYieldPending (remove_ready_item t p k) = ulPortYieldPending k"
  "interrupts_on (remove_ready_item t p k) = interrupts_on k"
  "ext_calls (remove_ready_item t p k) = ext_calls k"
  by (simp_all add: remove_ready_item_def reset_ready_priority_def Let_def split_beta)

lemma remove_state_frame [simp, kernel_frame]:
  "pvContainer (lists (remove_state_item t k)) = (pvContainer (lists k))(Generic t := None)"
  "xItemValue (lists (remove_state_item t k)) = xItemValue (lists k)"
  "pvOwner (lists (remove_state_item t k)) = pvOwner (lists k)"
  "tcb (remove_state_item t k) = tcb k"
  "live (remove_state_item t k) = live k"
  "evlists (remove_state_item t k) = evlists k"
  "pxCurrentTCB (remove_state_item t k) = pxCurrentTCB k"
  "pxFpTcbOwner (remove_state_item t k) = pxFpTcbOwner k"
  "pxDelayedTaskList (remove_state_item t k) = pxDelayedTaskList k"
  "pxOverflowDelayedTaskList (remove_state_item t k) = pxOverflowDelayedTaskList k"
  "uxTasksDeleted (remove_state_item t k) = uxTasksDeleted k"
  "uxCurrentNumberOfTasks (remove_state_item t k) = uxCurrentNumberOfTasks k"
  "xTickCount (remove_state_item t k) = xTickCount k"
  "xSchedulerRunning (remove_state_item t k) = xSchedulerRunning k"
  "uxPendedTicks (remove_state_item t k) = uxPendedTicks k"
  "xYieldPending (remove_state_item t k) = xYieldPending k"
  "xNumOfOverflows (remove_state_item t k) = xNumOfOverflows k"
  "uxTaskNumber (remove_state_item t k) = uxTaskNumber k"
  "xNextTaskUnblockTime (remove_state_item t k) = xNextTaskUnblockTime k"
  "uxSchedulerSuspended (remove_state_item t k) = uxSchedulerSuspended k"
  "ulCriticalNesting (remove_state_item t k) = ulCriticalNesting k"
  "ulPortYieldPending (remove_state_item t k) = ulPortYieldPending k"
  "interrupts_on (remove_state_item t k) = interrupts_on k"
  "ext_calls (remove_state_item t k) = ext_calls k"
  by (simp_all add: remove_state_item_def taskRESET_READY_PRIORITY_def reset_ready_priority_def Let_def
      split_beta)

lemma add_ready_frame [simp, kernel_frame]:
  "pvContainer (lists (prvAddTaskToReadyList t k)) = (pvContainer (lists k))(Generic t := Some (Ready (prio k t)))"
  "xItemValue (lists (prvAddTaskToReadyList t k)) = xItemValue (lists k)"
  "pvOwner (lists (prvAddTaskToReadyList t k)) = pvOwner (lists k)"
  "tcb (prvAddTaskToReadyList t k) = tcb k"
  "live (prvAddTaskToReadyList t k) = live k"
  "evlists (prvAddTaskToReadyList t k) = evlists k"
  "pxCurrentTCB (prvAddTaskToReadyList t k) = pxCurrentTCB k"
  "pxFpTcbOwner (prvAddTaskToReadyList t k) = pxFpTcbOwner k"
  "pxDelayedTaskList (prvAddTaskToReadyList t k) = pxDelayedTaskList k"
  "pxOverflowDelayedTaskList (prvAddTaskToReadyList t k) = pxOverflowDelayedTaskList k"
  "uxTasksDeleted (prvAddTaskToReadyList t k) = uxTasksDeleted k"
  "uxCurrentNumberOfTasks (prvAddTaskToReadyList t k) = uxCurrentNumberOfTasks k"
  "xTickCount (prvAddTaskToReadyList t k) = xTickCount k"
  "xSchedulerRunning (prvAddTaskToReadyList t k) = xSchedulerRunning k"
  "uxPendedTicks (prvAddTaskToReadyList t k) = uxPendedTicks k"
  "xYieldPending (prvAddTaskToReadyList t k) = xYieldPending k"
  "xNumOfOverflows (prvAddTaskToReadyList t k) = xNumOfOverflows k"
  "uxTaskNumber (prvAddTaskToReadyList t k) = uxTaskNumber k"
  "xNextTaskUnblockTime (prvAddTaskToReadyList t k) = xNextTaskUnblockTime k"
  "uxSchedulerSuspended (prvAddTaskToReadyList t k) = uxSchedulerSuspended k"
  "ulCriticalNesting (prvAddTaskToReadyList t k) = ulCriticalNesting k"
  "ulPortYieldPending (prvAddTaskToReadyList t k) = ulPortYieldPending k"
  "interrupts_on (prvAddTaskToReadyList t k) = interrupts_on k"
  "ext_calls (prvAddTaskToReadyList t k) = ext_calls k"
  by (simp_all add: prvAddTaskToReadyList_def taskRECORD_READY_PRIORITY_def Let_def)

lemma reset_next_frame [simp, kernel_frame]:
  "lists (prvResetNextTaskUnblockTime k) = lists k"
  "tcb (prvResetNextTaskUnblockTime k) = tcb k"
  "live (prvResetNextTaskUnblockTime k) = live k"
  "evlists (prvResetNextTaskUnblockTime k) = evlists k"
  "pxCurrentTCB (prvResetNextTaskUnblockTime k) = pxCurrentTCB k"
  "pxFpTcbOwner (prvResetNextTaskUnblockTime k) = pxFpTcbOwner k"
  "pxDelayedTaskList (prvResetNextTaskUnblockTime k) = pxDelayedTaskList k"
  "pxOverflowDelayedTaskList (prvResetNextTaskUnblockTime k) = pxOverflowDelayedTaskList k"
  "uxTasksDeleted (prvResetNextTaskUnblockTime k) = uxTasksDeleted k"
  "uxCurrentNumberOfTasks (prvResetNextTaskUnblockTime k) = uxCurrentNumberOfTasks k"
  "xTickCount (prvResetNextTaskUnblockTime k) = xTickCount k"
  "uxTopReadyPriority (prvResetNextTaskUnblockTime k) = uxTopReadyPriority k"
  "xSchedulerRunning (prvResetNextTaskUnblockTime k) = xSchedulerRunning k"
  "uxPendedTicks (prvResetNextTaskUnblockTime k) = uxPendedTicks k"
  "xYieldPending (prvResetNextTaskUnblockTime k) = xYieldPending k"
  "xNumOfOverflows (prvResetNextTaskUnblockTime k) = xNumOfOverflows k"
  "uxTaskNumber (prvResetNextTaskUnblockTime k) = uxTaskNumber k"
  "uxSchedulerSuspended (prvResetNextTaskUnblockTime k) = uxSchedulerSuspended k"
  "ulCriticalNesting (prvResetNextTaskUnblockTime k) = ulCriticalNesting k"
  "ulPortYieldPending (prvResetNextTaskUnblockTime k) = ulPortYieldPending k"
  "interrupts_on (prvResetNextTaskUnblockTime k) = interrupts_on k"
  "ext_calls (prvResetNextTaskUnblockTime k) = ext_calls k"
  by (simp_all add: prvResetNextTaskUnblockTime_def split: option.split)

lemma update_tcb_frame [simp, kernel_frame]:
  "lists (update_tcb t f k) = lists k"
  "tcb (update_tcb t f k) = (tcb k)(t := f (tcb k t))"
  "live (update_tcb t f k) = live k"
  "evlists (update_tcb t f k) = evlists k"
  "pxCurrentTCB (update_tcb t f k) = pxCurrentTCB k"
  "pxFpTcbOwner (update_tcb t f k) = pxFpTcbOwner k"
  "pxDelayedTaskList (update_tcb t f k) = pxDelayedTaskList k"
  "pxOverflowDelayedTaskList (update_tcb t f k) = pxOverflowDelayedTaskList k"
  "uxTasksDeleted (update_tcb t f k) = uxTasksDeleted k"
  "uxCurrentNumberOfTasks (update_tcb t f k) = uxCurrentNumberOfTasks k"
  "xTickCount (update_tcb t f k) = xTickCount k"
  "uxTopReadyPriority (update_tcb t f k) = uxTopReadyPriority k"
  "xSchedulerRunning (update_tcb t f k) = xSchedulerRunning k"
  "uxPendedTicks (update_tcb t f k) = uxPendedTicks k"
  "xYieldPending (update_tcb t f k) = xYieldPending k"
  "xNumOfOverflows (update_tcb t f k) = xNumOfOverflows k"
  "uxTaskNumber (update_tcb t f k) = uxTaskNumber k"
  "xNextTaskUnblockTime (update_tcb t f k) = xNextTaskUnblockTime k"
  "uxSchedulerSuspended (update_tcb t f k) = uxSchedulerSuspended k"
  "ulCriticalNesting (update_tcb t f k) = ulCriticalNesting k"
  "ulPortYieldPending (update_tcb t f k) = ulPortYieldPending k"
  "interrupts_on (update_tcb t f k) = interrupts_on k"
  "ext_calls (update_tcb t f k) = ext_calls k"
  by (simp_all add: update_tcb_def)

lemma add_delayed_frame [simp, kernel_frame]:
  "tcb (prvAddCurrentTaskToDelayedList w k) = tcb k"
  "live (prvAddCurrentTaskToDelayedList w k) = live k"
  "evlists (prvAddCurrentTaskToDelayedList w k) = evlists k"
  "pxCurrentTCB (prvAddCurrentTaskToDelayedList w k) = pxCurrentTCB k"
  "pxFpTcbOwner (prvAddCurrentTaskToDelayedList w k) = pxFpTcbOwner k"
  "pxDelayedTaskList (prvAddCurrentTaskToDelayedList w k) = pxDelayedTaskList k"
  "pxOverflowDelayedTaskList (prvAddCurrentTaskToDelayedList w k) = pxOverflowDelayedTaskList k"
  "uxTasksDeleted (prvAddCurrentTaskToDelayedList w k) = uxTasksDeleted k"
  "uxCurrentNumberOfTasks (prvAddCurrentTaskToDelayedList w k) = uxCurrentNumberOfTasks k"
  "xTickCount (prvAddCurrentTaskToDelayedList w k) = xTickCount k"
  "uxTopReadyPriority (prvAddCurrentTaskToDelayedList w k) = uxTopReadyPriority k"
  "xSchedulerRunning (prvAddCurrentTaskToDelayedList w k) = xSchedulerRunning k"
  "uxPendedTicks (prvAddCurrentTaskToDelayedList w k) = uxPendedTicks k"
  "xYieldPending (prvAddCurrentTaskToDelayedList w k) = xYieldPending k"
  "xNumOfOverflows (prvAddCurrentTaskToDelayedList w k) = xNumOfOverflows k"
  "uxTaskNumber (prvAddCurrentTaskToDelayedList w k) = uxTaskNumber k"
  "uxSchedulerSuspended (prvAddCurrentTaskToDelayedList w k) = uxSchedulerSuspended k"
  "ulCriticalNesting (prvAddCurrentTaskToDelayedList w k) = ulCriticalNesting k"
  "ulPortYieldPending (prvAddCurrentTaskToDelayedList w k) = ulPortYieldPending k"
  "interrupts_on (prvAddCurrentTaskToDelayedList w k) = interrupts_on k"
  "ext_calls (prvAddCurrentTaskToDelayedList w k) = ext_calls k"
  by (simp_all add: prvAddCurrentTaskToDelayedList_def Let_def)

text \<open>Where \<open>prvAddCurrentTaskToDelayedList\<close> puts the task.\<close>

lemma add_delayed_lists:
  assumes k: "kinvd D X k" and t: "cur k \<in> X"
  shows "pvContainer (lists (prvAddCurrentTaskToDelayedList w k)) =
      (pvContainer (lists k))(Generic (cur k) := Some (if w < xTickCount k
         then pxOverflowDelayedTaskList k else pxDelayedTaskList k))"
    and "xItemValue (lists (prvAddCurrentTaskToDelayedList w k)) =
      (xItemValue (lists k))(Item (Generic (cur k)) := w)"
    and "pvOwner (lists (prvAddCurrentTaskToDelayedList w k)) = pvOwner (lists k)"
proof -
  let ?s1 = "listSET_LIST_ITEM_VALUE (Generic (cur k)) w (lists k)"
  have out: "gcont k (cur k) = None" by (rule kinv_liveD(4) [OF k t])
  have wf1: "wf_lists (KL k) ?s1" by (rule set_value_store [OF kinv_wf [OF k]])
  note st = vListInsert_store(3-5) [OF wf1, of _ "Generic (cur k)"]
  note st1 = st [OF delayed_list_mem(3) [OF k]] and st2 = st [OF delayed_list_mem(4) [OF k]]
  show "pvContainer (lists (prvAddCurrentTaskToDelayedList w k)) =
      (pvContainer (lists k))(Generic (cur k) := Some (if w < xTickCount k
         then pxOverflowDelayedTaskList k else pxDelayedTaskList k))"
    and "xItemValue (lists (prvAddCurrentTaskToDelayedList w k)) =
      (xItemValue (lists k))(Item (Generic (cur k)) := w)"
    and "pvOwner (lists (prvAddCurrentTaskToDelayedList w k)) = pvOwner (lists k)"
    using st1 st2 out by (simp_all add: prvAddCurrentTaskToDelayedList_def Let_def)
qed

text \<open>The invariant for the two idioms that only take an item out.\<close>

lemma kinv_remove_generic_item:
  "kinvd D X k \<Longrightarrow> gcont k t = Some l \<Longrightarrow> l \<noteq> Termination \<Longrightarrow>
     kinvd D (insert t X) (remove_generic_item t k)"
  unfolding remove_generic_item_def by (rule kinv_remove_generic)

lemma kinv_move_to_ready:
  assumes "kinvd D X k" and "gcont k t = Some l" and "l \<noteq> Termination" and "t \<notin> X"
  shows "kinvd D X (prvAddTaskToReadyList t (remove_generic_item t k))"
  using kinv_add_ready [OF kinv_remove_generic_item [OF assms(1-3)], of t] assms(4) by simp

section \<open>What a context switch selects\<close>

text \<open>
  \<open>highest_ready k t\<close>: task \<open>t\<close> is ready and no ready task has a higher priority.
\<close>

definition highest_ready :: "kernel \<Rightarrow> nat \<Rightarrow> bool" where
  "highest_ready k t \<longleftrightarrow> gcont k t = Some (Ready (prio k t)) \<and>
     (\<forall>u p. gcont k u = Some (Ready p) \<longrightarrow> p \<le> prio k t)"

lemma switch_selects:
  assumes k: "kinv {} k" and run: "uxSchedulerSuspended k = 0" and r: "gcont k u = Some (Ready p)"
  shows "\<exists>t. pxCurrentTCB (vTaskSwitchContext k) = Some t \<and> highest_ready (vTaskSwitchContext k) t"
proof -
  let ?k1 = "taskCHECK_FOR_STACK_OVERFLOW (k\<lparr>xYieldPending := False\<rparr>)"
  have k1: "kinv {} ?k1" using k by simp
  have eq: "vTaskSwitchContext k = switch_fpu (taskSELECT_HIGHEST_PRIORITY_TASK ?k1)"
    using run by (simp add: vTaskSwitchContext_def)
  from k1 show ?thesis
  proof (cases rule: select_cases)
    case none
    with r show ?thesis by simp
  next
    case (some t s')
    then show ?thesis by (intro exI [of _ t]) (simp add: eq highest_ready_def)
  qed
qed

text \<open>
  Leaving the outermost critical section with a yield pending switches to the highest ready
  task; a yield requested outside any critical section does so at once.
\<close>

lemma exit_critical_switches:
  assumes "kinv {} k" and "ulCriticalNesting k = 1" and "ulPortYieldPending k"
    and "uxSchedulerSuspended k = 0" and "gcont k u = Some (Ready p)"
  shows "\<exists>t. pxCurrentTCB (vPortExitCritical k) = Some t \<and> highest_ready (vPortExitCritical k) t"
proof -
  let ?k2 = "k\<lparr>ulCriticalNesting := 0, interrupts_on := True, ulPortYieldPending := False\<rparr>"
  have "vPortExitCritical k = vTaskSwitchContext ?k2"
    using assms(2,3) by (simp add: vPortExitCritical_def vPortYieldCall_def)
  moreover have "kinv {} ?k2" using assms(1) by simp
  ultimately show ?thesis using switch_selects [of ?k2 u p] assms(4,5) by simp
qed

lemma yield_in_critical:
  "ulCriticalNesting k \<noteq> 0 \<Longrightarrow> portYIELD k = k\<lparr>ulPortYieldPending := True\<rparr>"
  by (simp add: portYIELD_def)

lemma enter_critical_nesting [simp]:
  "ulCriticalNesting (vPortEnterCritical k) = ulCriticalNesting k + 1"
  by (simp add: vPortEnterCritical_def)

end
