(* ===== verification/TaskTick.thy ===== *)
theory TaskTick
  imports KernelPrim "HOL-Library.Monad_Syntax"
begin

text \<open>
  Time in \<^verbatim>\<open>tasks.c\<close>: the tick interrupt, which unblocks the tasks that are due and
  switches the two delayed lists when the count wraps around; suspending and resuming the
  scheduler, with the ticks and the wake-ups that were held back meanwhile; the delay
  functions; timeouts; and what tickless idle asks about time. A loop that does not end is
  \<open>None\<close>; the theorems show that the loops of these functions end in every state that
  satisfies the invariant.
\<close>

section \<open>The tick interrupt\<close>

definition taskSWITCH_DELAYED_LISTS :: "kernel \<Rightarrow> kernel" where
  "taskSWITCH_DELAYED_LISTS k =
     prvResetNextTaskUnblockTime (k\<lparr>pxDelayedTaskList := pxOverflowDelayedTaskList k,
       pxOverflowDelayedTaskList := pxDelayedTaskList k, xNumOfOverflows := xNumOfOverflows k + 1\<rparr>)"

definition vApplicationTickHook :: "kernel \<Rightarrow> kernel" where
  "vApplicationTickHook k = k\<lparr>ext_calls := TickHook # ext_calls k\<rparr>"

definition unblock_task :: "nat \<Rightarrow> kernel \<Rightarrow> kernel" where
  "unblock_task t k =
     (let k1 = remove_generic_item t k;
          k2 = (if listLIST_ITEM_CONTAINER (Event t) (lists k1) \<noteq> None
                then remove_event_item t k1 else k1)
      in prvAddTaskToReadyList t k2)"

partial_function (option) unblock_loop :: "u32 \<Rightarrow> kernel \<Rightarrow> bool \<Rightarrow> (kernel \<times> bool) option" where
  "unblock_loop xConstTickCount k xSwitchRequired =
     (if listLIST_IS_EMPTY (pxDelayedTaskList k) (lists k)
      then Some (k\<lparr>xNextTaskUnblockTime := portMAX_DELAY\<rparr>, xSwitchRequired)
      else case listGET_OWNER_OF_HEAD_ENTRY (pxDelayedTaskList k) (lists k) of
             None \<Rightarrow> None
           | Some t \<Rightarrow>
               (let v = listGET_LIST_ITEM_VALUE (Generic t) (lists k)
                in if xConstTickCount < v
                   then Some (k\<lparr>xNextTaskUnblockTime := v\<rparr>, xSwitchRequired)
                   else (let k1 = unblock_task t k
                         in unblock_loop xConstTickCount k1
                              (xSwitchRequired \<or> prio k1 t \<ge> prio k1 (cur k1)))))"

definition xTaskIncrementTick :: "kernel \<Rightarrow> (kernel \<times> bool) option" where
  "xTaskIncrementTick k =
     (if uxSchedulerSuspended k = 0
      then (let k1 = k\<lparr>xTickCount := xTickCount k + 1\<rparr>;
                xConstTickCount = xTickCount k1;
                k2 = (if xConstTickCount = 0 then taskSWITCH_DELAYED_LISTS k1 else k1)
            in do {
              (k3, sw) \<leftarrow> (if xConstTickCount \<ge> xNextTaskUnblockTime k2
                         then unblock_loop xConstTickCount k2 False else Some (k2, False));
              let sw1 = (sw \<or> listCURRENT_LIST_LENGTH (Ready (prio k3 (cur k3))) (lists k3) > 1);
              let k4 = (if uxPendedTicks k3 = 0 then vApplicationTickHook k3 else k3);
              Some (k4, sw1 \<or> xYieldPending k4) })
      else (let k1 = vApplicationTickHook (k\<lparr>uxPendedTicks := uxPendedTicks k + 1\<rparr>)
            in Some (k1, xYieldPending k1)))"

definition vPortTimerHandler :: "kernel \<Rightarrow> kernel option" where
  "vPortTimerHandler k = do {
     (k1, sw) \<leftarrow> xTaskIncrementTick k;
     Some (if sw then vTaskSwitchContext k1 else k1) }"

section \<open>Suspending and resuming the scheduler\<close>

definition vTaskSuspendAll :: "kernel \<Rightarrow> kernel" where
  "vTaskSuspendAll k = k\<lparr>uxSchedulerSuspended := uxSchedulerSuspended k + 1\<rparr>"

partial_function (option) pending_ready_loop :: "kernel \<Rightarrow> kernel option" where
  "pending_ready_loop k =
     (if listLIST_IS_EMPTY PendingReady (lists k) then Some k
      else case listGET_OWNER_OF_HEAD_ENTRY PendingReady (lists k) of
             None \<Rightarrow> None
           | Some t \<Rightarrow>
               (let k1 = prvAddTaskToReadyList t (remove_generic_item t (remove_event_item t k))
                in pending_ready_loop
                     (if prio k1 t \<ge> prio k1 (cur k1) then k1\<lparr>xYieldPending := True\<rparr> else k1)))"

partial_function (option) pended_ticks_loop :: "kernel \<Rightarrow> kernel option" where
  "pended_ticks_loop k =
     (if uxPendedTicks k > 0
      then Option.bind (xTaskIncrementTick k) (\<lambda>r.
             let k1 = (if snd r then (fst r)\<lparr>xYieldPending := True\<rparr> else fst r)
             in pended_ticks_loop (k1\<lparr>uxPendedTicks := uxPendedTicks k1 - 1\<rparr>))
      else Some k)"

definition xTaskResumeAll :: "kernel \<Rightarrow> (kernel \<times> bool) option" where
  "xTaskResumeAll k =
     (let k1 = vPortEnterCritical k;
          k2 = k1\<lparr>uxSchedulerSuspended := uxSchedulerSuspended k1 - 1\<rparr>
      in do {
        (k5, xAlreadyYielded) \<leftarrow>
          (if uxSchedulerSuspended k2 = 0 \<and> uxCurrentNumberOfTasks k2 > 0
           then do {
             k3 \<leftarrow> pending_ready_loop k2;
             k4 \<leftarrow> pended_ticks_loop k3;
             Some (if xYieldPending k4 then (portYIELD k4, True) else (k4, False)) }
           else Some (k2, False));
        Some (vPortExitCritical k5, xAlreadyYielded) })"

section \<open>Delays\<close>

definition vTaskDelay :: "u32 \<Rightarrow> kernel \<Rightarrow> kernel option" where
  "vTaskDelay xTicksToDelay k = do {
     (k3, xAlreadyYielded) \<leftarrow>
       (if xTicksToDelay > 0
        then (let k1 = vTaskSuspendAll k;
                  xTimeToWake = xTickCount k1 + xTicksToDelay;
                  k2 = remove_ready_item (cur k1) (prio k1 (cur k1)) k1
              in xTaskResumeAll (prvAddCurrentTaskToDelayedList xTimeToWake k2))
        else Some (k, False));
     Some (if xAlreadyYielded then k3 else portYIELD k3) }"

text \<open>
  \<open>vTaskDelayUntil\<close> also returns the new value of \<open>*pxPreviousWakeTime\<close>.
\<close>

definition delay_until_should :: "u32 \<Rightarrow> u32 \<Rightarrow> u32 \<Rightarrow> bool" where
  "delay_until_should xConstTickCount xPrevious xTimeToWake =
     (if xConstTickCount < xPrevious
      then xTimeToWake < xPrevious \<and> xTimeToWake > xConstTickCount
      else xTimeToWake < xPrevious \<or> xTimeToWake > xConstTickCount)"

definition vTaskDelayUntil :: "u32 \<Rightarrow> u32 \<Rightarrow> kernel \<Rightarrow> (kernel \<times> u32) option" where
  "vTaskDelayUntil xPrevious xTimeIncrement k =
     (let k1 = vTaskSuspendAll k;
          xTimeToWake = xPrevious + xTimeIncrement;
          k2 = (if delay_until_should (xTickCount k1) xPrevious xTimeToWake
                then prvAddCurrentTaskToDelayedList xTimeToWake
                       (remove_ready_item (cur k1) (prio k1 (cur k1)) k1)
                else k1)
      in do {
        (k3, xAlreadyYielded) \<leftarrow> xTaskResumeAll k2;
        Some (if xAlreadyYielded then k3 else portYIELD k3, xTimeToWake) })"

section \<open>The tick keeps the invariant and unblocks exactly the tasks that are due\<close>

lemma unblock_task_frame [simp, kernel_frame]:
  "pvContainer (lists (unblock_task t k)) = (pvContainer (lists k))
     (Generic t := Some (Ready (prio k t)), Event t := None)"
  "xItemValue (lists (unblock_task t k)) = xItemValue (lists k)"
  "pvOwner (lists (unblock_task t k)) = pvOwner (lists k)"
  "tcb (unblock_task t k) = tcb k"
  "live (unblock_task t k) = live k"
  "evlists (unblock_task t k) = evlists k"
  "pxCurrentTCB (unblock_task t k) = pxCurrentTCB k"
  "pxFpTcbOwner (unblock_task t k) = pxFpTcbOwner k"
  "pxDelayedTaskList (unblock_task t k) = pxDelayedTaskList k"
  "pxOverflowDelayedTaskList (unblock_task t k) = pxOverflowDelayedTaskList k"
  "uxTasksDeleted (unblock_task t k) = uxTasksDeleted k"
  "uxCurrentNumberOfTasks (unblock_task t k) = uxCurrentNumberOfTasks k"
  "xTickCount (unblock_task t k) = xTickCount k"
  "xSchedulerRunning (unblock_task t k) = xSchedulerRunning k"
  "uxPendedTicks (unblock_task t k) = uxPendedTicks k"
  "xYieldPending (unblock_task t k) = xYieldPending k"
  "xNumOfOverflows (unblock_task t k) = xNumOfOverflows k"
  "uxTaskNumber (unblock_task t k) = uxTaskNumber k"
  "xNextTaskUnblockTime (unblock_task t k) = xNextTaskUnblockTime k"
  "uxSchedulerSuspended (unblock_task t k) = uxSchedulerSuspended k"
  "ulCriticalNesting (unblock_task t k) = ulCriticalNesting k"
  "ulPortYieldPending (unblock_task t k) = ulPortYieldPending k"
  "interrupts_on (unblock_task t k) = interrupts_on k"
  "ext_calls (unblock_task t k) = ext_calls k"
  by (simp_all add: unblock_task_def Let_def listLIST_ITEM_CONTAINER_def fun_upd_twist fun_upd_idem)

lemma kinv_unblock_task:
  assumes k: "kinvd D {} k" and t: "gcont k t = Some l" and l: "l \<noteq> Termination"
  shows "kinvd D {} (unblock_task t k)"
proof -
  have k1: "kinvd D {t} (remove_generic_item t k)"
    using kinv_remove_generic_item [OF k t l] by simp
  show ?thesis
    using kinv_add_ready [OF k1, of t] kinv_add_ready [OF kinv_remove_event_item [OF k1], of t t]
    by (simp add: unblock_task_def Let_def)
qed

definition due :: "u32 \<Rightarrow> kernel \<Rightarrow> nat set" where
  "due c k = {t. gcont k t = Some (pxDelayedTaskList k) \<and> gval k t \<le> c}"

text \<open>
  What the loop of the tick interrupt does, as a relation between the state before and
  after: the tasks of a set \<open>W\<close> have moved to the ready list of their priority and out of
  their event list; everything else but the ready bits and the next unblock time is as before.
\<close>

definition woken :: "nat set \<Rightarrow> kernel \<Rightarrow> kernel \<Rightarrow> bool" where
  "woken W k k' \<longleftrightarrow>
     (\<forall>t. gcont k' t = (if t \<in> W then Some (Ready (prio k t)) else gcont k t)) \<and>
     (\<forall>t. econt k' t = (if t \<in> W then None else econt k t)) \<and>
     xItemValue (lists k') = xItemValue (lists k) \<and> tcb k' = tcb k \<and> live k' = live k \<and>
     evlists k' = evlists k \<and> pxCurrentTCB k' = pxCurrentTCB k \<and>
     pxDelayedTaskList k' = pxDelayedTaskList k \<and>
     pxOverflowDelayedTaskList k' = pxOverflowDelayedTaskList k \<and>
     xTickCount k' = xTickCount k \<and> uxPendedTicks k' = uxPendedTicks k \<and>
     xYieldPending k' = xYieldPending k \<and> xNumOfOverflows k' = xNumOfOverflows k \<and>
     uxSchedulerSuspended k' = uxSchedulerSuspended k \<and>
     uxCurrentNumberOfTasks k' = uxCurrentNumberOfTasks k \<and>
     xSchedulerRunning k' = xSchedulerRunning k \<and> ext_calls k' = ext_calls k \<and>
     ulCriticalNesting k' = ulCriticalNesting k \<and> ulPortYieldPending k' = ulPortYieldPending k \<and>
     interrupts_on k' = interrupts_on k"

lemma woken_none: "woken {} k (k\<lparr>xNextTaskUnblockTime := n\<rparr>)" "woken {} k k"
  by (simp_all add: woken_def)

lemma woken_step:
  assumes "woken W (unblock_task t k) k'"
  shows "woken (insert t W) k k'"
  using assms by (auto simp: woken_def)

lemma finite_in_list:
  assumes "kinvd D X k"
  shows "finite {t. gcont k t = Some l}"
  using kinv_liveD(1) [OF assms] kinv_parts(3) [OF assms]
  by (auto simp: kinv_tasks_def intro: finite_subset [of _ "live k"])

text \<open>The three outcomes of one iteration.\<close>

lemma unblock_loop_cases:
  assumes k: "kinvd True {} k" and c: "c = xTickCount k"
  obtains (stop) n where "unblock_loop c k sw = Some (k\<lparr>xNextTaskUnblockTime := n\<rparr>, sw)"
      "due c k = {}" "kinv {} (k\<lparr>xNextTaskUnblockTime := n\<rparr>)"
  | (wake) t where "unblock_loop c k sw =
        unblock_loop c (unblock_task t k) (sw \<or> prio k (cur k) \<le> prio k t)"
      "gcont k t = Some (pxDelayedTaskList k)" "gval k t \<le> c"
proof (cases "uxNumberOfItems (lists k) (pxDelayedTaskList k) = 0")
  case True
  then have ne: "gcont k t \<noteq> Some (pxDelayedTaskList k)" for t
    using empty_iff [OF k delayed_list_mem(1) [OF k]] by auto
  show thesis
  proof (rule stop [of portMAX_DELAY])
    show "unblock_loop c k sw = Some (k\<lparr>xNextTaskUnblockTime := portMAX_DELAY\<rparr>, sw)"
      using True by (simp add: unblock_loop.simps listLIST_IS_EMPTY_def)
    show "due c k = {}" using ne by (simp add: due_def)
    show "kinv {} (k\<lparr>xNextTaskUnblockTime := portMAX_DELAY\<rparr>)"
      by (rule kinv_set_next [OF k]) (use ne in auto)
  qed
next
  case False
  obtain t where t: "listGET_OWNER_OF_HEAD_ENTRY (pxDelayedTaskList k) (lists k) = Some t"
      "gcont k t = Some (pxDelayedTaskList k)"
      "\<And>u. gcont k u = Some (pxDelayedTaskList k) \<Longrightarrow> gval k t \<le> gval k u"
    using delayed_head [OF k False] by blast
  have un: "unblock_loop c k sw =
      (if c < gval k t then Some (k\<lparr>xNextTaskUnblockTime := gval k t\<rparr>, sw)
       else unblock_loop c (unblock_task t k) (sw \<or> prio k (cur k) \<le> prio k t))"
    using False t(1) by (subst unblock_loop.simps)
      (simp add: listLIST_IS_EMPTY_def listGET_LIST_ITEM_VALUE_def cur_def)
  show thesis
  proof (cases "c < gval k t")
    case True
    show thesis
    proof (rule stop [of "gval k t"])
      show "due c k = {}" using t(3) True by (force simp: due_def)
      show "kinv {} (k\<lparr>xNextTaskUnblockTime := gval k t\<rparr>)"
        by (rule kinv_set_next [OF k]) (use t(3) True c in \<open>auto intro: less_le_trans\<close>)
    qed (simp add: un True)
  next
    case False
    with un t(2) show thesis by (intro wake [of t]) auto
  qed
qed

lemma unblock_loop_ok:
  assumes "kinvd True {} k" and "c = xTickCount k"
  shows "\<exists>k' sw'. unblock_loop c k sw = Some (k', sw') \<and> kinv {} k' \<and> woken (due c k) k k' \<and>
    (sw' \<longleftrightarrow> sw \<or> (\<exists>t \<in> due c k. prio k (cur k) \<le> prio k t))"
  using assms
proof (induction "card {t. gcont k t = Some (pxDelayedTaskList k)}" arbitrary: k sw rule: less_induct)
  case less
  from less.prems show ?case
  proof (cases rule: unblock_loop_cases [where sw = sw])
    case (stop n)
    then show ?thesis using woken_none(1) [of k n] by auto
  next
    case (wake t)
    let ?k1 = "unblock_task t k" and ?d = "pxDelayedTaskList k"
    have nt: "?d \<noteq> Termination"
      using delayed_pairD(1) [OF kinv_timeD(1) [OF less.prems(1)]] by auto
    have nr: "?d \<noteq> Ready p" "Ready p \<noteq> ?d" for p
      using delayed_pairD(1) [OF kinv_timeD(1) [OF less.prems(1)]] by auto
    have k1: "kinvd True {} ?k1" by (rule kinv_unblock_task [OF less.prems(1) wake(2) nt])
    have c1: "c = xTickCount ?k1" using less.prems(2) by simp
    have "{u. gcont ?k1 u = Some (pxDelayedTaskList ?k1)} \<subset> {u. gcont k u = Some ?d}"
      using nr wake(2) by (auto split: if_splits)
    then have "card {u. gcont ?k1 u = Some (pxDelayedTaskList ?k1)} < card {u. gcont k u = Some ?d}"
      by (rule psubset_card_mono [OF finite_in_list [OF less.prems(1)]])
    from less.hyps [OF this k1 c1, of "sw \<or> prio k (cur k) \<le> prio k t"] obtain k' sw' where
      r: "unblock_loop c ?k1 (sw \<or> prio k (cur k) \<le> prio k t) = Some (k', sw')" "kinv {} k'"
        "woken (due c ?k1) ?k1 k'"
        "sw' \<longleftrightarrow> (sw \<or> prio k (cur k) \<le> prio k t) \<or>
           (\<exists>u \<in> due c ?k1. prio ?k1 (cur ?k1) \<le> prio ?k1 u)"
      by blast
    have d: "due c k = insert t (due c ?k1)" using wake nr by (auto simp: due_def)
    have "woken (due c k) k k'" unfolding d by (rule woken_step [OF r(3)])
    moreover have "sw' \<longleftrightarrow> sw \<or> (\<exists>u \<in> due c k. prio k (cur k) \<le> prio k u)"
      using r(4) by (auto simp: d cur_def)
    ultimately show ?thesis using r(1,2) wake(1) by auto
  qed
qed

text \<open>
  The state after the count has moved on and, at wrap-around, the lists have been switched.
\<close>

definition tick_started :: "kernel \<Rightarrow> kernel" where
  "tick_started k =
     (let k1 = k\<lparr>xTickCount := xTickCount k + 1\<rparr>
      in if xTickCount k1 = 0
         then k1\<lparr>pxDelayedTaskList := pxOverflowDelayedTaskList k,
                pxOverflowDelayedTaskList := pxDelayedTaskList k, xNumOfOverflows := xNumOfOverflows k + 1,
                xNextTaskUnblockTime := xNextTaskUnblockTime (taskSWITCH_DELAYED_LISTS k1)\<rparr>
         else k1)"

lemma switch_lists_eq:
  "(if xTickCount k + 1 = 0 then taskSWITCH_DELAYED_LISTS (k\<lparr>xTickCount := xTickCount k + 1\<rparr>)
    else k\<lparr>xTickCount := xTickCount k + 1\<rparr>) = tick_started k"
  by (simp add: tick_started_def Let_def taskSWITCH_DELAYED_LISTS_def
      prvResetNextTaskUnblockTime_def split: option.split)

text \<open>Tasks that wake at the coming tick, from whichever of the two lists they are in.\<close>

definition expire :: "kernel \<Rightarrow> nat set" where
  "expire k = {t. (gcont k t = Some (pxDelayedTaskList k) \<or>
     gcont k t = Some (pxOverflowDelayedTaskList k)) \<and> gval k t = xTickCount k + 1}"

lemma word_plus1_facts:
  fixes w :: u32
  shows "w + 1 \<noteq> 0 \<Longrightarrow> w < v \<Longrightarrow> w + 1 \<le> v" and "w + 1 \<noteq> 0 \<Longrightarrow> w < w + 1"
    and "w + 1 = 0 \<Longrightarrow> \<not> w < v" and "w + 1 \<noteq> 0 \<Longrightarrow> v < w \<Longrightarrow> v < w + 1"
    and "w + 1 = 0 \<Longrightarrow> w = portMAX_DELAY"
proof -
  show a: "w + 1 \<noteq> 0 \<Longrightarrow> w < w + 1"
    using unatSuc [of w] by (simp add: add.commute word_less_nat_alt)
  show "w + 1 \<noteq> 0 \<Longrightarrow> w < v \<Longrightarrow> w + 1 \<le> v" by (rule inc_le)
  show "w + 1 \<noteq> 0 \<Longrightarrow> v < w \<Longrightarrow> v < w + 1" using a by (blast intro: less_trans)
  show m: "w + 1 = 0 \<Longrightarrow> w = portMAX_DELAY"
    by (simp add: max_delay_eq eq_neg_iff_add_eq_0)
  show "w + 1 = 0 \<Longrightarrow> \<not> w < v" using m max_word_is_max_delay [of v] by (simp add: not_less)
qed

lemma kinv_frame_time:
  assumes "kinvd D X k" and "kinv_time D' k'"
    and "lists k' = lists k" "tcb k' = tcb k" "live k' = live k" "evlists k' = evlists k"
      "uxCurrentNumberOfTasks k' = uxCurrentNumberOfTasks k" "uxTasksDeleted k' = uxTasksDeleted k"
      "uxTopReadyPriority k' = uxTopReadyPriority k"
  shows "kinvd D' X k'"
  using assms by (simp add: kinvd_def kinv_lists_def kinv_tasks_def kinv_ready_def terminated_def)

lemma kinv_tick_plain:
  assumes k: "kinv {} k" and c: "xTickCount k + 1 \<noteq> 0"
  shows "kinvd True {} (k\<lparr>xTickCount := xTickCount k + 1\<rparr>)" (is "kinvd _ _ ?k1")
proof (rule kinv_frame_time [OF k])
  show "kinv_time True ?k1"
  proof (rule kinv_timeI)
    show "delayed_pair ?k1" using kinv_timeD(1) [OF k] by simp
    show "delayed_sorted l ?k1" if "l \<in> {Delayed1, Delayed2}" for l
      using kinv_delayed_sorted [OF k that] by (simp add: delayed_sorted_def)
  qed (use kinv_timeD [OF k] word_plus1_facts(1,2,4) [OF c] in auto)
qed simp_all

lemma reset_next_again:
  assumes "kinvd D X (k\<lparr>xNextTaskUnblockTime := n\<rparr>)"
  shows "prvResetNextTaskUnblockTime (k\<lparr>xNextTaskUnblockTime := n\<rparr>) = prvResetNextTaskUnblockTime k"
proof (cases "uxNumberOfItems (lists k) (pxDelayedTaskList k) = 0")
  case False
  then obtain t where "listGET_OWNER_OF_HEAD_ENTRY (pxDelayedTaskList k) (lists k) = Some t"
    using delayed_head [OF assms] by auto
  with False show ?thesis by (simp add: prvResetNextTaskUnblockTime_def listLIST_IS_EMPTY_def)
qed (simp add: prvResetNextTaskUnblockTime_def listLIST_IS_EMPTY_def)

lemma kinv_tick_wrap:
  assumes k: "kinv {} k" and c: "xTickCount k + 1 = 0"
  shows "kinvd True {} (taskSWITCH_DELAYED_LISTS (k\<lparr>xTickCount := xTickCount k + 1\<rparr>))"
proof -
  let ?k1 = "k\<lparr>xTickCount := xTickCount k + 1, pxDelayedTaskList := pxOverflowDelayedTaskList k,
       pxOverflowDelayedTaskList := pxDelayedTaskList k, xNumOfOverflows := xNumOfOverflows k + 1\<rparr>"
  have "kinvd True {} (?k1\<lparr>xNextTaskUnblockTime := 0\<rparr>)" (is "kinvd _ _ ?k2")
  proof (rule kinv_frame_time [OF k])
    show "kinv_time True ?k2"
    proof (rule kinv_timeI)
      show "delayed_pair ?k2" using kinv_timeD(1) [OF k] by (auto simp: delayed_pair_def)
      show "delayed_sorted l ?k2" if "l \<in> {Delayed1, Delayed2}" for l
        using kinv_delayed_sorted [OF k that] by (simp add: delayed_sorted_def)
      show "gval ?k2 t < xTickCount ?k2"
        if "gcont ?k2 t = Some (pxOverflowDelayedTaskList ?k2)" for t
        using kinv_timeD(2) [OF k, of t] word_plus1_facts(3) [OF c] that by simp
    qed (use c in simp_all)
  qed simp_all
  from kinv_reset_next [OF this] reset_next_again [OF this] show ?thesis
    by (simp add: taskSWITCH_DELAYED_LISTS_def)
qed

lemma kinv_tick_started:
  "kinv {} k \<Longrightarrow> kinvd True {} (tick_started k)"
  using kinv_tick_plain [of k] kinv_tick_wrap [of k] switch_lists_eq [of k]
  by (cases "xTickCount k + 1 = 0") simp_all

lemma tick_started_frame [simp, kernel_frame]:
  "lists (tick_started k) = lists k" "tcb (tick_started k) = tcb k" "live (tick_started k) = live k"
  "evlists (tick_started k) = evlists k" "pxCurrentTCB (tick_started k) = pxCurrentTCB k"
  "xTickCount (tick_started k) = xTickCount k + 1" "uxPendedTicks (tick_started k) = uxPendedTicks k"
  "xYieldPending (tick_started k) = xYieldPending k" "ext_calls (tick_started k) = ext_calls k"
  "uxSchedulerSuspended (tick_started k) = uxSchedulerSuspended k"
  "uxCurrentNumberOfTasks (tick_started k) = uxCurrentNumberOfTasks k"
  "xSchedulerRunning (tick_started k) = xSchedulerRunning k"
  "ulCriticalNesting (tick_started k) = ulCriticalNesting k"
  "ulPortYieldPending (tick_started k) = ulPortYieldPending k"
  "interrupts_on (tick_started k) = interrupts_on k"
  "pxDelayedTaskList (tick_started k) =
     (if xTickCount k + 1 = 0 then pxOverflowDelayedTaskList k else pxDelayedTaskList k)"
  "pxOverflowDelayedTaskList (tick_started k) =
     (if xTickCount k + 1 = 0 then pxDelayedTaskList k else pxOverflowDelayedTaskList k)"
  "xNumOfOverflows (tick_started k) =
     (if xTickCount k + 1 = 0 then xNumOfOverflows k + 1 else xNumOfOverflows k)"
  by (simp_all add: tick_started_def Let_def)

lemma due_expire:
  assumes k: "kinv {} k"
  shows "due (xTickCount k + 1) (tick_started k) = expire k"
proof -
  let ?c = "xTickCount k + 1"
  have d: "xTickCount k < gval k t" if "gcont k t = Some (pxDelayedTaskList k)" for t
    using kinv_timeD(2) [OF k that] by simp
  have o: "gval k t < xTickCount k" if "gcont k t = Some (pxOverflowDelayedTaskList k)" for t
    using kinv_timeD(4) [OF k that] .
  show ?thesis
  proof (cases "?c = 0")
    case True
    have "\<not> xTickCount k < v" for v by (rule word_plus1_facts(3) [OF True])
    with True d show ?thesis by (auto simp: due_def expire_def)
  next
    case False
    note w = word_plus1_facts(1,2,4) [OF False]
    have "gval k t \<noteq> ?c" if "gcont k t = Some (pxOverflowDelayedTaskList k)" for t
      using w(3) [OF o [OF that]] by auto
    moreover have "gval k t = ?c" if "gcont k t = Some (pxDelayedTaskList k)" "gval k t \<le> ?c" for t
      using w(1) [OF d [OF that(1)]] that(2) by (rule order.antisym [rotated])
    ultimately show ?thesis using False by (auto simp: due_def expire_def)
  qed
qed

text \<open>One tick of a running scheduler.\<close>

lemma increment_tick_running:
  assumes "uxSchedulerSuspended k = 0"
  shows "xTaskIncrementTick k =
    Option.bind (if xNextTaskUnblockTime (tick_started k) \<le> xTickCount k + 1
                 then unblock_loop (xTickCount k + 1) (tick_started k) False
                 else Some (tick_started k, False))
      (\<lambda>(k3, sw). Some (if uxPendedTicks k3 = 0 then vApplicationTickHook k3 else k3,
         (sw \<or> uxNumberOfItems (lists k3) (Ready (prio k3 (cur k3))) > 1) \<or>
         xYieldPending (if uxPendedTicks k3 = 0 then vApplicationTickHook k3 else k3)))"
proof -
  have "xTickCount (k\<lparr>xTickCount := n\<rparr>) = n" for n by simp
  with assms show ?thesis
    unfolding xTaskIncrementTick_def Let_def listCURRENT_LIST_LENGTH_def
    by (simp only: switch_lists_eq if_True refl)
qed

lemma increment_tick_ok:
  assumes k: "kinv {} k" and run: "uxSchedulerSuspended k = 0"
  shows "\<exists>k3 k' sw. xTaskIncrementTick k = Some (k', sw) \<and> kinv {} k3 \<and>
    woken (expire k) (tick_started k) k3 \<and>
    k' = (if uxPendedTicks k = 0 then vApplicationTickHook k3 else k3) \<and>
    (sw \<longleftrightarrow> (\<exists>t \<in> expire k. prio k (cur k) \<le> prio k t) \<or>
       uxNumberOfItems (lists k') (Ready (prio k (cur k))) > 1 \<or> xYieldPending k)"
proof -
  let ?c = "xTickCount k + 1" and ?k2 = "tick_started k"
  have k2: "kinvd True {} ?k2" by (rule kinv_tick_started [OF k])
  note d = due_expire [OF k]
  have "\<exists>k3 sw. (if xNextTaskUnblockTime ?k2 \<le> ?c then unblock_loop ?c ?k2 False
        else Some (?k2, False)) = Some (k3, sw) \<and> kinv {} k3 \<and> woken (expire k) ?k2 k3 \<and>
      (sw \<longleftrightarrow> (\<exists>t \<in> expire k. prio k (cur k) \<le> prio k t))"
  proof (cases "xNextTaskUnblockTime ?k2 \<le> ?c")
    case True
    then show ?thesis
      using unblock_loop_ok [OF k2, of ?c False] d by (simp add: cur_def)
  next
    case False
    have gt: "?c < gval ?k2 t" if "gcont ?k2 t = Some (pxDelayedTaskList ?k2)" for t
      using kinv_timeD(3) [OF k2 that] False by (simp add: not_le)
    then have e: "expire k = {}" unfolding d [symmetric] by (force simp: due_def)
    have "kinvd False {} (?k2\<lparr>xNextTaskUnblockTime := xNextTaskUnblockTime ?k2\<rparr>)"
      by (rule kinv_set_next [OF k2]) (use gt kinv_timeD(3) [OF k2] False in auto)
    with False e woken_none(2) [of ?k2] show ?thesis by auto
  qed
  then obtain k3 sw where r: "(if xNextTaskUnblockTime ?k2 \<le> ?c then unblock_loop ?c ?k2 False
        else Some (?k2, False)) = Some (k3, sw)" "kinv {} k3" "woken (expire k) ?k2 k3"
      "sw \<longleftrightarrow> (\<exists>t \<in> expire k. prio k (cur k) \<le> prio k t)" by blast
  let ?k' = "if uxPendedTicks k = 0 then vApplicationTickHook k3 else k3"
  have f: "uxPendedTicks k3 = uxPendedTicks k" "xYieldPending k3 = xYieldPending k"
    "tcb k3 = tcb k" "cur k3 = cur k"
    using r(3) by (simp_all add: woken_def cur_def)
  have "xTaskIncrementTick k = Some (?k', sw \<or>
      uxNumberOfItems (lists ?k') (Ready (prio k (cur k))) > 1 \<or> xYieldPending k)"
    unfolding increment_tick_running [OF run] r(1) using f by (simp add: vApplicationTickHook_def)
  with r show ?thesis by blast
qed

section \<open>Resuming the scheduler\<close>

text \<open>The wake-ups held back while the scheduler was suspended.\<close>

definition pending :: "kernel \<Rightarrow> nat set" where
  "pending k = {t. econt k t = Some PendingReady}"

lemma pending_head:
  assumes k: "kinvd D {} k" and ne: "uxNumberOfItems (lists k) PendingReady \<noteq> 0"
  obtains t where "listGET_OWNER_OF_HEAD_ENTRY PendingReady (lists k) = Some t" and "t \<in> pending k"
proof -
  have K: "PendingReady \<in> KL k" by simp
  note si = set_items [OF kinv_wf [OF k] K]
  have "items (lists k) PendingReady \<noteq> []" using ne empty_iff [OF k, of PendingReady] si by auto
  then obtain i js where i: "items (lists k) PendingReady = i # js"
    by (cases "items (lists k) PendingReady") auto
  then have ic: "pvContainer (lists k) i = Some PendingReady" using si by auto
  have "\<exists>t. i = Event t"
  proof (cases i)
    case (Generic t)
    then show ?thesis using kinv_contD(1) [OF k, of t] ic by simp
  next
    case (TimerItem m)
    then show ?thesis
      using kinv_contD(4) [OF k, of m] ic evlists_not_task [OF k, of PendingReady] by simp
  qed simp
  then obtain t where t: "i = Event t" ..
  with ic have "t \<in> live k" using kinv_liveD(2) [OF k] by simp
  then show thesis
    using that [of t] head_owner(1) [OF kinv_wf [OF k] K] kinv_tcbD(4) [OF k] ic t
    by (simp add: i pending_def)
qed

lemma pending_move:
  assumes k: "kinvd D {} k" and t: "t \<in> pending k"
  shows "kinvd D {} (prvAddTaskToReadyList t (remove_generic_item t (remove_event_item t k)))"
proof -
  have e: "econt k t = Some PendingReady" using t by (simp add: pending_def)
  obtain l where l: "gcont k t = Some l"
    using kinv_liveD(5) [OF k kinv_liveD(2) [OF k e]] by blast
  then have "l \<noteq> Termination" using kinv_contD(5) [OF k e] by auto
  then show ?thesis using kinv_move_to_ready [OF kinv_remove_event_item [OF k]] l by simp
qed

lemma finite_pending: "kinvd D X k \<Longrightarrow> finite (pending k)"
  using kinv_liveD(2) [of D X k] kinv_parts(3) [of D X k]
  by (auto simp: pending_def kinv_tasks_def intro: finite_subset [of _ "live k"])

lemma pending_ready_loop_ok:
  assumes "kinv {} k"
  shows "\<exists>k'. pending_ready_loop k = Some k' \<and> kinv {} k' \<and>
    woken (pending k) k (k'\<lparr>xYieldPending := xYieldPending k\<rparr>) \<and>
    (xYieldPending k' \<longleftrightarrow> xYieldPending k \<or> (\<exists>t \<in> pending k. prio k (cur k) \<le> prio k t))"
  using assms
proof (induction "card (pending k)" arbitrary: k rule: less_induct)
  case less
  show ?case
  proof (cases "uxNumberOfItems (lists k) PendingReady = 0")
    case True
    then have "pending k = {}" using empty_iff [OF less.prems, of PendingReady] by (auto simp: pending_def)
    with True less.prems show ?thesis
      by (auto simp: pending_ready_loop.simps listLIST_IS_EMPTY_def woken_def)
  next
    case False
    obtain t where t: "listGET_OWNER_OF_HEAD_ENTRY PendingReady (lists k) = Some t" "t \<in> pending k"
      using pending_head [OF less.prems False] by blast
    let ?k1 = "prvAddTaskToReadyList t (remove_generic_item t (remove_event_item t k))"
    let ?k2 = "if prio k (cur k) \<le> prio k t then ?k1\<lparr>xYieldPending := True\<rparr> else ?k1"
    have k2: "kinv {} ?k2" using pending_move [OF less.prems t(2)] by simp
    have p2: "pending ?k2 = pending k - {t}" by (auto simp: pending_def)
    have "card (pending ?k2) < card (pending k)"
      unfolding p2 using t(2) finite_pending [OF less.prems] by (rule card_Diff1_less [rotated])
    from less.hyps [OF this k2] obtain k' where r: "pending_ready_loop ?k2 = Some k'" "kinv {} k'"
      "woken (pending k - {t}) ?k2 (k'\<lparr>xYieldPending := xYieldPending ?k2\<rparr>)"
      "xYieldPending k' \<longleftrightarrow> xYieldPending ?k2 \<or>
         (\<exists>u \<in> pending k - {t}. prio ?k2 (cur ?k2) \<le> prio ?k2 u)"
      unfolding p2 by blast
    have "pending_ready_loop k = pending_ready_loop ?k2"
      using False t(1) by (subst pending_ready_loop.simps) (simp add: listLIST_IS_EMPTY_def cur_def)
    moreover have "woken (pending k) k (k'\<lparr>xYieldPending := xYieldPending k\<rparr>)"
      using r(3) t(2) by (auto simp: woken_def split: if_splits)
    moreover have "xYieldPending k' \<longleftrightarrow> xYieldPending k \<or> (\<exists>u \<in> pending k. prio k (cur k) \<le> prio k u)"
      using r(4) t(2) by (auto simp: cur_def split: if_splits)
    ultimately show ?thesis using r(1,2) by auto
  qed
qed

text \<open>
  The ticks held back. \<open>remaining\<close> is the number of ticks until a blocked task is due,
  whichever list it is in; after \<open>n\<close> held-back ticks exactly the tasks with at most
  \<open>n\<close> remaining have become ready.
\<close>

definition timed :: "kernel \<Rightarrow> nat \<Rightarrow> bool" where
  "timed k t \<longleftrightarrow> gcont k t = Some Delayed1 \<or> gcont k t = Some Delayed2"

definition remaining :: "kernel \<Rightarrow> nat \<Rightarrow> u32" where
  "remaining k t = gval k t - xTickCount k"

lemma timed_alt:
  "kinvd D X k \<Longrightarrow> timed k t \<longleftrightarrow> gcont k t = Some (pxDelayedTaskList k) \<or>
     gcont k t = Some (pxOverflowDelayedTaskList k)"
  using kinv_timeD(1) [of D X k] by (auto simp: timed_def delayed_pair_def)

lemma remaining_nonzero: "kinv X k \<Longrightarrow> timed k t \<Longrightarrow> remaining k t \<noteq> 0"
  using kinv_timeD(2,4) [of False X k t] timed_alt [of False X k t] by (auto simp: remaining_def)

lemma expire_remaining: "kinv X k \<Longrightarrow> expire k = {t. timed k t \<and> remaining k t = 1}"
  by (auto simp: expire_def remaining_def timed_alt algebra_simps)

lemma word_pred_le:
  fixes d n :: u32
  assumes "d \<noteq> 0" and "n \<noteq> 0"
  shows "d - 1 \<le> n - 1 \<longleftrightarrow> d \<le> n"
  using assms by (simp add: word_le_nat_alt unat_minus_one) (metis Suc_le_mono Suc_pred unat_gt_0)

text \<open>What a tick does in terms of \<open>remaining\<close>.\<close>

lemma tick_step:
  assumes k: "kinv {} k" and run: "uxSchedulerSuspended k = 0"
  obtains k' sw where "xTaskIncrementTick k = Some (k', sw)" "kinv {} k'"
    "\<And>t. gcont k' t = (if timed k t \<and> remaining k t = 1 then Some (Ready (prio k t)) else gcont k t)"
    "\<And>t. econt k' t = (if timed k t \<and> remaining k t = 1 then None else econt k t)"
    "gval k' = gval k" "xTickCount k' = xTickCount k + 1" "tcb k' = tcb k" "live k' = live k"
    "pxCurrentTCB k' = pxCurrentTCB k" "uxPendedTicks k' = uxPendedTicks k"
    "uxSchedulerSuspended k' = 0" "xSchedulerRunning k' = xSchedulerRunning k"
    "ext_calls k' = (if uxPendedTicks k = 0 then TickHook # ext_calls k else ext_calls k)"
    "ulCriticalNesting k' = ulCriticalNesting k" "ulPortYieldPending k' = ulPortYieldPending k"
    "interrupts_on k' = interrupts_on k" "evlists k' = evlists k"
proof -
  obtain k3 k' sw where r: "xTaskIncrementTick k = Some (k', sw)" "kinv {} k3"
    "woken (expire k) (tick_started k) k3"
    "k' = (if uxPendedTicks k = 0 then vApplicationTickHook k3 else k3)"
    using increment_tick_ok [OF k run] by blast
  note e = expire_remaining [OF k]
  show thesis
    by (rule that [OF r(1)])
       (use r(2-4) run in \<open>auto simp: woken_def vApplicationTickHook_def e\<close>)
qed

lemma pended_ticks_loop_ok:
  assumes "kinv {} k" and "uxSchedulerSuspended k = 0"
  shows "\<exists>k'. pended_ticks_loop k = Some k' \<and> kinv {} k' \<and>
    (\<forall>t. gcont k' t = (if timed k t \<and> remaining k t \<le> uxPendedTicks k
       then Some (Ready (prio k t)) else gcont k t)) \<and>
    (\<forall>t. econt k' t = (if timed k t \<and> remaining k t \<le> uxPendedTicks k then None else econt k t)) \<and>
    gval k' = gval k \<and> xTickCount k' = xTickCount k + uxPendedTicks k \<and> tcb k' = tcb k \<and>
    live k' = live k \<and> pxCurrentTCB k' = pxCurrentTCB k \<and> uxPendedTicks k' = 0 \<and>
    uxSchedulerSuspended k' = 0 \<and> xSchedulerRunning k' = xSchedulerRunning k \<and>
    ext_calls k' = ext_calls k \<and> ulCriticalNesting k' = ulCriticalNesting k \<and>
    ulPortYieldPending k' = ulPortYieldPending k \<and> interrupts_on k' = interrupts_on k \<and>
    evlists k' = evlists k"
  using assms
proof (induction "unat (uxPendedTicks k)" arbitrary: k rule: less_induct)
  case less
  show ?case
  proof (cases "uxPendedTicks k = 0")
    case True
    have "\<not> (timed k t \<and> remaining k t \<le> 0)" for t using remaining_nonzero [OF less.prems(1)] by auto
    with True less.prems show ?thesis by (auto simp: pended_ticks_loop.simps)
  next
    case False
    let ?n = "uxPendedTicks k"
    obtain k1 sw where r: "xTaskIncrementTick k = Some (k1, sw)" "kinv {} k1"
      "\<And>t. gcont k1 t = (if timed k t \<and> remaining k t = 1 then Some (Ready (prio k t)) else gcont k t)"
      "\<And>t. econt k1 t = (if timed k t \<and> remaining k t = 1 then None else econt k t)"
      "gval k1 = gval k" "xTickCount k1 = xTickCount k + 1" "tcb k1 = tcb k" "live k1 = live k"
      "pxCurrentTCB k1 = pxCurrentTCB k" "uxPendedTicks k1 = uxPendedTicks k"
      "uxSchedulerSuspended k1 = 0" "xSchedulerRunning k1 = xSchedulerRunning k"
      "ext_calls k1 = ext_calls k"
      "ulCriticalNesting k1 = ulCriticalNesting k" "ulPortYieldPending k1 = ulPortYieldPending k"
      "interrupts_on k1 = interrupts_on k" "evlists k1 = evlists k"
      by (rule tick_step [OF less.prems]) (use False in auto)
    define k2 where "k2 = (if sw then k1\<lparr>xYieldPending := True\<rparr> else k1)\<lparr>uxPendedTicks := ?n - 1\<rparr>"
    have f: "gval k2 = gval k" "xTickCount k2 = xTickCount k + 1" "tcb k2 = tcb k" "live k2 = live k"
      "pxCurrentTCB k2 = pxCurrentTCB k" "uxPendedTicks k2 = ?n - 1"
      "uxSchedulerSuspended k2 = 0" "xSchedulerRunning k2 = xSchedulerRunning k"
      "ext_calls k2 = ext_calls k" "ulCriticalNesting k2 = ulCriticalNesting k"
      "ulPortYieldPending k2 = ulPortYieldPending k" "interrupts_on k2 = interrupts_on k"
      "evlists k2 = evlists k"
      using r(5-) by (auto simp: k2_def)
    have g: "gcont k2 t = (if timed k t \<and> remaining k t = 1 then Some (Ready (prio k t)) else gcont k t)"
      "econt k2 t = (if timed k t \<and> remaining k t = 1 then None else econt k t)" for t
      using r(3,4) [of t] by (simp_all add: k2_def)
    have lt: "unat (uxPendedTicks k2) < unat ?n"
      using False f(6) by (simp add: unat_minus_one unat_gt_0)
    have k2: "kinv {} k2" using r(2) by (simp add: k2_def)
    have un: "pended_ticks_loop k = pended_ticks_loop k2"
      using False r(1,10) by (subst pended_ticks_loop.simps) (simp add: word_gt_0 k2_def)
    have key: "timed k2 t \<and> remaining k2 t \<le> ?n - 1 \<longleftrightarrow>
        timed k t \<and> remaining k t \<noteq> 1 \<and> remaining k t \<le> ?n" for t
    proof (cases "timed k t")
      case True
      have nz: "remaining k t \<noteq> 0" by (rule remaining_nonzero [OF less.prems(1) True])
      have "remaining k2 t = remaining k t - 1"
        using fun_cong [OF f(1), of t] f(2) by (simp add: remaining_def)
      then have le: "remaining k2 t \<le> ?n - 1 \<longleftrightarrow> remaining k t \<le> ?n"
        using word_pred_le [OF nz False] by simp
      have "timed k2 t \<longleftrightarrow> remaining k t \<noteq> 1"
        using True g(1) [of t] unfolding timed_def by auto
      with le True show ?thesis by blast
    next
      case nt: False
      then have "\<not> timed k2 t" using g(1) [of t] unfolding timed_def by auto
      with nt show ?thesis by blast
    qed
    have one: "1 \<le> ?n" using False by (simp add: word_le_nat_alt Suc_le_eq unat_gt_0)
    obtain k' where q: "pended_ticks_loop k2 = Some k'" "kinv {} k'"
      "\<And>t. gcont k' t = (if timed k2 t \<and> remaining k2 t \<le> ?n - 1 then Some (Ready (prio k2 t)) else gcont k2 t)"
      "\<And>t. econt k' t = (if timed k2 t \<and> remaining k2 t \<le> ?n - 1 then None else econt k2 t)"
      "gval k' = gval k2" "xTickCount k' = xTickCount k2 + (?n - 1)" "tcb k' = tcb k2" "live k' = live k2"
      "pxCurrentTCB k' = pxCurrentTCB k2" "uxPendedTicks k' = 0" "uxSchedulerSuspended k' = 0"
      "xSchedulerRunning k' = xSchedulerRunning k2" "ext_calls k' = ext_calls k2"
      "ulCriticalNesting k' = ulCriticalNesting k2" "ulPortYieldPending k' = ulPortYieldPending k2"
      "interrupts_on k' = interrupts_on k2" "evlists k' = evlists k2"
      using less.hyps [OF lt k2 f(7)] f(6) by auto
    show ?thesis
    proof (intro exI [of _ k'] conjI allI)
      fix t
      show "gcont k' t = (if timed k t \<and> remaining k t \<le> ?n then Some (Ready (prio k t)) else gcont k t)"
        using q(3) [of t] one unfolding key g f by auto
      show "econt k' t = (if timed k t \<and> remaining k t \<le> ?n then None else econt k t)"
        using q(4) [of t] one unfolding key g f by auto
    qed (simp_all add: un q f fun_cong [OF f(1)])
  qed
qed

text \<open>Resuming the scheduler, when this ends the suspension and when it does not.\<close>

lemma task_count_pos:
  assumes k: "kinvd D X k" and t: "t \<in> live k"
  shows "uxCurrentNumberOfTasks k > 0"
proof -
  have "0 < card (live k)" "card (live k) < 2 ^ 32"
    using kinv_parts(3) [OF k] t by (auto simp: kinv_tasks_def card_gt_0_iff)
  then show ?thesis
    using kinv_parts(3) [OF k]
    by (simp add: kinv_tasks_def word_less_nat_alt unat_of_nat take_bit_eq_mod)
qed

definition resumed :: "kernel \<Rightarrow> kernel \<Rightarrow> bool" where
  "resumed k k' \<longleftrightarrow>
     (\<forall>t. gcont k' t = (if t \<in> pending k \<or> timed k t \<and> remaining k t \<le> uxPendedTicks k
        then Some (Ready (prio k t)) else gcont k t)) \<and>
     (\<forall>t. econt k' t = (if t \<in> pending k \<or> timed k t \<and> remaining k t \<le> uxPendedTicks k
        then None else econt k t)) \<and>
     gval k' = gval k \<and> xTickCount k' = xTickCount k + uxPendedTicks k \<and>
     uxPendedTicks k' = 0 \<and> uxSchedulerSuspended k' = 0 \<and> tcb k' = tcb k \<and> live k' = live k \<and>
     evlists k' = evlists k \<and> xSchedulerRunning k' = xSchedulerRunning k"

lemma resume_loops_ok:
  assumes k: "kinv {} k" and sus: "uxSchedulerSuspended k = 0"
  shows "\<exists>k3 k4. pending_ready_loop k = Some k3 \<and> pended_ticks_loop k3 = Some k4 \<and>
    kinv {} k4 \<and> resumed k k4"
proof -
  obtain k3 where k3: "pending_ready_loop k = Some k3" "kinv {} k3"
    "woken (pending k) k (k3\<lparr>xYieldPending := xYieldPending k\<rparr>)"
    using pending_ready_loop_ok [OF k] by blast
  have f: "\<And>t. gcont k3 t = (if t \<in> pending k then Some (Ready (prio k t)) else gcont k t)"
    "\<And>t. econt k3 t = (if t \<in> pending k then None else econt k t)"
    "gval k3 = gval k" "tcb k3 = tcb k" "live k3 = live k" "evlists k3 = evlists k"
    "xTickCount k3 = xTickCount k" "uxPendedTicks k3 = uxPendedTicks k"
    "uxSchedulerSuspended k3 = 0" "xSchedulerRunning k3 = xSchedulerRunning k"
    using k3(3) sus by (simp_all add: woken_def)
  have tr: "timed k3 t \<and> remaining k3 t \<le> n \<longleftrightarrow>
      t \<notin> pending k \<and> timed k t \<and> remaining k t \<le> n" for t n
    using f(1) [of t] fun_cong [OF f(3), of t] by (auto simp: timed_def remaining_def f(7))
  obtain k4 where k4: "pended_ticks_loop k3 = Some k4" "kinv {} k4"
    "\<And>t. gcont k4 t = (if timed k3 t \<and> remaining k3 t \<le> uxPendedTicks k3
       then Some (Ready (prio k3 t)) else gcont k3 t)"
    "\<And>t. econt k4 t = (if timed k3 t \<and> remaining k3 t \<le> uxPendedTicks k3 then None else econt k3 t)"
    "gval k4 = gval k3" "xTickCount k4 = xTickCount k3 + uxPendedTicks k3" "tcb k4 = tcb k3"
    "live k4 = live k3" "uxPendedTicks k4 = 0" "uxSchedulerSuspended k4 = 0"
    "xSchedulerRunning k4 = xSchedulerRunning k3" "evlists k4 = evlists k3"
    using pended_ticks_loop_ok [OF k3(2) f(9)] by blast
  have "resumed k k4"
    unfolding resumed_def k4(3,4) tr f(8)
    using f k4(5-) by (auto simp: fun_cong [OF f(3)])
  with k3(1) k4(1,2) show ?thesis by blast
qed

lemma resumed_frame:
  assumes "resumed k k'" and "pvContainer (lists k'') = pvContainer (lists k')"
    "xItemValue (lists k'') = xItemValue (lists k')" "xTickCount k'' = xTickCount k'"
    "uxPendedTicks k'' = uxPendedTicks k'" "uxSchedulerSuspended k'' = uxSchedulerSuspended k'"
    "tcb k'' = tcb k'" "live k'' = live k'" "evlists k'' = evlists k'"
    "xSchedulerRunning k'' = xSchedulerRunning k'"
  shows "resumed k k''"
  using assms by (simp add: resumed_def)

lemma resumed_start:
  assumes "resumed k2 k'" and "lists k2 = lists k" "xTickCount k2 = xTickCount k"
    "uxPendedTicks k2 = uxPendedTicks k" "tcb k2 = tcb k" "live k2 = live k"
    "evlists k2 = evlists k" "xSchedulerRunning k2 = xSchedulerRunning k"
  shows "resumed k k'"
  using assms(1) unfolding resumed_def pending_def timed_def remaining_def assms(2-) .

lemma resume_all_ok:
  assumes k: "kinv {} k"
  shows "\<exists>k' b. xTaskResumeAll k = Some (k', b) \<and> kinv {} k' \<and>
    (uxSchedulerSuspended k = 1 \<and> live k \<noteq> {} \<longrightarrow> resumed k k') \<and>
    (uxSchedulerSuspended k \<noteq> 1 \<longrightarrow> gcont k' = gcont k \<and> econt k' = econt k \<and> gval k' = gval k \<and>
       xTickCount k' = xTickCount k \<and> tcb k' = tcb k \<and> live k' = live k \<and> \<not> b \<and>
       uxPendedTicks k' = uxPendedTicks k \<and> uxSchedulerSuspended k' = uxSchedulerSuspended k - 1)"
proof -
  let ?k1 = "vPortEnterCritical k"
  let ?k2 = "?k1\<lparr>uxSchedulerSuspended := uxSchedulerSuspended ?k1 - 1\<rparr>"
  have k2: "kinv {} ?k2" using k by simp
  show ?thesis
  proof (cases "uxSchedulerSuspended ?k2 = 0 \<and> uxCurrentNumberOfTasks ?k2 > 0")
    case True
    obtain k3 k4 where r: "pending_ready_loop ?k2 = Some k3" "pended_ticks_loop k3 = Some k4"
      "kinv {} k4" "resumed ?k2 k4"
      using resume_loops_ok [OF k2 conjunct1 [OF True]] by blast
    let ?k5 = "if xYieldPending k4 then portYIELD k4 else k4"
    have "xTaskResumeAll k = Some (vPortExitCritical ?k5, xYieldPending k4)"
      using True r(1,2) by (simp add: xTaskResumeAll_def)
    moreover have "kinv {} (vPortExitCritical ?k5)"
      using r(3) by (simp add: kinv_exit_critical kinv_portYIELD)
    moreover have "resumed k (vPortExitCritical ?k5)"
    proof -
      have "resumed ?k2 (vPortExitCritical ?k5)" by (rule resumed_frame [OF r(4)]) simp_all
      then show ?thesis by (rule resumed_start) simp_all
    qed
    moreover have "uxSchedulerSuspended k = 1" using True by simp
    ultimately show ?thesis by simp
  next
    case False
    have "xTaskResumeAll k = Some (vPortExitCritical ?k2, False)"
      using False by (auto simp: xTaskResumeAll_def Let_def)
    moreover have "kinv {} (vPortExitCritical ?k2)" using kinv_exit_critical [OF k2] .
    moreover have "uxSchedulerSuspended k = 1 \<Longrightarrow> live k = {}"
      using False task_count_pos [OF k] by auto
    ultimately show ?thesis by auto
  qed
qed

section \<open>Delaying the running task\<close>

definition running_task :: "kernel \<Rightarrow> nat \<Rightarrow> bool" where
  "running_task k t \<longleftrightarrow> pxCurrentTCB k = Some t \<and> gcont k t = Some (Ready (prio k t))"

lemma block_current:
  assumes k: "kinv {} k" and t: "running_task k t" and w: "w \<noteq> xTickCount k"
  defines "k2 \<equiv> prvAddCurrentTaskToDelayedList w (remove_ready_item t (prio k t) k)"
  shows "kinv {} k2" and "timed k2 t" and "gval k2 t = w" and "remaining k2 t = w - xTickCount k"
    and "\<And>u. u \<noteq> t \<Longrightarrow> gcont k2 u = gcont k u" and "econt k2 = econt k"
    and "\<And>u. u \<noteq> t \<Longrightarrow> gval k2 u = gval k u"
proof -
  let ?k1 = "remove_ready_item t (prio k t) k"
  have g: "gcont k t = Some (Ready (prio k t))" and c: "cur ?k1 = t"
    using t by (simp_all add: running_task_def cur_def)
  have k1: "kinv {t} ?k1" and b: "bit_exact (prio k t) ?k1"
    using kinv_remove_ready_item [OF k g] by simp_all
  have b': "bit_exact (prio ?k1 (cur ?k1)) ?k1" using b c by simp
  have x: "cur ?k1 \<in> {t}" using c by simp
  show "kinv {} k2" using kinv_put_delayed [OF k1 x b'] w c by (simp add: k2_def)
  note al = add_delayed_lists [OF k1 x, of w, folded k2_def]
  have dl: "pxDelayedTaskList k \<in> {Delayed1, Delayed2}" "pxOverflowDelayedTaskList k \<in> {Delayed1, Delayed2}"
    using delayed_pairD(1,2) [OF kinv_timeD(1) [OF k]] .
  show "timed k2 t" using dl by (auto simp: timed_def al(1) c)
  show v: "gval k2 t = w" by (simp add: al(2) c)
  have "xTickCount k2 = xTickCount k" by (simp add: k2_def)
  then show "remaining k2 t = w - xTickCount k" using v by (simp add: remaining_def)
  show "\<And>u. u \<noteq> t \<Longrightarrow> gcont k2 u = gcont k u" "econt k2 = econt k"
    and "\<And>u. u \<noteq> t \<Longrightarrow> gval k2 u = gval k u"
    by (simp_all add: al c)
qed

end
