(* ===== verification/TaskTime.thy ===== *)
theory TaskTime
  imports TaskTick
begin

text \<open>
  What the rest of the kernel asks about time: block times with an overflow count
  (\<open>vTaskSetTimeOutState\<close>, \<open>xTaskCheckForTimeOut\<close>), the expected idle time and the
  sleep decision of tickless idle, and the step the tick count takes after a sleep; and what
  the delay functions of \<open>TaskTick\<close> guarantee to the calling task.
\<close>

section \<open>Definitions\<close>

record TimeOut_t =
  xOverflowCount :: u32
  xTimeOnEntering :: u32

definition vTaskSetTimeOutState :: "kernel \<Rightarrow> TimeOut_t" where
  "vTaskSetTimeOutState k = \<lparr>xOverflowCount = xNumOfOverflows k, xTimeOnEntering = xTickCount k\<rparr>"

text \<open>
  Returns the new state, whether the time has expired, and the updated
  \<open>*pxTimeOut\<close> and \<open>*pxTicksToWait\<close>.
\<close>

definition xTaskCheckForTimeOut ::
  "TimeOut_t \<Rightarrow> u32 \<Rightarrow> kernel \<Rightarrow> kernel \<times> bool \<times> TimeOut_t \<times> u32" where
  "xTaskCheckForTimeOut to xTicksToWait k =
     (let k1 = vPortEnterCritical k;
          xConstTickCount = xTickCount k1;
          r = (if xTicksToWait = portMAX_DELAY then (False, to, xTicksToWait)
               else if xNumOfOverflows k1 \<noteq> xOverflowCount to \<and> xConstTickCount \<ge> xTimeOnEntering to
               then (True, to, xTicksToWait)
               else if xConstTickCount - xTimeOnEntering to < xTicksToWait
               then (False, vTaskSetTimeOutState k1,
                     xTicksToWait - (xConstTickCount - xTimeOnEntering to))
               else (True, to, xTicksToWait))
      in (vPortExitCritical k1, r))"

definition vTaskMissedYield :: "kernel \<Rightarrow> kernel" where
  "vTaskMissedYield k = k\<lparr>xYieldPending := True\<rparr>"

definition xTaskGetTickCount :: "kernel \<Rightarrow> kernel \<times> u32" where
  "xTaskGetTickCount k =
     (let k1 = vPortEnterCritical k; xTicks = xTickCount k1 in (vPortExitCritical k1, xTicks))"

definition xTaskGetTickCountFromISR :: "kernel \<Rightarrow> kernel \<times> u32" where
  "xTaskGetTickCountFromISR k =
     (let (k1, m) = ulPortSetInterruptMask k; r = xTickCount k1 in (vPortClearInterruptMask m k1, r))"

definition uxTaskGetNumberOfTasks :: "kernel \<Rightarrow> u32" where
  "uxTaskGetNumberOfTasks k = uxCurrentNumberOfTasks k"

definition xTaskGetCurrentTaskHandle :: "kernel \<Rightarrow> nat option" where
  "xTaskGetCurrentTaskHandle k = pxCurrentTCB k"

datatype scheduler_state =
  taskSCHEDULER_SUSPENDED | taskSCHEDULER_NOT_STARTED | taskSCHEDULER_RUNNING

definition xTaskGetSchedulerState :: "kernel \<Rightarrow> scheduler_state" where
  "xTaskGetSchedulerState k =
     (if \<not> xSchedulerRunning k then taskSCHEDULER_NOT_STARTED
      else if uxSchedulerSuspended k = 0 then taskSCHEDULER_RUNNING else taskSCHEDULER_SUSPENDED)"

definition prvGetExpectedIdleTime :: "kernel \<Rightarrow> u32" where
  "prvGetExpectedIdleTime k =
     (if prio k (cur k) > tskIDLE_PRIORITY then 0
      else if listCURRENT_LIST_LENGTH (Ready tskIDLE_PRIORITY) (lists k) > 1 then 0
      else xNextTaskUnblockTime k - xTickCount k)"

definition vTaskStepTick :: "u32 \<Rightarrow> kernel \<Rightarrow> kernel" where
  "vTaskStepTick xTicksToJump k = k\<lparr>xTickCount := xTickCount k + xTicksToJump\<rparr>"

datatype eSleepModeStatus = eAbortSleep | eStandardSleep | eNoTasksWaitingTimeout

definition eTaskConfirmSleepModeStatus :: "kernel \<Rightarrow> eSleepModeStatus" where
  "eTaskConfirmSleepModeStatus k =
     (if listCURRENT_LIST_LENGTH PendingReady (lists k) \<noteq> 0 then eAbortSleep
      else if xYieldPending k then eAbortSleep
      else if listCURRENT_LIST_LENGTH Suspended (lists k) = uxCurrentNumberOfTasks k - 1
      then eNoTasksWaitingTimeout else eStandardSleep)"

section \<open>Delays\<close>

lemma kinv_suspend_all [simp]: "kinvd D X (vTaskSuspendAll k) = kinvd D X k"
  by (simp add: vTaskSuspendAll_def)

lemma suspend_all_frame [simp, kernel_frame]:
  "lists (vTaskSuspendAll k) = lists k" "tcb (vTaskSuspendAll k) = tcb k"
  "pxCurrentTCB (vTaskSuspendAll k) = pxCurrentTCB k" "live (vTaskSuspendAll k) = live k"
  "xTickCount (vTaskSuspendAll k) = xTickCount k" "uxPendedTicks (vTaskSuspendAll k) = uxPendedTicks k"
  "evlists (vTaskSuspendAll k) = evlists k" "xSchedulerRunning (vTaskSuspendAll k) = xSchedulerRunning k"
  "uxSchedulerSuspended (vTaskSuspendAll k) = uxSchedulerSuspended k + 1"
  by (simp_all add: vTaskSuspendAll_def)

lemma running_suspend_all [simp]: "running_task (vTaskSuspendAll k) t = running_task k t"
  by (simp add: running_task_def)

lemma word_add_neq: "(n :: u32) \<noteq> 0 \<Longrightarrow> w + n \<noteq> w"
  by simp

lemma resume_then_yield:
  assumes k: "kinv {} k"
  shows "\<exists>k' k3 b. xTaskResumeAll k = Some (k3, b) \<and> k' = (if b then k3 else portYIELD k3) \<and>
    kinv {} k' \<and> (uxSchedulerSuspended k = 1 \<and> live k \<noteq> {} \<longrightarrow> resumed k k')"
proof -
  obtain k3 b where r: "xTaskResumeAll k = Some (k3, b)" "kinv {} k3"
    "uxSchedulerSuspended k = 1 \<and> live k \<noteq> {} \<longrightarrow> resumed k k3"
    using resume_all_ok [OF k] by blast
  have "resumed k (portYIELD k3)" if "resumed k k3"
    by (rule resumed_frame [OF that]) simp_all
  with r kinv_portYIELD [OF r(2)] show ?thesis by auto
qed

lemma delay_ok:
  assumes k: "kinv {} k" and t: "running_task k t" and n: "n \<noteq> 0"
  shows "\<exists>k2 k'. vTaskDelay n k = Some k' \<and> kinv {} k' \<and> kinv {} k2 \<and>
    timed k2 t \<and> remaining k2 t = n \<and> (\<forall>u. u \<noteq> t \<longrightarrow> gcont k2 u = gcont k u \<and> gval k2 u = gval k u) \<and>
    econt k2 = econt k \<and> xTickCount k2 = xTickCount k \<and> tcb k2 = tcb k \<and>
    uxPendedTicks k2 = uxPendedTicks k \<and> (uxSchedulerSuspended k = 0 \<longrightarrow> resumed k2 k')"
proof -
  let ?k1 = "vTaskSuspendAll k"
  let ?w = "xTickCount ?k1 + n"
  have c: "cur ?k1 = t" using t by (simp add: running_task_def cur_def)
  have w: "?w \<noteq> xTickCount ?k1" using word_add_neq [OF n] .
  define k2 where "k2 = prvAddCurrentTaskToDelayedList ?w (remove_ready_item t (prio ?k1 t) ?k1)"
  have k1: "kinv {} ?k1" and t1: "running_task ?k1 t" using k t by simp_all
  note b = block_current [OF k1 t1 w, folded k2_def]
  have rm: "remaining k2 t = n" using b(4) by simp
  have other: "\<forall>u. u \<noteq> t \<longrightarrow> gcont k2 u = gcont k u \<and> gval k2 u = gval k u" "econt k2 = econt k"
    using b(5-7) by simp_all
  have tl: "t \<in> live k2"
    using kinv_liveD(1) [OF k, of t] t by (simp add: k2_def running_task_def)
  obtain k3 bb k' where r: "xTaskResumeAll k2 = Some (k3, bb)" "k' = (if bb then k3 else portYIELD k3)"
    "kinv {} k'" "uxSchedulerSuspended k2 = 1 \<and> live k2 \<noteq> {} \<longrightarrow> resumed k2 k'"
    using resume_then_yield [OF b(1)] by blast
  have "vTaskDelay n k = Some k'"
    using n r(1,2) c by (simp add: vTaskDelay_def k2_def Let_def word_gt_0)
  moreover have "uxSchedulerSuspended k = 0 \<longrightarrow> resumed k2 k'"
    using r(4) tl by (auto simp: k2_def)
  moreover have "xTickCount k2 = xTickCount k" "tcb k2 = tcb k" "uxPendedTicks k2 = uxPendedTicks k"
    by (simp_all add: k2_def)
  ultimately show ?thesis using r(3) b(1,2) rm other by blast
qed

lemma delay_until_should_neq:
  "delay_until_should c p w \<Longrightarrow> w \<noteq> c"
  by (auto simp: delay_until_should_def split: if_splits)

lemma delay_until_ok:
  assumes k: "kinv {} k" and t: "running_task k t"
  shows "\<exists>k2 k'. vTaskDelayUntil p d k = Some (k', p + d) \<and> kinv {} k' \<and> kinv {} k2 \<and>
    (if delay_until_should (xTickCount k) p (p + d) then timed k2 t \<and> gval k2 t = p + d
     else gcont k2 t = gcont k t) \<and>
    (\<forall>u. u \<noteq> t \<longrightarrow> gcont k2 u = gcont k u \<and> gval k2 u = gval k u) \<and>
    econt k2 = econt k \<and> xTickCount k2 = xTickCount k \<and> tcb k2 = tcb k \<and>
    uxPendedTicks k2 = uxPendedTicks k \<and> (uxSchedulerSuspended k = 0 \<longrightarrow> resumed k2 k')"
proof -
  let ?k1 = "vTaskSuspendAll k"
  let ?w = "p + d" and ?s = "delay_until_should (xTickCount k) p (p + d)"
  have c: "cur ?k1 = t" using t by (simp add: running_task_def cur_def)
  have k1: "kinv {} ?k1" and t1: "running_task ?k1 t" using k t by simp_all
  define k2 where "k2 = (if ?s then
    prvAddCurrentTaskToDelayedList ?w (remove_ready_item t (prio ?k1 t) ?k1) else ?k1)"
  have b: "kinv {} k2 \<and> (if ?s then timed k2 t \<and> gval k2 t = p + d else gcont k2 t = gcont k t) \<and>
    (\<forall>u. u \<noteq> t \<longrightarrow> gcont k2 u = gcont k u \<and> gval k2 u = gval k u) \<and> econt k2 = econt k"
  proof (cases ?s)
    case True
    then have "?w \<noteq> xTickCount ?k1" using delay_until_should_neq by auto
    from block_current [OF k1 t1 this] show ?thesis using True by (simp add: k2_def)
  qed (use k in \<open>simp add: k2_def\<close>)
  have tl: "t \<in> live k2"
    using kinv_liveD(1) [OF k, of t] t by (simp add: k2_def running_task_def)
  obtain k3 bb k' where r: "xTaskResumeAll k2 = Some (k3, bb)" "k' = (if bb then k3 else portYIELD k3)"
    "kinv {} k'" "uxSchedulerSuspended k2 = 1 \<and> live k2 \<noteq> {} \<longrightarrow> resumed k2 k'"
    using resume_then_yield [OF conjunct1 [OF b]] by blast
  have "vTaskDelayUntil p d k =
      Option.bind (xTaskResumeAll k2) (\<lambda>(k3, b). Some (if b then k3 else portYIELD k3, p + d))"
    by (simp add: vTaskDelayUntil_def k2_def Let_def c)
  then have "vTaskDelayUntil p d k = Some (k', p + d)" using r(1,2) by simp
  moreover have "uxSchedulerSuspended k = 0 \<longrightarrow> resumed k2 k'"
    using r(4) tl by (auto simp: k2_def)
  moreover have "xTickCount k2 = xTickCount k" "tcb k2 = tcb k" "uxPendedTicks k2 = uxPendedTicks k"
    by (simp_all add: k2_def)
  ultimately show ?thesis using r(3) b by blast
qed

section \<open>Tickless idle\<close>

text \<open>Nothing in a delayed list is due before the next unblock time.\<close>

lemma tick_le_next:
  assumes "kinv {} k" and "xSchedulerRunning k"
  shows "xTickCount k \<le> xNextTaskUnblockTime k"
  using kinv_timeD(5) [OF assms(1) _ assms(2)] max_word_is_max_delay [of "xTickCount k"] by auto

lemma next_le_remaining:
  assumes k: "kinv {} k" and run: "xSchedulerRunning k" and u: "timed k u"
  shows "xNextTaskUnblockTime k - xTickCount k \<le> remaining k u"
proof (cases "gcont k u = Some (pxDelayedTaskList k)")
  case True
  have "unat (xTickCount k) \<le> unat (xNextTaskUnblockTime k)" "unat (xNextTaskUnblockTime k) \<le> unat (gval k u)"
    using tick_le_next [OF k run] kinv_timeD(3) [OF k True] by (simp_all add: word_le_nat_alt)
  then show ?thesis
    by (simp add: remaining_def word_le_nat_alt unat_sub)
next
  case False
  then have lt: "gval k u < xTickCount k" using u timed_alt [OF k] kinv_timeD(4) [OF k] by blast
  show ?thesis
    using tick_le_next [OF k run] unat_sub_wrap [OF lt] unat_u32_less [of "xNextTaskUnblockTime k"]
    by (simp add: remaining_def word_le_nat_alt unat_sub)
qed

text \<open>Sleeping for the expected idle time oversleeps no timeout.\<close>

lemma expected_idle_le_remaining:
  assumes "kinv {} k" and "xSchedulerRunning k" and "timed k u"
  shows "prvGetExpectedIdleTime k \<le> remaining k u"
  using next_le_remaining [OF assms] by (simp add: prvGetExpectedIdleTime_def)

lemma step_tick_ok:
  assumes k: "kinv {} k" and run: "xSchedulerRunning k"
    and j: "j < xNextTaskUnblockTime k - xTickCount k"
  shows "kinv {} (vTaskStepTick j k)"
    and "timed k u \<Longrightarrow> remaining (vTaskStepTick j k) u = remaining k u - j \<and> j < remaining k u"
proof -
  let ?n = "xNextTaskUnblockTime k" and ?c = "xTickCount k" and ?k' = "vTaskStepTick j k"
  have un: "unat j < unat ?n - unat ?c"
    using j tick_le_next [OF k run] by (simp add: word_less_nat_alt unat_sub word_le_nat_alt)
  have "unat ?c + unat j < 2 ^ 32" using un unat_u32_less [of ?n] by linarith
  then have ua: "unat (?c + j) = unat ?c + unat j"
    by (simp add: unat_plus_if_size word_size)
  have lt: "?c + j < ?n" and ge: "?c \<le> ?c + j"
    using un ua by (simp_all add: word_less_nat_alt word_le_nat_alt)
  show "kinv {} ?k'"
  proof (rule kinv_frame_time [OF k])
    show "kinv_time False ?k'"
    proof (rule kinv_timeI)
      show "delayed_pair ?k'" using kinv_timeD(1) [OF k] by (simp add: vTaskStepTick_def)
      show "delayed_sorted l ?k'" if "l \<in> {Delayed1, Delayed2}" for l
        using kinv_delayed_sorted [OF k that] by (simp add: delayed_sorted_def vTaskStepTick_def)
    qed (use kinv_timeD(3,4) [OF k] lt ge in
        \<open>auto simp: vTaskStepTick_def intro: less_le_trans\<close>)
  qed (simp_all add: vTaskStepTick_def)
  show "remaining ?k' u = remaining k u - j \<and> j < remaining k u" if "timed k u"
    using j next_le_remaining [OF k run that]
    by (auto simp: remaining_def vTaskStepTick_def intro: less_le_trans)
qed

text \<open>
  If only the running task is not suspended, the sleep may last for ever: no task waits for
  a timeout.
\<close>

lemma no_tasks_waiting:
  assumes k: "kinv {} k" and t: "running_task k t"
    and e: "eTaskConfirmSleepModeStatus k = eNoTasksWaitingTimeout"
  shows "u \<in> live k - {t} \<Longrightarrow> gcont k u = Some Suspended" and "\<not> timed k u"
proof -
  let ?S = "{u. gcont k u = Some Suspended}"
  have fl: "finite (live k)" "card (live k) < 2 ^ 31" "uxCurrentNumberOfTasks k = of_nat (card (live k))"
    using kinv_parts(3) [OF k] by (simp_all add: kinv_tasks_def)
  have tl: "t \<in> live k" using t kinv_liveD(1) [OF k] by (auto simp: running_task_def)
  have SK: "Suspended \<in> KL k" by simp
  have "{i. pvContainer (lists k) i = Some Suspended} = Generic ` ?S"
    using state_item_generic [OF k, of Suspended 0] by fastforce
  then have "set (items (lists k) Suspended) = Generic ` ?S"
    using set_items [OF kinv_wf [OF k] SK] by simp
  then have len: "length (items (lists k) Suspended) = card ?S"
    using distinct_card [OF distinct_items [OF kinv_wf [OF k] SK]]
    by (simp add: card_image inj_on_def)
  have cnt: "uxNumberOfItems (lists k) Suspended = of_nat (card ?S)"
    using uxNumberOfItems_items [OF kinv_wf [OF k] SK] len by simp
  have sub: "?S \<subseteq> live k - {t}"
    using kinv_liveD(1) [OF k] t by (auto simp: running_task_def)
  have cS: "card ?S < 2 ^ 31"
    using card_mono [OF _ sub] card_Diff1_le [of "live k" t] fl by (simp add: le_less_trans)
  have "0 < card (live k)" using tl fl(1) by (auto simp: card_gt_0_iff)
  moreover have "(of_nat (card ?S) :: u32) = of_nat (card (live k)) - 1"
    using e cnt fl(3)
    by (auto simp: eTaskConfirmSleepModeStatus_def listCURRENT_LIST_LENGTH_def split: if_splits)
  ultimately have "(of_nat (card ?S) :: u32) = of_nat (card (live k) - 1)" by simp
  then have "card ?S = card (live k) - 1"
    using cS fl(2) by (simp add: word_unat_eq_iff unat_of_nat take_bit_eq_mod)
  then have "card ?S = card (live k - {t})" using tl fl(1) by simp
  then have eq: "?S = live k - {t}" using card_subset_eq [OF _ sub] fl(1) by simp
  then show "u \<in> live k - {t} \<Longrightarrow> gcont k u = Some Suspended" by blast
  show "\<not> timed k u"
  proof (cases "u = t")
    case True
    then show ?thesis using t by (simp add: timed_def running_task_def)
  next
    case False
    show ?thesis
    proof
      assume u: "timed k u"
      with False have "u \<in> live k - {t}" using kinv_liveD(1) [OF k, of u] by (auto simp: timed_def)
      with eq have "gcont k u = Some Suspended" by blast
      with u show False by (simp add: timed_def)
    qed
  qed
qed

section \<open>Timeouts\<close>

text \<open>
  \<open>clock k\<close> is the time the tick count and its overflow count stand for. A timeout that
  was set at time \<open>n\<close> is judged exactly, as long as less than two wrap-arounds of the tick
  count lie between.
\<close>

definition clock_at :: "nat \<Rightarrow> kernel \<Rightarrow> bool" where
  "clock_at n k \<longleftrightarrow> xTickCount k = of_nat n \<and> xNumOfOverflows k = of_nat (n div 2 ^ 32)"

lemma tick_advances_clock:
  assumes k: "kinv {} k" and run: "uxSchedulerSuspended k = 0" and n: "clock_at n k"
    and e: "xTaskIncrementTick k = Some (k', sw)"
  shows "clock_at (Suc n) k'"
proof -
  obtain k3 where w: "woken (expire k) (tick_started k) k3"
    "k' = (if uxPendedTicks k = 0 then vApplicationTickHook k3 else k3)"
    using increment_tick_ok [OF k run] e by auto
  have f: "xTickCount k' = xTickCount k + 1"
    "xNumOfOverflows k' = (if xTickCount k + 1 = 0 then xNumOfOverflows k + 1 else xNumOfOverflows k)"
    using w by (simp_all add: woken_def vApplicationTickHook_def)
  have c: "xTickCount k + 1 = of_nat (Suc n)" and o: "xNumOfOverflows k = of_nat (n div 2 ^ 32)"
    using n by (simp_all add: clock_at_def)
  have len: "LENGTH(32) = 32" by simp
  have z: "(xTickCount k + 1 = 0) = (2 ^ 32 dvd Suc n)"
    using word_of_nat_eq_0_iff [where 'a = 32, of "Suc n"] unfolding c len .
  have "Suc n div 2 ^ 32 = (if 2 ^ 32 dvd Suc n then Suc (n div 2 ^ 32) else n div 2 ^ 32)"
    by (simp only: div_Suc mod_eq_0_iff_dvd)
  then have "xNumOfOverflows k' = of_nat (Suc n div 2 ^ 32)"
    unfolding f(2) z o by (simp only: of_nat_Suc add.commute if_distrib [of of_nat])
  then show ?thesis using f(1) c by (simp only: clock_at_def simp_thms)
qed

lemma timeout_exact:
  assumes n: "clock_at n k0" and m: "clock_at m k" and le: "n \<le> m" and lt: "m < 2 ^ 33"
    and bd: "n < 2 ^ 32" and w: "w \<noteq> portMAX_DELAY"
  shows "fst (snd (xTaskCheckForTimeOut (vTaskSetTimeOutState k0) w k)) \<longleftrightarrow> unat w \<le> m - n"
proof -
  have c0: "unat (xTickCount k0) = n" using n bd by (simp add: clock_at_def unat_of_nat take_bit_eq_mod)
  have o0: "xNumOfOverflows k0 = 0" using n bd by (simp add: clock_at_def)
  have c: "unat (xTickCount k) = m mod 2 ^ 32"
    using m by (simp add: clock_at_def unat_of_nat take_bit_eq_mod)
  have o: "xNumOfOverflows k = of_nat (m div 2 ^ 32)" using m by (simp add: clock_at_def)
  have wl: "unat w < 2 ^ 32" by (rule unat_u32_less)
  show ?thesis
  proof (cases "m < 2 ^ 32")
    case True
    then have "xNumOfOverflows k = 0" "unat (xTickCount k) = m" using o c by simp_all
    then show ?thesis
      using w o0 c0 le
      by (auto simp: xTaskCheckForTimeOut_def Let_def vTaskSetTimeOutState_def word_less_nat_alt
          unat_sub word_le_nat_alt not_less)
  next
    case False
    then have d: "m div 2 ^ 32 = 1" and md: "m mod 2 ^ 32 = m - 2 ^ 32"
      using lt by (simp_all add: div_nat_eqI mod_if)
    then have ne: "xNumOfOverflows k = 1" using o by simp
    show ?thesis
    proof (cases "n \<le> m - 2 ^ 32")
      case True
      then have "unat w \<le> m - n" using wl False by linarith
      then show ?thesis
        using w o0 c0 ne c md True
        by (simp add: xTaskCheckForTimeOut_def Let_def vTaskSetTimeOutState_def word_le_nat_alt)
    next
      case wrap: False
      have tlt: "xTickCount k < xTickCount k0" using wrap c md c0 by (simp add: word_less_nat_alt)
      have "unat (xTickCount k - xTickCount k0) = m - n"
        using unat_sub_wrap [OF tlt] c md c0 False by simp
      then show ?thesis
        using w tlt by (auto simp: xTaskCheckForTimeOut_def Let_def vTaskSetTimeOutState_def
            word_less_nat_alt word_le_nat_alt not_less)
    qed
  qed
qed

lemma timeout_waits:
  assumes "\<not> fst (snd (xTaskCheckForTimeOut to w k))" and "w \<noteq> portMAX_DELAY"
  shows "snd (snd (snd (xTaskCheckForTimeOut to w k))) \<noteq> 0"
    and "snd (snd (snd (xTaskCheckForTimeOut to w k))) = w - (xTickCount k - xTimeOnEntering to)"
    and "fst (snd (snd (xTaskCheckForTimeOut to w k))) = vTaskSetTimeOutState k"
  using assms
  by (auto simp: xTaskCheckForTimeOut_def Let_def vTaskSetTimeOutState_def split: if_splits)

lemma kinv_check_timeout: "kinvd D {} k \<Longrightarrow> kinvd D {} (fst (xTaskCheckForTimeOut to w k))"
  by (simp add: xTaskCheckForTimeOut_def Let_def kinv_exit_critical)

section \<open>Ticks in a row\<close>

fun ticks :: "nat \<Rightarrow> kernel \<Rightarrow> kernel option" where
  "ticks 0 k = Some k"
| "ticks (Suc n) k = Option.bind (xTaskIncrementTick k) (\<lambda>r. ticks n (fst r))"

lemma ticks_ok:
  assumes "kinv {} k" and "uxSchedulerSuspended k = 0" and "n < 2 ^ 32"
  shows "\<exists>k'. ticks n k = Some k' \<and> kinv {} k' \<and> xTickCount k' = xTickCount k + of_nat n \<and> tcb k' = tcb k \<and>
    (\<forall>t. gcont k' t = (if timed k t \<and> unat (remaining k t) \<le> n then Some (Ready (prio k t)) else gcont k t))"
  using assms
proof (induction n arbitrary: k)
  case 0
  have "(timed k t \<and> unat (remaining k t) \<le> 0) = False" for t
    using remaining_nonzero [OF 0(1), of t] by (auto simp: unat_eq_zero)
  then show ?case using 0 by (simp only:) simp
next
  case (Suc n)
  obtain k1 sw where s: "xTaskIncrementTick k = Some (k1, sw)" "kinv {} k1"
    "\<And>t. gcont k1 t = (if timed k t \<and> remaining k t = 1 then Some (Ready (prio k t)) else gcont k t)"
    "gval k1 = gval k" "xTickCount k1 = xTickCount k + 1" "tcb k1 = tcb k" "uxSchedulerSuspended k1 = 0"
    using tick_step [OF Suc.prems(1,2)] by metis
  obtain k' where k': "ticks n k1 = Some k'" "kinv {} k'" "xTickCount k' = xTickCount k1 + of_nat n" "tcb k' = tcb k1"
    "\<forall>t. gcont k' t = (if timed k1 t \<and> unat (remaining k1 t) \<le> n then Some (Ready (prio k1 t)) else gcont k1 t)"
    using Suc.IH [OF s(2,7)] Suc.prems(3) by auto
  have "gcont k' t = (if timed k t \<and> unat (remaining k t) \<le> Suc n then Some (Ready (prio k t)) else gcont k t)" for t
  proof (cases "timed k t")
    case True
    define d where "d = remaining k t"
    have d0: "d \<noteq> 0" using remaining_nonzero [OF Suc.prems(1) True] by (simp add: d_def)
    have r1: "remaining k1 t = d - 1" using s(4,5) by (simp add: remaining_def d_def fun_eq_iff)
    have u: "unat (d - 1) = unat d - 1" "0 < unat d" using d0 by (simp_all add: unat_minus_one unat_gt_0)
    show ?thesis
    proof (cases "d = 1")
      case d1: True
      then have "gcont k1 t = Some (Ready (prio k t))" using s(3) True by (simp add: d_def)
      then show ?thesis using k'(5) True d1 by (simp add: timed_def d_def)
    next
      case False
      then have "gcont k1 t = gcont k t" using s(3) by (simp add: d_def)
      then show ?thesis using k'(5) True r1 u s(6) by (auto simp: timed_def d_def)
    qed
  next
    case False
    then show ?thesis using k'(5) s(3) by (auto simp: timed_def)
  qed
  then show ?case using s(1,5,6) k' by (simp add: add.assoc)
qed

text \<open>
  A delay of \<open>n\<close> ticks, on a kernel that has no tick or wake-up held back: the caller is
  blocked for \<open>n - 1\<close> ticks and ready at the \<open>n\<close>-th.
\<close>

lemma delay_exact:
  assumes k: "kinv {} k" and t: "running_task k t" and n: "n \<noteq> 0"
    and s: "uxSchedulerSuspended k = 0" "uxPendedTicks k = 0" "pending k = {}"
  shows "\<exists>k'. vTaskDelay n k = Some k' \<and> kinv {} k' \<and>
    (\<forall>j < unat n. \<exists>k''. ticks j k' = Some k'' \<and> timed k'' t) \<and>
    (\<exists>k''. ticks (unat n) k' = Some k'' \<and> gcont k'' t = Some (Ready (prio k t)))"
proof -
  obtain k2 k' where d: "vTaskDelay n k = Some k'" "kinv {} k'" "kinv {} k2" "timed k2 t" "remaining k2 t = n"
    "econt k2 = econt k" "tcb k2 = tcb k" "uxPendedTicks k2 = uxPendedTicks k" "resumed k2 k'"
    using delay_ok [OF k t n] s(1) by blast
  have np: "pending k2 = {}" using s(3) d(6) by (auto simp: pending_def fun_eq_iff)
  have g: "gcont k' t = gcont k2 t" "gval k' = gval k2" "xTickCount k' = xTickCount k2" "tcb k' = tcb k"
    "uxSchedulerSuspended k' = 0"
    using d(5,7,8,9) np s(2) n by (auto simp: resumed_def)
  have tm: "timed k' t" "remaining k' t = n"
    using g d(4,5) by (simp_all add: timed_def remaining_def fun_eq_iff)
  have T: "\<exists>k''. ticks j k' = Some k'' \<and>
      gcont k'' t = (if unat n \<le> j then Some (Ready (prio k t)) else gcont k' t)" if "j < 2 ^ 32" for j
    using ticks_ok [OF d(2) g(5) that] tm g(4) by auto
  have "\<exists>k''. ticks j k' = Some k'' \<and> timed k'' t" if "j < unat n" for j
  proof -
    have "j < 2 ^ 32" using that unat_u32_less [of n] by linarith
    then show ?thesis using T [of j] that tm(1) by (auto simp: timed_def)
  qed
  moreover have "\<exists>k''. ticks (unat n) k' = Some k'' \<and> gcont k'' t = Some (Ready (prio k t))"
    using T [of "unat n"] unat_u32_less [of n] by auto
  ultimately show ?thesis using d(1,2) by blast
qed

lemma resumed_quiet:
  assumes r: "resumed k2 k'" and p: "uxPendedTicks k2 = 0" "pending k2 = {}" and k2: "kinv {} k2"
  shows "gcont k' = gcont k2" and "gval k' = gval k2" and "xTickCount k' = xTickCount k2"
proof -
  have "\<not> (timed k2 t \<and> remaining k2 t \<le> 0)" for t using remaining_nonzero [OF k2, of t] by auto
  then show "gcont k' = gcont k2" "gval k' = gval k2" "xTickCount k' = xTickCount k2"
    using r p unfolding resumed_def by (auto simp: fun_eq_iff)
qed

lemma delay_until_exact:
  assumes k: "kinv {} k" and t: "running_task k t"
    and s: "uxSchedulerSuspended k = 0" "uxPendedTicks k = 0" "pending k = {}"
  shows "\<exists>k'. vTaskDelayUntil p d k = Some (k', p + d) \<and> kinv {} k' \<and> xTickCount k' = xTickCount k \<and>
    (if delay_until_should (xTickCount k) p (p + d) then timed k' t \<and> gval k' t = p + d
     else gcont k' t = gcont k t) \<and>
    (\<forall>u. u \<noteq> t \<longrightarrow> gcont k' u = gcont k u)"
proof -
  obtain k2 k' where d: "vTaskDelayUntil p d k = Some (k', p + d)" "kinv {} k'" "kinv {} k2"
    "if delay_until_should (xTickCount k) p (p + d) then timed k2 t \<and> gval k2 t = p + d else gcont k2 t = gcont k t"
    "\<forall>u. u \<noteq> t \<longrightarrow> gcont k2 u = gcont k u \<and> gval k2 u = gval k u" "econt k2 = econt k"
    "xTickCount k2 = xTickCount k" "uxPendedTicks k2 = uxPendedTicks k" "resumed k2 k'"
    using delay_until_ok [OF k t, of p d] s(1) by blast
  have "pending k2 = {}" using s(3) d(6) by (auto simp: pending_def fun_eq_iff)
  note q = resumed_quiet [OF d(9) _ this d(3)]
  show ?thesis
    using d(1,2,4,5,7,8) q s(2) by (intro exI [of _ k']) (auto simp: timed_def fun_eq_iff)
qed

end
