(* ===== verification/TaskControl.thy ===== *)
theory TaskControl
  imports TaskTime
begin

unbundle bit_operations_syntax

text \<open>
  Task control in \<^verbatim>\<open>tasks.c\<close>: suspending and resuming tasks, the state query,
  changing priorities, priority inheritance for mutex holders, and the event lists through
  which queues, event groups and timers block and wake tasks.
\<close>

section \<open>Suspend and resume\<close>

definition vTaskSuspend :: "nat option \<Rightarrow> kernel \<Rightarrow> kernel" where
  "vTaskSuspend xTaskToSuspend k =
     (let k1 = vPortEnterCritical k;
          t = prvGetTCBFromHandle xTaskToSuspend k1;
          k2 = remove_state_item t k1;
          k3 = (if listLIST_ITEM_CONTAINER (Event t) (lists k2) \<noteq> None
                then remove_event_item t k2 else k2);
          k4 = k3\<lparr>lists := vListInsertEnd Suspended (Generic t) (lists k3)\<rparr>;
          k5 = vPortExitCritical k4
      in if Some t = pxCurrentTCB k5
         then (if xSchedulerRunning k5 then portYIELD k5
               else if listCURRENT_LIST_LENGTH Suspended (lists k5) = uxCurrentNumberOfTasks k5
               then k5\<lparr>pxCurrentTCB := None\<rparr>
               else vTaskSwitchContext k5)
         else (if xSchedulerRunning k5
               then vPortExitCritical (prvResetNextTaskUnblockTime (vPortEnterCritical k5))
               else k5))"

definition prvTaskIsTaskSuspended :: "nat \<Rightarrow> kernel \<Rightarrow> bool" where
  "prvTaskIsTaskSuspended t k =
     (if listIS_CONTAINED_WITHIN (Some Suspended) (Generic t) (lists k)
      then (if \<not> listIS_CONTAINED_WITHIN (Some PendingReady) (Event t) (lists k)
            then listIS_CONTAINED_WITHIN None (Event t) (lists k) else False)
      else False)"

definition vTaskResume :: "nat option \<Rightarrow> kernel \<Rightarrow> kernel" where
  "vTaskResume xTaskToResume k =
     (case xTaskToResume of
        None \<Rightarrow> k
      | Some t \<Rightarrow>
          (if Some t \<noteq> pxCurrentTCB k
           then (let k1 = vPortEnterCritical k;
                     k3 = (if prvTaskIsTaskSuspended t k1
                           then (let k2 = prvAddTaskToReadyList t (remove_generic_item t k1)
                                 in if prio k2 t \<ge> prio k2 (cur k2) then portYIELD k2 else k2)
                           else k1)
                 in vPortExitCritical k3)
           else k))"

definition xTaskResumeFromISR :: "nat \<Rightarrow> kernel \<Rightarrow> kernel \<times> bool" where
  "xTaskResumeFromISR t k =
     (let (k1, m) = ulPortSetInterruptMask k;
          (k2, xYieldRequired) =
            (if prvTaskIsTaskSuspended t k1
             then (if uxSchedulerSuspended k1 = 0
                   then (prvAddTaskToReadyList t (remove_generic_item t k1),
                         prio k1 t \<ge> prio k1 (cur k1))
                   else (k1\<lparr>lists := vListInsertEnd PendingReady (Event t) (lists k1)\<rparr>, False))
             else (k1, False))
      in (vPortClearInterruptMask m k2, xYieldRequired))"

datatype eTaskState = eRunning | eReady | eBlocked | eSuspended | eDeleted

definition eTaskGetState :: "nat \<Rightarrow> kernel \<Rightarrow> kernel \<times> eTaskState" where
  "eTaskGetState t k =
     (if Some t = pxCurrentTCB k then (k, eRunning)
      else (let k1 = vPortEnterCritical k;
                pxStateList = listLIST_ITEM_CONTAINER (Generic t) (lists k1);
                k2 = vPortExitCritical k1
            in (k2,
                if pxStateList = Some (pxDelayedTaskList k2) \<or>
                   pxStateList = Some (pxOverflowDelayedTaskList k2) then eBlocked
                else if pxStateList = Some Suspended
                then (if listLIST_ITEM_CONTAINER (Event t) (lists k2) = None then eSuspended else eBlocked)
                else if pxStateList = Some Termination then eDeleted
                else eReady)))"

section \<open>Priorities\<close>

definition uxTaskPriorityGet :: "nat option \<Rightarrow> kernel \<Rightarrow> kernel \<times> u32" where
  "uxTaskPriorityGet xTask k =
     (let k1 = vPortEnterCritical k; uxReturn = prio k1 (prvGetTCBFromHandle xTask k1)
      in (vPortExitCritical k1, uxReturn))"

definition uxTaskPriorityGetFromISR :: "nat option \<Rightarrow> kernel \<Rightarrow> kernel \<times> u32" where
  "uxTaskPriorityGetFromISR xTask k =
     (let (k1, m) = ulPortSetInterruptMask k; r = prio k1 (prvGetTCBFromHandle xTask k1)
      in (vPortClearInterruptMask m k1, r))"

definition set_event_value :: "nat \<Rightarrow> u32 \<Rightarrow> kernel \<Rightarrow> kernel" where
  "set_event_value t v k = k\<lparr>lists := listSET_LIST_ITEM_VALUE (Event t) v (lists k)\<rparr>"

definition event_value_free :: "nat \<Rightarrow> kernel \<Rightarrow> bool" where
  "event_value_free t k \<longleftrightarrow>
     listGET_LIST_ITEM_VALUE (Event t) (lists k) AND taskEVENT_LIST_ITEM_VALUE_IN_USE = 0"

definition new_priority :: "u32 \<Rightarrow> u32" where
  "new_priority p = (if p \<ge> configMAX_PRIORITIES then configMAX_PRIORITIES - 1 else p)"

definition set_priority :: "u32 \<Rightarrow> TCB \<Rightarrow> TCB" where
  "set_priority n x =
     (if uxBasePriority x = uxPriority x then x\<lparr>uxPriority := n\<rparr> else x)\<lparr>uxBasePriority := n\<rparr>"

text \<open>The part of \<open>vTaskPrioritySet\<close> that changes the TCB and the lists.\<close>

definition set_priority_core :: "nat \<Rightarrow> u32 \<Rightarrow> kernel \<Rightarrow> kernel" where
  "set_priority_core t uxNewPriority k =
     (let uxPriorityUsedOnEntry = prio k t;
          k2 = update_tcb t (set_priority uxNewPriority) k;
          k3 = (if event_value_free t k2
                then set_event_value t (configMAX_PRIORITIES - uxNewPriority) k2 else k2)
      in if listIS_CONTAINED_WITHIN (Some (Ready uxPriorityUsedOnEntry)) (Generic t) (lists k3)
         then prvAddTaskToReadyList t (remove_ready_item t uxPriorityUsedOnEntry k3) else k3)"

definition vTaskPrioritySet :: "nat option \<Rightarrow> u32 \<Rightarrow> kernel \<Rightarrow> kernel" where
  "vTaskPrioritySet xTask uxPrio k =
     (let uxNewPriority = new_priority uxPrio;
          k1 = vPortEnterCritical k;
          t = prvGetTCBFromHandle xTask k1;
          uxCurrentBasePriority = uxBasePriority (tcb k1 t);
          xYieldRequired =
            (if uxNewPriority > uxCurrentBasePriority
             then (if Some t \<noteq> pxCurrentTCB k1 then uxNewPriority \<ge> prio k1 (cur k1) else False)
             else Some t = pxCurrentTCB k1);
          k2 = (if uxCurrentBasePriority \<noteq> uxNewPriority
                then (let k3 = set_priority_core t uxNewPriority k1
                      in if xYieldRequired then portYIELD k3 else k3)
                else k1)
      in vPortExitCritical k2)"

definition vTaskPriorityInherit :: "nat option \<Rightarrow> kernel \<Rightarrow> kernel" where
  "vTaskPriorityInherit pxMutexHolder k =
     (case pxMutexHolder of
        None \<Rightarrow> k
      | Some t \<Rightarrow>
          (let p = prio k (cur k); raise = update_tcb t (\<lambda>x. x\<lparr>uxPriority := p\<rparr>)
           in if prio k t < p
              then (let k1 = (if event_value_free t k
                              then set_event_value t (configMAX_PRIORITIES - p) k else k)
                    in if listIS_CONTAINED_WITHIN (Some (Ready (prio k1 t))) (Generic t) (lists k1)
                       then prvAddTaskToReadyList t (raise (remove_state_item t k1))
                       else raise k1)
              else k))"

definition xTaskPriorityDisinherit :: "nat option \<Rightarrow> kernel \<Rightarrow> kernel \<times> bool" where
  "xTaskPriorityDisinherit pxMutexHolder k =
     (case pxMutexHolder of
        None \<Rightarrow> (k, False)
      | Some t \<Rightarrow>
          (let k1 = update_tcb t (\<lambda>x. x\<lparr>uxMutexesHeld := uxMutexesHeld x - 1\<rparr>) k
           in if prio k1 t \<noteq> uxBasePriority (tcb k1 t)
              then (if uxMutexesHeld (tcb k1 t) = 0
                    then (let k2 = remove_state_item t k1;
                              k3 = update_tcb t (\<lambda>x. x\<lparr>uxPriority := uxBasePriority x\<rparr>) k2;
                              k4 = set_event_value t (configMAX_PRIORITIES - prio k3 t) k3
                          in (prvAddTaskToReadyList t k4, True))
                    else (k1, False))
              else (k1, False)))"

definition uxTaskResetEventItemValue :: "kernel \<Rightarrow> kernel \<times> u32" where
  "uxTaskResetEventItemValue k =
     (set_event_value (cur k) (configMAX_PRIORITIES - prio k (cur k)) k,
      listGET_LIST_ITEM_VALUE (Event (cur k)) (lists k))"

definition pvTaskIncrementMutexHeldCount :: "kernel \<Rightarrow> kernel \<times> nat option" where
  "pvTaskIncrementMutexHeldCount k =
     (let k1 = (case pxCurrentTCB k of
                  None \<Rightarrow> k
                | Some t \<Rightarrow> update_tcb t (\<lambda>x. x\<lparr>uxMutexesHeld := uxMutexesHeld x + 1\<rparr>) k)
      in (k1, pxCurrentTCB k1))"

section \<open>Event lists\<close>

definition block_current_task :: "bool \<Rightarrow> u32 \<Rightarrow> kernel \<Rightarrow> kernel" where
  "block_current_task forever xTicksToWait k =
     (let k1 = remove_ready_item (cur k) (prio k (cur k)) k
      in if forever
         then k1\<lparr>lists := vListInsertEnd Suspended (Generic (cur k1)) (lists k1)\<rparr>
         else prvAddCurrentTaskToDelayedList (xTickCount k1 + xTicksToWait) k1)"

definition vTaskPlaceOnEventList :: "lid \<Rightarrow> u32 \<Rightarrow> kernel \<Rightarrow> kernel" where
  "vTaskPlaceOnEventList pxEventList xTicksToWait k =
     block_current_task (xTicksToWait = portMAX_DELAY) xTicksToWait
       (k\<lparr>lists := vListInsert pxEventList (Event (cur k)) (lists k)\<rparr>)"

definition vTaskPlaceOnUnorderedEventList :: "lid \<Rightarrow> u32 \<Rightarrow> u32 \<Rightarrow> kernel \<Rightarrow> kernel" where
  "vTaskPlaceOnUnorderedEventList pxEventList v xTicksToWait k =
     (let k1 = set_event_value (cur k) (v OR taskEVENT_LIST_ITEM_VALUE_IN_USE) k
      in block_current_task (xTicksToWait = portMAX_DELAY) xTicksToWait
           (k1\<lparr>lists := vListInsertEnd pxEventList (Event (cur k1)) (lists k1)\<rparr>))"

definition vTaskPlaceOnEventListRestricted :: "lid \<Rightarrow> u32 \<Rightarrow> bool \<Rightarrow> kernel \<Rightarrow> kernel" where
  "vTaskPlaceOnEventListRestricted pxEventList xTicksToWait xWaitIndefinitely k =
     block_current_task xWaitIndefinitely xTicksToWait
       (k\<lparr>lists := vListInsertEnd pxEventList (Event (cur k)) (lists k)\<rparr>)"

text \<open>
  \<open>None\<close>: the event list is empty and the owner of its end marker would be used, which
  every caller rules out first.
\<close>

definition xTaskRemoveFromEventList :: "lid \<Rightarrow> kernel \<Rightarrow> (kernel \<times> bool) option" where
  "xTaskRemoveFromEventList pxEventList k =
     (case listGET_OWNER_OF_HEAD_ENTRY pxEventList (lists k) of
        None \<Rightarrow> None
      | Some t \<Rightarrow>
          (let k1 = remove_event_item t k;
               k2 = (if uxSchedulerSuspended k1 = 0
                     then prvAddTaskToReadyList t (remove_generic_item t k1)
                     else k1\<lparr>lists := vListInsertEnd PendingReady (Event t) (lists k1)\<rparr>);
               xReturn = (prio k2 t > prio k2 (cur k2));
               k3 = (if xReturn then k2\<lparr>xYieldPending := True\<rparr> else k2)
           in Some (prvResetNextTaskUnblockTime k3, xReturn)))"

definition xTaskRemoveFromUnorderedEventList :: "nat \<Rightarrow> u32 \<Rightarrow> kernel \<Rightarrow> kernel \<times> bool" where
  "xTaskRemoveFromUnorderedEventList i v k =
     (let k1 = set_event_value i (v OR taskEVENT_LIST_ITEM_VALUE_IN_USE) k;
          t = pvOwner (lists k1) (Event i);
          k2 = k1\<lparr>lists := fst (uxListRemove (Event i) (lists k1))\<rparr>;
          k3 = prvAddTaskToReadyList t (remove_generic_item t k2);
          xReturn = (prio k3 t > prio k3 (cur k3))
      in (if xReturn then k3\<lparr>xYieldPending := True\<rparr> else k3, xReturn))"

section \<open>Suspend and resume keep the invariant\<close>

text \<open>
  \<open>handle_ok k h\<close>: the handle names a task that is not waiting for its memory to be freed.
\<close>

definition handle_ok :: "kernel \<Rightarrow> nat option \<Rightarrow> bool" where
  "handle_ok k h \<longleftrightarrow> prvGetTCBFromHandle h k \<in> live k \<and>
     gcont k (prvGetTCBFromHandle h k) \<noteq> Some Termination"

lemma handle_frame [simp]:
  "prvGetTCBFromHandle h (vPortEnterCritical k) = prvGetTCBFromHandle h k"
  by (simp add: prvGetTCBFromHandle_def cur_def split: option.split)

lemma cur_enter_critical [simp]: "cur (vPortEnterCritical k) = cur k"
  by (simp add: cur_def)

definition suspend_core :: "nat \<Rightarrow> kernel \<Rightarrow> kernel" where
  "suspend_core t k =
     (let k2 = remove_state_item t k;
          k3 = (if listLIST_ITEM_CONTAINER (Event t) (lists k2) \<noteq> None
                then remove_event_item t k2 else k2)
      in k3\<lparr>lists := vListInsertEnd Suspended (Generic t) (lists k3)\<rparr>)"

lemma bit_exact_remove_event: "bit_exact p (remove_event_item t k) = bit_exact p k"
  by (simp add: bit_exact_def)

lemma suspend_core_ok:
  assumes k: "kinv {} k" and t: "t \<in> live k" and nt: "gcont k t \<noteq> Some Termination"
  shows "kinv {} (suspend_core t k)"
    and "pvContainer (lists (suspend_core t k)) =
      (pvContainer (lists k))(Generic t := Some Suspended, Event t := None)"
    and "xItemValue (lists (suspend_core t k)) = xItemValue (lists k)"
    and "tcb (suspend_core t k) = tcb k" and "live (suspend_core t k) = live k"
proof -
  obtain l where l: "gcont k t = Some l" using kinv_liveD(5) [OF k t] by blast
  let ?k2 = "remove_state_item t k"
  let ?k3 = "if listLIST_ITEM_CONTAINER (Event t) (lists ?k2) \<noteq> None then remove_event_item t ?k2 else ?k2"
  have k2: "kinv {t} ?k2" "bit_exact (prio k t) ?k2"
    using kinv_remove_state_item [OF k l] l nt by auto
  have k3: "kinv {t} ?k3" "bit_exact (prio ?k3 t) ?k3"
    using k2 kinv_remove_event_item [OF k2(1)] by (auto simp: bit_exact_remove_event)
  have eq: "suspend_core t k = ?k3\<lparr>lists := vListInsertEnd Suspended (Generic t) (lists ?k3)\<rparr>"
    by (simp add: suspend_core_def Let_def)
  show "kinv {} (suspend_core t k)" unfolding eq using kinv_put_suspended [OF k3(1) _ k3(2)] by simp
  show "pvContainer (lists (suspend_core t k)) =
      (pvContainer (lists k))(Generic t := Some Suspended, Event t := None)"
    by (auto simp: eq listLIST_ITEM_CONTAINER_def fun_eq_iff)
  show "xItemValue (lists (suspend_core t k)) = xItemValue (lists k)"
    "tcb (suspend_core t k) = tcb k" "live (suspend_core t k) = live k"
    by (simp_all add: eq)
qed

lemma vTaskSuspend_alt:
  "vTaskSuspend h k =
     (let t = prvGetTCBFromHandle h k; k5 = vPortExitCritical (suspend_core t (vPortEnterCritical k))
      in if Some t = pxCurrentTCB k5
         then (if xSchedulerRunning k5 then portYIELD k5
               else if listCURRENT_LIST_LENGTH Suspended (lists k5) = uxCurrentNumberOfTasks k5
               then k5\<lparr>pxCurrentTCB := None\<rparr> else vTaskSwitchContext k5)
         else (if xSchedulerRunning k5
               then vPortExitCritical (prvResetNextTaskUnblockTime (vPortEnterCritical k5)) else k5))"
  by (simp add: vTaskSuspend_def suspend_core_def Let_def)

lemma suspend_ok:
  assumes k: "kinv {} k" and h: "handle_ok k h" and t: "t = prvGetTCBFromHandle h k"
  shows "kinv {} (vTaskSuspend h k)"
    and "pvContainer (lists (vTaskSuspend h k)) =
      (pvContainer (lists k))(Generic t := Some Suspended, Event t := None)"
    and "tcb (vTaskSuspend h k) = tcb k"
proof -
  let ?k4 = "suspend_core t (vPortEnterCritical k)"
  have h': "t \<in> live (vPortEnterCritical k)" "gcont (vPortEnterCritical k) t \<noteq> Some Termination"
    using h t by (simp_all add: handle_ok_def)
  have k0: "kinv {} (vPortEnterCritical k)" using k by simp
  note c = suspend_core_ok [OF k0 h']
  have k5: "kinv {} (vPortExitCritical ?k4)" by (rule kinv_exit_critical [OF c(1)])
  show "kinv {} (vTaskSuspend h k)"
    unfolding vTaskSuspend_alt Let_def t [symmetric]
    using k5 kinv_reset_next [of False "{}" "vPortEnterCritical (vPortExitCritical ?k4)"]
    by (auto simp: kinv_portYIELD kinv_switch_context intro: kinv_exit_critical)
  show "pvContainer (lists (vTaskSuspend h k)) =
      (pvContainer (lists k))(Generic t := Some Suspended, Event t := None)"
    unfolding vTaskSuspend_alt Let_def t [symmetric] using c(2) by simp
  show "tcb (vTaskSuspend h k) = tcb k"
    unfolding vTaskSuspend_alt Let_def t [symmetric] using c(4) by simp
qed

lemma suspended_iff:
  "prvTaskIsTaskSuspended t k \<longleftrightarrow> gcont k t = Some Suspended \<and> econt k t = None"
  by (auto simp: prvTaskIsTaskSuspended_def listIS_CONTAINED_WITHIN_def)

lemma suspendedD:
  assumes k: "kinv {} k" and s: "prvTaskIsTaskSuspended t k"
  shows "gcont k t = Some Suspended" and "econt k t = None" and "t \<in> live k"
proof -
  show g: "gcont k t = Some Suspended" and "econt k t = None"
    using s by (auto simp: prvTaskIsTaskSuspended_def listIS_CONTAINED_WITHIN_def split: if_splits)
  show "t \<in> live k" by (rule kinv_liveD(1) [OF k g])
qed

lemma suspended_enter [simp]:
  "prvTaskIsTaskSuspended t (vPortEnterCritical k) = prvTaskIsTaskSuspended t k"
  by (simp add: prvTaskIsTaskSuspended_def)

lemma resume_ok:
  assumes k: "kinv {} k"
  shows "kinv {} (vTaskResume h k)"
    and "h = Some t \<Longrightarrow> Some t \<noteq> pxCurrentTCB k \<Longrightarrow> prvTaskIsTaskSuspended t k \<Longrightarrow>
      pvContainer (lists (vTaskResume h k)) = (pvContainer (lists k))(Generic t := Some (Ready (prio k t)))"
    and "h = Some t \<Longrightarrow> \<not> prvTaskIsTaskSuspended t k \<Longrightarrow>
      pvContainer (lists (vTaskResume h k)) = pvContainer (lists k)"
proof -
  let ?k2 = "\<lambda>t. prvAddTaskToReadyList t (remove_generic_item t (vPortEnterCritical k))"
  have k2: "kinv {} (?k2 t)" if "prvTaskIsTaskSuspended t k" for t
    using kinv_move_to_ready [of False "{}" "vPortEnterCritical k" t Suspended] k suspendedD [OF k that]
    by simp
  show "kinv {} (vTaskResume h k)"
    using k k2 by (auto simp: vTaskResume_def Let_def intro!: kinv_exit_critical kinv_portYIELD
        split: option.split)
  show "h = Some t \<Longrightarrow> Some t \<noteq> pxCurrentTCB k \<Longrightarrow> prvTaskIsTaskSuspended t k \<Longrightarrow>
      pvContainer (lists (vTaskResume h k)) = (pvContainer (lists k))(Generic t := Some (Ready (prio k t)))"
    by (simp add: vTaskResume_def Let_def)
  show "h = Some t \<Longrightarrow> \<not> prvTaskIsTaskSuspended t k \<Longrightarrow>
      pvContainer (lists (vTaskResume h k)) = pvContainer (lists k)"
    by (simp add: vTaskResume_def Let_def)
qed

lemma resume_isr_ok:
  assumes k: "kinv {} k"
  shows "kinv {} (fst (xTaskResumeFromISR t k))"
    and "prvTaskIsTaskSuspended t k \<Longrightarrow> uxSchedulerSuspended k \<noteq> 0 \<Longrightarrow>
      t \<in> pending (fst (xTaskResumeFromISR t k)) \<and> \<not> snd (xTaskResumeFromISR t k)"
    and "prvTaskIsTaskSuspended t k \<Longrightarrow> uxSchedulerSuspended k = 0 \<Longrightarrow>
      gcont (fst (xTaskResumeFromISR t k)) t = Some (Ready (prio k t)) \<and>
      (snd (xTaskResumeFromISR t k) \<longleftrightarrow> prio k (cur k) \<le> prio k t)"
proof -
  let ?k1 = "k\<lparr>interrupts_on := False\<rparr>"
  have s: "prvTaskIsTaskSuspended t ?k1 = prvTaskIsTaskSuspended t k"
    by (simp add: prvTaskIsTaskSuspended_def)
  have k1: "kinv {} ?k1" using k by simp
  have a: "kinv {} (prvAddTaskToReadyList t (remove_generic_item t ?k1))"
    if "prvTaskIsTaskSuspended t k"
    using kinv_move_to_ready [OF k1, of t Suspended] suspendedD [OF k that] by simp
  have b: "kinv {} (?k1\<lparr>lists := vListInsertEnd PendingReady (Event t) (lists ?k1)\<rparr>)"
    if "prvTaskIsTaskSuspended t k"
    using kinv_put_event(2) [OF k1, of t PendingReady] suspendedD [OF k that] by simp
  show "kinv {} (fst (xTaskResumeFromISR t k))"
    using a b k1 by (auto simp: xTaskResumeFromISR_def ulPortSetInterruptMask_def s Let_def split_beta)
  show "prvTaskIsTaskSuspended t k \<Longrightarrow> uxSchedulerSuspended k \<noteq> 0 \<Longrightarrow>
      t \<in> pending (fst (xTaskResumeFromISR t k)) \<and> \<not> snd (xTaskResumeFromISR t k)"
    by (simp add: xTaskResumeFromISR_def ulPortSetInterruptMask_def s vPortClearInterruptMask_def pending_def)
  show "prvTaskIsTaskSuspended t k \<Longrightarrow> uxSchedulerSuspended k = 0 \<Longrightarrow>
      gcont (fst (xTaskResumeFromISR t k)) t = Some (Ready (prio k t)) \<and>
      (snd (xTaskResumeFromISR t k) \<longleftrightarrow> prio k (cur k) \<le> prio k t)"
    by (simp add: xTaskResumeFromISR_def ulPortSetInterruptMask_def s vPortClearInterruptMask_def cur_def)
qed

section \<open>The state query agrees with the lists\<close>

lemma get_state_ok:
  assumes k: "kinv {} k" and t: "t \<in> live k" and nc: "Some t \<noteq> pxCurrentTCB k"
  shows "snd (eTaskGetState t k) = eBlocked \<longleftrightarrow>
      timed k t \<or> gcont k t = Some Suspended \<and> econt k t \<noteq> None"
    and "snd (eTaskGetState t k) = eSuspended \<longleftrightarrow> gcont k t = Some Suspended \<and> econt k t = None"
    and "snd (eTaskGetState t k) = eDeleted \<longleftrightarrow> gcont k t = Some Termination"
    and "snd (eTaskGetState t k) = eReady \<longleftrightarrow> gcont k t = Some (Ready (prio k t))"
proof -
  obtain l where l: "gcont k t = Some l" "l \<in> state_lists (prio k t)"
    using kinv_liveD(5) [OF k t] kinv_contD(1) [OF k] by blast
  have eq: "snd (eTaskGetState t k) =
      (if timed k t then eBlocked
       else if l = Suspended then (if econt k t = None then eSuspended else eBlocked)
       else if l = Termination then eDeleted else eReady)"
    using nc timed_alt [OF k, of t] l(1)
    by (simp add: eTaskGetState_def Let_def listLIST_ITEM_CONTAINER_def)
  have td: "timed k t \<longleftrightarrow> l = Delayed1 \<or> l = Delayed2" using l(1) by (simp add: timed_def)
  show "snd (eTaskGetState t k) = eBlocked \<longleftrightarrow>
      timed k t \<or> gcont k t = Some Suspended \<and> econt k t \<noteq> None"
    by (simp add: eq l(1))
  show "snd (eTaskGetState t k) = eSuspended \<longleftrightarrow> gcont k t = Some Suspended \<and> econt k t = None"
    by (simp add: eq l(1) td)
  show "snd (eTaskGetState t k) = eDeleted \<longleftrightarrow> gcont k t = Some Termination"
    by (simp add: eq l(1) td)
  show "snd (eTaskGetState t k) = eReady \<longleftrightarrow> gcont k t = Some (Ready (prio k t))"
    using l(2) by (auto simp: eq l(1) td state_lists_def)
qed

section \<open>Priorities\<close>

lemma set_event_value_frame [simp, kernel_frame]:
  "pvContainer (lists (set_event_value t v k)) = pvContainer (lists k)"
  "pvOwner (lists (set_event_value t v k)) = pvOwner (lists k)"
  "xItemValue (lists (set_event_value t v k)) = (xItemValue (lists k))(Item (Event t) := v)"
  "tcb (set_event_value t v k) = tcb k" "live (set_event_value t v k) = live k"
  "evlists (set_event_value t v k) = evlists k" "pxCurrentTCB (set_event_value t v k) = pxCurrentTCB k"
  "uxTopReadyPriority (set_event_value t v k) = uxTopReadyPriority k"
  "xTickCount (set_event_value t v k) = xTickCount k"
  "uxSchedulerSuspended (set_event_value t v k) = uxSchedulerSuspended k"
  by (simp_all add: set_event_value_def)

lemma kinv_set_event [simp]: "kinvd D X k \<Longrightarrow> kinvd D X (set_event_value t v k)"
  unfolding set_event_value_def by (rule kinv_set_event_value)

lemma update_tcb_commute:
  "remove_ready_item t p (update_tcb t f k) = update_tcb t f (remove_ready_item t p k)"
  "set_event_value t v (update_tcb t f k) = update_tcb t f (set_event_value t v k)"
  by (simp_all add: remove_ready_item_def set_event_value_def update_tcb_def
      reset_ready_priority_def Let_def split_beta)

lemma bit_exact_update_tcb [simp]: "bit_exact p (update_tcb t f k) = bit_exact p k"
  by (simp add: bit_exact_def)

lemma bit_exact_set_event [simp]: "bit_exact p (set_event_value t v k) = bit_exact p k"
  by (simp add: bit_exact_def)

text \<open>
  Moving a task to another priority: out of its ready list, the new priority into the TCB,
  into the ready list of the new priority; or, when it is not ready, only the TCB.
\<close>

lemma change_priority_ready:
  assumes k: "kinv {} k" and g: "gcont k t = Some (Ready (prio k t))"
    and p: "uxPriority (f (tcb k t)) < configMAX_PRIORITIES"
    and b: "uxBasePriority (f (tcb k t)) < configMAX_PRIORITIES"
  shows "kinv {} (prvAddTaskToReadyList t (update_tcb t f (remove_ready_item t (prio k t) k)))"
proof -
  let ?k1 = "remove_ready_item t (prio k t) k"
  have k1: "kinv {t} ?k1" "bit_exact (prio k t) ?k1" using kinv_remove_ready_item [OF k g] by auto
  have "t \<in> live k" by (rule kinv_liveD(1) [OF k g])
  then have "kinv {t} (update_tcb t f ?k1)"
    by (intro kinv_set_priority [OF k1(1)]) (use k1(2) p b in auto)
  from kinv_add_ready [OF this, of t] show ?thesis by simp
qed

lemma change_priority_not_ready:
  assumes k: "kinv {} k" and t: "t \<in> live k" and g: "gcont k t \<noteq> Some (Ready (prio k t))"
    and p: "uxPriority (f (tcb k t)) < configMAX_PRIORITIES"
    and b: "uxBasePriority (f (tcb k t)) < configMAX_PRIORITIES"
  shows "kinv {} (update_tcb t f k)"
proof (rule kinv_set_priority [where f = f, OF k t p b])
  show "gcont k t \<noteq> Some (Ready q)" for q using g kinv_contD(2) [OF k, of t q] by auto
qed simp

lemma new_priority_less: "new_priority p < configMAX_PRIORITIES"
  by (auto simp: new_priority_def configMAX_PRIORITIES_def not_le)

lemma set_priority_core_ok:
  assumes k: "kinv {} k" and t: "t \<in> live k" and n: "n < configMAX_PRIORITIES"
  shows "kinv {} (set_priority_core t n k)"
    and "tcb (set_priority_core t n k) = (tcb k)(t := set_priority n (tcb k t))"
    and "gcont (set_priority_core t n k) u = (if u = t \<and> gcont k t = Some (Ready (prio k t))
      then Some (Ready (uxPriority (set_priority n (tcb k t)))) else gcont k u)"
proof -
  let ?f = "set_priority n"
  define k1 where "k1 = (if event_value_free t k
    then set_event_value t (configMAX_PRIORITIES - n) k else k)"
  have ev: "event_value_free t (update_tcb t ?f k) = event_value_free t k"
    by (simp add: event_value_free_def)
  have k1: "kinv {} k1" using k by (simp add: k1_def)
  have f: "tcb k1 = tcb k" "gcont k1 = gcont k" "t \<in> live k1" using t by (simp_all add: k1_def)
  have eq: "set_priority_core t n k = (if gcont k t = Some (Ready (prio k t))
      then prvAddTaskToReadyList t (update_tcb t ?f (remove_ready_item t (prio k1 t) k1))
      else update_tcb t ?f k1)"
    by (simp add: set_priority_core_def Let_def ev update_tcb_commute listIS_CONTAINED_WITHIN_def k1_def)
  have p: "uxPriority (?f (tcb k1 t)) < configMAX_PRIORITIES"
    "uxBasePriority (?f (tcb k1 t)) < configMAX_PRIORITIES"
    using n kinv_tcbD(1) [OF k t] by (auto simp: set_priority_def f)
  have g: "gcont k1 t = gcont k t" using f(2) by (rule fun_cong)
  show "kinv {} (set_priority_core t n k)"
    using change_priority_ready [where f = ?f, OF k1 _ p]
      change_priority_not_ready [where f = ?f, OF k1 f(3) _ p]
    by (simp add: eq g f(1))
  show "tcb (set_priority_core t n k) = (tcb k)(t := set_priority n (tcb k t))"
    by (simp add: eq f)
  show "gcont (set_priority_core t n k) u = (if u = t \<and> gcont k t = Some (Ready (prio k t))
      then Some (Ready (uxPriority (set_priority n (tcb k t)))) else gcont k u)"
    by (simp add: eq f(1) fun_cong [OF f(2)])
qed

lemma priority_set_ok:
  assumes k: "kinv {} k" and t: "t \<in> live k" "t = prvGetTCBFromHandle h k"
  shows "kinv {} (vTaskPrioritySet h p k)"
    and "uxBasePriority (tcb (vTaskPrioritySet h p k) t) = new_priority p"
    and "uxBasePriority (tcb k t) = prio k t \<Longrightarrow> prio (vTaskPrioritySet h p k) t = new_priority p"
    and "uxBasePriority (tcb k t) \<noteq> prio k t \<Longrightarrow> prio (vTaskPrioritySet h p k) t = prio k t"
proof -
  let ?k1 = "vPortEnterCritical k"
  have k1: "kinv {} ?k1" and t1: "t \<in> live ?k1" using k t by simp_all
  note c = set_priority_core_ok [OF k1 t1 new_priority_less]
  show "kinv {} (vTaskPrioritySet h p k)"
    unfolding vTaskPrioritySet_def Let_def handle_frame t(2) [symmetric]
    by (rule kinv_exit_critical) (use c(1) k1 in \<open>simp add: kinv_portYIELD\<close>)
  show "uxBasePriority (tcb (vTaskPrioritySet h p k) t) = new_priority p"
    and "uxBasePriority (tcb k t) = prio k t \<Longrightarrow> prio (vTaskPrioritySet h p k) t = new_priority p"
    and "uxBasePriority (tcb k t) \<noteq> prio k t \<Longrightarrow> prio (vTaskPrioritySet h p k) t = prio k t"
    unfolding vTaskPrioritySet_def Let_def handle_frame t(2) [symmetric]
    by (auto simp: c(2) set_priority_def)
qed

section \<open>Priority inheritance\<close>

lemma inherit_ok:
  assumes k: "kinv {} k" and t: "t \<in> live k" and c: "cur k \<in> live k"
  shows "kinv {} (vTaskPriorityInherit (Some t) k)"
    and "prio (vTaskPriorityInherit (Some t) k) t = max (prio k t) (prio k (cur k))"
    and "uxBasePriority (tcb (vTaskPriorityInherit (Some t) k) t) = uxBasePriority (tcb k t)"
    and "uxMutexesHeld (tcb (vTaskPriorityInherit (Some t) k) t) = uxMutexesHeld (tcb k t)"
    and "u \<noteq> t \<Longrightarrow> tcb (vTaskPriorityInherit (Some t) k) u = tcb k u"
    and "gcont (vTaskPriorityInherit (Some t) k) u = (if u = t \<and> gcont k t = Some (Ready (prio k t))
      then Some (Ready (max (prio k t) (prio k (cur k)))) else gcont k u)"
proof -
  let ?p = "prio k (cur k)" and ?f = "\<lambda>x. x\<lparr>uxPriority := prio k (cur k)\<rparr>"
  define k1 where "k1 = (if event_value_free t k
    then set_event_value t (configMAX_PRIORITIES - ?p) k else k)"
  have k1: "kinv {} k1" using k by (simp add: k1_def)
  have f: "tcb k1 = tcb k" "pvContainer (lists k1) = pvContainer (lists k)" "live k1 = live k"
    by (simp_all add: k1_def)
  have eq: "vTaskPriorityInherit (Some t) k = (if prio k t < ?p
      then (if gcont k t = Some (Ready (prio k t))
            then prvAddTaskToReadyList t (update_tcb t ?f (remove_state_item t k1))
            else update_tcb t ?f k1) else k)"
    by (simp add: vTaskPriorityInherit_def Let_def listIS_CONTAINED_WITHIN_def f
        flip: k1_def)
  have p: "?p < configMAX_PRIORITIES" "uxBasePriority (tcb k t) < configMAX_PRIORITIES"
    using kinv_tcbD [OF k c] kinv_tcbD [OF k t] by simp_all
  have r: "kinv {} (prvAddTaskToReadyList t (update_tcb t ?f (remove_state_item t k1)))"
    if g: "gcont k t = Some (Ready (prio k t))"
  proof -
    have g1: "gcont k1 t = Some (Ready (prio k t))" using g f by simp
    have rs: "kinv {t} (remove_state_item t k1)" "bit_exact (prio k1 t) (remove_state_item t k1)"
      using kinv_remove_state_item [OF k1 g1] by auto
    have "kinv {t} (update_tcb t ?f (remove_state_item t k1))"
      by (rule kinv_set_priority [OF rs(1)]) (use rs(2) t p f in auto)
    from kinv_add_ready [OF this, of t] show ?thesis by simp
  qed
  have nr: "kinv {} (update_tcb t ?f k1)" if "gcont k t \<noteq> Some (Ready (prio k t))"
    by (rule change_priority_not_ready [OF k1]) (use t p f that in auto)
  show "kinv {} (vTaskPriorityInherit (Some t) k)" using k r nr by (simp add: eq)
  show "prio (vTaskPriorityInherit (Some t) k) t = max (prio k t) ?p"
    by (auto simp: eq f max_def)
  show "uxBasePriority (tcb (vTaskPriorityInherit (Some t) k) t) = uxBasePriority (tcb k t)"
    "uxMutexesHeld (tcb (vTaskPriorityInherit (Some t) k) t) = uxMutexesHeld (tcb k t)"
    "u \<noteq> t \<Longrightarrow> tcb (vTaskPriorityInherit (Some t) k) u = tcb k u"
    by (simp_all add: eq f)
  show "gcont (vTaskPriorityInherit (Some t) k) u = (if u = t \<and> gcont k t = Some (Ready (prio k t))
      then Some (Ready (max (prio k t) ?p)) else gcont k u)"
    by (auto simp: eq f max_def)
qed

lemma disinherit_ok:
  assumes k: "kinv {} k" and t: "t \<in> live k" and nt: "gcont k t \<noteq> Some Termination"
  shows "kinv {} (fst (xTaskPriorityDisinherit (Some t) k))"
    and "uxMutexesHeld (tcb (fst (xTaskPriorityDisinherit (Some t) k)) t) = uxMutexesHeld (tcb k t) - 1"
    and "uxBasePriority (tcb (fst (xTaskPriorityDisinherit (Some t) k)) t) = uxBasePriority (tcb k t)"
    and "snd (xTaskPriorityDisinherit (Some t) k) \<longleftrightarrow>
      prio k t \<noteq> uxBasePriority (tcb k t) \<and> uxMutexesHeld (tcb k t) = 1"
    and "prio (fst (xTaskPriorityDisinherit (Some t) k)) t =
      (if uxMutexesHeld (tcb k t) = 1 then uxBasePriority (tcb k t) else prio k t)"
proof -
  let ?f = "\<lambda>x. x\<lparr>uxMutexesHeld := uxMutexesHeld x - 1\<rparr>" and ?g = "\<lambda>x. x\<lparr>uxPriority := uxBasePriority x\<rparr>"
  let ?k1 = "update_tcb t ?f k"
  let ?k2 = "remove_state_item t ?k1"
  let ?k4 = "set_event_value t (configMAX_PRIORITIES - uxBasePriority (tcb k t)) (update_tcb t ?g ?k2)"
  have eq: "xTaskPriorityDisinherit (Some t) k =
      (if prio k t \<noteq> uxBasePriority (tcb k t) \<and> uxMutexesHeld (tcb k t) = 1
       then (prvAddTaskToReadyList t ?k4, True) else (?k1, False))"
    by (simp add: xTaskPriorityDisinherit_def Let_def)
  have k1: "kinv {} ?k1" by (rule kinv_update_tcb [OF k]) auto
  obtain l where l: "gcont ?k1 t = Some l" "l \<noteq> Termination"
    using kinv_liveD(5) [OF k t] nt by auto
  have rs: "kinv {t} ?k2" "bit_exact (prio ?k1 t) ?k2"
    using kinv_remove_state_item [OF k1 l] by simp_all
  have "kinv {t} (update_tcb t ?g ?k2)"
    by (rule kinv_set_priority [OF rs(1)]) (use rs(2) t kinv_tcbD [OF k t] in auto)
  then have "kinv {t} ?k4" by simp
  from kinv_add_ready [OF this, of t] k1 show "kinv {} (fst (xTaskPriorityDisinherit (Some t) k))"
    by (simp add: eq)
  show "uxMutexesHeld (tcb (fst (xTaskPriorityDisinherit (Some t) k)) t) = uxMutexesHeld (tcb k t) - 1"
    "uxBasePriority (tcb (fst (xTaskPriorityDisinherit (Some t) k)) t) = uxBasePriority (tcb k t)"
    "snd (xTaskPriorityDisinherit (Some t) k) \<longleftrightarrow>
      prio k t \<noteq> uxBasePriority (tcb k t) \<and> uxMutexesHeld (tcb k t) = 1"
    "prio (fst (xTaskPriorityDisinherit (Some t) k)) t =
      (if uxMutexesHeld (tcb k t) = 1 then uxBasePriority (tcb k t) else prio k t)"
    by (simp_all add: eq)
qed

section \<open>Blocking on and waking from an event list\<close>

lemma block_current_task_ok:
  assumes k: "kinv {} k" and t: "running_task k t" and w: "forever \<or> w \<noteq> 0"
  shows "kinv {} (block_current_task forever w k)"
    and "if forever then gcont (block_current_task forever w k) t = Some Suspended
         else timed (block_current_task forever w k) t \<and> remaining (block_current_task forever w k) t = w"
    and "econt (block_current_task forever w k) = econt k"
    and "u \<noteq> t \<Longrightarrow> gcont (block_current_task forever w k) u = gcont k u"
proof -
  let ?k1 = "remove_ready_item t (prio k t) k"
  have g: "gcont k t = Some (Ready (prio k t))" and c: "cur k = t" "cur ?k1 = t"
    using t by (simp_all add: running_task_def cur_def)
  have k1: "kinv {t} ?k1" "bit_exact (prio ?k1 t) ?k1" using kinv_remove_ready_item [OF k g] by simp_all
  have eq: "block_current_task forever w k = (if forever
      then ?k1\<lparr>lists := vListInsertEnd Suspended (Generic t) (lists ?k1)\<rparr>
      else prvAddCurrentTaskToDelayedList (xTickCount k + w) ?k1)"
    by (simp add: block_current_task_def Let_def c)
  have ne: "xTickCount k + w \<noteq> xTickCount k" if "\<not> forever" using w that by simp
  note b = block_current [OF k t ne]
  show "kinv {} (block_current_task forever w k)"
    using kinv_put_suspended [OF k1(1) _ k1(2)] b(1) by (simp add: eq)
  show "if forever then gcont (block_current_task forever w k) t = Some Suspended
         else timed (block_current_task forever w k) t \<and> remaining (block_current_task forever w k) t = w"
    unfolding eq using b(2,4) by simp
  show "econt (block_current_task forever w k) = econt k" using b(6) by (simp add: eq)
  show "u \<noteq> t \<Longrightarrow> gcont (block_current_task forever w k) u = gcont k u"
    using b(5) by (simp add: eq)
qed

text \<open>The three ways to put the running task on an event list and block it.\<close>

definition event_ready :: "kernel \<Rightarrow> nat \<Rightarrow> lid \<Rightarrow> bool" where
  "event_ready k t l \<longleftrightarrow> running_task k t \<and> econt k t = None \<and> l \<in> evlists k - timer_lists"

lemma event_readyD:
  assumes k: "kinv {} k" and e: "event_ready k t l"
  shows "t \<in> live k" and "cur k = t" and "l \<in> KL k" and "gcont k t \<noteq> Some Termination"
    and "l \<in> insert PendingReady (evlists k - timer_lists)" and "econt k t = None" and "running_task k t"
  using e kinv_liveD(1) [OF k, of t] by (auto simp: event_ready_def running_task_def cur_def)

lemma running_event_store:
  "pvContainer s (Generic t) = gcont k t \<Longrightarrow> running_task (k\<lparr>lists := s\<rparr>) t = running_task k t"
  by (simp add: running_task_def)

lemma place_on_event_list_ok:
  assumes k: "kinv {} k" and e: "event_ready k t l" and w: "w \<noteq> 0"
  shows "kinv {} (vTaskPlaceOnEventList l w k)"
    and "econt (vTaskPlaceOnEventList l w k) t = Some l"
    and "if w = portMAX_DELAY then gcont (vTaskPlaceOnEventList l w k) t = Some Suspended
         else timed (vTaskPlaceOnEventList l w k) t \<and> remaining (vTaskPlaceOnEventList l w k) t = w"
    and "u \<noteq> t \<Longrightarrow> gcont (vTaskPlaceOnEventList l w k) u = gcont k u \<and>
      econt (vTaskPlaceOnEventList l w k) u = econt k u"
proof -
  note d = event_readyD [OF k e]
  let ?k1 = "k\<lparr>lists := vListInsert l (Event t) (lists k)\<rparr>"
  have k1: "kinv {} ?k1" by (rule kinv_put_event(1) [OF k d(1,5,6,4)])
  note st = vListInsert_store [OF kinv_wf [OF k] d(3,6)]
  have t1: "running_task ?k1 t" using d(7) st(3) by (simp add: running_event_store)
  have w': "w = portMAX_DELAY \<or> w \<noteq> 0" using w by simp
  note b = block_current_task_ok [OF k1 t1 w']
  have eq: "vTaskPlaceOnEventList l w k = block_current_task (w = portMAX_DELAY) w ?k1"
    by (simp add: vTaskPlaceOnEventList_def d(2))
  show "kinv {} (vTaskPlaceOnEventList l w k)" using b(1) w by (simp add: eq)
  show "econt (vTaskPlaceOnEventList l w k) t = Some l"
    using fun_cong [OF b(3), of t] w st(3) by (simp add: eq)
  show "if w = portMAX_DELAY then gcont (vTaskPlaceOnEventList l w k) t = Some Suspended
         else timed (vTaskPlaceOnEventList l w k) t \<and> remaining (vTaskPlaceOnEventList l w k) t = w"
    using b(2) unfolding eq .
  show "u \<noteq> t \<Longrightarrow> gcont (vTaskPlaceOnEventList l w k) u = gcont k u \<and>
      econt (vTaskPlaceOnEventList l w k) u = econt k u"
    using b(4) [of u] fun_cong [OF b(3), of u] w st(3) by (simp add: eq)
qed

lemma place_unordered_ok:
  assumes k: "kinv {} k" and e: "event_ready k t l" and w: "w \<noteq> 0"
  shows "kinv {} (vTaskPlaceOnUnorderedEventList l v w k)"
    and "econt (vTaskPlaceOnUnorderedEventList l v w k) t = Some l"
    and "if w = portMAX_DELAY then gcont (vTaskPlaceOnUnorderedEventList l v w k) t = Some Suspended
         else timed (vTaskPlaceOnUnorderedEventList l v w k) t \<and>
           remaining (vTaskPlaceOnUnorderedEventList l v w k) t = w"
proof -
  note d = event_readyD [OF k e]
  let ?k0 = "set_event_value t (v OR taskEVENT_LIST_ITEM_VALUE_IN_USE) k"
  let ?k1 = "?k0\<lparr>lists := vListInsertEnd l (Event t) (lists ?k0)\<rparr>"
  have k0: "kinv {} ?k0" using k by simp
  have k1: "kinv {} ?k1" by (rule kinv_put_event(2) [OF k0]) (use d in simp_all)
  have t1: "running_task ?k1 t" using d(7) by (simp add: running_task_def)
  have w': "w = portMAX_DELAY \<or> w \<noteq> 0" using w by simp
  note b = block_current_task_ok [OF k1 t1 w']
  have eq: "vTaskPlaceOnUnorderedEventList l v w k = block_current_task (w = portMAX_DELAY) w ?k1"
    using d(2) by (simp add: vTaskPlaceOnUnorderedEventList_def Let_def cur_def)
  show "kinv {} (vTaskPlaceOnUnorderedEventList l v w k)" using b(1) w by (simp add: eq)
  show "econt (vTaskPlaceOnUnorderedEventList l v w k) t = Some l"
    using fun_cong [OF b(3), of t] w by (simp add: eq)
  show "if w = portMAX_DELAY then gcont (vTaskPlaceOnUnorderedEventList l v w k) t = Some Suspended
         else timed (vTaskPlaceOnUnorderedEventList l v w k) t \<and>
           remaining (vTaskPlaceOnUnorderedEventList l v w k) t = w"
    using b(2) unfolding eq .
qed

lemma place_restricted_ok:
  assumes k: "kinv {} k" and e: "event_ready k t l" and w: "forever \<or> w \<noteq> 0"
  shows "kinv {} (vTaskPlaceOnEventListRestricted l w forever k)"
    and "econt (vTaskPlaceOnEventListRestricted l w forever k) t = Some l"
proof -
  note d = event_readyD [OF k e]
  let ?k1 = "k\<lparr>lists := vListInsertEnd l (Event t) (lists k)\<rparr>"
  have k1: "kinv {} ?k1" by (rule kinv_put_event(2) [OF k d(1,5,6,4)])
  have t1: "running_task ?k1 t" using d(7) by (simp add: running_task_def)
  note b = block_current_task_ok [OF k1 t1 w]
  have eq: "vTaskPlaceOnEventListRestricted l w forever k = block_current_task forever w ?k1"
    by (simp add: vTaskPlaceOnEventListRestricted_def d(2))
  show "kinv {} (vTaskPlaceOnEventListRestricted l w forever k)" using b(1) by (simp add: eq)
  show "econt (vTaskPlaceOnEventListRestricted l w forever k) t = Some l"
    using fun_cong [OF b(3), of t] by (simp add: eq)
qed

text \<open>The head of an event list is the event item of a task.\<close>

lemma event_item:
  assumes k: "kinv {} k" and l: "l \<in> evlists k - timer_lists" and ic: "pvContainer (lists k) i = Some l"
  shows "\<exists>t. i = Event t"
proof -
  have ev: "is_event_list l" using l kinv_parts(2) [OF k] by (auto simp: kinv_lists_def)
  show ?thesis
  proof (cases i)
    case (Generic t)
    then show ?thesis using kinv_contD(1) [OF k, of t] ic state_lists_not_event ev by auto
  next
    case (TimerItem m)
    then show ?thesis using kinv_contD(7) [OF k, of m] ic l by simp
  qed simp
qed

lemma event_head:
  assumes k: "kinv {} k" and l: "l \<in> evlists k - timer_lists" and ne: "items (lists k) l \<noteq> []"
  obtains t where "items (lists k) l = Event t # tl (items (lists k) l)"
    and "listGET_OWNER_OF_HEAD_ENTRY l (lists k) = Some t" and "econt k t = Some l" and "t \<in> live k"
proof -
  have K: "l \<in> KL k" using l by simp
  note si = set_items [OF kinv_wf [OF k] K]
  obtain i js where i: "items (lists k) l = i # js" using ne by (cases "items (lists k) l") auto
  then have ic: "pvContainer (lists k) i = Some l" using si by auto
  have "\<exists>t. i = Event t" by (rule event_item [OF k l ic])
  then obtain t where t: "i = Event t" ..
  with ic have tl: "t \<in> live k" "econt k t = Some l" using kinv_liveD(2) [OF k] by auto
  show thesis
    by (rule that [of t]) (use i t tl head_owner(1) [OF kinv_wf [OF k] K] kinv_tcbD(4) [OF k tl(1)] in auto)
qed

lemma remove_from_event_list_ok:
  assumes k: "kinv {} k" and l: "l \<in> evlists k - timer_lists" and ne: "items (lists k) l \<noteq> []"
  shows "\<exists>k' t. xTaskRemoveFromEventList l k = Some (k', prio k t > prio k (cur k)) \<and> kinv {} k' \<and>
    hd (items (lists k) l) = Event t \<and> econt k t = Some l \<and> tcb k' = tcb k \<and>
    gcont k' = (gcont k)(t := if uxSchedulerSuspended k = 0 then Some (Ready (prio k t)) else gcont k t) \<and>
    econt k' = (econt k)(t := if uxSchedulerSuspended k = 0 then None else Some PendingReady) \<and>
    xYieldPending k' = (xYieldPending k \<or> prio k t > prio k (cur k))"
proof -
  obtain t where t: "items (lists k) l = Event t # tl (items (lists k) l)"
    "listGET_OWNER_OF_HEAD_ENTRY l (lists k) = Some t" "econt k t = Some l" "t \<in> live k"
    using event_head [OF assms] by blast
  let ?k1 = "remove_event_item t k"
  define k2 where "k2 = (if uxSchedulerSuspended k = 0
    then prvAddTaskToReadyList t (remove_generic_item t ?k1)
    else ?k1\<lparr>lists := vListInsertEnd PendingReady (Event t) (lists ?k1)\<rparr>)"
  have k1: "kinv {} ?k1" by (rule kinv_remove_event_item [OF k])
  obtain g where g: "gcont k t = Some g" "g \<noteq> Termination"
    using kinv_liveD(5) [OF k t(4)] kinv_contD(5) [OF k t(3)] by auto
  have k2: "kinv {} k2"
    using kinv_move_to_ready [OF k1, of t g] kinv_put_event(2) [OF k1, of t PendingReady] g t(4)
    by (auto simp: k2_def)
  have f: "tcb k2 = tcb k" "cur k2 = cur k" "xYieldPending k2 = xYieldPending k"
    "gcont k2 = (gcont k)(t := if uxSchedulerSuspended k = 0 then Some (Ready (prio k t)) else gcont k t)"
    "econt k2 = (econt k)(t := if uxSchedulerSuspended k = 0 then None else Some PendingReady)"
    by (auto simp: k2_def cur_def fun_eq_iff)
  let ?k3 = "if prio k t > prio k (cur k) then k2\<lparr>xYieldPending := True\<rparr> else k2"
  have eq: "xTaskRemoveFromEventList l k =
      Some (prvResetNextTaskUnblockTime ?k3, prio k t > prio k (cur k))"
    using t(2) f(1,2) by (simp add: xTaskRemoveFromEventList_def Let_def k2_def)
  have k3: "kinv {} ?k3" using k2 by simp
  have hd: "hd (items (lists k) l) = Event t" using t(1) by (metis list.sel(1))
  show ?thesis
  proof (intro exI conjI)
    show "xTaskRemoveFromEventList l k =
      Some (prvResetNextTaskUnblockTime ?k3, prio k t > prio k (cur k))" by (rule eq)
    show "kinv {} (prvResetNextTaskUnblockTime ?k3)" by (rule kinv_reset_next [OF k3])
  qed (use f hd t(3) in auto)
qed

lemma remove_unordered_ok:
  assumes k: "kinv {} k" and t: "econt k t = Some l"
  shows "kinv {} (fst (xTaskRemoveFromUnorderedEventList t v k))"
    and "gcont (fst (xTaskRemoveFromUnorderedEventList t v k)) t = Some (Ready (prio k t))"
    and "econt (fst (xTaskRemoveFromUnorderedEventList t v k)) t = None"
    and "xItemValue (lists (fst (xTaskRemoveFromUnorderedEventList t v k))) (Item (Event t)) =
      v OR taskEVENT_LIST_ITEM_VALUE_IN_USE"
    and "u \<noteq> t \<Longrightarrow> gcont (fst (xTaskRemoveFromUnorderedEventList t v k)) u = gcont k u \<and>
      econt (fst (xTaskRemoveFromUnorderedEventList t v k)) u = econt k u"
    and "tcb (fst (xTaskRemoveFromUnorderedEventList t v k)) = tcb k"
    and "snd (xTaskRemoveFromUnorderedEventList t v k) \<longleftrightarrow> prio k t > prio k (cur k)"
proof -
  have tl: "t \<in> live k" by (rule kinv_liveD(2) [OF k t])
  have ow: "pvOwner (lists k) (Event t) = t" by (rule kinv_tcbD(4) [OF k tl])
  let ?k2 = "remove_event_item t (set_event_value t (v OR taskEVENT_LIST_ITEM_VALUE_IN_USE) k)"
  let ?k3 = "prvAddTaskToReadyList t (remove_generic_item t ?k2)"
  have eq: "xTaskRemoveFromUnorderedEventList t v k =
      (if prio k t > prio k (cur k) then ?k3\<lparr>xYieldPending := True\<rparr> else ?k3, prio k t > prio k (cur k))"
    by (simp add: xTaskRemoveFromUnorderedEventList_def Let_def ow cur_def remove_event_item_def)
  obtain g where g: "gcont k t = Some g" "g \<noteq> Termination"
    using kinv_liveD(5) [OF k tl] kinv_contD(5) [OF k t] by auto
  have "kinv {} ?k2" using k by (simp add: kinv_remove_event_item)
  then show "kinv {} (fst (xTaskRemoveFromUnorderedEventList t v k))"
    using kinv_move_to_ready [of False "{}" ?k2 t g] g by (simp add: eq)
  show "gcont (fst (xTaskRemoveFromUnorderedEventList t v k)) t = Some (Ready (prio k t))"
    "econt (fst (xTaskRemoveFromUnorderedEventList t v k)) t = None"
    "xItemValue (lists (fst (xTaskRemoveFromUnorderedEventList t v k))) (Item (Event t)) =
      v OR taskEVENT_LIST_ITEM_VALUE_IN_USE"
    "u \<noteq> t \<Longrightarrow> gcont (fst (xTaskRemoveFromUnorderedEventList t v k)) u = gcont k u \<and>
      econt (fst (xTaskRemoveFromUnorderedEventList t v k)) u = econt k u"
    "tcb (fst (xTaskRemoveFromUnorderedEventList t v k)) = tcb k"
    "snd (xTaskRemoveFromUnorderedEventList t v k) \<longleftrightarrow> prio k t > prio k (cur k)"
    by (simp_all add: eq)
qed

end
