(* ===== verification/TaskNotify.thy ===== *)
theory TaskNotify
  imports TaskControl
begin

unbundle bit_operations_syntax

text \<open>
  Direct to task notifications (\<^verbatim>\<open>tasks.c\<close>): every task has one 32-bit notification
  value and a notification state; \<open>xTaskGenericNotify\<close> and its interrupt variants change
  the value and wake a task that waits for it, \<open>ulTaskNotifyTake\<close> uses the value as a
  counting semaphore and \<open>xTaskNotifyWait\<close> as a mailbox or as event flags.

  A call that waits has two halves, before and after the task was blocked. Between them other
  code runs until the scheduler selects the task again: this is the parameter
  \<open>others\<close> of the two waiting functions.
\<close>

section \<open>Waiting\<close>

definition set_notify :: "nat \<Rightarrow> eNotifyValue \<Rightarrow> u32 \<Rightarrow> kernel \<Rightarrow> kernel" where
  "set_notify t st v k = update_tcb t (\<lambda>x. x\<lparr>ulNotifiedValue := v, eNotifyState := st\<rparr>) k"

abbreviation nval :: "kernel \<Rightarrow> nat \<Rightarrow> u32" where
  "nval k t \<equiv> ulNotifiedValue (tcb k t)"

abbreviation nstate :: "kernel \<Rightarrow> nat \<Rightarrow> eNotifyValue" where
  "nstate k t \<equiv> eNotifyState (tcb k t)"

definition wait_for_notification :: "u32 \<Rightarrow> kernel \<Rightarrow> kernel" where
  "wait_for_notification xTicksToWait k =
     (if xTicksToWait > 0
      then portYIELD (block_current_task (xTicksToWait = portMAX_DELAY) xTicksToWait k) else k)"

definition ulTaskNotifyTake_block :: "u32 \<Rightarrow> kernel \<Rightarrow> kernel" where
  "ulTaskNotifyTake_block xTicksToWait k =
     (let k1 = vPortEnterCritical k;
          k2 = (if nval k1 (cur k1) = 0
                then wait_for_notification xTicksToWait
                       (set_notify (cur k1) eWaitingNotification (nval k1 (cur k1)) k1)
                else k1)
      in vPortExitCritical k2)"

definition ulTaskNotifyTake_finish :: "bool \<Rightarrow> kernel \<Rightarrow> kernel \<times> u32" where
  "ulTaskNotifyTake_finish xClearCountOnExit k =
     (let k1 = vPortEnterCritical k;
          ulReturn = nval k1 (cur k1);
          v = (if ulReturn \<noteq> 0 then (if xClearCountOnExit then 0 else ulReturn - 1) else ulReturn);
          k2 = set_notify (cur k1) eNotWaitingNotification v k1
      in (vPortExitCritical k2, ulReturn))"

definition ulTaskNotifyTake :: "bool \<Rightarrow> u32 \<Rightarrow> (kernel \<Rightarrow> kernel) \<Rightarrow> kernel \<Rightarrow> kernel \<times> u32" where
  "ulTaskNotifyTake xClearCountOnExit xTicksToWait others k =
     ulTaskNotifyTake_finish xClearCountOnExit (others (ulTaskNotifyTake_block xTicksToWait k))"

definition xTaskNotifyWait_block :: "u32 \<Rightarrow> u32 \<Rightarrow> kernel \<Rightarrow> kernel" where
  "xTaskNotifyWait_block ulBitsToClearOnEntry xTicksToWait k =
     (let k1 = vPortEnterCritical k;
          k2 = (if nstate k1 (cur k1) \<noteq> eNotified
                then wait_for_notification xTicksToWait
                       (set_notify (cur k1) eWaitingNotification
                          (nval k1 (cur k1) AND NOT ulBitsToClearOnEntry) k1)
                else k1)
      in vPortExitCritical k2)"

text \<open>The result is the value of \<open>*pulNotificationValue\<close> and whether a notification came.\<close>

definition xTaskNotifyWait_finish :: "u32 \<Rightarrow> kernel \<Rightarrow> kernel \<times> u32 \<times> bool" where
  "xTaskNotifyWait_finish ulBitsToClearOnExit k =
     (let k1 = vPortEnterCritical k;
          ulNotificationValue = nval k1 (cur k1);
          xReturn = (nstate k1 (cur k1) \<noteq> eWaitingNotification);
          v = (if xReturn then nval k1 (cur k1) AND NOT ulBitsToClearOnExit else nval k1 (cur k1));
          k2 = set_notify (cur k1) eNotWaitingNotification v k1
      in (vPortExitCritical k2, ulNotificationValue, xReturn))"

definition xTaskNotifyWait ::
  "u32 \<Rightarrow> u32 \<Rightarrow> u32 \<Rightarrow> (kernel \<Rightarrow> kernel) \<Rightarrow> kernel \<Rightarrow> kernel \<times> u32 \<times> bool" where
  "xTaskNotifyWait ulBitsToClearOnEntry ulBitsToClearOnExit xTicksToWait others k =
     xTaskNotifyWait_finish ulBitsToClearOnExit
       (others (xTaskNotifyWait_block ulBitsToClearOnEntry xTicksToWait k))"

section \<open>Notifying\<close>

datatype eNotifyAction =
  eNoAction | eSetBits | eIncrement | eSetValueWithOverwrite | eSetValueWithoutOverwrite

text \<open>
  The \<open>switch\<close> on the action: the new value and \<open>xReturn\<close>. The C enumeration has no
  further constant, so the \<open>default\<close> branch of the source has no counterpart.
\<close>

fun notify_value :: "eNotifyAction \<Rightarrow> u32 \<Rightarrow> eNotifyValue \<Rightarrow> u32 \<Rightarrow> u32 \<times> bool" where
  "notify_value eSetBits ulValue st old = (old OR ulValue, True)"
| "notify_value eIncrement ulValue st old = (old + 1, True)"
| "notify_value eSetValueWithOverwrite ulValue st old = (ulValue, True)"
| "notify_value eSetValueWithoutOverwrite ulValue st old =
     (if st \<noteq> eNotified then (ulValue, True) else (old, False))"
| "notify_value eNoAction ulValue st old = (old, True)"

text \<open>Returns the state, \<open>xReturn\<close> and \<open>*pulPreviousNotificationValue\<close>.\<close>

definition xTaskGenericNotify :: "nat \<Rightarrow> u32 \<Rightarrow> eNotifyAction \<Rightarrow> kernel \<Rightarrow> kernel \<times> bool \<times> u32" where
  "xTaskGenericNotify t ulValue eAction k =
     (let k1 = vPortEnterCritical k;
          ulPrevious = nval k1 t;
          eOriginalNotifyState = nstate k1 t;
          (v, xReturn) = notify_value eAction ulValue eOriginalNotifyState (nval k1 t);
          k2 = set_notify t eNotified v k1;
          k4 = (if eOriginalNotifyState = eWaitingNotification
                then (let k3 = prvResetNextTaskUnblockTime
                                 (prvAddTaskToReadyList t (remove_generic_item t k2))
                      in if prio k3 t > prio k3 (cur k3) then portYIELD k3 else k3)
                else k2)
      in (vPortExitCritical k4, xReturn, ulPrevious))"

text \<open>
  The part the two interrupt variants share: returns also whether
  \<open>*pxHigherPriorityTaskWoken\<close> is set.
\<close>

definition notify_wake_from_isr :: "nat \<Rightarrow> eNotifyValue \<Rightarrow> kernel \<Rightarrow> kernel \<times> bool" where
  "notify_wake_from_isr t eOriginalNotifyState k =
     (if eOriginalNotifyState = eWaitingNotification
      then (let k1 = (if uxSchedulerSuspended k = 0
                      then prvAddTaskToReadyList t (remove_generic_item t k)
                      else k\<lparr>lists := vListInsertEnd PendingReady (Event t) (lists k)\<rparr>)
            in (k1, prio k1 t > prio k1 (cur k1)))
      else (k, False))"

definition xTaskGenericNotifyFromISR ::
  "nat \<Rightarrow> u32 \<Rightarrow> eNotifyAction \<Rightarrow> kernel \<Rightarrow> kernel \<times> bool \<times> u32 \<times> bool" where
  "xTaskGenericNotifyFromISR t ulValue eAction k =
     (let (k1, m) = ulPortSetInterruptMask k;
          ulPrevious = nval k1 t;
          eOriginalNotifyState = nstate k1 t;
          (v, xReturn) = notify_value eAction ulValue eOriginalNotifyState (nval k1 t);
          (k2, woken) = notify_wake_from_isr t eOriginalNotifyState (set_notify t eNotified v k1)
      in (vPortClearInterruptMask m k2, xReturn, ulPrevious, woken))"

definition vTaskNotifyGiveFromISR :: "nat \<Rightarrow> kernel \<Rightarrow> kernel \<times> bool" where
  "vTaskNotifyGiveFromISR t k =
     (let (k1, m) = ulPortSetInterruptMask k;
          eOriginalNotifyState = nstate k1 t;
          (k2, woken) = notify_wake_from_isr t eOriginalNotifyState
                          (set_notify t eNotified (nval k1 t + 1) k1)
      in (vPortClearInterruptMask m k2, woken))"

definition xTaskNotifyStateClear :: "nat option \<Rightarrow> kernel \<Rightarrow> kernel \<times> bool" where
  "xTaskNotifyStateClear xTask k =
     (let t = prvGetTCBFromHandle xTask k;
          k1 = vPortEnterCritical k;
          (k2, xReturn) = (if nstate k1 t = eNotified
                           then (set_notify t eNotWaitingNotification (nval k1 t) k1, True)
                           else (k1, False))
      in (vPortExitCritical k2, xReturn))"

section \<open>The invariant\<close>

lemma set_notify_frame [simp, kernel_frame]:
  "lists (set_notify t st v k) = lists k" "live (set_notify t st v k) = live k"
  "evlists (set_notify t st v k) = evlists k" "pxCurrentTCB (set_notify t st v k) = pxCurrentTCB k"
  "cur (set_notify t st v k) = cur k" "xTickCount (set_notify t st v k) = xTickCount k"
  "uxSchedulerSuspended (set_notify t st v k) = uxSchedulerSuspended k"
  "ulCriticalNesting (set_notify t st v k) = ulCriticalNesting k"
  "tcb (set_notify t st v k) = (tcb k)(t := (tcb k t)\<lparr>ulNotifiedValue := v, eNotifyState := st\<rparr>)"
  by (simp_all add: set_notify_def cur_def)

lemma prio_set_notify [simp]: "prio (set_notify t st v k) u = prio k u"
  by simp

lemma kinv_set_notify [simp]: "kinvd D X k \<Longrightarrow> kinvd D X (set_notify t st v k)"
  unfolding set_notify_def by (rule kinv_update_tcb) auto

lemma running_set_notify [simp]: "running_task (set_notify t st v k) u = running_task k u"
  by (simp add: running_task_def)

lemma running_enter_critical [simp]: "running_task (vPortEnterCritical k) t = running_task k t"
  by (simp add: running_task_def)

lemma kinv_wait_for_notification:
  assumes "kinv {} k" and "running_task k t"
  shows "kinv {} (wait_for_notification w k)"
proof (cases "w = 0")
  case False
  then have "kinv {} (block_current_task (w = portMAX_DELAY) w k)"
    using block_current_task_ok(1) [OF assms] by simp
  then show ?thesis using assms by (simp add: wait_for_notification_def kinv_portYIELD)
qed (use assms in \<open>simp add: wait_for_notification_def\<close>)

lemma kinv_take_block:
  assumes "kinv {} k" and "running_task k t"
  shows "kinv {} (ulTaskNotifyTake_block w k)"
  using assms kinv_wait_for_notification [of "set_notify (cur k) st v (vPortEnterCritical k)" t for st v]
  by (simp add: ulTaskNotifyTake_block_def Let_def kinv_exit_critical)

lemma kinv_wait_block:
  assumes "kinv {} k" and "running_task k t"
  shows "kinv {} (xTaskNotifyWait_block b w k)"
  using assms kinv_wait_for_notification [of "set_notify (cur k) st v (vPortEnterCritical k)" t for st v]
  by (simp add: xTaskNotifyWait_block_def Let_def kinv_exit_critical)

lemma kinv_finish:
  "kinv {} k \<Longrightarrow> kinv {} (fst (ulTaskNotifyTake_finish c k))"
  "kinv {} k \<Longrightarrow> kinv {} (fst (xTaskNotifyWait_finish b k))"
  by (simp_all add: ulTaskNotifyTake_finish_def xTaskNotifyWait_finish_def Let_def kinv_exit_critical)

text \<open>
  A task may be notified unless it is waiting for its memory to be freed; while it waits for
  a notification its event item is in no list.
\<close>

definition notifiable :: "kernel \<Rightarrow> nat \<Rightarrow> bool" where
  "notifiable k t \<longleftrightarrow> t \<in> live k \<and> gcont k t \<noteq> Some Termination \<and>
     (nstate k t = eWaitingNotification \<longrightarrow> econt k t = None)"

lemma notify_move:
  assumes k: "kinv {} k" and n: "notifiable k t"
  shows "kinv {} (prvAddTaskToReadyList t (remove_generic_item t k))"
proof -
  obtain l where "gcont k t = Some l" "l \<noteq> Termination"
    using n kinv_liveD(5) [OF k, of t] by (auto simp: notifiable_def)
  from kinv_move_to_ready [OF k this] show ?thesis by simp
qed

lemma notify_ok:
  assumes k: "kinv {} k" and n: "notifiable k t"
  shows "kinv {} (fst (xTaskGenericNotify t v a k))"
proof -
  let ?k1 = "vPortEnterCritical k"
  let ?k2 = "\<lambda>w. set_notify t eNotified w ?k1"
  have "notifiable (?k2 w) t" for w using n by (simp add: notifiable_def)
  moreover have "kinv {} (?k2 w)" for w using k by simp
  ultimately have "kinv {} (prvAddTaskToReadyList t (remove_generic_item t (?k2 w)))" for w
    using notify_move by blast
  then have "kinv {} (prvResetNextTaskUnblockTime (prvAddTaskToReadyList t (remove_generic_item t (?k2 w))))" for w
    by (rule kinv_reset_next)
  then show ?thesis
    using k by (auto simp: xTaskGenericNotify_def Let_def split_beta
        intro!: kinv_exit_critical kinv_portYIELD)
qed

lemma notify_wake_ok:
  assumes k: "kinv {} k" and n: "t \<in> live k" "gcont k t \<noteq> Some Termination"
    and e: "st = eWaitingNotification \<Longrightarrow> econt k t = None"
  shows "kinv {} (fst (notify_wake_from_isr t st k))"
proof -
  obtain l where "gcont k t = Some l" "l \<noteq> Termination"
    using n kinv_liveD(5) [OF k, of t] by auto
  with kinv_move_to_ready [OF k, of t l] kinv_put_event(2) [OF k n(1), of PendingReady] n(2) e k
  show ?thesis by (auto simp: notify_wake_from_isr_def Let_def)
qed

lemma notify_isr_ok:
  assumes k: "kinv {} k" and n: "notifiable k t"
  shows "kinv {} (fst (xTaskGenericNotifyFromISR t v a k))"
    and "kinv {} (fst (vTaskNotifyGiveFromISR t k))"
proof -
  let ?k1 = "k\<lparr>interrupts_on := False\<rparr>"
  have "kinv {} (fst (notify_wake_from_isr t (nstate k t) (set_notify t eNotified w ?k1)))" for w
    by (rule notify_wake_ok) (use k n in \<open>auto simp: notifiable_def\<close>)
  then show "kinv {} (fst (xTaskGenericNotifyFromISR t v a k))"
    and "kinv {} (fst (vTaskNotifyGiveFromISR t k))"
    by (simp_all add: xTaskGenericNotifyFromISR_def vTaskNotifyGiveFromISR_def
        ulPortSetInterruptMask_def Let_def split_beta)
qed

lemma notify_clear_ok: "kinv {} k \<Longrightarrow> kinv {} (fst (xTaskNotifyStateClear h k))"
  by (simp add: xTaskNotifyStateClear_def Let_def kinv_exit_critical)

section \<open>What a notification does\<close>

lemma notify_result:
  assumes "xTaskGenericNotify t v a k = (k', ok, prev)"
  shows "ok = snd (notify_value a v (nstate k t) (nval k t))" and "prev = nval k t"
    and "tcb k' = (tcb k)(t := (tcb k t)\<lparr>ulNotifiedValue := fst (notify_value a v (nstate k t) (nval k t)),
      eNotifyState := eNotified\<rparr>)"
    and "pvContainer (lists k') = (if nstate k t = eWaitingNotification
      then (pvContainer (lists k))(Generic t := Some (Ready (prio k t))) else pvContainer (lists k))"
  using assms by (auto simp: xTaskGenericNotify_def Let_def split_beta)

text \<open>
  A notification that wakes a task of higher priority than the running one, sent outside any
  critical section while the scheduler runs, leads to a switch to the highest ready task.
\<close>

lemma notify_preempts:
  assumes k: "kinv {} k" and n: "notifiable k t" and w: "nstate k t = eWaitingNotification"
    and p: "prio k t > prio k (cur k)" and c: "ulCriticalNesting k = 0" and s: "uxSchedulerSuspended k = 0"
  shows "\<exists>u. pxCurrentTCB (fst (xTaskGenericNotify t v a k)) = Some u \<and>
    highest_ready (fst (xTaskGenericNotify t v a k)) u \<and> prio k t \<le> prio k u"
proof -
  define k1 where "k1 = set_notify t eNotified (fst (notify_value a v (nstate k t) (nval k t)))
    (vPortEnterCritical k)"
  define k3 where "k3 = prvResetNextTaskUnblockTime (prvAddTaskToReadyList t (remove_generic_item t k1))"
  have n1: "notifiable k1 t" using n by (simp add: notifiable_def k1_def)
  have k1: "kinv {} k1" using k by (simp add: k1_def)
  have k3: "kinv {} k3"
    unfolding k3_def by (rule kinv_reset_next [OF notify_move [OF k1 n1]])
  have f: "prio k3 u = prio k u" "cur k3 = cur k" "ulCriticalNesting k3 = 1" "uxSchedulerSuspended k3 = 0"
    "gcont k3 t = Some (Ready (prio k t))" for u
    using c s by (simp_all add: k3_def k1_def cur_def)
  let ?k4 = "k3\<lparr>ulPortYieldPending := True\<rparr>"
  have eq: "fst (xTaskGenericNotify t v a k) = vPortExitCritical ?k4"
    using w p f by (simp add: xTaskGenericNotify_def Let_def split_beta yield_in_critical
        flip: k1_def [simplified w] k3_def)
  have k4: "kinv {} ?k4" using k3 by simp
  obtain u where u: "pxCurrentTCB (vPortExitCritical ?k4) = Some u" "highest_ready (vPortExitCritical ?k4) u"
    using exit_critical_switches [OF k4, of t "prio k t"] f(3-5) by auto
  have "prio k t \<le> prio (vPortExitCritical ?k4) u"
    using u(2) f(5) by (simp add: highest_ready_def)
  then have "prio k t \<le> prio k u" using f(1) by simp
  with u show ?thesis by (auto simp: eq)
qed

text \<open>Semaphore use: giving adds one, taking takes one or all and reports what was there.\<close>

lemma take_finish_result:
  assumes "ulTaskNotifyTake_finish c k = (k', r)"
  shows "r = nval k (cur k)"
    and "tcb k' = (tcb k)(cur k := (tcb k (cur k))\<lparr>eNotifyState := eNotWaitingNotification,
      ulNotifiedValue := (if r = 0 then 0 else if c then 0 else r - 1)\<rparr>)"
  using assms by (auto simp: ulTaskNotifyTake_finish_def Let_def)

lemma wait_finish_result:
  assumes "xTaskNotifyWait_finish b k = (k', v, ok)"
  shows "v = nval k (cur k)" and "ok \<longleftrightarrow> nstate k (cur k) \<noteq> eWaitingNotification"
    and "nstate k' (cur k) = eNotWaitingNotification"
    and "nval k' (cur k) = (if ok then v AND NOT b else v)"
  using assms by (auto simp: xTaskNotifyWait_finish_def Let_def)

fun gives :: "nat \<Rightarrow> nat \<Rightarrow> kernel \<Rightarrow> kernel" where
  "gives 0 t k = k"
| "gives (Suc n) t k = gives n t (fst (xTaskGenericNotify t 0 eIncrement k))"

lemma gives_value: "nval (gives n t k) t = nval k t + of_nat n"
proof (induction n arbitrary: k)
  case (Suc n)
  obtain k' ok pr where e: "xTaskGenericNotify t 0 eIncrement k = (k', ok, pr)" by (cases "xTaskGenericNotify t 0 eIncrement k")
  have "nval k' t = nval k t + 1" using notify_result(3) [OF e] by simp
  with Suc.IH [of k'] show ?case by (simp add: e)
qed simp

text \<open>A task that waits for a notification without a time limit is in the suspended list.\<close>

lemma take_block_waits:
  assumes k: "kinv {} k" and t: "running_task k t" and z: "nval k t = 0" and w: "w \<noteq> 0"
  shows "nstate (ulTaskNotifyTake_block w k) t = eWaitingNotification"
    and "if w = portMAX_DELAY then gcont (ulTaskNotifyTake_block w k) t = Some Suspended
         else timed (ulTaskNotifyTake_block w k) t \<and> remaining (ulTaskNotifyTake_block w k) t = w"
    and "econt (ulTaskNotifyTake_block w k) = econt k"
proof -
  define k1 where "k1 = set_notify t eWaitingNotification 0 (vPortEnterCritical k)"
  define k2 where "k2 = block_current_task (w = portMAX_DELAY) w k1"
  have c: "cur k = t" using t by (simp add: running_task_def cur_def)
  have k1: "kinv {} k1" "running_task k1 t" using k t by (simp_all add: k1_def)
  have w': "w = portMAX_DELAY \<or> w \<noteq> 0" using w by simp
  note b = block_current_task_ok [OF k1 w', folded k2_def]
  have eq: "ulTaskNotifyTake_block w k = vPortExitCritical (portYIELD k2)"
    using z w c by (simp add: ulTaskNotifyTake_block_def Let_def wait_for_notification_def k2_def k1_def
        word_gt_0)
  have tc: "tcb k2 = tcb k1" by (simp add: k2_def block_current_task_def Let_def)
  show "nstate (ulTaskNotifyTake_block w k) t = eWaitingNotification" by (simp add: eq tc k1_def)
  show "if w = portMAX_DELAY then gcont (ulTaskNotifyTake_block w k) t = Some Suspended
         else timed (ulTaskNotifyTake_block w k) t \<and> remaining (ulTaskNotifyTake_block w k) t = w"
    unfolding eq using b(2) by (auto simp: timed_def remaining_def split: if_splits)
  show "econt (ulTaskNotifyTake_block w k) = econt k"
    using b(3) by (simp add: eq k1_def)
qed

lemma take_block_switches:
  assumes k: "kinv {} k" and t: "running_task k t" and z: "nval k t = 0" and w: "w \<noteq> 0"
    and n: "ulCriticalNesting k = 0" "uxSchedulerSuspended k = 0" and u: "gcont k u = Some (Ready p)" "u \<noteq> t"
  shows "\<exists>v. pxCurrentTCB (ulTaskNotifyTake_block w k) = Some v \<and> highest_ready (ulTaskNotifyTake_block w k) v \<and>
    ulCriticalNesting (ulTaskNotifyTake_block w k) = 0 \<and> uxSchedulerSuspended (ulTaskNotifyTake_block w k) = 0"
proof -
  have c: "cur k = t" using t by (simp add: running_task_def cur_def)
  define k1 where "k1 = set_notify t eWaitingNotification 0 (vPortEnterCritical k)"
  define k2 where "k2 = block_current_task (w = portMAX_DELAY) w k1"
  have k1: "kinv {} k1" "running_task k1 t" using k t by (simp_all add: k1_def)
  have w': "w = portMAX_DELAY \<or> w \<noteq> 0" using w by simp
  note b = block_current_task_ok [OF k1 w', folded k2_def]
  have f: "ulCriticalNesting k2 = 1" "uxSchedulerSuspended k2 = 0" "gcont k2 u = Some (Ready p)"
    using n u b(4) [OF u(2)] by (simp_all add: k2_def k1_def block_current_task_def Let_def)
  have eq: "ulTaskNotifyTake_block w k = vPortExitCritical (k2\<lparr>ulPortYieldPending := True\<rparr>)"
    using z w f(1) c by (simp add: ulTaskNotifyTake_block_def wait_for_notification_def Let_def portYIELD_def
        k1_def k2_def word_gt_0)
  have "\<exists>v. pxCurrentTCB (ulTaskNotifyTake_block w k) = Some v \<and> highest_ready (ulTaskNotifyTake_block w k) v"
    unfolding eq by (rule exit_critical_switches) (use b(1) f in simp_all)
  moreover have "ulCriticalNesting (ulTaskNotifyTake_block w k) = 0" "uxSchedulerSuspended (ulTaskNotifyTake_block w k) = 0"
    using f by (simp_all add: eq vPortExitCritical_def vPortYieldCall_def Let_def)
  ultimately show ?thesis by blast
qed

end
