(* ===== verification/Heap4.thy ===== *)
theory Heap4
  imports Prelude "HOL-Library.Monad_Syntax"
begin

unbundle bit_operations_syntax

text \<open>
  The memory allocator of \<^verbatim>\<open>heap_4.c\<close>: a first-fit free list ordered by address,
  with neighbouring free blocks merged. Memory is modelled field by field: every address of a
  \<open>BlockLink_t\<close> has a \<open>pxNextFreeBlock\<close> and an \<open>xBlockSize\<close>. The two heaps of the
  port, generic and stack, share the code and the memory, and differ in the context
  \<open>xHeapCtx_t\<close>. \<open>xStart\<close> lies in the context itself, so its address is a field here.
  Addresses and sizes are 32-bit words and all arithmetic wraps.

  The theories \<open>Heap4Inv\<close> and \<open>Heap4Ok\<close> abstract a heap to the sequence of blocks that
  tile it (\<open>heap_ok\<close>) and prove that allocation and release keep that picture: blocks never overlap, are aligned,
  the free list holds exactly the free blocks, no two free blocks are neighbours and the
  free byte counter counts.
\<close>

section \<open>The data model\<close>

record heap_mem =
  pxNextFreeBlock :: "u32 \<Rightarrow> u32"
  xBlockSize :: "u32 \<Rightarrow> u32"
  xBlockAllocatedBit :: u32

record xHeapCtx_t =
  heap_buf :: u32
  heap_size :: u32
  xStart :: u32
  pxEnd :: u32
  xMinimumEverFreeBytesRemaining :: u32
  xFreeBytesRemaining :: u32

definition NULL :: u32 where
  "NULL = 0"

definition portBYTE_ALIGNMENT :: u32 where
  "portBYTE_ALIGNMENT = 4"

definition portBYTE_ALIGNMENT_MASK :: u32 where
  "portBYTE_ALIGNMENT_MASK = 3"

definition sizeof_BlockLink_t :: u32 where
  "sizeof_BlockLink_t = 8"

definition xHeapStructSize :: u32 where
  "xHeapStructSize =
     (sizeof_BlockLink_t + (portBYTE_ALIGNMENT - 1)) AND NOT portBYTE_ALIGNMENT_MASK"

definition heapMINIMUM_BLOCK_SIZE :: u32 where
  "heapMINIMUM_BLOCK_SIZE = push_bit 1 xHeapStructSize"

definition set_next :: "u32 \<Rightarrow> u32 \<Rightarrow> heap_mem \<Rightarrow> heap_mem" where
  "set_next a v m = m\<lparr>pxNextFreeBlock := (pxNextFreeBlock m)(a := v)\<rparr>"

definition set_size :: "u32 \<Rightarrow> u32 \<Rightarrow> heap_mem \<Rightarrow> heap_mem" where
  "set_size a v m = m\<lparr>xBlockSize := (xBlockSize m)(a := v)\<rparr>"

section \<open>The functions of heap\_4.c\<close>

definition prvHeapInit :: "xHeapCtx_t \<Rightarrow> heap_mem \<Rightarrow> xHeapCtx_t \<times> heap_mem" where
  "prvHeapInit heapCtx m =
     (let uxAddress = heap_buf heapCtx;
          misaligned = (uxAddress AND portBYTE_ALIGNMENT_MASK \<noteq> 0);
          pucAlignedHeap = (if misaligned
            then (uxAddress + (portBYTE_ALIGNMENT - 1)) AND NOT portBYTE_ALIGNMENT_MASK else uxAddress);
          xTotalHeapSize = (if misaligned
            then heap_size heapCtx - (pucAlignedHeap - heap_buf heapCtx) else heap_size heapCtx);
          m1 = set_size (xStart heapCtx) 0 (set_next (xStart heapCtx) pucAlignedHeap m);
          uxEnd = (pucAlignedHeap + xTotalHeapSize - xHeapStructSize) AND NOT portBYTE_ALIGNMENT_MASK;
          m2 = set_next uxEnd NULL (set_size uxEnd 0 m1);
          m3 = set_next pucAlignedHeap uxEnd (set_size pucAlignedHeap (uxEnd - pucAlignedHeap) m2);
          n = xBlockSize m3 pucAlignedHeap
      in (heapCtx\<lparr>pxEnd := uxEnd, xMinimumEverFreeBytesRemaining := n, xFreeBytesRemaining := n\<rparr>,
          m3\<lparr>xBlockAllocatedBit := push_bit 31 1\<rparr>))"

partial_function (option) insert_iter :: "heap_mem \<Rightarrow> u32 \<Rightarrow> u32 \<Rightarrow> u32 option" where
  "insert_iter m pxBlockToInsert pxIterator =
     (if pxNextFreeBlock m pxIterator < pxBlockToInsert
      then insert_iter m pxBlockToInsert (pxNextFreeBlock m pxIterator) else Some pxIterator)"

definition prvInsertBlockIntoFreeList :: "u32 \<Rightarrow> xHeapCtx_t \<Rightarrow> heap_mem \<Rightarrow> heap_mem option" where
  "prvInsertBlockIntoFreeList pxBlockToInsert heapCtx m = do {
     it \<leftarrow> insert_iter m pxBlockToInsert (xStart heapCtx);
     let join_left = (it + xBlockSize m it = pxBlockToInsert);
     let m1 = (if join_left then set_size it (xBlockSize m it + xBlockSize m pxBlockToInsert) m else m);
     let b = (if join_left then it else pxBlockToInsert);
     let nx = pxNextFreeBlock m1 it;
     let m2 = (if b + xBlockSize m1 b = nx
               then (if nx \<noteq> pxEnd heapCtx
                     then (let m' = set_size b (xBlockSize m1 b + xBlockSize m1 nx) m1
                           in set_next b (pxNextFreeBlock m' nx) m')
                     else set_next b (pxEnd heapCtx) m1)
               else set_next b nx m1);
     Some (if it \<noteq> b then set_next it b m2 else m2) }"

partial_function (option) find_block :: "heap_mem \<Rightarrow> u32 \<Rightarrow> u32 \<Rightarrow> u32 \<Rightarrow> (u32 \<times> u32) option" where
  "find_block m xWantedSize pxPreviousBlock pxBlock =
     (if xBlockSize m pxBlock < xWantedSize \<and> pxNextFreeBlock m pxBlock \<noteq> NULL
      then find_block m xWantedSize pxBlock (pxNextFreeBlock m pxBlock)
      else Some (pxPreviousBlock, pxBlock))"

definition wanted_size :: "u32 \<Rightarrow> u32" where
  "wanted_size xWantedSize =
     (if xWantedSize > 0
      then (let w = xWantedSize + xHeapStructSize
            in if w AND portBYTE_ALIGNMENT_MASK \<noteq> 0
               then w + (portBYTE_ALIGNMENT - (w AND portBYTE_ALIGNMENT_MASK)) else w)
      else xWantedSize)"

text \<open>The part of \<open>pvPortMalloc_internal\<close> that takes a block found by the search.\<close>

definition take_block :: "u32 \<Rightarrow> u32 \<Rightarrow> u32 \<Rightarrow> xHeapCtx_t \<Rightarrow> heap_mem \<Rightarrow>
    (xHeapCtx_t \<times> heap_mem \<times> u32) option" where
  "take_block w prev blk heapCtx m =
     (let pvReturn = pxNextFreeBlock m prev + xHeapStructSize;
          m1 = set_next prev (pxNextFreeBlock m blk) m
      in do {
        m2 \<leftarrow> (if xBlockSize m1 blk - w > heapMINIMUM_BLOCK_SIZE
              then (let new = blk + w;
                        m' = set_size blk w (set_size new (xBlockSize m1 blk - w) m1)
                    in prvInsertBlockIntoFreeList new heapCtx m')
              else Some m1);
        let free = xFreeBytesRemaining heapCtx - xBlockSize m2 blk;
        let c1 = heapCtx\<lparr>xFreeBytesRemaining := free\<rparr>;
        let c2 = (if free < xMinimumEverFreeBytesRemaining c1
                  then c1\<lparr>xMinimumEverFreeBytesRemaining := free\<rparr> else c1);
        let m3 = set_next blk NULL (set_size blk (xBlockSize m2 blk OR xBlockAllocatedBit m2) m2);
        Some (c2, m3, pvReturn) })"

definition malloc_core :: "u32 \<Rightarrow> xHeapCtx_t \<Rightarrow> heap_mem \<Rightarrow> (xHeapCtx_t \<times> heap_mem \<times> u32) option" where
  "malloc_core xWantedSize heapCtx m =
     (let (c, m1) = (if pxEnd heapCtx = NULL then prvHeapInit heapCtx m else (heapCtx, m))
      in if xWantedSize AND xBlockAllocatedBit m1 = 0
         then (let w = wanted_size xWantedSize
               in if w > 0 \<and> w \<le> xFreeBytesRemaining c
                  then do {
                    (prev, blk) \<leftarrow> find_block m1 w (xStart c) (pxNextFreeBlock m1 (xStart c));
                    if blk \<noteq> pxEnd c then take_block w prev blk c m1 else Some (c, m1, NULL) }
                  else Some (c, m1, NULL))
         else Some (c, m1, NULL))"

definition free_core :: "u32 \<Rightarrow> xHeapCtx_t \<Rightarrow> heap_mem \<Rightarrow> (xHeapCtx_t \<times> heap_mem) option" where
  "free_core pv heapCtx m =
     (if pv \<noteq> NULL
      then (let pxLink = pv - xHeapStructSize
            in if xBlockSize m pxLink AND xBlockAllocatedBit m \<noteq> 0
               then (if pxNextFreeBlock m pxLink = NULL
                     then (let m1 = set_size pxLink
                                  (xBlockSize m pxLink AND NOT (xBlockAllocatedBit m)) m;
                               c1 = heapCtx\<lparr>xFreeBytesRemaining :=
                                  xFreeBytesRemaining heapCtx + xBlockSize m1 pxLink\<rparr>
                           in do { m2 \<leftarrow> prvInsertBlockIntoFreeList pxLink c1 m1; Some (c1, m2) })
                     else Some (heapCtx, m))
               else Some (heapCtx, m))
      else Some (heapCtx, m))"

end
