(* ===== verification/TaskCreate.thy ===== *)
theory TaskCreate
  imports TaskControl Heap4
begin

unbundle bit_operations_syntax

text \<open>
  The life of a task (\<^verbatim>\<open>tasks.c\<close>): allocation of its TCB and stack, creation,
  deletion, the clean-up by the idle task, and the start of the scheduler. Here the kernel
  state meets the two heaps of \<open>Heap4\<close>; a task handle is the number of the address of its
  TCB. \<open>None\<close> stands for a call that does not return.

  \<open>vApplicationMallocFailedHook\<close> is called when an allocation fails. It is application
  code (the hook in \<^verbatim>\<open>init.c\<close> prints a message and stops in an endless loop), so the
  functions that may call it take it as an argument \<open>hook\<close>. The size of a TCB depends on
  the build and is the argument \<open>sizeof_TCB\<close>. \<open>xTimerCreateTimerTask\<close> of
  \<^verbatim>\<open>timers.c\<close> is an argument of \<open>vTaskStartScheduler\<close>.
\<close>

section \<open>Memory and kernel together\<close>

record os =
  kern :: kernel
  hmem :: heap_mem
  genericHeapCtx :: xHeapCtx_t
  stackHeapCtx :: xHeapCtx_t

datatype heap_id = GenericHeap | StackHeap

definition get_ctx :: "heap_id \<Rightarrow> os \<Rightarrow> xHeapCtx_t" where
  "get_ctx h s = (case h of GenericHeap \<Rightarrow> genericHeapCtx s | StackHeap \<Rightarrow> stackHeapCtx s)"

definition put_ctx :: "heap_id \<Rightarrow> xHeapCtx_t \<Rightarrow> os \<Rightarrow> os" where
  "put_ctx h c s = (case h of GenericHeap \<Rightarrow> s\<lparr>genericHeapCtx := c\<rparr> | StackHeap \<Rightarrow> s\<lparr>stackHeapCtx := c\<rparr>)"

type_synonym hook = "os \<Rightarrow> os option"

definition pvPortMalloc_internal :: "hook \<Rightarrow> u32 \<Rightarrow> heap_id \<Rightarrow> os \<Rightarrow> (os \<times> u32) option" where
  "pvPortMalloc_internal hook xWantedSize h s = do {
     let k1 = vTaskSuspendAll (kern s);
     (c, m, pvReturn) \<leftarrow> malloc_core xWantedSize (get_ctx h s) (hmem s);
     (k2, _) \<leftarrow> xTaskResumeAll k1;
     let s1 = (put_ctx h c s)\<lparr>kern := k2, hmem := m\<rparr>;
     if pvReturn = NULL then Option.bind (hook s1) (\<lambda>s2. Some (s2, pvReturn)) else Some (s1, pvReturn) }"

definition pvPortMalloc :: "hook \<Rightarrow> u32 \<Rightarrow> os \<Rightarrow> (os \<times> u32) option" where
  "pvPortMalloc hook xWantedSize s = pvPortMalloc_internal hook xWantedSize GenericHeap s"

definition pvPortStackAlloc :: "hook \<Rightarrow> u32 \<Rightarrow> os \<Rightarrow> (os \<times> u32) option" where
  "pvPortStackAlloc hook xWantedSize s = pvPortMalloc_internal hook xWantedSize StackHeap s"

text \<open>
  \<open>vPortFree_internal\<close> suspends the scheduler only when it really releases the block.
\<close>

definition releases :: "u32 \<Rightarrow> heap_mem \<Rightarrow> bool" where
  "releases pv m \<longleftrightarrow> pv \<noteq> NULL \<and>
     xBlockSize m (pv - xHeapStructSize) AND xBlockAllocatedBit m \<noteq> 0 \<and>
     pxNextFreeBlock m (pv - xHeapStructSize) = NULL"

definition vPortFree_internal :: "u32 \<Rightarrow> heap_id \<Rightarrow> os \<Rightarrow> os option" where
  "vPortFree_internal pv h s =
     (if releases pv (hmem s)
      then do {
        let k1 = vTaskSuspendAll (kern s);
        (c, m) \<leftarrow> free_core pv (get_ctx h s) (hmem s);
        (k2, _) \<leftarrow> xTaskResumeAll k1;
        Some ((put_ctx h c s)\<lparr>kern := k2, hmem := m\<rparr>) }
      else Some s)"

definition vPortFree :: "u32 \<Rightarrow> os \<Rightarrow> os option" where
  "vPortFree pv s = vPortFree_internal pv GenericHeap s"

definition vPortStackFree :: "u32 \<Rightarrow> os \<Rightarrow> os option" where
  "vPortStackFree pv s = vPortFree_internal pv StackHeap s"

definition xPortGetFreeHeapSize :: "os \<Rightarrow> u32" where
  "xPortGetFreeHeapSize s = xFreeBytesRemaining (genericHeapCtx s)"

definition xPortGetMinimumEverFreeHeapSize :: "os \<Rightarrow> u32" where
  "xPortGetMinimumEverFreeHeapSize s = xMinimumEverFreeBytesRemaining (genericHeapCtx s)"

section \<open>Creating a task\<close>

definition configMAX_TASK_NAME_LEN :: nat where
  "configMAX_TASK_NAME_LEN = 10"

text \<open>
  The TCB that \<open>prvAllocateTCBAndStack\<close> leaves: its stack is set and filled with the
  pattern the overflow check looks for. Stack contents above the last four words are not
  modelled.
\<close>

definition fresh_TCB :: "u32 \<Rightarrow> TCB" where
  "fresh_TCB stk = \<lparr>uxPriority = 0, pxStack = stk, pcTaskName = [], uxBasePriority = 0,
     uxMutexesHeld = 0, ulNotifiedValue = 0, eNotifyState = eNotWaitingNotification,
     fpContextPtr = None, stack_limit_words = replicate 4 0xA5A5A5A5\<rparr>"

definition prvAllocateTCBAndStack ::
  "hook \<Rightarrow> u32 \<Rightarrow> u16 \<Rightarrow> u32 \<Rightarrow> os \<Rightarrow> (os \<times> nat option) option" where
  "prvAllocateTCBAndStack hook sizeof_TCB usStackDepth puxStackBuffer s = do {
     (s1, pxStk) \<leftarrow> (if puxStackBuffer = NULL then pvPortStackAlloc hook (ucast usStackDepth * 4) s
                    else Some (s, puxStackBuffer));
     if pxStk \<noteq> NULL
     then do {
       (s2, pxNewTCB) \<leftarrow> pvPortMalloc hook sizeof_TCB s1;
       if pxNewTCB \<noteq> NULL
       then Some (s2\<lparr>kern := update_tcb (unat pxNewTCB) (\<lambda>_. fresh_TCB pxStk) (kern s2)\<rparr>,
                  Some (unat pxNewTCB))
       else Option.bind (vPortStackFree pxStk s2) (\<lambda>s3. Some (s3, None)) }
     else Some (s1, None) }"

definition prvInitialiseTCBVariables :: "nat \<Rightarrow> string \<Rightarrow> u32 \<Rightarrow> kernel \<Rightarrow> kernel" where
  "prvInitialiseTCBVariables t pcName uxPrio k =
     (let p = new_priority uxPrio;
          k1 = update_tcb t (\<lambda>x. x\<lparr>pcTaskName := take (configMAX_TASK_NAME_LEN - 1) pcName,
                 uxPriority := p, uxBasePriority := p, uxMutexesHeld := 0,
                 ulNotifiedValue := 0, eNotifyState := eNotWaitingNotification, fpContextPtr := None\<rparr>) k;
          s1 = vListInitialiseItem (Event t) (vListInitialiseItem (Generic t) (lists k1));
          s2 = listSET_LIST_ITEM_OWNER (Generic t) t s1;
          s3 = listSET_LIST_ITEM_VALUE (Event t) (configMAX_PRIORITIES - p) s2;
          s4 = listSET_LIST_ITEM_OWNER (Event t) t s3
      in k1\<lparr>lists := s4\<rparr>)"

definition prvInitialiseTaskLists :: "kernel \<Rightarrow> kernel" where
  "prvInitialiseTaskLists k =
     (let s1 = fold (\<lambda>p. vListInitialise (Ready p)) (map of_nat [0..<8]) (lists k);
          s2 = vListInitialise Suspended (vListInitialise Termination (vListInitialise PendingReady
                 (vListInitialise Delayed2 (vListInitialise Delayed1 s1))))
      in k\<lparr>lists := s2, pxDelayedTaskList := Delayed1, pxOverflowDelayedTaskList := Delayed2\<rparr>)"

text \<open>The critical section of \<open>xTaskGenericCreate\<close> and the yield after it.\<close>

definition create_core :: "nat \<Rightarrow> u32 \<Rightarrow> kernel \<Rightarrow> kernel" where
  "create_core t uxPrio k =
     (let k1 = vPortEnterCritical k;
          k2 = k1\<lparr>uxCurrentNumberOfTasks := uxCurrentNumberOfTasks k1 + 1, live := insert t (live k1)\<rparr>;
          k3 = (case pxCurrentTCB k2 of
                  None \<Rightarrow>
                    (let k' = k2\<lparr>pxCurrentTCB := Some t\<rparr>
                     in if uxCurrentNumberOfTasks k' = 1 then prvInitialiseTaskLists k' else k')
                | Some c \<Rightarrow>
                    (if \<not> xSchedulerRunning k2
                     then (if prio k2 c \<le> uxPrio then k2\<lparr>pxCurrentTCB := Some t\<rparr> else k2)
                     else k2));
          k4 = k3\<lparr>uxTaskNumber := uxTaskNumber k3 + 1\<rparr>;
          k5 = vPortExitCritical (prvAddTaskToReadyList t k4)
      in if xSchedulerRunning k5
         then (if prio k5 (cur k5) < uxPrio then portYIELD k5 else k5) else k5)"

text \<open>
  The handle that is returned is \<open>*pxCreatedTask\<close>; \<open>None\<close> in its place is the error
  \<open>errCOULD_NOT_ALLOCATE_REQUIRED_MEMORY\<close>.
\<close>

definition xTaskGenericCreate ::
  "hook \<Rightarrow> u32 \<Rightarrow> string \<Rightarrow> u16 \<Rightarrow> u32 \<Rightarrow> u32 \<Rightarrow> os \<Rightarrow> (os \<times> nat option) option" where
  "xTaskGenericCreate hook sizeof_TCB pcName usStackDepth uxPrio puxStackBuffer s = do {
     (s1, pxNewTCB) \<leftarrow> prvAllocateTCBAndStack hook sizeof_TCB usStackDepth puxStackBuffer s;
     (case pxNewTCB of
        None \<Rightarrow> Some (s1, None)
      | Some t \<Rightarrow> Some (s1\<lparr>kern := create_core t uxPrio (prvInitialiseTCBVariables t pcName uxPrio (kern s1))\<rparr>,
                       Some t)) }"

section \<open>Deleting a task\<close>

definition vTaskDelete :: "nat option \<Rightarrow> kernel \<Rightarrow> kernel" where
  "vTaskDelete xTaskToDelete k =
     (let k1 = vPortEnterCritical k;
          t = prvGetTCBFromHandle xTaskToDelete k1;
          k2 = remove_state_item t k1;
          k3 = (if listLIST_ITEM_CONTAINER (Event t) (lists k2) \<noteq> None
                then remove_event_item t k2 else k2);
          k4 = k3\<lparr>lists := vListInsertEnd Termination (Generic t) (lists k3),
                  uxTasksDeleted := uxTasksDeleted k3 + 1\<rparr>;
          k5 = vPortExitCritical (k4\<lparr>uxTaskNumber := uxTaskNumber k4 + 1\<rparr>)
      in if xSchedulerRunning k5
         then (if Some t = pxCurrentTCB k5 then portYIELD k5
               else vPortExitCritical (prvResetNextTaskUnblockTime (vPortEnterCritical k5)))
         else k5)"

definition prvDeleteTCB :: "nat \<Rightarrow> os \<Rightarrow> os option" where
  "prvDeleteTCB t s = do {
     s1 \<leftarrow> vPortStackFree (pxStack (tcb (kern s) t)) s;
     vPortFree (of_nat t) s1 }"

partial_function (option) prvCheckTasksWaitingTermination :: "os \<Rightarrow> os option" where
  "prvCheckTasksWaitingTermination s =
     (if uxTasksDeleted (kern s) > 0
      then (let k1 = vTaskSuspendAll (kern s);
                xListIsEmpty = listLIST_IS_EMPTY Termination (lists k1)
            in Option.bind (xTaskResumeAll k1) (\<lambda>r.
               let s1 = s\<lparr>kern := fst r\<rparr>
               in if \<not> xListIsEmpty
                  then (let k2 = vPortEnterCritical (kern s1)
                        in case listGET_OWNER_OF_HEAD_ENTRY Termination (lists k2) of
                             None \<Rightarrow> None
                           | Some t \<Rightarrow>
                               (let k3 = remove_generic_item t k2;
                                    k4 = k3\<lparr>uxCurrentNumberOfTasks := uxCurrentNumberOfTasks k3 - 1,
                                            uxTasksDeleted := uxTasksDeleted k3 - 1,
                                            live := live k3 - {t}\<rparr>
                                in Option.bind (prvDeleteTCB t (s1\<lparr>kern := vPortExitCritical k4\<rparr>))
                                     prvCheckTasksWaitingTermination))
                  else prvCheckTasksWaitingTermination s1))
      else Some s)"

section \<open>The scheduler and the idle task\<close>

definition xPortStartScheduler :: "kernel \<Rightarrow> kernel" where
  "xPortStartScheduler k = k\<lparr>ulCriticalNesting := 0, interrupts_on := True\<rparr>"

definition vTaskStartScheduler ::
  "hook \<Rightarrow> u32 \<Rightarrow> u16 \<Rightarrow> (os \<Rightarrow> (os \<times> bool) option) \<Rightarrow> os \<Rightarrow> (os \<times> bool) option" where
  "vTaskStartScheduler hook sizeof_TCB tskIDLE_STACK_SIZE xTimerCreateTimerTask s = do {
     (s1, idle) \<leftarrow> xTaskGenericCreate hook sizeof_TCB ''IDLE'' tskIDLE_STACK_SIZE tskIDLE_PRIORITY NULL s;
     (s2, xReturn) \<leftarrow> (if idle \<noteq> None then xTimerCreateTimerTask s1 else Some (s1, False));
     if xReturn
     then Some (s2\<lparr>kern := xPortStartScheduler ((kern s2)\<lparr>interrupts_on := False,
                  xNextTaskUnblockTime := portMAX_DELAY, xSchedulerRunning := True, xTickCount := 0\<rparr>)\<rparr>, True)
     else Some (s2, False) }"

definition vTaskEndScheduler :: "kernel \<Rightarrow> kernel" where
  "vTaskEndScheduler k = k\<lparr>interrupts_on := False, xSchedulerRunning := False\<rparr>"

text \<open>
  One turn of the idle task. \<open>configEXPECTED_IDLE_TIME_BEFORE_SLEEP\<close> is 0, so the sleep
  branch is always taken; \<open>portSUPPRESS_TICKS_AND_SLEEP\<close> is power management code of the
  platform and an argument.
\<close>

definition idle_turn :: "(u32 \<Rightarrow> kernel \<Rightarrow> kernel) \<Rightarrow> os \<Rightarrow> os option" where
  "idle_turn portSUPPRESS_TICKS_AND_SLEEP s = do {
     s1 \<leftarrow> prvCheckTasksWaitingTermination s;
     let k1 = (if listCURRENT_LIST_LENGTH (Ready tskIDLE_PRIORITY) (lists (kern s1)) > 1
               then portYIELD (kern s1) else kern s1);
     let k2 = vTaskSuspendAll (vPortEnterCritical k1);
     let k3 = portSUPPRESS_TICKS_AND_SLEEP (prvGetExpectedIdleTime k2) k2;
     (k4, _) \<leftarrow> xTaskResumeAll k3;
     Some (s1\<lparr>kern := vPortExitCritical k4\<rparr>) }"

section \<open>Deletion keeps the invariant\<close>

lemma delete_core_ok:
  assumes k: "kinv {} k" and t: "t \<in> live k" and nt: "gcont k t \<noteq> Some Termination"
  defines "k3 \<equiv> (if listLIST_ITEM_CONTAINER (Event t) (lists (remove_state_item t k)) \<noteq> None
                then remove_event_item t (remove_state_item t k) else remove_state_item t k)"
  shows "kinv {} (k3\<lparr>lists := vListInsertEnd Termination (Generic t) (lists k3),
      uxTasksDeleted := uxTasksDeleted k3 + 1\<rparr>)"
    and "pvContainer (lists k3) = (pvContainer (lists k))(Generic t := None, Event t := None)"
    and "tcb k3 = tcb k" and "live k3 = live k"
proof -
  obtain l where l: "gcont k t = Some l" using kinv_liveD(5) [OF k t] by blast
  let ?k2 = "remove_state_item t k"
  have k2: "kinv {t} ?k2" "bit_exact (prio k t) ?k2"
    using kinv_remove_state_item [OF k l] l nt by auto
  have k3: "kinv {t} k3" "bit_exact (prio k3 t) k3"
    using k2 kinv_remove_event_item [OF k2(1)] by (auto simp: bit_exact_remove_event k3_def)
  show c: "pvContainer (lists k3) = (pvContainer (lists k))(Generic t := None, Event t := None)"
    by (auto simp: k3_def listLIST_ITEM_CONTAINER_def fun_eq_iff)
  have "econt k3 t = None" using c by simp
  with kinv_put_termination [OF k3(1) _ k3(2)]
  show "kinv {} (k3\<lparr>lists := vListInsertEnd Termination (Generic t) (lists k3),
      uxTasksDeleted := uxTasksDeleted k3 + 1\<rparr>)" by simp
  show "tcb k3 = tcb k" "live k3 = live k" by (simp_all add: k3_def)
qed

lemma delete_ok:
  assumes k: "kinv {} k" and h: "handle_ok k h" and t: "t = prvGetTCBFromHandle h k"
  shows "kinv {} (vTaskDelete h k)"
    and "pvContainer (lists (vTaskDelete h k)) =
      (pvContainer (lists k))(Generic t := Some Termination, Event t := None)"
    and "tcb (vTaskDelete h k) = tcb k" and "live (vTaskDelete h k) = live k"
proof -
  let ?k1 = "vPortEnterCritical k"
  define k3 where "k3 = (if listLIST_ITEM_CONTAINER (Event t) (lists (remove_state_item t ?k1)) \<noteq> None
                then remove_event_item t (remove_state_item t ?k1) else remove_state_item t ?k1)"
  define k5 where "k5 = vPortExitCritical (k3\<lparr>lists := vListInsertEnd Termination (Generic t) (lists k3),
      uxTasksDeleted := uxTasksDeleted k3 + 1, uxTaskNumber := uxTaskNumber k3 + 1\<rparr>)"
  have h': "t \<in> live ?k1" "gcont ?k1 t \<noteq> Some Termination" using h t by (simp_all add: handle_ok_def)
  have k1: "kinv {} ?k1" using k by simp
  note c = delete_core_ok [OF k1 h', folded k3_def]
  have k5: "kinv {} k5" unfolding k5_def by (rule kinv_exit_critical) (use c(1) in simp)
  have eq: "vTaskDelete h k = (if xSchedulerRunning k5
      then (if Some t = pxCurrentTCB k5 then portYIELD k5
            else vPortExitCritical (prvResetNextTaskUnblockTime (vPortEnterCritical k5)))
      else k5)"
    by (simp add: vTaskDelete_def Let_def k5_def k3_def flip: t)
  show "kinv {} (vTaskDelete h k)"
    using k5 kinv_reset_next [of False "{}" "vPortEnterCritical k5"]
    by (auto simp: eq kinv_portYIELD intro: kinv_exit_critical)
  have f: "pvContainer (lists k5) = (pvContainer (lists k))(Generic t := Some Termination, Event t := None)"
    "tcb k5 = tcb k" "live k5 = live k"
    using c(2-4) by (auto simp: k5_def fun_eq_iff)
  show "pvContainer (lists (vTaskDelete h k)) =
      (pvContainer (lists k))(Generic t := Some Termination, Event t := None)"
    "tcb (vTaskDelete h k) = tcb k" "live (vTaskDelete h k) = live k"
    using f by (simp_all add: eq)
qed

text \<open>The idle task takes a deleted task out of the termination list and forgets it.\<close>

definition reap :: "nat \<Rightarrow> kernel \<Rightarrow> kernel" where
  "reap t k = (remove_generic_item t k)\<lparr>uxCurrentNumberOfTasks := uxCurrentNumberOfTasks k - 1,
     uxTasksDeleted := uxTasksDeleted k - 1, live := live k - {t}\<rparr>"

lemma of_nat_diff_1: "0 < n \<Longrightarrow> (of_nat (n - 1) :: u32) = of_nat n - 1"
  by (simp add: of_nat_diff)

lemma kinv_reap:
  assumes k: "kinv {} k" and t: "gcont k t = Some Termination"
  shows "kinv {} (reap t k)" and "terminated (reap t k) = terminated k - {t}"
proof -
  let ?s' = "fst (uxListRemove (Generic t) (lists k))" and ?k' = "reap t k"
  have tl: "t \<in> live k" by (rule kinv_liveD(1) [OF k t])
  have e: "econt k t = None" using kinv_contD(5) [OF k, of t] t by (cases "econt k t") auto
  have f: "lists ?k' = ?s'" "live ?k' = live k - {t}" "tcb ?k' = tcb k" "evlists ?k' = evlists k"
    "uxTopReadyPriority ?k' = uxTopReadyPriority k"
    by (simp_all add: reap_def remove_generic_item_def)
  show tm: "terminated ?k' = terminated k - {t}" by (auto simp: terminated_def f)
  have fin: "finite (live k)" "finite (terminated k)"
    using kinv_parts(3) [OF k] finite_in_list [OF k] by (simp_all add: kinv_tasks_def terminated_def)
  have cnt: "0 < card (live k)" "0 < card (terminated k)"
    using fin tl t by (auto simp: card_gt_0_iff terminated_def)
  have tt: "t \<in> terminated k" using t by (simp add: terminated_def)
  have "kinv_lists ?k'"
    using kinv_lists_remove [OF kinv_parts(2) [OF k], of "Generic t"] by (simp add: kinv_lists_def f)
  moreover have "kinv_tasks {} ?k'"
  proof -
    have n: "uxCurrentNumberOfTasks ?k' = of_nat (card (live ?k'))"
      "uxTasksDeleted ?k' = of_nat (card (terminated ?k'))"
      using kinv_parts(3) [OF k] of_nat_diff_1 cnt fin tl tt unfolding tm
      by (simp_all add: kinv_tasks_def reap_def)
    have "card (live ?k') < 2 ^ 31"
      using kinv_parts(3) [OF k] card_Diff1_le [of "live k" t] by (simp add: kinv_tasks_def f)
    with n kinv_parts(3) [OF k] e fin show ?thesis
      unfolding kinv_tasks_def by (auto simp: f)
  qed
  moreover have "kinv_ready {} ?k'"
  proof -
    have g: "gcont ?k' u = Some (Ready p) \<longleftrightarrow> gcont k u = Some (Ready p)" for u p
      using t by (auto simp: f)
    show ?thesis using kinv_parts(4) [OF k] unfolding kinv_ready_def g unfolding f by simp
  qed
  moreover have "kinv_time False ?k'"
  proof -
    have "kinv_time False (k\<lparr>lists := ?s'\<rparr>)"
      by (rule kinv_time_same_lists [OF kinv_parts(5) [OF k]])
         (use delayed_sorted_remove [OF k] kinv_delayed_sorted [OF k] in \<open>auto split: if_splits\<close>)
    then show ?thesis
      by (simp add: kinv_time_def delayed_sorted_def reap_def remove_generic_item_def)
  qed
  ultimately show "kinv {} ?k'" by (simp add: kinvd_def)
qed

section \<open>Creation keeps, and first establishes, the invariant\<close>

lemma init_item_fields [simp]:
  "pvContainer (vListInitialiseItem i s) = (pvContainer s)(i := None)"
  "xItemValue (vListInitialiseItem i s) = xItemValue s" "pvOwner (vListInitialiseItem i s) = pvOwner s"
  by (simp_all add: vListInitialiseItem_def)

definition new_items :: "nat \<Rightarrow> u32 \<Rightarrow> store \<Rightarrow> store" where
  "new_items t v s = listSET_LIST_ITEM_OWNER (Event t) t (listSET_LIST_ITEM_VALUE (Event t) v
     (listSET_LIST_ITEM_OWNER (Generic t) t
       (vListInitialiseItem (Event t) (vListInitialiseItem (Generic t) s))))"

lemma new_items_store:
  assumes wf: "wf_lists L s" and c: "pvContainer s (Generic t) = None" "pvContainer s (Event t) = None"
  shows "wf_lists L (new_items t v s)" and "l \<in> L \<Longrightarrow> items (new_items t v s) l = items s l"
    and "pvContainer (new_items t v s) = pvContainer s"
    and "xItemValue (new_items t v s) = (xItemValue s)(Item (Event t) := v)"
    and "pvOwner (new_items t v s) = (pvOwner s)(Generic t := t, Event t := t)"
proof -
  have i: "vListInitialiseItem (Event t) (vListInitialiseItem (Generic t) s) = s"
    using initialise_item_store [OF wf] c by simp
  note w1 = set_owner_store [OF wf, where i = "Generic t" and ow = t]
  note w2 = set_value_store [OF w1(1), where i = "Event t" and v = v]
  note w3 = set_owner_store [OF w2(1), where i = "Event t" and ow = t]
  show "wf_lists L (new_items t v s)" "l \<in> L \<Longrightarrow> items (new_items t v s) l = items s l"
    unfolding new_items_def i using w3 w2(2) w1(2) by simp_all
  show "pvContainer (new_items t v s) = pvContainer s"
    "xItemValue (new_items t v s) = (xItemValue s)(Item (Event t) := v)"
    "pvOwner (new_items t v s) = (pvOwner s)(Generic t := t, Event t := t)"
    unfolding new_items_def i by simp_all
qed

definition init_TCB :: "string \<Rightarrow> u32 \<Rightarrow> TCB \<Rightarrow> TCB" where
  "init_TCB nm p x = x\<lparr>pcTaskName := take (configMAX_TASK_NAME_LEN - 1) nm,
     uxPriority := p, uxBasePriority := p, uxMutexesHeld := 0,
     ulNotifiedValue := 0, eNotifyState := eNotWaitingNotification, fpContextPtr := None\<rparr>"

lemma prvInitialiseTCBVariables_alt:
  "prvInitialiseTCBVariables t nm p k =
     k\<lparr>tcb := (tcb k)(t := init_TCB nm (new_priority p) (tcb k t)),
       lists := new_items t (configMAX_PRIORITIES - new_priority p) (lists k)\<rparr>"
  by (simp add: prvInitialiseTCBVariables_def update_tcb_def new_items_def init_TCB_def Let_def)

lemma kinv_birth:
  assumes k: "kinv {} k" and t: "t \<notin> live k" and n: "Suc (card (live k)) < 2 ^ 31"
    and x: "uxPriority x < configMAX_PRIORITIES" "uxBasePriority x < configMAX_PRIORITIES"
  shows "kinv {t} (k\<lparr>tcb := (tcb k)(t := x), lists := new_items t v (lists k),
    live := insert t (live k), uxCurrentNumberOfTasks := uxCurrentNumberOfTasks k + 1\<rparr>)"
    (is "kinvd _ _ ?k'")
proof -
  have g: "gcont k t = None" "econt k t = None"
    using kinv_liveD(1,2) [OF k, of t] t by (cases "gcont k t"; cases "econt k t"; auto)+
  note st = new_items_store [OF kinv_wf [OF k] g, where v = v]
  have nt: "gcont k u = Some l \<Longrightarrow> u \<noteq> t" "econt k u = Some l \<Longrightarrow> u \<noteq> t" for u l using g by auto
  have "kinv_lists ?k'" using st(1) kinv_parts(2) [OF k] by (simp add: kinv_lists_def)
  moreover have "kinv_tasks {t} ?k'"
  proof -
    have tm: "terminated ?k' = terminated k" by (simp add: terminated_def st)
    have "finite (live k)" using kinv_parts(3) [OF k] by (simp add: kinv_tasks_def)
    with kinv_parts(3) [OF k] t n x g show ?thesis
      unfolding kinv_tasks_def tm by (auto simp: st nt add.commute)
  qed
  moreover have "kinv_ready {t} ?k'"
    using kinv_parts(4) [OF k] unfolding kinv_ready_def by (simp add: st)
  moreover have "kinv_time False ?k'"
  proof -
    have "delayed_sorted l (k\<lparr>lists := new_items t v (lists k)\<rparr>)" if "l \<in> {Delayed1, Delayed2}" for l
    proof -
      have lK: "l \<in> KL k" using that by auto
      have "i \<noteq> Event t" if "i \<in> set (items (lists k) l)" for i
        using set_items [OF kinv_wf [OF k] lK] g that by auto
      then have "map (\<lambda>i. xItemValue (new_items t v (lists k)) (Item i)) (items (new_items t v (lists k)) l) =
          map (\<lambda>i. xItemValue (lists k) (Item i)) (items (lists k) l)"
        using st(2) [OF lK] by (simp add: st(4))
      then show ?thesis using kinv_delayed_sorted [OF k that] by (simp add: delayed_sorted_def)
    qed
    then have "kinv_time False (k\<lparr>lists := new_items t v (lists k)\<rparr>)"
      by (intro kinv_time_same_lists [OF kinv_parts(5) [OF k]]) (auto simp: st)
    then show ?thesis by (simp add: kinv_time_def delayed_sorted_def)
  qed
  ultimately show ?thesis by (simp add: kinvd_def)
qed

text \<open>The end of \<open>create_core\<close>, common to the first task and the later ones.\<close>

definition create_finish :: "nat \<Rightarrow> u32 \<Rightarrow> kernel \<Rightarrow> kernel" where
  "create_finish t p k3 =
     (let k5 = vPortExitCritical (prvAddTaskToReadyList t (k3\<lparr>uxTaskNumber := uxTaskNumber k3 + 1\<rparr>))
      in if xSchedulerRunning k5 then (if prio k5 (cur k5) < p then portYIELD k5 else k5) else k5)"

lemma exit_critical_quiet:
  "\<not> ulPortYieldPending k \<Longrightarrow> pxCurrentTCB (vPortExitCritical k) = pxCurrentTCB k"
  by (simp add: vPortExitCritical_def Let_def)

lemma create_finish_ok:
  assumes "kinv {t} k3"
  shows "kinv {} (create_finish t p k3)"
    and "gcont (create_finish t p k3) t = Some (Ready (prio k3 t))"
    and "u \<noteq> t \<Longrightarrow> gcont (create_finish t p k3) u = gcont k3 u"
    and "econt (create_finish t p k3) = econt k3" and "tcb (create_finish t p k3) = tcb k3"
    and "live (create_finish t p k3) = live k3"
proof -
  let ?k4 = "k3\<lparr>uxTaskNumber := uxTaskNumber k3 + 1\<rparr>"
  have "kinv {} (prvAddTaskToReadyList t ?k4)" using kinv_add_ready [of False "{t}" ?k4 t] assms by simp
  from kinv_exit_critical [OF this] kinv_portYIELD show "kinv {} (create_finish t p k3)"
    by (simp add: create_finish_def Let_def)
  show "gcont (create_finish t p k3) t = Some (Ready (prio k3 t))"
    "u \<noteq> t \<Longrightarrow> gcont (create_finish t p k3) u = gcont k3 u"
    "econt (create_finish t p k3) = econt k3" "tcb (create_finish t p k3) = tcb k3"
    "live (create_finish t p k3) = live k3"
    by (simp_all add: create_finish_def Let_def)
qed

lemma create_ok:
  assumes k: "kinv {} k" and t: "t \<notin> live k" and n: "Suc (card (live k)) < 2 ^ 31" and ne: "live k \<noteq> {}"
    and k'_def: "k' = create_core t p (prvInitialiseTCBVariables t nm p k)"
  shows "kinv {} k'" and "gcont k' t = Some (Ready (new_priority p))" and "prio k' t = new_priority p"
    and "u \<noteq> t \<Longrightarrow> gcont k' u = gcont k u" and "live k' = insert t (live k)"
    and "econt k' = econt k" and "u \<noteq> t \<Longrightarrow> tcb k' u = tcb k u"
proof -
  let ?x = "init_TCB nm (new_priority p) (tcb k t)"
  let ?v = "configMAX_PRIORITIES - new_priority p"
  define k2 where "k2 = (vPortEnterCritical k)\<lparr>tcb := (tcb k)(t := ?x), lists := new_items t ?v (lists k),
    live := insert t (live k), uxCurrentNumberOfTasks := uxCurrentNumberOfTasks k + 1\<rparr>"
  have k1: "kinv {} (vPortEnterCritical k)" using k by simp
  have k2: "kinv {t} k2"
    using kinv_birth [OF k1, of t ?x ?v] t n new_priority_less by (simp add: k2_def init_TCB_def)
  have pc: "prvInitialiseTCBVariables t nm p k =
      k\<lparr>tcb := (tcb k)(t := ?x), lists := new_items t ?v (lists k)\<rparr>"
    by (rule prvInitialiseTCBVariables_alt)
  have en: "(vPortEnterCritical (prvInitialiseTCBVariables t nm p k))
      \<lparr>uxCurrentNumberOfTasks := uxCurrentNumberOfTasks k + 1, live := insert t (live k)\<rparr> = k2"
    by (simp add: pc k2_def vPortEnterCritical_def Let_def)
  have cnt: "uxCurrentNumberOfTasks k + 1 \<noteq> 1" using task_count_pos [OF k] ne by auto
  define k3 where "k3 = (case pxCurrentTCB k of None \<Rightarrow> k2\<lparr>pxCurrentTCB := Some t\<rparr>
    | Some c \<Rightarrow> if \<not> xSchedulerRunning k \<and> prio k2 c \<le> p then k2\<lparr>pxCurrentTCB := Some t\<rparr> else k2)"
  have cc: "k' = create_finish t p k3"
  proof -
    have f: "pxCurrentTCB k2 = pxCurrentTCB k" "xSchedulerRunning k2 = xSchedulerRunning k"
      "uxCurrentNumberOfTasks k2 = uxCurrentNumberOfTasks k + 1"
      by (simp_all add: k2_def)
    have i: "uxCurrentNumberOfTasks (vPortEnterCritical (prvInitialiseTCBVariables t nm p k)) =
        uxCurrentNumberOfTasks k" "live (vPortEnterCritical (prvInitialiseTCBVariables t nm p k)) = live k"
      by (simp_all add: pc)
    show ?thesis
      using cnt unfolding k'_def create_core_def Let_def i en create_finish_def k3_def
      by (auto simp: f split: option.split)
  qed
  have k3: "kinv {t} k3" using k2 by (simp add: k3_def split: option.split)
  have g: "gcont k t = None" "econt k t = None"
    using kinv_liveD(1,2) [OF k, of t] t by (cases "gcont k t"; cases "econt k t"; auto)+
  have f3: "lists k3 = new_items t ?v (lists k)" "tcb k3 = (tcb k)(t := ?x)" "live k3 = insert t (live k)"
    by (simp_all add: k3_def k2_def split: option.split)
  note c = create_finish_ok [OF k3, where p = p, folded cc]
  note st = new_items_store(3) [OF kinv_wf [OF k] g, where v = ?v]
  show "kinv {} k'" by (rule c(1))
  show "gcont k' t = Some (Ready (new_priority p))" using c(2) f3(2) by (simp add: init_TCB_def)
  show "prio k' t = new_priority p" using c(5) f3(2) by (simp add: init_TCB_def)
  show "u \<noteq> t \<Longrightarrow> gcont k' u = gcont k u" using c(3) f3(1) st by simp
  show "live k' = insert t (live k)" using c(6) f3(3) by simp
  show "econt k' = econt k" using c(4) f3(1) st by simp
  show "u \<noteq> t \<Longrightarrow> tcb k' u = tcb k u" using c(5) f3(2) by simp
qed

text \<open>
  The state before the first task: no task, no ready priority, every item in no list; queues
  and other objects may have initialised their own lists.
\<close>

definition boot_state :: "kernel \<Rightarrow> bool" where
  "boot_state k \<longleftrightarrow> live k = {} \<and> pxCurrentTCB k = None \<and> uxCurrentNumberOfTasks k = 0 \<and>
     uxTasksDeleted k = 0 \<and> uxTopReadyPriority k = 0 \<and> \<not> xSchedulerRunning k \<and>
     \<not> ulPortYieldPending k \<and> (\<forall>i. pvContainer (lists k) i = None) \<and> wf_lists (evlists k) (lists k) \<and>
     (\<forall>l \<in> evlists k. is_event_list l)"

lemma initialise_fields [simp]:
  "pvContainer (vListInitialise l s) = pvContainer s" "pvOwner (vListInitialise l s) = pvOwner s"
  "xItemValue (vListInitialise l s) (Item i) = xItemValue s (Item i)"
  by (simp_all add: vListInitialise_def)

lemma initialise_all:
  assumes "wf_lists L s" and "distinct ls" and "set ls \<inter> L = {}"
  shows "wf_lists (L \<union> set ls) (fold vListInitialise ls s)"
    and "pvContainer (fold vListInitialise ls s) = pvContainer s"
    and "pvOwner (fold vListInitialise ls s) = pvOwner s"
  using assms
proof (induction ls arbitrary: L s)
  case Nil
  { case 1 then show ?case by simp }
  { case 2 then show ?case by simp }
  { case 3 then show ?case by simp }
next
  case (Cons l ls)
  { case 1
    then have "wf_lists (insert l L) (vListInitialise l s)" by (intro vListInitialise_store(1)) auto
    with 1 Cons.IH(1) [of "insert l L" "vListInitialise l s"] show ?case by simp }
  { case 2
    then have "wf_lists (insert l L) (vListInitialise l s)" by (intro vListInitialise_store(1)) auto
    with 2 Cons.IH(2) [of "insert l L" "vListInitialise l s"] show ?case by simp }
  { case 3
    then have "wf_lists (insert l L) (vListInitialise l s)" by (intro vListInitialise_store(1)) auto
    with 3 Cons.IH(3) [of "insert l L" "vListInitialise l s"] show ?case by simp }
qed

definition all_task_lists :: "lid list" where
  "all_task_lists = map Ready (map of_nat [0..<8]) @ [Delayed1, Delayed2, PendingReady, Termination, Suspended]"

lemma initialise_task_lists_alt:
  "prvInitialiseTaskLists k = k\<lparr>lists := fold vListInitialise all_task_lists (lists k),
     pxDelayedTaskList := Delayed1, pxOverflowDelayedTaskList := Delayed2\<rparr>"
  by (simp add: prvInitialiseTaskLists_def all_task_lists_def fold_map Let_def comp_def)

lemma all_task_lists_set: "set all_task_lists = task_lists" and all_task_lists_distinct: "distinct all_task_lists"
proof -
  have "p \<in> of_nat ` {0..<8}" if "p < configMAX_PRIORITIES" for p :: u32
    using priority_index [OF that] by (intro image_eqI [of _ _ "unat p"]) auto
  moreover have "(of_nat n :: u32) < configMAX_PRIORITIES" if "n < 8" for n
    using that by (simp add: configMAX_PRIORITIES_def word_less_nat_alt unat_of_nat take_bit_eq_mod)
  ultimately show "set all_task_lists = task_lists"
    by (auto simp: all_task_lists_def task_lists_def)
  have "unat (of_nat n :: u32) = n" if "n < 8" for n
    using that by (simp add: unat_of_nat take_bit_eq_mod)
  then have "inj_on (of_nat :: nat \<Rightarrow> u32) {0..<8}" by (intro inj_on_inverseI [of _ unat]) auto
  then show "distinct all_task_lists"
    by (auto simp: all_task_lists_def distinct_map inj_on_def)
qed

lemma create_first_ok:
  assumes b: "boot_state k" and k'_def: "k' = create_core t p (prvInitialiseTCBVariables t nm p k)"
  shows "kinv {} k'" and "pxCurrentTCB k' = Some t" and "live k' = {t}"
    and "gcont k' t = Some (Ready (new_priority p))"
proof -
  let ?x = "init_TCB nm (new_priority p) (tcb k t)"
  let ?v = "configMAX_PRIORITIES - new_priority p"
  define s0 where "s0 = new_items t ?v (lists k)"
  define s1 where "s1 = fold vListInitialise all_task_lists s0"
  have c0: "pvContainer (lists k) i = None" for i using b by (simp add: boot_state_def)
  have wf: "wf_lists (evlists k) (lists k)" using b by (simp add: boot_state_def)
  note st = new_items_store [OF wf c0 c0, where v = ?v and t = t, folded s0_def]
  have dj: "set all_task_lists \<inter> evlists k = {}"
    using b task_lists_not_event unfolding all_task_lists_set by (auto simp: boot_state_def)
  note ia = initialise_all [OF st(1) all_task_lists_distinct dj, folded s1_def]
  have c1: "pvContainer s1 i = None" for i using ia(2) st(3) c0 by simp
  have ow: "pvOwner s1 = (pvOwner (lists k))(Generic t := t, Event t := t)" using ia(3) st(5) by simp
  define k3 where "k3 = (vPortEnterCritical (prvInitialiseTCBVariables t nm p k))
    \<lparr>uxCurrentNumberOfTasks := 1, live := {t}, pxCurrentTCB := Some t, lists := s1,
     pxDelayedTaskList := Delayed1, pxOverflowDelayedTaskList := Delayed2\<rparr>"
  note pc = prvInitialiseTCBVariables_alt [of t nm p k, folded s0_def]
  have f: "lists k3 = s1" "tcb k3 = (tcb k)(t := ?x)" "evlists k3 = evlists k"
    "uxTopReadyPriority k3 = 0" "uxTasksDeleted k3 = 0" "\<not> xSchedulerRunning k3" "live k3 = {t}"
    "pxCurrentTCB k3 = Some t" "uxCurrentNumberOfTasks k3 = 1" "\<not> ulPortYieldPending k3"
    "pxDelayedTaskList k3 = Delayed1" "pxOverflowDelayedTaskList k3 = Delayed2"
    using b by (simp_all add: k3_def pc boot_state_def)
  have cc: "k' = create_finish t p k3"
  proof -
    have "(vPortEnterCritical (prvInitialiseTCBVariables t nm p k))
        \<lparr>uxCurrentNumberOfTasks := uxCurrentNumberOfTasks (vPortEnterCritical (prvInitialiseTCBVariables t nm p k)) + 1,
         live := insert t (live (vPortEnterCritical (prvInitialiseTCBVariables t nm p k)))\<rparr>
      = (vPortEnterCritical (prvInitialiseTCBVariables t nm p k))\<lparr>uxCurrentNumberOfTasks := 1, live := {t}\<rparr>"
      using b by (simp add: pc boot_state_def)
    moreover have "pxCurrentTCB (vPortEnterCritical (prvInitialiseTCBVariables t nm p k)) = None"
      using b by (simp add: pc boot_state_def)
    moreover have "lists (vPortEnterCritical (prvInitialiseTCBVariables t nm p k)) = s0" by (simp add: pc)
    ultimately show ?thesis
      unfolding k'_def create_core_def create_finish_def Let_def
      by (simp add: initialise_task_lists_alt k3_def s1_def)
  qed
  have "kinv {t} k3"
  proof -
    have tm: "terminated k3 = {}" by (simp add: terminated_def f c1)
    have "kinv_lists k3" using ia(1) b
      by (simp add: kinv_lists_def f all_task_lists_set Un_commute boot_state_def)
    moreover have "kinv_tasks {t} k3"
      unfolding kinv_tasks_def tm using new_priority_less by (auto simp: f c1 ow init_TCB_def)
    moreover have "kinv_ready {t} k3" unfolding kinv_ready_def by (simp add: f c1)
    moreover have "kinv_time False k3"
    proof (rule kinv_timeI)
      show "delayed_pair k3" by (simp add: delayed_pair_def f)
      show "delayed_sorted l k3" if "l \<in> {Delayed1, Delayed2}" for l
      proof -
        have "l \<in> KL k3" using that by auto
        then have "items s1 l = []" using set_items [OF ia(1), of l] c1 that
          by (auto simp: all_task_lists_set)
        then show ?thesis by (simp add: delayed_sorted_def f)
      qed
    qed (simp_all add: f c1)
    ultimately show ?thesis by (simp add: kinvd_def)
  qed
  note c = create_finish_ok [OF this, where p = p, folded cc]
  show "kinv {} k'" by (rule c(1))
  show "live k' = {t}" using c(6) f(7) by simp
  show "gcont k' t = Some (Ready (new_priority p))" using c(2) f(2) by (simp add: init_TCB_def)
  show "pxCurrentTCB k' = Some t"
    using f by (simp add: cc create_finish_def Let_def exit_critical_quiet)
qed

section \<open>The start of the scheduler\<close>

definition started :: "kernel \<Rightarrow> kernel" where
  "started k = xPortStartScheduler (k\<lparr>interrupts_on := False,
     xNextTaskUnblockTime := portMAX_DELAY, xSchedulerRunning := True, xTickCount := 0\<rparr>)"

lemma started_fields [simp]:
  "lists (started k) = lists k" "tcb (started k) = tcb k" "live (started k) = live k"
  "evlists (started k) = evlists k" "pxCurrentTCB (started k) = pxCurrentTCB k"
  "uxSchedulerSuspended (started k) = uxSchedulerSuspended k" "ulCriticalNesting (started k) = 0"
  "ulPortYieldPending (started k) = ulPortYieldPending k" "xSchedulerRunning (started k)"
  "xTickCount (started k) = 0" "uxPendedTicks (started k) = uxPendedTicks k"
  "xNumOfOverflows (started k) = xNumOfOverflows k" "interrupts_on (started k)"
  "xNextTaskUnblockTime (started k) = portMAX_DELAY" "pxFpTcbOwner (started k) = pxFpTcbOwner k"
  by (simp_all add: started_def xPortStartScheduler_def)

lemma kinv_started:
  assumes k: "kinv {} k" and t: "\<And>t. \<not> timed k t"
  shows "kinv {} (started k)"
proof (rule kinv_frame_time [OF k])
  note kt = kinv_parts(5) [OF k]
  have no: "gcont k u \<noteq> Some Delayed1" "gcont k u \<noteq> Some Delayed2" for u using t [of u] by (simp_all add: timed_def)
  show "kinv_time False (started k)"
    using kt no by (auto simp: kinv_time_def delayed_sorted_def started_def xPortStartScheduler_def)
qed (simp_all add: started_def xPortStartScheduler_def)

end
