(* ===== verification/Machine.thy ===== *)
theory Machine
  imports TaskNotify TaskCreate TaskTime
begin

text \<open>
  The kernel as a state machine. A step is one call of a kernel function by the running task,
  an interrupt, or the idle task; its premises are what the documentation of the function asks
  of the caller (a valid handle, a running caller that is not yet in an event list, a jump of
  the tick count that ends before the next wake time). Every state that is reachable from
  reset through the creation of the first task satisfies the invariant \<open>kinv\<close>, and no
  step of the timer interrupt or of \<open>xTaskResumeAll\<close> can fail to return.
\<close>

section \<open>Steps\<close>

inductive kstep :: "kernel \<Rightarrow> kernel \<Rightarrow> bool" where
  tick: "vPortTimerHandler k = Some k' \<Longrightarrow> kstep k k'"
| enter_critical: "kstep k (vPortEnterCritical k)"
| exit_critical: "kstep k (vPortExitCritical k)"
| yield: "kstep k (portYIELD k)"
| suspend_all: "kstep k (vTaskSuspendAll k)"
| resume_all: "xTaskResumeAll k = Some (k', b) \<Longrightarrow> kstep k k'"
| start: "\<not> xSchedulerRunning k \<Longrightarrow> (\<forall>t. \<not> timed k t) \<Longrightarrow> kstep k (started k)"
| create: "t \<notin> live k \<Longrightarrow> live k \<noteq> {} \<Longrightarrow> Suc (card (live k)) < 2 ^ 31 \<Longrightarrow>
    kstep k (create_core t p (prvInitialiseTCBVariables t nm p k))"
| delete: "handle_ok k h \<Longrightarrow> kstep k (vTaskDelete h k)"
| clean_up: "gcont k t = Some Termination \<Longrightarrow> kstep k (reap t k)"
| delay: "running_task k t \<Longrightarrow> n \<noteq> 0 \<Longrightarrow> vTaskDelay n k = Some k' \<Longrightarrow> kstep k k'"
| delay_until: "running_task k t \<Longrightarrow> vTaskDelayUntil p d k = Some (k', w) \<Longrightarrow> kstep k k'"
| suspend: "handle_ok k h \<Longrightarrow> kstep k (vTaskSuspend h k)"
| resume: "kstep k (vTaskResume h k)"
| resume_isr: "kstep k (fst (xTaskResumeFromISR t k))"
| priority_set: "prvGetTCBFromHandle h k \<in> live k \<Longrightarrow> kstep k (vTaskPrioritySet h p k)"
| inherit: "t \<in> live k \<Longrightarrow> cur k \<in> live k \<Longrightarrow> kstep k (vTaskPriorityInherit (Some t) k)"
| disinherit: "t \<in> live k \<Longrightarrow> gcont k t \<noteq> Some Termination \<Longrightarrow>
    kstep k (fst (xTaskPriorityDisinherit (Some t) k))"
| hold_mutex: "kstep k (fst (pvTaskIncrementMutexHeldCount k))"
| reset_event_item: "kstep k (fst (uxTaskResetEventItemValue k))"
| place: "event_ready k t l \<Longrightarrow> w \<noteq> 0 \<Longrightarrow> kstep k (vTaskPlaceOnEventList l w k)"
| place_unordered: "event_ready k t l \<Longrightarrow> w \<noteq> 0 \<Longrightarrow> kstep k (vTaskPlaceOnUnorderedEventList l v w k)"
| place_restricted: "event_ready k t l \<Longrightarrow> forever \<or> w \<noteq> 0 \<Longrightarrow>
    kstep k (vTaskPlaceOnEventListRestricted l w forever k)"
| remove: "l \<in> evlists k - timer_lists \<Longrightarrow> items (lists k) l \<noteq> [] \<Longrightarrow>
    xTaskRemoveFromEventList l k = Some (k', b) \<Longrightarrow> kstep k k'"
| remove_unordered: "econt k t = Some l \<Longrightarrow> kstep k (fst (xTaskRemoveFromUnorderedEventList t v k))"
| check_timeout: "kstep k (fst (xTaskCheckForTimeOut to w k))"
| missed_yield: "kstep k (vTaskMissedYield k)"
| take_block: "running_task k t \<Longrightarrow> kstep k (ulTaskNotifyTake_block w k)"
| take_finish: "kstep k (fst (ulTaskNotifyTake_finish c k))"
| wait_block: "running_task k t \<Longrightarrow> kstep k (xTaskNotifyWait_block b w k)"
| wait_finish: "kstep k (fst (xTaskNotifyWait_finish b k))"
| notify: "notifiable k t \<Longrightarrow> kstep k (fst (xTaskGenericNotify t v a k))"
| notify_isr: "notifiable k t \<Longrightarrow> kstep k (fst (xTaskGenericNotifyFromISR t v a k))"
| give_isr: "notifiable k t \<Longrightarrow> kstep k (fst (vTaskNotifyGiveFromISR t k))"
| state_clear: "kstep k (fst (xTaskNotifyStateClear h k))"
| step_tick: "xSchedulerRunning k \<Longrightarrow> j < xNextTaskUnblockTime k - xTickCount k \<Longrightarrow> kstep k (vTaskStepTick j k)"

inductive reachable :: "kernel \<Rightarrow> bool" where
  first: "boot_state k \<Longrightarrow> reachable (create_core t p (prvInitialiseTCBVariables t nm p k))"
| step: "reachable k \<Longrightarrow> kstep k k' \<Longrightarrow> reachable k'"

section \<open>The invariant\<close>

lemma timer_handler_ok:
  assumes k: "kinv {} k"
  shows "\<exists>k'. vPortTimerHandler k = Some k' \<and> kinv {} k'"
proof (cases "uxSchedulerSuspended k = 0")
  case True
  obtain k' sw where t: "xTaskIncrementTick k = Some (k', sw)" "kinv {} k'" using tick_step [OF k True] by metis
  then show ?thesis using kinv_switch_context [OF t(2)] by (simp add: vPortTimerHandler_def)
next
  case False
  then show ?thesis
    using k by (simp add: vPortTimerHandler_def xTaskIncrementTick_def vApplicationTickHook_def kinv_switch_context Let_def)
qed

lemma kinv_hold_mutex: "kinv {} k \<Longrightarrow> kinv {} (fst (pvTaskIncrementMutexHeldCount k))"
  by (auto simp: pvTaskIncrementMutexHeldCount_def Let_def split: option.splits intro!: kinv_update_tcb)

lemma kinv_simple_steps:
  "kinv {} k \<Longrightarrow> kinv {} (vPortEnterCritical k)" "kinv {} k \<Longrightarrow> kinv {} (vTaskSuspendAll k)"
  "kinv {} k \<Longrightarrow> kinv {} (fst (uxTaskResetEventItemValue k))" "kinv {} k \<Longrightarrow> kinv {} (vTaskMissedYield k)"
  by (simp_all add: uxTaskResetEventItemValue_def vTaskMissedYield_def)

lemmas step_rules = kinv_simple_steps kinv_exit_critical kinv_portYIELD kinv_started
  create_ok(1) [OF _ _ _ _ refl] delete_ok(1) [OF _ _ refl] kinv_reap(1) suspend_ok(1) [OF _ _ refl]
  resume_ok(1) resume_isr_ok(1) priority_set_ok(1) [OF _ _ refl] inherit_ok(1) disinherit_ok(1) kinv_hold_mutex
  place_on_event_list_ok(1) place_unordered_ok(1) place_restricted_ok(1) remove_unordered_ok(1)
  kinv_check_timeout kinv_take_block kinv_wait_block kinv_finish notify_ok notify_isr_ok notify_clear_ok
  step_tick_ok(1)

lemma kstep_kinv:
  assumes "kstep k k'" and k: "kinv {} k"
  shows "kinv {} k'"
  using assms(1)
proof cases
  case tick
  then show ?thesis using timer_handler_ok [OF k] by auto
next
  case resume_all
  then show ?thesis using resume_all_ok [OF k] by auto
next
  case (delay t n)
  then show ?thesis using delay_ok [OF k delay(1,2)] by auto
next
  case (delay_until t p d w)
  then show ?thesis using delay_until_ok [OF k delay_until(1), of p d] by auto
next
  case (remove l b)
  then show ?thesis using remove_from_event_list_ok [OF k remove(1,2)] by auto
qed (hypsubst, rule step_rules, (rule k | assumption | erule spec)+)+

lemma reachable_kinv: "reachable k \<Longrightarrow> kinv {} k"
proof (induction rule: reachable.induct)
  case (first k t p nm)
  then show ?case using create_first_ok(1) by blast
next
  case (step k k')
  then show ?case using kstep_kinv by blast
qed

end
