(* ===== verification/EventOrder.thy ===== *)
theory EventOrder
  imports TaskControl
begin

text \<open>
  The order in which tasks wait for an event. \<open>vTaskPlaceOnEventList\<close> inserts the running
  task by its event item value, \<open>configMAX_PRIORITIES\<close> minus its priority, so the list is
  ordered by falling priority and \<open>xTaskRemoveFromEventList\<close>, which takes the head, wakes a
  task of the highest priority that waits.
\<close>

definition prio_ordered :: "lid \<Rightarrow> kernel \<Rightarrow> bool" where
  "prio_ordered l k \<longleftrightarrow>
     sorted (map (\<lambda>i. xItemValue (lists k) (Item i)) (items (lists k) l)) \<and>
     (\<forall>t. econt k t = Some l \<longrightarrow> xItemValue (lists k) (Item (Event t)) = configMAX_PRIORITIES - prio k t)"

lemma priority_complement:
  fixes p q :: u32
  assumes "p < configMAX_PRIORITIES" and "q < configMAX_PRIORITIES"
  shows "configMAX_PRIORITIES - p \<le> configMAX_PRIORITIES - q \<longleftrightarrow> q \<le> p"
proof -
  have "unat p < 8" "unat q < 8" using assms by (simp_all add: configMAX_PRIORITIES_def word_less_nat_alt)
  moreover have "unat (configMAX_PRIORITIES - p) = 8 - unat p" "unat (configMAX_PRIORITIES - q) = 8 - unat q"
    using assms by (simp_all add: configMAX_PRIORITIES_def unat_sub less_imp_le)
  ultimately show ?thesis by (auto simp: word_le_nat_alt)
qed

lemma head_highest:
  assumes k: "kinv {} k" and l: "l \<in> evlists k - timer_lists" and o: "prio_ordered l k"
    and h: "items (lists k) l = Event t # is'" and u: "econt k u = Some l"
  shows "prio k u \<le> prio k t"
proof -
  have si: "set (items (lists k) l) = {i. pvContainer (lists k) i = Some l}"
    by (rule set_items [OF kinv_wf [OF k]]) (use l in simp)
  have m: "Event u \<in> set (items (lists k) l)" using si u by simp
  have "Event t \<in> set (items (lists k) l)" unfolding h by simp
  then have t: "econt k t = Some l" using si by simp
  have "t \<in> live k" "u \<in> live k" using kinv_liveD(2) [OF k] t u by blast+
  then have p: "prio k t < configMAX_PRIORITIES" "prio k u < configMAX_PRIORITIES" using kinv_tcbD [OF k] by auto
  have "xItemValue (lists k) (Item (Event t)) \<le> xItemValue (lists k) (Item (Event u))"
    using o m unfolding prio_ordered_def h by auto
  then show ?thesis using o t u priority_complement [OF p] by (simp add: prio_ordered_def)
qed

text \<open>Blocking the running task leaves every event list as it is.\<close>

lemma block_current_task_events:
  assumes k: "kinv {} k" and t: "running_task k t" and l: "l \<in> evlists k"
  shows "items (lists (block_current_task forever w k)) l = items (lists k) l"
    and "xItemValue (lists (block_current_task forever w k)) (Item (Event u)) = xItemValue (lists k) (Item (Event u))"
    and "tcb (block_current_task forever w k) = tcb k"
    and "xItemValue (lists (block_current_task forever w k)) (Item (TimerItem m)) = xItemValue (lists k) (Item (TimerItem m))"
proof -
  let ?k1 = "remove_ready_item t (prio k t) k"
  have g: "gcont k t = Some (Ready (prio k t))" and c: "cur k = t" "cur ?k1 = t"
    using t by (simp_all add: running_task_def cur_def)
  have k1: "kinv {t} ?k1" using kinv_remove_ready_item [OF k g] by simp
  have el: "is_event_list l" using kinv_parts(2) [OF k] l by (simp add: kinv_lists_def)
  have ne: "l \<noteq> Suspended" "l \<noteq> Delayed1" "l \<noteq> Delayed2" "l \<noteq> Ready (prio k t)" using el by auto
  have lK: "l \<in> KL k" "l \<in> KL ?k1" using l by simp_all
  have "lists ?k1 = fst (uxListRemove (Generic t) (lists k))"
    by (simp add: remove_ready_item_def reset_ready_priority_def Let_def split: prod.split)
  moreover have "Generic t \<notin> set (items (lists k) l)" using set_items [OF kinv_wf [OF k] lK(1)] g ne by simp
  ultimately have i1: "items (lists ?k1) l = items (lists k) l"
    using uxListRemove_store(2) [OF kinv_wf [OF k] lK(1)] by (simp add: remove1_idem)
  have out: "gcont ?k1 t = None" by simp
  have "items (vListInsertEnd Suspended (Generic t) (lists ?k1)) l = items (lists ?k1) l"
    using vListInsertEnd_store(2) [OF kinv_wf [OF k1], of Suspended "Generic t" l] out lK ne by simp
  moreover have "items (lists (prvAddCurrentTaskToDelayedList v ?k1)) l = items (lists ?k1) l" for v
  proof -
    let ?s1 = "listSET_LIST_ITEM_VALUE (Generic t) v (lists ?k1)"
    have wf1: "wf_lists (KL ?k1) ?s1" by (rule set_value_store [OF kinv_wf [OF k1]])
    have "items (vListInsert d (Generic t) ?s1) l = items (lists ?k1) l" if "d \<in> {Delayed1, Delayed2}" for d
    proof -
      have "d \<in> KL ?k1" "l \<noteq> d" using that ne by auto
      then show ?thesis
        using vListInsert_store(2) [OF wf1 _ _ lK(2), of d "Generic t"] out set_value_store(2) [OF kinv_wf [OF k1] lK(2)]
        by simp
    qed
    then show ?thesis
      using delayed_pairD(1,2) [OF kinv_timeD(1) [OF k1]] c by (simp add: prvAddCurrentTaskToDelayedList_def Let_def)
  qed
  ultimately show "items (lists (block_current_task forever w k)) l = items (lists k) l"
    using i1 c by (simp add: block_current_task_def Let_def)
  show "xItemValue (lists (block_current_task forever w k)) (Item (Event u)) = xItemValue (lists k) (Item (Event u))"
    "tcb (block_current_task forever w k) = tcb k"
    "xItemValue (lists (block_current_task forever w k)) (Item (TimerItem m)) = xItemValue (lists k) (Item (TimerItem m))"
    using add_delayed_lists(2) [OF k1] c by (simp_all add: block_current_task_def Let_def)
qed

lemma place_keeps_order:
  assumes k: "kinv {} k" and e: "event_ready k t l" and o: "prio_ordered l k"
    and v: "xItemValue (lists k) (Item (Event t)) = configMAX_PRIORITIES - prio k t"
    and w: "w \<noteq> 0"
  shows "prio_ordered l (vTaskPlaceOnEventList l w k)"
proof -
  note d = event_readyD [OF k e]
  let ?f = "\<lambda>i. xItemValue (lists k) (Item i)"
  let ?k1 = "k\<lparr>lists := vListInsert l (Event t) (lists k)\<rparr>"
  have k1: "kinv {} ?k1" by (rule kinv_put_event(1) [OF k d(1,5,6,4)])
  note st = vListInsert_store [OF kinv_wf [OF k] d(3,6)]
  have t1: "running_task ?k1 t" using d(7) st(3) by (simp add: running_event_store)
  have l1: "l \<in> evlists ?k1 - timer_lists" using e by (simp add: event_ready_def)
  have eq: "vTaskPlaceOnEventList l w k = block_current_task (w = portMAX_DELAY) w ?k1"
    by (simp add: vTaskPlaceOnEventList_def d(2))
  note b = block_current_task_events [OF k1 t1 DiffD1 [OF l1], of "w = portMAX_DELAY" w]
  have it: "items (lists (vTaskPlaceOnEventList l w k)) l = insert_by ?f (Event t) (items (lists k) l)"
    using b(1) st(2) [OF d(3)] by (simp add: eq)
  have val: "xItemValue (lists (vTaskPlaceOnEventList l w k)) (Item (Event u)) = ?f (Event u)" for u
    using b(2) st(4) by (simp add: eq)
  have si: "set (items (lists k) l) = {i. pvContainer (lists k) i = Some l}"
    by (rule set_items [OF kinv_wf [OF k] d(3)])
  have "xItemValue (lists (vTaskPlaceOnEventList l w k)) (Item i) = ?f i"
    if "i \<in> set (insert_by ?f (Event t) (items (lists k) l))" for i
    using that event_item [OF k, of l i] e si val by (auto simp: event_ready_def)
  then have "map (\<lambda>i. xItemValue (lists (vTaskPlaceOnEventList l w k)) (Item i))
      (items (lists (vTaskPlaceOnEventList l w k)) l) = map ?f (insert_by ?f (Event t) (items (lists k) l))"
    unfolding it by (simp cong: map_cong)
  moreover have "sorted (map ?f (insert_by ?f (Event t) (items (lists k) l)))"
    by (rule sorted_insert_by) (use o in \<open>simp add: prio_ordered_def\<close>)
  moreover have "xItemValue (lists (vTaskPlaceOnEventList l w k)) (Item (Event u)) = configMAX_PRIORITIES - prio k u"
    if "econt (vTaskPlaceOnEventList l w k) u = Some l" for u
  proof (cases "u = t")
    case False
    then have "econt k u = Some l" using place_on_event_list_ok(4) [OF k e w False] that by simp
    then show ?thesis using o val by (simp add: prio_ordered_def)
  qed (use v val in simp)
  ultimately show ?thesis using b(3) by (simp add: prio_ordered_def eq)
qed

lemma wake_highest:
  assumes k: "kinv {} k" and l: "l \<in> evlists k - timer_lists" and ne: "items (lists k) l \<noteq> []" and o: "prio_ordered l k"
  shows "\<exists>k' t. xTaskRemoveFromEventList l k = Some (k', prio k t > prio k (cur k)) \<and> kinv {} k' \<and>
    econt k t = Some l \<and> (\<forall>u. econt k u = Some l \<longrightarrow> prio k u \<le> prio k t) \<and>
    gcont k' t = (if uxSchedulerSuspended k = 0 then Some (Ready (prio k t)) else gcont k t) \<and>
    econt k' t = (if uxSchedulerSuspended k = 0 then None else Some PendingReady) \<and>
    (\<forall>u. u \<noteq> t \<longrightarrow> gcont k' u = gcont k u \<and> econt k' u = econt k u)"
proof -
  obtain k' t where r: "xTaskRemoveFromEventList l k = Some (k', prio k t > prio k (cur k))" "kinv {} k'"
    "hd (items (lists k) l) = Event t" "econt k t = Some l"
    "gcont k' = (gcont k)(t := if uxSchedulerSuspended k = 0 then Some (Ready (prio k t)) else gcont k t)"
    "econt k' = (econt k)(t := if uxSchedulerSuspended k = 0 then None else Some PendingReady)"
    using remove_from_event_list_ok [OF k l ne] by metis
  have "items (lists k) l = Event t # tl (items (lists k) l)" using ne r(3) by (metis list.collapse)
  note hh = head_highest [OF k l o this]
  have "gcont k' u = ((gcont k)(t := if uxSchedulerSuspended k = 0 then Some (Ready (prio k t)) else gcont k t)) u"
    "econt k' u = ((econt k)(t := if uxSchedulerSuspended k = 0 then None else Some PendingReady)) u" for u
    using fun_cong [OF r(5), of u] fun_cong [OF r(6), of u] .
  then show ?thesis using r(1,2,4) hh by (intro exI [of _ k'] exI [of _ t]) simp
qed

end
