(* ===== verification/Fpu.thy ===== *)
theory Fpu
  imports KernelPrim
begin

text \<open>
  Lazy switching of the floating point unit: the trap handler of \<^verbatim>\<open>fpu.c\<close> and the FPU part
  of \<open>vTaskSwitchContext\<close>. A task owns no save area until its first floating point
  instruction traps (\<open>CR0.TS\<close> set); from then on its registers are saved when another task
  takes the unit and restored when it is switched in. \<open>ISH_CONFIG_MAX_FPU_TASKS\<close> is a
  build parameter and an argument here.
\<close>

section \<open>The trap handler\<close>

definition fninit :: "kernel \<Rightarrow> kernel" where
  "fninit k = k\<lparr>fpu_regs := 0\<rparr>"

text \<open>
  Saving the registers of the previous owner. \<open>None\<close>: the register file would be stored
  through a null pointer, because the TCB of the previous owner has no save area.
\<close>

definition fp_save_owner :: "kernel \<Rightarrow> kernel option" where
  "fp_save_owner k =
     (case pxFpTcbOwner k of
        None \<Rightarrow> Some k
      | Some ow \<Rightarrow>
          (case fpContextPtr (tcb k ow) of None \<Rightarrow> None | Some a \<Rightarrow> Some (fnsave a k)))"

text \<open>Giving the running task a save area, if the pool has one left.\<close>

definition fp_claim :: "int \<Rightarrow> kernel \<Rightarrow> kernel" where
  "fp_claim ISH_CONFIG_MAX_FPU_TASKS k =
     (if fpContextPtr (tcb k (cur k)) = None
      then (if sint (currentNumberOfFpTasks k) \<ge> ISH_CONFIG_MAX_FPU_TASKS
            then k\<lparr>ext_calls := FatalDeviceNotAvailable # ext_calls k\<rparr>
            else (let k1 = k\<lparr>currentNumberOfFpTasks := currentNumberOfFpTasks k + 1\<rparr>;
                      slot = nat (sint (currentNumberOfFpTasks k1) - 1);
                      k2 = fninit (update_tcb (cur k1) (\<lambda>x. x\<lparr>fpContextPtr := Some slot\<rparr>) k1)
                  in k2\<lparr>pxFpTcbOwner := pxCurrentTCB k2\<rparr>))
      else k\<lparr>pxFpTcbOwner := pxCurrentTCB k\<rparr>)"

definition fp_device_not_available_handler :: "int \<Rightarrow> kernel \<Rightarrow> kernel option" where
  "fp_device_not_available_handler ISH_CONFIG_MAX_FPU_TASKS k =
     (let k1 = k\<lparr>cr0_TS := False\<rparr>
      in map_option (fp_claim ISH_CONFIG_MAX_FPU_TASKS) (fp_save_owner k1))"

section \<open>Whose registers are where\<close>

text \<open>
  \<open>fp_view k t\<close> is the floating point state of task \<open>t\<close>: the register file while it owns
  the unit, else its save area. The invariant: save areas are not shared, come from the used
  part of the pool, and the owner has one; once some task has one there is an owner; only
  the owner runs with the unit enabled.
\<close>

definition fp_view :: "kernel \<Rightarrow> nat \<Rightarrow> nat" where
  "fp_view k t = (if pxFpTcbOwner k = Some t then fpu_regs k
     else case fpContextPtr (tcb k t) of None \<Rightarrow> 0 | Some a \<Rightarrow> fpu_mem k a)"

definition fpu_inv :: "kernel \<Rightarrow> bool" where
  "fpu_inv k \<longleftrightarrow>
     (\<forall>t u a. fpContextPtr (tcb k t) = Some a \<longrightarrow> fpContextPtr (tcb k u) = Some a \<longrightarrow> t = u) \<and>
     (\<forall>t a. fpContextPtr (tcb k t) = Some a \<longrightarrow> int a < sint (currentNumberOfFpTasks k)) \<and>
     (\<forall>t. pxFpTcbOwner k = Some t \<longrightarrow> fpContextPtr (tcb k t) \<noteq> None) \<and>
     (\<forall>t. fpContextPtr (tcb k t) \<noteq> None \<longrightarrow> pxFpTcbOwner k \<noteq> None) \<and>
     0 \<le> sint (currentNumberOfFpTasks k) \<and>
     (\<not> cr0_TS k \<and> pxCurrentTCB k \<noteq> None \<longrightarrow> pxFpTcbOwner k = pxCurrentTCB k)"

lemma fpu_invD:
  assumes "fpu_inv k"
  shows "fpContextPtr (tcb k t) = Some a \<Longrightarrow> fpContextPtr (tcb k u) = Some a \<Longrightarrow> t = u"
    and "fpContextPtr (tcb k t) = Some a \<Longrightarrow> int a < sint (currentNumberOfFpTasks k)"
    and "pxFpTcbOwner k = Some t \<Longrightarrow> \<exists>a. fpContextPtr (tcb k t) = Some a"
    and "fpContextPtr (tcb k t) = Some a \<Longrightarrow> \<exists>o'. pxFpTcbOwner k = Some o'"
    and "0 \<le> sint (currentNumberOfFpTasks k)"
  using assms unfolding fpu_inv_def by blast+

text \<open>
  \<open>switch_fpu\<close> runs after the new task has been selected; the last part of the invariant
  speaks about the state after it.
\<close>

definition fpu_slots :: "kernel \<Rightarrow> bool" where
  "fpu_slots k \<longleftrightarrow> fpu_inv (k\<lparr>cr0_TS := True\<rparr>)"

lemma fpu_slots_def2:
  "fpu_slots k \<longleftrightarrow>
     (\<forall>t u a. fpContextPtr (tcb k t) = Some a \<longrightarrow> fpContextPtr (tcb k u) = Some a \<longrightarrow> t = u) \<and>
     (\<forall>t a. fpContextPtr (tcb k t) = Some a \<longrightarrow> int a < sint (currentNumberOfFpTasks k)) \<and>
     (\<forall>t. pxFpTcbOwner k = Some t \<longrightarrow> fpContextPtr (tcb k t) \<noteq> None) \<and>
     (\<forall>t. fpContextPtr (tcb k t) \<noteq> None \<longrightarrow> pxFpTcbOwner k \<noteq> None) \<and>
     0 \<le> sint (currentNumberOfFpTasks k)"
  by (simp add: fpu_slots_def fpu_inv_def)

lemma switch_fpu_ok:
  assumes s: "fpu_slots k" and c: "pxCurrentTCB k = Some t"
  shows "fpu_inv (switch_fpu k)" and "fp_view (switch_fpu k) u = fp_view k u"
    and "cr0_TS (switch_fpu k) \<longleftrightarrow> fpContextPtr (tcb k t) = None"
    and "fpContextPtr (tcb k t) \<noteq> None \<Longrightarrow> fpu_regs (switch_fpu k) = fp_view k t"
proof -
  have inj: "\<And>u v a. fpContextPtr (tcb k u) = Some a \<Longrightarrow> fpContextPtr (tcb k v) = Some a \<Longrightarrow> u = v"
    and ow: "\<And>u. pxFpTcbOwner k = Some u \<Longrightarrow> \<exists>a. fpContextPtr (tcb k u) = Some a"
    and ex: "\<And>u a. fpContextPtr (tcb k u) = Some a \<Longrightarrow> \<exists>o'. pxFpTcbOwner k = Some o'"
    using s unfolding fpu_slots_def2 by blast+
  have ct: "cur k = t" using c by (simp add: cur_def)
  show "cr0_TS (switch_fpu k) \<longleftrightarrow> fpContextPtr (tcb k t) = None"
    by (auto simp: switch_fpu_def ct Let_def frstor_def fnsave_def split: option.split)
  consider (none) "fpContextPtr (tcb k t) = None"
    | (same) a where "fpContextPtr (tcb k t) = Some a" "pxFpTcbOwner k = Some t"
    | (other) a o' b where "fpContextPtr (tcb k t) = Some a" "pxFpTcbOwner k = Some o'" "o' \<noteq> t"
        "fpContextPtr (tcb k o') = Some b" "a \<noteq> b"
    using ex ow inj by (metis option.exhaust)
  then have "fpu_inv (switch_fpu k) \<and> fp_view (switch_fpu k) u = fp_view k u \<and>
      (fpContextPtr (tcb k t) \<noteq> None \<longrightarrow> fpu_regs (switch_fpu k) = fp_view k t)"
  proof cases
    case none
    then show ?thesis using s by (simp add: switch_fpu_def ct fp_view_def fpu_slots_def split: option.split)
  next
    case same
    then have "switch_fpu k = k\<lparr>cr0_TS := False\<rparr>" by (simp add: switch_fpu_def ct c)
    then show ?thesis using s same c
      by (auto simp: fp_view_def fpu_slots_def fpu_inv_def split: option.split)
  next
    case other
    have eq: "switch_fpu k = k\<lparr>cr0_TS := False, fpu_mem := (fpu_mem k)(b := fpu_regs k),
        fpu_regs := fpu_mem k a, pxFpTcbOwner := Some t\<rparr>"
      using other by (simp add: switch_fpu_def ct c frstor_def fnsave_def)
    have "fp_view (switch_fpu k) u = fp_view k u"
      using other inj [of u b o'] by (auto simp: eq fp_view_def split: option.split)
    moreover have "fpu_inv (switch_fpu k)"
      using s other c by (auto simp: eq fpu_slots_def fpu_inv_def)
    ultimately show ?thesis using other by (simp add: eq fp_view_def)
  qed
  then show "fpu_inv (switch_fpu k)" "fp_view (switch_fpu k) u = fp_view k u"
    "fpContextPtr (tcb k t) \<noteq> None \<Longrightarrow> fpu_regs (switch_fpu k) = fp_view k t" by auto
qed

text \<open>The trap of a task that uses the unit for the first time.\<close>

lemma fp_trap_ok:
  assumes s: "fpu_inv k" and c: "pxCurrentTCB k = Some t" and n: "fpContextPtr (tcb k t) = None"
    and m: "sint (currentNumberOfFpTasks k) < mx" and mx: "mx \<le> 127"
  shows "\<exists>k'. fp_device_not_available_handler mx k = Some k' \<and> fpu_inv k' \<and>
    pxFpTcbOwner k' = Some t \<and> fpu_regs k' = 0 \<and> \<not> cr0_TS k' \<and>
    (\<forall>u. u \<noteq> t \<longrightarrow> fp_view k' u = fp_view k u) \<and>
    sint (currentNumberOfFpTasks k') = sint (currentNumberOfFpTasks k) + 1"
proof -
  let ?n = "currentNumberOfFpTasks k"
  have ct: "cur k = t" using c by (simp add: cur_def)
  have sn: "sint (?n + 1) = sint ?n + 1"
    using m mx fpu_invD(5) [OF s] by (simp add: signed_take_bit_int_eq_self sint_word_ariths(1))
  define k2 where "k2 = (case pxFpTcbOwner k of None \<Rightarrow> k\<lparr>cr0_TS := False\<rparr>
    | Some o' \<Rightarrow> fnsave (the (fpContextPtr (tcb k o'))) (k\<lparr>cr0_TS := False\<rparr>))"
  have f: "tcb k2 = tcb k" "cur k2 = t" "currentNumberOfFpTasks k2 = ?n" "pxCurrentTCB k2 = Some t"
    "cr0_TS k2 = False"
    using c ct by (simp_all add: k2_def fnsave_def cur_def split: option.split)
  let ?slot = "nat (sint ?n)"
  let ?k' = "k2\<lparr>currentNumberOfFpTasks := ?n + 1, tcb := (tcb k)(t := (tcb k t)\<lparr>fpContextPtr := Some ?slot\<rparr>),
    fpu_regs := 0, pxFpTcbOwner := Some t\<rparr>"
  have "fp_save_owner (k\<lparr>cr0_TS := False\<rparr>) = Some k2"
    using fpu_invD(3) [OF s] by (auto simp: fp_save_owner_def k2_def split: option.split)
  moreover have "fp_claim mx k2 = ?k'"
    using n m sn f by (simp add: fp_claim_def fninit_def update_tcb_def Let_def cur_def)
  ultimately have eq: "fp_device_not_available_handler mx k = Some ?k'"
    by (simp add: fp_device_not_available_handler_def)
  have inj: "\<And>u v a. fpContextPtr (tcb k u) = Some a \<Longrightarrow> fpContextPtr (tcb k v) = Some a \<Longrightarrow> u = v"
    by (rule fpu_invD(1) [OF s])
  have ns: "fpContextPtr (tcb k u) \<noteq> Some ?slot" for u
    using fpu_invD(2) [OF s, of u] fpu_invD(5) [OF s] by fastforce
  have fp: "fpContextPtr (tcb ?k' u) = (if u = t then Some ?slot else fpContextPtr (tcb k u))" for u
    by simp
  have "fpu_inv ?k'"
    unfolding fpu_inv_def fp
  proof (intro conjI allI impI)
    fix u v a
    assume "(if u = t then Some ?slot else fpContextPtr (tcb k u)) = Some a"
      and "(if v = t then Some ?slot else fpContextPtr (tcb k v)) = Some a"
    then show "u = v" using ns inj [of u a v] by (auto split: if_splits)
  next
    fix u a
    assume "(if u = t then Some ?slot else fpContextPtr (tcb k u)) = Some a"
    then show "int a < sint (currentNumberOfFpTasks ?k')"
      using sn fpu_invD(2) [OF s, of u a] fpu_invD(5) [OF s] by (auto split: if_splits)
  qed (use sn fpu_invD(5) [OF s] in \<open>auto simp: f\<close>)
  moreover have "fp_view ?k' u = fp_view k u" if "u \<noteq> t" for u
  proof (cases "pxFpTcbOwner k")
    case None
    with that show ?thesis by (simp add: fp_view_def k2_def f split: option.split)
  next
    case (Some o')
    then obtain b where b: "fpContextPtr (tcb k o') = Some b" using fpu_invD(3) [OF s] by blast
    with Some that inj [of u b o'] show ?thesis
      by (auto simp: fp_view_def k2_def fnsave_def split: option.split)
  qed
  ultimately show ?thesis using eq sn by (intro exI [of _ ?k']) (simp add: f)
qed

end
