(* ===== verification/Heap4Inv.thy ===== *)
theory Heap4Inv
  imports Heap4
begin

unbundle bit_operations_syntax

text \<open>
  The picture behind the allocator of \<open>Heap4\<close>: the heap from its first block to the end
  marker is tiled by blocks, each free or in use; the free list links the free ones in
  address order. Blocks are a list of sizes and flags, their addresses follow.
\<close>

section \<open>Tilings\<close>

type_synonym hblk = "nat \<times> bool"

definition tot :: "hblk list \<Rightarrow> nat" where
  "tot bs = sum_list (map fst bs)"

fun blocks :: "nat \<Rightarrow> hblk list \<Rightarrow> (nat \<times> nat \<times> bool) list" where
  "blocks a [] = []"
| "blocks a ((n, u) # bs) = (a, n, u) # blocks (a + n) bs"

fun frees :: "nat \<Rightarrow> hblk list \<Rightarrow> nat list" where
  "frees a [] = []"
| "frees a ((n, u) # bs) = (if u then frees (a + n) bs else a # frees (a + n) bs)"

lemma tot_simps [simp]: "tot [] = 0" "tot ((n, u) # bs) = n + tot bs" "tot (bs @ cs) = tot bs + tot cs"
  by (simp_all add: tot_def)

lemma blocks_append [simp]: "blocks a (bs @ cs) = blocks a bs @ blocks (a + tot bs) cs"
proof (induction bs arbitrary: a)
  case (Cons b bs)
  then show ?case by (cases b) (simp add: add.assoc)
qed simp

lemma frees_append [simp]: "frees a (bs @ cs) = frees a bs @ frees (a + tot bs) cs"
proof (induction bs arbitrary: a)
  case (Cons b bs)
  then show ?case by (cases b) (simp add: add.assoc)
qed simp

definition sizes_ok :: "hblk list \<Rightarrow> bool" where
  "sizes_ok bs \<longleftrightarrow> (\<forall>(n, u) \<in> set bs. 8 \<le> n \<and> 4 dvd n)"

lemma sizes_ok_simps [simp]:
  "sizes_ok []" "sizes_ok ((n, u) # bs) \<longleftrightarrow> 8 \<le> n \<and> 4 dvd n \<and> sizes_ok bs"
  "sizes_ok (bs @ cs) \<longleftrightarrow> sizes_ok bs \<and> sizes_ok cs"
  by (auto simp: sizes_ok_def)

lemma blocks_bounds:
  "(x, n, u) \<in> set (blocks a bs) \<Longrightarrow> sizes_ok bs \<Longrightarrow> a \<le> x \<and> x + n \<le> a + tot bs \<and> 8 \<le> n"
proof (induction bs arbitrary: a)
  case (Cons b bs)
  obtain n' u' where b: "b = (n', u')" by (cases b)
  show ?case
  proof (cases "(x, n, u) \<in> set (blocks (a + n') bs)")
    case True
    with Cons.IH [OF True] Cons.prems b show ?thesis by simp
  next
    case False
    with Cons.prems b show ?thesis by simp
  qed
qed simp

lemma frees_blocks: "x \<in> set (frees a bs) \<longleftrightarrow> (\<exists>n. (x, n, False) \<in> set (blocks a bs))"
proof (induction bs arbitrary: a)
  case (Cons b bs)
  then show ?case by (cases b) auto
qed simp

lemma frees_bounds:
  assumes "x \<in> set (frees a bs)" and "sizes_ok bs"
  shows "a \<le> x" and "x + 8 \<le> a + tot bs"
  using assms blocks_bounds [of x _ False a bs] by (fastforce simp: frees_blocks)+

lemma frees_sorted: "sizes_ok bs \<Longrightarrow> sorted_wrt (<) (frees a bs)"
proof (induction bs arbitrary: a)
  case (Cons b bs)
  obtain n u where b: "b = (n, u)" by (cases b)
  show ?case using Cons b frees_bounds(1) [of _ "a + n" bs] by fastforce
qed simp

text \<open>A block is found by its address, and two blocks do not overlap.\<close>

lemma blocks_split:
  assumes "(x, n, u) \<in> set (blocks a bs)"
  obtains L R where "bs = L @ (n, u) # R" and "x = a + tot L"
  using assms
proof (induction bs arbitrary: a thesis)
  case (Cons b bs)
  obtain n' u' where b: "b = (n', u')" by (cases b)
  show ?case
  proof (cases "x = a \<and> n = n' \<and> u = u'")
    case True
    then show ?thesis using Cons.prems(1) [of "[]" bs] b by simp
  next
    case False
    then have "(x, n, u) \<in> set (blocks (a + n') bs)" using Cons.prems(2) b by auto
    then obtain L R where "bs = L @ (n, u) # R" "x = a + n' + tot L" using Cons.IH by blast
    then show ?thesis using Cons.prems(1) [of "b # L" R] b by simp
  qed
qed simp

lemma blocks_disjoint:
  assumes "(x, n, u) \<in> set (blocks a bs)" and "(y, k, v) \<in> set (blocks a bs)" and "sizes_ok bs"
    and "(x, n, u) \<noteq> (y, k, v)"
  shows "x + n \<le> y \<or> y + k \<le> x"
proof -
  obtain L R where bs: "bs = L @ (n, u) # R" "x = a + tot L" using blocks_split [OF assms(1)] by blast
  have "(y, k, v) \<in> set (blocks a L) \<or> (y, k, v) \<in> set (blocks (a + tot L + n) R)"
    using assms(2,4) bs by auto
  then show ?thesis
    using blocks_bounds [of y k v a L] blocks_bounds [of y k v "a + tot L + n" R] assms(3) bs by auto
qed

section \<open>The free list\<close>

fun links :: "(u32 \<Rightarrow> u32) \<Rightarrow> u32 \<Rightarrow> nat list \<Rightarrow> u32 \<Rightarrow> bool" where
  "links nx p [] e \<longleftrightarrow> nx p = e"
| "links nx p (x # xs) e \<longleftrightarrow> nx p = of_nat x \<and> links nx (of_nat x) xs e"

definition lastp :: "u32 \<Rightarrow> nat list \<Rightarrow> u32" where
  "lastp p xs = (if xs = [] then p else of_nat (last xs))"

lemma lastp_simps [simp]: "lastp p [] = p" "lastp p (x # xs) = lastp (of_nat x) xs"
  "lastp p (xs @ [x]) = of_nat x"
  by (simp_all add: lastp_def)

lemma links_append:
  "links nx p (xs @ ys) e \<longleftrightarrow> links nx p xs (nx (lastp p xs)) \<and> links nx (lastp p xs) ys e"
  by (induction xs arbitrary: p) auto

lemma links_end: "links nx p xs e \<Longrightarrow> nx (lastp p xs) = e"
  by (induction xs arbitrary: p) auto

lemma links_upd:
  "q \<noteq> p \<Longrightarrow> q \<notin> of_nat ` set xs \<Longrightarrow> links (nx(q := v)) p xs e = links nx p xs e"
  by (induction xs arbitrary: p) auto

lemma links_upd_last:
  assumes "links nx p xs e" and "distinct (p # map of_nat xs)"
  shows "links (nx(lastp p xs := v)) p xs v"
  using assms
proof (induction xs arbitrary: p)
  case (Cons x xs)
  have "lastp (of_nat x) xs \<noteq> p" using Cons.prems(2) by (cases xs rule: rev_cases) (auto simp: lastp_def)
  with Cons show ?case by simp
qed simp

lemma links_first:
  "links nx p xs e \<Longrightarrow> nx p = (case xs of [] \<Rightarrow> e | x # _ \<Rightarrow> of_nat x)"
  by (cases xs) auto

section \<open>Addresses as words\<close>

lemma of_nat_u32_eq [simp]:
  "x < 2 ^ 32 \<Longrightarrow> y < 2 ^ 32 \<Longrightarrow> (of_nat x :: u32) = of_nat y \<longleftrightarrow> x = y"
  by (simp add: word_unat_eq_iff unat_of_nat take_bit_eq_mod)

lemma of_nat_u32_less [simp]:
  "x < 2 ^ 32 \<Longrightarrow> y < 2 ^ 32 \<Longrightarrow> (of_nat x :: u32) < of_nat y \<longleftrightarrow> x < y"
  by (simp add: word_less_nat_alt unat_of_nat take_bit_eq_mod)

lemma of_nat_u32_le [simp]:
  "x < 2 ^ 32 \<Longrightarrow> y < 2 ^ 32 \<Longrightarrow> (of_nat x :: u32) \<le> of_nat y \<longleftrightarrow> x \<le> y"
  by (simp add: word_le_nat_alt unat_of_nat take_bit_eq_mod)

lemma insert_iter_eq:
  assumes "links (pxNextFreeBlock m) p (xs @ ys) (of_nat e)"
    and "\<forall>x \<in> set xs. x < b" and "\<forall>y \<in> set ys. b \<le> y" and "b \<le> e"
    and "\<forall>x \<in> set (xs @ ys). x < 2 ^ 32" and "e < 2 ^ 32"
  shows "insert_iter m (of_nat b) p = Some (lastp p xs)"
  using assms
proof (induction xs arbitrary: p)
  case Nil
  have b: "b < 2 ^ 32" using Nil by simp
  have "\<not> pxNextFreeBlock m p < of_nat b"
    using links_first [of "pxNextFreeBlock m" p ys "of_nat e"] Nil b by (cases ys) auto
  then show ?case by (simp add: insert_iter.simps)
next
  case (Cons x xs)
  have b: "b < 2 ^ 32" using Cons.prems by simp
  have "pxNextFreeBlock m p = of_nat x" "(of_nat x :: u32) < of_nat b"
    using Cons.prems b by auto
  then show ?case using Cons.IH [of "of_nat x"] Cons.prems by (subst insert_iter.simps) simp
qed

section \<open>Putting a block into the free list\<close>

definition free_hdr :: "heap_mem \<Rightarrow> nat \<Rightarrow> hblk list \<Rightarrow> bool" where
  "free_hdr m a bs \<longleftrightarrow> (\<forall>(x, k, u) \<in> set (blocks a bs). \<not> u \<longrightarrow> xBlockSize m (of_nat x) = of_nat k)"

definition used_hdr :: "heap_mem \<Rightarrow> nat \<Rightarrow> hblk list \<Rightarrow> bool" where
  "used_hdr m a bs \<longleftrightarrow> (\<forall>(x, k, u) \<in> set (blocks a bs). u \<longrightarrow>
     xBlockSize m (of_nat x) = of_nat k OR push_bit 31 1 \<and> pxNextFreeBlock m (of_nat x) = NULL)"

definition coalesced :: "hblk list \<Rightarrow> bool" where
  "coalesced bs \<longleftrightarrow> successively (\<lambda>b c. snd b \<or> snd c) bs"

definition left_free :: "hblk list \<Rightarrow> bool" where
  "left_free L \<longleftrightarrow> L \<noteq> [] \<and> \<not> snd (last L)"

definition right_free :: "hblk list \<Rightarrow> bool" where
  "right_free R \<longleftrightarrow> R \<noteq> [] \<and> \<not> snd (hd R)"

text \<open>The abstract operation: free a block of size \<open>n\<close> between \<open>L\<close> and \<open>R\<close>.\<close>

definition cut_left :: "hblk list \<Rightarrow> hblk list" where
  "cut_left L = (if left_free L then butlast L else L)"

definition cut_right :: "hblk list \<Rightarrow> hblk list" where
  "cut_right R = (if right_free R then tl R else R)"

definition merged_size :: "hblk list \<Rightarrow> nat \<Rightarrow> hblk list \<Rightarrow> nat" where
  "merged_size L n R = (if left_free L then fst (last L) else 0) + n + (if right_free R then fst (hd R) else 0)"

definition put_free :: "hblk list \<Rightarrow> nat \<Rightarrow> hblk list \<Rightarrow> hblk list" where
  "put_free L n R = cut_left L @ (merged_size L n R, False) # cut_right R"

lemma left_freeE:
  assumes "left_free L"
  obtains L0 k where "L = L0 @ [(k, False)]" "cut_left L = L0"
  using assms by (cases L rule: rev_cases) (auto simp: left_free_def cut_left_def)

lemma right_freeE:
  assumes "right_free R"
  obtains R0 j where "R = (j, False) # R0" "cut_right R = R0"
  using assms by (cases R) (auto simp: right_free_def cut_right_def)

lemma tot_cut:
  "tot (cut_left L) + (if left_free L then fst (last L) else 0) = tot L"
  "(if right_free R then fst (hd R) else 0) + tot (cut_right R) = tot R"
  by (cases L rule: rev_cases; auto simp: left_free_def cut_left_def)
     (cases R; auto simp: right_free_def cut_right_def)

lemma tot_put_free: "tot (put_free L n R) = tot L + n + tot R"
  using tot_cut [of L] tot_cut(2) [of R] by (simp add: put_free_def merged_size_def)

lemma coalesced_put_free:
  assumes "coalesced L" and "coalesced R"
  shows "coalesced (put_free L n R)"
proof -
  have l: "coalesced (cut_left L)" "cut_left L \<noteq> [] \<Longrightarrow> snd (last (cut_left L))"
    using assms(1) by (cases L rule: rev_cases;
      auto simp: coalesced_def cut_left_def left_free_def successively_append_iff)+
  have r: "coalesced (cut_right R)" "cut_right R \<noteq> [] \<Longrightarrow> snd (hd (cut_right R))"
    using assms(2) by (cases R; auto simp: coalesced_def cut_right_def right_free_def successively_Cons)+
  show ?thesis
    using l r by (auto simp: put_free_def coalesced_def successively_append_iff successively_Cons)
qed

lemma sizes_put_free:
  assumes "sizes_ok (L @ (n, u) # R)"
  shows "sizes_ok (put_free L n R)"
proof -
  have "sizes_ok (cut_left L)" "left_free L \<Longrightarrow> 8 \<le> fst (last L) \<and> 4 dvd fst (last L)"
    using assms by (cases L rule: rev_cases; auto simp: cut_left_def left_free_def)+
  moreover have "sizes_ok (cut_right R)" "right_free R \<Longrightarrow> 8 \<le> fst (hd R) \<and> 4 dvd fst (hd R)"
    using assms by (cases R; auto simp: cut_right_def right_free_def)+
  ultimately show ?thesis using assms by (auto simp: put_free_def merged_size_def)
qed

text \<open>The blocks in use are untouched.\<close>

definition right_gap :: "hblk list \<Rightarrow> nat" where
  "right_gap R = (if right_free R then fst (hd R) else 0)"

lemma put_free_addr: "a + tot (cut_left L) + merged_size L n R = a + tot L + n + right_gap R"
  using tot_cut(1) [of L] by (simp add: merged_size_def right_gap_def)

lemma blocks_put_free:
  "blocks a (put_free L n R) = blocks a (cut_left L) @
     (a + tot (cut_left L), merged_size L n R, False) # blocks (a + tot L + n + right_gap R) (cut_right R)"
  "frees a (put_free L n R) = frees a (cut_left L) @
     (a + tot (cut_left L)) # frees (a + tot L + n + right_gap R) (cut_right R)"
  unfolding put_free_def put_free_addr [symmetric] by simp_all

lemma used_put_free:
  "(x, k, True) \<in> set (blocks a (put_free L n R)) \<longleftrightarrow>
     (x, k, True) \<in> set (blocks a L) \<or> (x, k, True) \<in> set (blocks (a + tot L + n) R)"
proof -
  have "(x, k, True) \<in> set (blocks a (cut_left L)) \<longleftrightarrow> (x, k, True) \<in> set (blocks a L)"
    by (cases L rule: rev_cases) (auto simp: cut_left_def left_free_def)
  moreover have "(x, k, True) \<in> set (blocks (b + right_gap R) (cut_right R)) \<longleftrightarrow>
      (x, k, True) \<in> set (blocks b R)" for b
    by (cases R) (auto simp: cut_right_def right_free_def right_gap_def)
  ultimately show ?thesis by (simp add: blocks_put_free)
qed

lemma links_retarget:
  assumes "links nx q ys e" and "nx' p = nx q" and "\<forall>y \<in> set ys. nx' (of_nat y) = nx (of_nat y)"
  shows "links nx' p ys e"
  using assms by (induction ys arbitrary: p q) auto

text \<open>
  The situation in which \<open>prvInsertBlockIntoFreeList\<close> is called: the heap is tiled, the
  block at \<open>A\<close> between \<open>L\<close> and \<open>R\<close> is in no list and its size field says \<open>n\<close>.
\<close>

definition insertable :: "heap_mem \<Rightarrow> xHeapCtx_t \<Rightarrow> nat \<Rightarrow> hblk list \<Rightarrow> nat \<Rightarrow> hblk list \<Rightarrow> nat \<Rightarrow> bool" where
  "insertable m c a L n R e \<longleftrightarrow>
     sizes_ok (L @ (n, True) # R) \<and> a + tot L + n + tot R = e \<and> e < 2 ^ 32 \<and> 0 < a \<and>
     pxEnd c = of_nat e \<and> unat (xStart c) \<notin> {a..e} \<and> xBlockSize m (xStart c) = 0 \<and>
     free_hdr m a L \<and> free_hdr m (a + tot L + n) R \<and> xBlockSize m (of_nat (a + tot L)) = of_nat n \<and>
     links (pxNextFreeBlock m) (xStart c) (frees a L @ frees (a + tot L + n) R) (pxEnd c)"

lemma insertable_frees:
  assumes "insertable m c a L n R e"
  shows "x \<in> set (frees a L) \<Longrightarrow> a \<le> x \<and> x + 8 \<le> a + tot L"
    and "x \<in> set (frees (a + tot L + n) R) \<Longrightarrow> a + tot L + n \<le> x \<and> x + 8 \<le> e"
    and "xStart c \<noteq> of_nat y \<or> \<not> (a \<le> y \<and> y \<le> e)"
  using assms frees_bounds [of x a L] frees_bounds [of x "a + tot L + n" R]
  by (auto simp: insertable_def unat_of_nat take_bit_eq_mod)

lemma insert_iter_here:
  assumes i: "insertable m c a L n R e"
  shows "insert_iter m (of_nat (a + tot L)) (xStart c) = Some (lastp (xStart c) (frees a L))"
proof (rule insert_iter_eq)
  show "links (pxNextFreeBlock m) (xStart c) (frees a L @ frees (a + tot L + n) R) (of_nat e)"
    using i unfolding insertable_def by metis
qed (use insertable_frees(1,2) [OF i] i in \<open>fastforce simp: insertable_def\<close>)+

text \<open>The iterator joins the block on its left exactly when the left neighbour is free.\<close>

lemma join_left_iff:
  assumes i: "insertable m c a L n R e"
  defines "it \<equiv> lastp (xStart c) (frees a L)"
  shows "it + xBlockSize m it = of_nat (a + tot L) \<longleftrightarrow> left_free L"
    and "left_free L \<Longrightarrow> it = of_nat (a + tot (cut_left L)) \<and> xBlockSize m it = of_nat (fst (last L))"
proof -
  show l: "it = of_nat (a + tot (cut_left L)) \<and> xBlockSize m it = of_nat (fst (last L))" if "left_free L"
  proof -
    obtain L0 k where L: "L = L0 @ [(k, False)]" "cut_left L = L0" using left_freeE [OF \<open>left_free L\<close>] .
    then have "it = of_nat (a + tot L0)" by (simp add: it_def)
    moreover have "xBlockSize m (of_nat (a + tot L0)) = of_nat k"
      using i L by (auto simp: insertable_def free_hdr_def)
    ultimately show ?thesis using L by simp
  qed
  show "it + xBlockSize m it = of_nat (a + tot L) \<longleftrightarrow> left_free L"
  proof (cases "left_free L")
    case True
    have "a + tot (cut_left L) + fst (last L) = a + tot L" using True tot_cut(1) [of L] by simp
    then have "(of_nat (a + tot (cut_left L)) + of_nat (fst (last L)) :: u32) = of_nat (a + tot L)"
      by (simp only: flip: of_nat_add)
    then show ?thesis using l [OF True] True by metis
  next
    case nl: False
    have "it + xBlockSize m it \<noteq> of_nat (a + tot L)"
    proof (cases "frees a L = []")
      case True
      then have "it + xBlockSize m it = xStart c" using i by (simp add: it_def insertable_def)
      then show ?thesis using insertable_frees(3) [OF i, of "a + tot L"] i by (auto simp: insertable_def)
    next
      case False
      then have x: "last (frees a L) \<in> set (frees a L)" by simp
      then obtain k where k: "(last (frees a L), k, False) \<in> set (blocks a L)" by (auto simp: frees_blocks)
      have so: "sizes_ok L" using i by (simp add: insertable_def)
      have sz: "xBlockSize m it = of_nat k" "it = of_nat (last (frees a L))"
        using k i False by (auto simp: it_def lastp_def insertable_def free_hdr_def)
      obtain L1 L2 where L: "L = L1 @ (k, False) # L2" "last (frees a L) = a + tot L1"
        using blocks_split [OF k] by blast
      have "L2 \<noteq> []" using nl L by (auto simp: left_free_def)
      then obtain k' u' L3 where L2: "L2 = (k', u') # L3" by (metis list.exhaust surj_pair)
      have "last (frees a L) + k < a + tot L" using L L2 so by simp
      then show ?thesis
        using sz i by (simp add: insertable_def flip: of_nat_add)
    qed
    with nl show ?thesis by simp
  qed
qed

text \<open>It joins the block on its right when that one is free, or is the end marker.\<close>

lemma next_right:
  assumes i: "insertable m c a L n R e"
  defines "it \<equiv> lastp (xStart c) (frees a L)"
  shows "right_free R \<Longrightarrow> pxNextFreeBlock m it = of_nat (a + tot L + n) \<and> a + tot L + n < e"
    and "R = [] \<Longrightarrow> pxNextFreeBlock m it = of_nat (a + tot L + n) \<and> a + tot L + n = e"
    and "\<not> right_free R \<Longrightarrow> R \<noteq> [] \<Longrightarrow> pxNextFreeBlock m it \<noteq> of_nat (a + tot L + n)"
proof -
  let ?A = "a + tot L + n"
  have lk: "links (pxNextFreeBlock m) it (frees ?A R) (of_nat e)"
    using i by (auto simp: insertable_def links_append it_def)
  have e: "a + tot L + n + tot R = e" "e < 2 ^ 32" "sizes_ok R" using i by (simp_all add: insertable_def)
  show "pxNextFreeBlock m it = of_nat ?A \<and> ?A < e" if r: "right_free R"
  proof -
    obtain R0 j where R: "R = (j, False) # R0" using right_freeE [OF r] by metis
    then show ?thesis using lk e by auto
  qed
  show "pxNextFreeBlock m it = of_nat ?A \<and> ?A = e" if "R = []" using that lk e by auto
  show "pxNextFreeBlock m it \<noteq> of_nat ?A" if r: "\<not> right_free R" "R \<noteq> []"
  proof -
    obtain j R0 where R: "R = (j, True) # R0" using r by (cases R) (auto simp: right_free_def)
    have "\<exists>x. pxNextFreeBlock m it = of_nat x \<and> ?A < x \<and> x < 2 ^ 32"
    proof (cases "frees ?A R")
      case Nil
      then show ?thesis using lk e R by (intro exI [of _ e]) simp
    next
      case (Cons x xs)
      then have "x \<in> set (frees (?A + j) R0)" using R by simp
      then show ?thesis using lk e R Cons frees_bounds [of x "?A + j" R0] by (intro exI [of _ x]) simp
    qed
    then show ?thesis by (metis less_imp_neq less_trans of_nat_u32_eq)
  qed
qed

text \<open>
  The four cases of \<open>prvInsertBlockIntoFreeList\<close> have one result: the merged block at
  \<open>B\<close> gets its size and its successor, and its predecessor points to it.
\<close>

lemma merged_left:
  assumes i: "insertable m c a L n R e"
  shows "left_free L \<Longrightarrow> pxNextFreeBlock m (lastp (xStart c) (frees a (cut_left L))) = of_nat (a + tot (cut_left L))"
    and "\<not> left_free L \<Longrightarrow> cut_left L = L"
    and "lastp (xStart c) (frees a (cut_left L)) \<noteq> of_nat (a + tot (cut_left L))"
proof -
  show "pxNextFreeBlock m (lastp (xStart c) (frees a (cut_left L))) = of_nat (a + tot (cut_left L))"
    if l: "left_free L"
  proof -
    obtain L0 k where L: "L = L0 @ [(k, False)]" "cut_left L = L0" using left_freeE [OF l] .
    then show ?thesis using i by (simp add: insertable_def links_append)
  qed
  show "\<not> left_free L \<Longrightarrow> cut_left L = L" by (simp add: cut_left_def)
  have so: "sizes_ok (cut_left L)" "tot (cut_left L) \<le> tot L" "a + tot L \<le> e" "e < 2 ^ 32"
    using i tot_cut(1) [of L]
    by (cases L rule: rev_cases; auto simp: insertable_def cut_left_def left_free_def)+
  show "lastp (xStart c) (frees a (cut_left L)) \<noteq> of_nat (a + tot (cut_left L))"
  proof (cases "frees a (cut_left L) = []")
    case True
    then show ?thesis using insertable_frees(3) [OF i, of "a + tot (cut_left L)"] so by simp
  next
    case False
    then have "last (frees a (cut_left L)) + 8 \<le> a + tot (cut_left L)"
      using frees_bounds(2) [of "last (frees a (cut_left L))" a "cut_left L"] so by simp
    then have "(of_nat (last (frees a (cut_left L))) :: u32) \<noteq> of_nat (a + tot (cut_left L))"
      using so by (subst of_nat_u32_eq) simp_all
    then show ?thesis using False by (simp add: lastp_def)
  qed
qed

definition insert_result :: "heap_mem \<Rightarrow> xHeapCtx_t \<Rightarrow> nat \<Rightarrow> hblk list \<Rightarrow> nat \<Rightarrow> hblk list \<Rightarrow> heap_mem" where
  "insert_result m c a L n R =
     (let b = of_nat (a + tot (cut_left L)); it = lastp (xStart c) (frees a L)
      in m\<lparr>xBlockSize := (xBlockSize m)(b := of_nat (merged_size L n R)),
           pxNextFreeBlock := (pxNextFreeBlock m)
             (b := pxNextFreeBlock m (if right_free R then of_nat (a + tot L + n) else it),
              lastp (xStart c) (frees a (cut_left L)) := b)\<rparr>)"

lemma insert_block_result:
  assumes i: "insertable m c a L n R e"
  shows "prvInsertBlockIntoFreeList (of_nat (a + tot L)) c m = Some (insert_result m c a L n R)"
proof -
  define it where "it = lastp (xStart c) (frees a L)"
  define B where "B = (of_nat (a + tot (cut_left L)) :: u32)"
  define A where "A = (of_nat (a + tot L) :: u32)"
  define A' where "A' = (of_nat (a + tot L + n) :: u32)"
  define lsz where "lsz = (if left_free L then fst (last L) else 0)"
  define P where "P = lastp (xStart c) (frees a (cut_left L))"
  have it: "insert_iter m A (xStart c) = Some it" using insert_iter_here [OF i] by (simp add: it_def A_def)
  have jl: "(it + xBlockSize m it = A) = left_free L"
    and jl2: "left_free L \<Longrightarrow> it = B" "left_free L \<Longrightarrow> xBlockSize m B = of_nat lsz"
    using join_left_iff [OF i] unfolding it_def A_def B_def lsz_def by metis+
  have nl: "\<not> left_free L \<Longrightarrow> B = A \<and> it = P \<and> lsz = 0"
    using merged_left(2) [OF i] by (simp add: A_def B_def P_def it_def lsz_def)
  have szA: "xBlockSize m A = of_nat n" using i by (simp add: insertable_def A_def)
  have "a + tot (cut_left L) + (lsz + n) = a + tot L + n" using tot_cut(1) [of L] by (simp add: lsz_def)
  then have ba: "B + of_nat (lsz + n) = A'" unfolding B_def A'_def by (simp only: flip: of_nat_add)
  have PB: "P \<noteq> B" and lP: "left_free L \<Longrightarrow> pxNextFreeBlock m P = B"
    using merged_left [OF i] unfolding P_def B_def by metis+
  define m1 where "m1 = m\<lparr>xBlockSize := (xBlockSize m)(B := of_nat (lsz + n))\<rparr>"
  define nx where "nx = pxNextFreeBlock m it"
  define m2 where "m2 = (if A' = nx then (if nx \<noteq> pxEnd c
        then (let m' = set_size B (of_nat (lsz + n) + xBlockSize m1 nx) m1 in set_next B (pxNextFreeBlock m' nx) m')
        else set_next B (pxEnd c) m1) else set_next B nx m1)"
  have m2P: "left_free L \<Longrightarrow> pxNextFreeBlock m2 P = B"
    using lP PB by (simp add: m2_def m1_def set_next_def set_size_def)
  have pre: "prvInsertBlockIntoFreeList A c m = Some (set_next P B m2)"
  proof (cases "left_free L")
    case True
    then have "set_next P B m2 = m2" using m2P by (simp add: set_next_def fun_upd_idem)
    moreover have "m1 = set_size B (xBlockSize m B + xBlockSize m A) m"
      using True jl2 szA by (simp add: m1_def set_size_def)
    moreover have "pxNextFreeBlock m1 B = nx" "xBlockSize m1 B = of_nat (lsz + n)"
      using True jl2 by (simp_all add: m1_def nx_def)
    ultimately show ?thesis
      using True jl jl2 ba unfolding prvInsertBlockIntoFreeList_def it m2_def
      by (simp add: Let_def del: of_nat_add)
  next
    case False
    then have "m1 = m" using nl szA by (simp add: m1_def fun_upd_idem)
    then show ?thesis
      using False jl nl ba PB szA unfolding prvInsertBlockIntoFreeList_def it m2_def nx_def
      by (simp add: Let_def)
  qed
  have e: "pxEnd c = of_nat e" "a + tot L + n + tot R = e" "e < 2 ^ 32" "8 \<le> n" "free_hdr m (a + tot L + n) R"
    using i by (simp_all add: insertable_def)
  have A'B: "A' \<noteq> B"
    unfolding A'_def B_def using e tot_cut(1) [of L] by (subst of_nat_u32_eq) auto
  have ms: "merged_size L n R = lsz + n + (if right_free R then fst (hd R) else 0)"
    by (simp add: merged_size_def lsz_def)
  have res: "insert_result m c a L n R = m\<lparr>xBlockSize := (xBlockSize m)(B := of_nat (merged_size L n R)),
      pxNextFreeBlock := (pxNextFreeBlock m)(B := pxNextFreeBlock m (if right_free R then A' else it), P := B)\<rparr>"
    unfolding insert_result_def Let_def A'_def B_def P_def it_def by (rule refl)
  have "set_next P B m2 = insert_result m c a L n R"
  proof (cases "right_free R")
    case True
    then have nx: "nx = A'" "nx \<noteq> pxEnd c"
      using next_right(1) [OF i] e by (auto simp: nx_def it_def A'_def simp flip: of_nat_add)
    obtain R0 j where R: "R = (j, False) # R0" using right_freeE [OF True] by metis
    then have "xBlockSize m A' = of_nat (fst (hd R))" using e by (simp add: free_hdr_def A'_def)
    then show ?thesis
      using True nx A'B unfolding m2_def m1_def res ms by (simp add: set_next_def set_size_def Let_def)
  next
    case False
    then have m2: "m2 = set_next B nx m1"
      using next_right(2,3) [OF i] e by (cases "R = []") (auto simp: m2_def nx_def it_def A'_def simp del: of_nat_add)
    show ?thesis using False unfolding m2 m1_def res ms by (simp add: set_next_def nx_def)
  qed
  with pre show ?thesis by (simp add: A_def)
qed

lemma frees_distinct:
  fixes s :: u32
  assumes "sizes_ok bs" and "a + tot bs < 2 ^ 32" and "unat s \<notin> {a..a + tot bs}"
  shows "distinct (s # map of_nat (frees a bs))"
proof -
  have b: "a \<le> x \<and> x < 2 ^ 32 \<and> x \<le> a + tot bs" if "x \<in> set (frees a bs)" for x
    using frees_bounds [OF that assms(1)] assms(2) by simp
  have "s \<notin> of_nat ` set (frees a bs)"
  proof
    assume "s \<in> of_nat ` set (frees a bs)"
    then obtain x where x: "x \<in> set (frees a bs)" "s = of_nat x" by blast
    have "unat s = x" using b [OF x(1)] by (simp add: x(2) unat_of_nat take_bit_eq_mod)
    then show False using b [OF x(1)] assms(3) by simp
  qed
  moreover have "inj_on (of_nat :: nat \<Rightarrow> u32) (set (frees a bs))" using b by (auto intro!: inj_onI)
  moreover have "distinct (frees a bs)" using frees_sorted [OF assms(1)] by (simp add: strict_sorted_iff)
  ultimately show ?thesis by (simp add: distinct_map)
qed

lemma insert_links:
  assumes i: "insertable m c a L n R e"
  shows "links (pxNextFreeBlock (insert_result m c a L n R)) (xStart c) (frees a (put_free L n R)) (pxEnd c)"
proof -
  define it where "it = lastp (xStart c) (frees a L)"
  define B where "B = a + tot (cut_left L)"
  define q where "q = (if right_free R then of_nat (a + tot L + n) else it)"
  define P where "P = lastp (xStart c) (frees a (cut_left L))"
  define ys where "ys = frees (a + tot L + n + right_gap R) (cut_right R)"
  let ?nx = "pxNextFreeBlock m" and ?nx' = "pxNextFreeBlock (insert_result m c a L n R)"
  have nx': "?nx' = ?nx(of_nat B := ?nx q, P := of_nat B)"
    unfolding insert_result_def Let_def B_def P_def q_def it_def by simp
  have PB: "P \<noteq> of_nat B" using merged_left(3) [OF i] by (simp only: P_def B_def) simp
  have so: "sizes_ok (cut_left L)" "B \<le> a + tot L" "a + tot L + n \<le> e" "e < 2 ^ 32" "8 \<le> n" "sizes_ok (cut_right R)"
    "unat (xStart c) \<notin> {a..e}"
    using i tot_cut(1) [of L] sizes_put_free [of L n True R] by (auto simp: insertable_def B_def put_free_def)
  have dist: "distinct (xStart c # map of_nat (frees a (cut_left L)))"
    using so by (intro frees_distinct) (auto simp: B_def)
  have fB: "x + 8 \<le> B" if "x \<in> set (frees a (cut_left L))" for x
    using frees_bounds(2) [OF that so(1)] by (simp add: B_def)
  have all: "links ?nx (xStart c) (frees a L @ frees (a + tot L + n) R) (pxEnd c)"
    using i unfolding insertable_def by blast
  have l: "links ?nx (xStart c) (frees a (cut_left L)) (?nx P)"
  proof -
    have "L = cut_left L @ (if left_free L then [last L] else [])"
      by (simp add: cut_left_def left_free_def)
    then obtain zs where "frees a L = frees a (cut_left L) @ zs" by (metis frees_append)
    then show ?thesis using all by (simp add: links_append P_def)
  qed
  have r: "links ?nx q ys (pxEnd c)"
  proof (cases "right_free R")
    case True
    then obtain R0 j where R: "R = (j, False) # R0" "cut_right R = R0" using right_freeE by metis
    then show ?thesis using all True by (simp add: links_append q_def ys_def right_gap_def)
  next
    case False
    then show ?thesis using all by (simp add: links_append q_def ys_def right_gap_def cut_right_def it_def)
  qed
  have "of_nat B \<noteq> xStart c" using insertable_frees(3) [OF i, of B] so by (auto simp: B_def)
  moreover have "(of_nat B :: u32) \<notin> of_nat ` set (frees a (cut_left L))" using fB so by force
  ultimately have "links (?nx(of_nat B := ?nx q)) (xStart c) (frees a (cut_left L)) (?nx P)"
    using l by (simp add: links_upd)
  then have "links ?nx' (xStart c) (frees a (cut_left L)) (of_nat B)"
    unfolding nx' P_def using dist by (rule links_upd_last)
  moreover have "links ?nx' (of_nat B) ys (pxEnd c)"
  proof (rule links_retarget [OF r])
    show "?nx' (of_nat B) = ?nx q" using PB by (simp add: nx')
    show "\<forall>y \<in> set ys. ?nx' (of_nat y) = ?nx (of_nat y)"
    proof
      fix y assume y: "y \<in> set ys"
      have yb: "a + tot L + n \<le> y" "y \<le> e"
        using frees_bounds [of y "a + tot L + n + right_gap R" "cut_right R"] y so(6) i tot_cut(2) [of R]
        by (auto simp: ys_def insertable_def right_gap_def)
      have "of_nat y \<noteq> P"
      proof (cases "frees a (cut_left L) = []")
        case True
        then show ?thesis using insertable_frees(3) [OF i, of y] yb by (auto simp: P_def)
      next
        case False
        then have "last (frees a (cut_left L)) < y" using fB [of "last (frees a (cut_left L))"] yb so by simp
        then show ?thesis using False yb so by (simp add: P_def lastp_def)
      qed
      moreover have "(of_nat y :: u32) \<noteq> of_nat B" using yb so by simp
      ultimately show "?nx' (of_nat y) = ?nx (of_nat y)" by (simp add: nx')
    qed
  qed
  ultimately show ?thesis
    using PB by (simp add: blocks_put_free links_append nx' ys_def B_def P_def)
qed

text \<open>What the insertion leaves alone: headers of blocks in use and the two markers.\<close>

lemma insert_frame:
  assumes i: "insertable m c a L n R e"
    and x: "x \<notin> set (frees a (put_free L n R))" "a \<le> x" "x \<le> e"
  shows "xBlockSize (insert_result m c a L n R) (of_nat x) = xBlockSize m (of_nat x)"
    and "pxNextFreeBlock (insert_result m c a L n R) (of_nat x) = pxNextFreeBlock m (of_nat x)"
    and "xBlockSize (insert_result m c a L n R) (xStart c) = xBlockSize m (xStart c)"
    and "xBlockAllocatedBit (insert_result m c a L n R) = xBlockAllocatedBit m"
proof -
  have so: "sizes_ok (put_free L n R)" "a + tot (put_free L n R) = e" "e < 2 ^ 32"
    using i sizes_put_free [of L n True R] by (auto simp: insertable_def tot_put_free)
  have ne: "(of_nat x :: u32) \<noteq> of_nat y" "xStart c \<noteq> of_nat y" if y: "y \<in> set (frees a (put_free L n R))" for y
    using frees_bounds [OF y so(1)] so x y insertable_frees(3) [OF i, of y]
    by (auto simp: of_nat_u32_eq)
  have B: "a + tot (cut_left L) \<in> set (frees a (put_free L n R))" by (simp add: blocks_put_free)
  have P: "of_nat x \<noteq> lastp (xStart c) (frees a (cut_left L))"
    using ne [of "last (frees a (cut_left L))"] insertable_frees(3) [OF i, of x] x
    by (auto simp: lastp_def blocks_put_free)
  show "xBlockSize (insert_result m c a L n R) (of_nat x) = xBlockSize m (of_nat x)"
    "pxNextFreeBlock (insert_result m c a L n R) (of_nat x) = pxNextFreeBlock m (of_nat x)"
    "xBlockSize (insert_result m c a L n R) (xStart c) = xBlockSize m (xStart c)"
    "xBlockAllocatedBit (insert_result m c a L n R) = xBlockAllocatedBit m"
    using ne [OF B] P by (simp_all add: insert_result_def Let_def del: of_nat_add)
qed

lemma insert_free_hdr:
  assumes i: "insertable m c a L n R e"
  shows "free_hdr (insert_result m c a L n R) a (put_free L n R)"
proof -
  define B where "B = a + tot (cut_left L)"
  have so: "sizes_ok (put_free L n R)" "a + tot (put_free L n R) = e" "e < 2 ^ 32"
    using i sizes_put_free [of L n True R] by (auto simp: insertable_def tot_put_free)
  have sz: "xBlockSize (insert_result m c a L n R) = (xBlockSize m)(of_nat B := of_nat (merged_size L n R))"
    by (simp add: insert_result_def Let_def B_def)
  have Bin: "(B, merged_size L n R, False) \<in> set (blocks a (put_free L n R))" by (simp add: blocks_put_free B_def)
  have "xBlockSize (insert_result m c a L n R) (of_nat x) = of_nat k"
    if b: "(x, k, False) \<in> set (blocks a (put_free L n R))" for x k
  proof (cases "(x, k) = (B, merged_size L n R)")
    case False
    then have d: "x + k \<le> B \<or> B + merged_size L n R \<le> x" using blocks_disjoint [OF b Bin so(1)] by auto
    have bd: "x + k \<le> e" "8 \<le> k" "B + merged_size L n R \<le> e" "8 \<le> merged_size L n R"
      using blocks_bounds [OF b so(1)] blocks_bounds [OF Bin so(1)] so by auto
    then have "(of_nat x :: u32) \<noteq> of_nat B" using d so by auto
    moreover have "(x, k, False) \<in> set (blocks a L) \<or> (x, k, False) \<in> set (blocks (a + tot L + n) R)"
    proof -
      have "set (blocks a (cut_left L)) \<subseteq> set (blocks a L)"
        by (cases L rule: rev_cases) (auto simp: cut_left_def)
      moreover have "set (blocks (a + tot L + n + right_gap R) (cut_right R)) \<subseteq> set (blocks (a + tot L + n) R)"
        by (cases R) (auto simp: cut_right_def right_gap_def right_free_def)
      ultimately show ?thesis using b False by (auto simp: blocks_put_free B_def)
    qed
    then have "xBlockSize m (of_nat x) = of_nat k" using i by (auto simp: insertable_def free_hdr_def)
    ultimately show ?thesis by (simp add: sz)
  qed (simp add: sz)
  then show ?thesis by (auto simp: free_hdr_def)
qed

end
