(* ===== verification/Heap4Ok.thy ===== *)
theory Heap4Ok
  imports Heap4Inv
begin

unbundle bit_operations_syntax

text \<open>
  The invariant \<open>heap_ok\<close> of one heap context and the correctness of \<open>prvHeapInit\<close>,
  \<open>malloc_core\<close> and \<open>free_core\<close> against the tiling of \<open>Heap4Inv\<close>: each of them returns,
  and its effect is the abstract one.
\<close>

section \<open>The invariant\<close>

definition free_total :: "hblk list \<Rightarrow> nat" where
  "free_total bs = sum_list (map fst (filter (\<lambda>b. \<not> snd b) bs))"

lemma free_total_simps [simp]:
  "free_total [] = 0" "free_total ((n, u) # bs) = (if u then 0 else n) + free_total bs"
  "free_total (bs @ cs) = free_total bs + free_total cs"
  by (simp_all add: free_total_def)

lemma free_total_le: "free_total bs \<le> tot bs"
proof (induction bs)
  case (Cons b bs)
  then show ?case by (cases b) simp
qed simp

lemma free_total_put_free: "free_total (put_free L n R) = free_total L + n + free_total R"
proof -
  have "free_total (cut_left L) + (if left_free L then fst (last L) else 0) = free_total L"
    by (cases L rule: rev_cases) (auto simp: cut_left_def left_free_def)
  moreover have "(if right_free R then fst (hd R) else 0) + free_total (cut_right R) = free_total R"
    by (cases R) (auto simp: cut_right_def right_free_def)
  ultimately show ?thesis by (simp add: put_free_def merged_size_def)
qed

definition heap_frame :: "xHeapCtx_t \<Rightarrow> heap_mem \<Rightarrow> nat \<Rightarrow> nat \<Rightarrow> bool" where
  "heap_frame c m a e \<longleftrightarrow> 0 < a \<and> 4 dvd a \<and> a \<le> e \<and> e + 8 \<le> 2 ^ 32 \<and> e - a < 2 ^ 31 \<and> pxEnd c = of_nat e \<and>
     unat (xStart c) \<notin> {a..e} \<and> xBlockSize m (xStart c) = 0 \<and> xBlockSize m (of_nat e) = 0 \<and>
     pxNextFreeBlock m (of_nat e) = NULL \<and> xBlockAllocatedBit m = push_bit 31 1"

definition heap_ok :: "xHeapCtx_t \<Rightarrow> heap_mem \<Rightarrow> nat \<Rightarrow> hblk list \<Rightarrow> bool" where
  "heap_ok c m a bs \<longleftrightarrow> heap_frame c m a (a + tot bs) \<and> sizes_ok bs \<and> coalesced bs \<and>
     free_hdr m a bs \<and> used_hdr m a bs \<and>
     links (pxNextFreeBlock m) (xStart c) (frees a bs) (pxEnd c) \<and>
     xFreeBytesRemaining c = of_nat (free_total bs) \<and>
     xMinimumEverFreeBytesRemaining c \<le> xFreeBytesRemaining c"

lemma heap_okD:
  assumes "heap_ok c m a bs"
  shows "heap_frame c m a (a + tot bs)" "sizes_ok bs" "coalesced bs" "free_hdr m a bs" "used_hdr m a bs"
    "links (pxNextFreeBlock m) (xStart c) (frees a bs) (pxEnd c)"
    "xFreeBytesRemaining c = of_nat (free_total bs)"
    "xMinimumEverFreeBytesRemaining c \<le> xFreeBytesRemaining c"
  using assms unfolding heap_ok_def by blast+

lemma hdr_append [simp]:
  "free_hdr m a (bs @ cs) \<longleftrightarrow> free_hdr m a bs \<and> free_hdr m (a + tot bs) cs"
  "used_hdr m a (bs @ cs) \<longleftrightarrow> used_hdr m a bs \<and> used_hdr m (a + tot bs) cs"
  by (simp_all add: free_hdr_def used_hdr_def ball_Un)

lemma hdr_Cons [simp]:
  "free_hdr m a ((n, u) # bs) \<longleftrightarrow> (\<not> u \<longrightarrow> xBlockSize m (of_nat a) = of_nat n) \<and> free_hdr m (a + n) bs"
  "used_hdr m a ((n, u) # bs) \<longleftrightarrow> (u \<longrightarrow> xBlockSize m (of_nat a) = of_nat n OR push_bit 31 1 \<and>
     pxNextFreeBlock m (of_nat a) = NULL) \<and> used_hdr m (a + n) bs"
  "free_hdr m a []" "used_hdr m a []"
  by (auto simp: free_hdr_def used_hdr_def)

text \<open>Headers depend only on the fields at block addresses.\<close>

lemma free_hdr_cong:
  assumes "free_hdr m a bs" and "\<And>x. x \<in> set (frees a bs) \<Longrightarrow> xBlockSize m' (of_nat x) = xBlockSize m (of_nat x)"
  shows "free_hdr m' a bs"
  using assms by (fastforce simp: free_hdr_def frees_blocks)

lemma used_hdr_cong:
  assumes "used_hdr m a bs"
    and "\<And>x k. (x, k, True) \<in> set (blocks a bs) \<Longrightarrow> xBlockSize m' (of_nat x) = xBlockSize m (of_nat x) \<and>
      pxNextFreeBlock m' (of_nat x) = pxNextFreeBlock m (of_nat x)"
  shows "used_hdr m' a bs"
  using assms by (fastforce simp: used_hdr_def)

lemma used_not_free:
  assumes "(x, k, True) \<in> set (blocks a bs)" and "sizes_ok bs"
  shows "x \<notin> set (frees a bs)"
proof
  assume "x \<in> set (frees a bs)"
  then obtain k' where b: "(x, k', False) \<in> set (blocks a bs)" by (auto simp: frees_blocks)
  show False using blocks_disjoint [OF assms(1) b assms(2)] blocks_bounds [OF assms(1,2)]
      blocks_bounds [OF b assms(2)] by auto
qed

section \<open>The insertion\<close>

lemma insert_heap_ok:
  assumes i: "insertable m c a L n R e" and fr: "heap_frame c m a e"
    and co: "coalesced L" "coalesced R" and us: "used_hdr m a L" "used_hdr m (a + tot L + n) R"
    and cnt: "xFreeBytesRemaining c = of_nat (free_total L + n + free_total R)"
      "xMinimumEverFreeBytesRemaining c \<le> xFreeBytesRemaining c"
  shows "heap_ok c (insert_result m c a L n R) a (put_free L n R)"
proof -
  let ?m = "insert_result m c a L n R" and ?bs = "put_free L n R"
  have so: "sizes_ok ?bs" "a + tot ?bs = e" "e < 2 ^ 32"
    using i sizes_put_free [of L n True R] by (auto simp: insertable_def tot_put_free)
  have e: "e \<notin> set (frees a ?bs)" using frees_bounds(2) [of e a ?bs] so by auto
  have "heap_frame c ?m a e"
    using fr insert_frame [OF i e] by (simp add: heap_frame_def)
  moreover have "used_hdr ?m a ?bs"
  proof -
    have "xBlockSize ?m (of_nat x) = of_nat k OR push_bit 31 1 \<and> pxNextFreeBlock ?m (of_nat x) = NULL"
      if b: "(x, k, True) \<in> set (blocks a ?bs)" for x k
    proof -
      have "xBlockSize m (of_nat x) = of_nat k OR push_bit 31 1 \<and> pxNextFreeBlock m (of_nat x) = NULL"
        using b us by (auto simp: used_put_free used_hdr_def)
      then show ?thesis
        using insert_frame(1,2) [OF i used_not_free [OF b so(1)]] blocks_bounds [OF b so(1)] so by simp
    qed
    then show ?thesis by (auto simp: used_hdr_def)
  qed
  ultimately show ?thesis
    using so coalesced_put_free [OF co] insert_free_hdr [OF i] insert_links [OF i] cnt
    by (simp add: heap_ok_def free_total_put_free)
qed

section \<open>Releasing a block\<close>

lemma bit_31:
  "bit (2147483648 :: u32) n \<longleftrightarrow> n = 31" "bit (2147483648 :: nat) n \<longleftrightarrow> n = 31" "bit (2147483648 :: int) n \<longleftrightarrow> n = 31"
proof -
  have "(2147483648 :: u32) = 2 ^ 31" "(2147483648 :: nat) = 2 ^ 31" "(2147483648 :: int) = 2 ^ 31" by simp_all
  then show "bit (2147483648 :: u32) n \<longleftrightarrow> n = 31" "bit (2147483648 :: nat) n \<longleftrightarrow> n = 31"
    "bit (2147483648 :: int) n \<longleftrightarrow> n = 31"
    by (auto simp only: bit_exp_iff possible_bit_word possible_bit_def) simp_all
qed

lemma start_outside:
  assumes "heap_frame c m a e" and "a \<le> x" and "x \<le> e"
  shows "xStart c \<noteq> of_nat x"
  using assms by (auto simp: heap_frame_def unat_of_nat take_bit_eq_mod)

lemma size_bit:
  assumes "n < 2 ^ 31"
  shows "(of_nat n OR push_bit 31 1 :: u32) AND push_bit 31 1 \<noteq> 0"
    and "(of_nat n OR push_bit 31 1 :: u32) AND NOT (push_bit 31 1) = of_nat n"
proof -
  have "bit ((of_nat n OR push_bit 31 1 :: u32) AND push_bit 31 1) 31"
    by (simp add: bit_simps)
  then show "(of_nat n OR push_bit 31 1 :: u32) AND push_bit 31 1 \<noteq> 0" by (metis bit_0_eq bot_apply bot_bool_def)
  have "\<not> bit n 31" using assms by (simp add: bit_iff_odd)
  then show "(of_nat n OR push_bit 31 1 :: u32) AND NOT (push_bit 31 1) = of_nat n"
    by (intro bit_eqI) (auto simp: bit_simps bit_31)
qed

lemma bs_split_bounds:
  assumes ok: "heap_ok c m a bs" and bs: "bs = L @ (n, u) # R"
  shows "a + tot L + n \<le> a + tot bs" "a + tot bs + 8 \<le> 2 ^ 32" "8 \<le> n" "n < 2 ^ 31" "4 dvd n"
    "(of_nat (a + tot L) + 8 :: u32) \<noteq> 0"
proof -
  show b: "a + tot L + n \<le> a + tot bs" "a + tot bs + 8 \<le> 2 ^ 32" "8 \<le> n" "n < 2 ^ 31" "4 dvd n"
    using heap_okD(1,2) [OF ok] bs by (auto simp: heap_frame_def)
  have "(of_nat (a + tot L + 8) :: u32) \<noteq> of_nat 0" using b by (subst of_nat_u32_eq) auto
  then show "(of_nat (a + tot L) + 8 :: u32) \<noteq> 0" by simp
qed

lemma neighbours:
  assumes so: "sizes_ok (L @ (n, u) # R)" and b: "a + tot (L @ (n, u) # R) < 2 ^ 32"
  shows "x \<in> set (frees a L) \<Longrightarrow> (of_nat x :: u32) \<noteq> of_nat (a + tot L)"
    and "x \<in> set (frees (a + tot L + n) R) \<Longrightarrow> (of_nat x :: u32) \<noteq> of_nat (a + tot L)"
    and "(x, k, v) \<in> set (blocks a L) \<Longrightarrow> (of_nat x :: u32) \<noteq> of_nat (a + tot L)"
    and "(x, k, v) \<in> set (blocks (a + tot L + n) R) \<Longrightarrow> (of_nat x :: u32) \<noteq> of_nat (a + tot L)"
proof -
  have ne: "(of_nat x :: u32) \<noteq> of_nat (a + tot L)" if "x < a + tot L \<or> a + tot L < x" "x < 2 ^ 32"
    using that b by (subst of_nat_u32_eq) auto
  show "x \<in> set (frees a L) \<Longrightarrow> (of_nat x :: u32) \<noteq> of_nat (a + tot L)"
    using frees_bounds [of x a L] so b by (intro ne) auto
  show "x \<in> set (frees (a + tot L + n) R) \<Longrightarrow> (of_nat x :: u32) \<noteq> of_nat (a + tot L)"
    using frees_bounds [of x "a + tot L + n" R] so b by (intro ne) auto
  show "(x, k, v) \<in> set (blocks a L) \<Longrightarrow> (of_nat x :: u32) \<noteq> of_nat (a + tot L)"
    using blocks_bounds [of x k v a L] so b by (intro ne) auto
  show "(x, k, v) \<in> set (blocks (a + tot L + n) R) \<Longrightarrow> (of_nat x :: u32) \<noteq> of_nat (a + tot L)"
    using blocks_bounds [of x k v "a + tot L + n" R] so b by (intro ne) auto
qed

lemma free_core_ok:
  assumes ok: "heap_ok c m a (L @ (n, True) # R)"
  shows "\<exists>c' m'. free_core (of_nat (a + tot L) + 8) c m = Some (c', m') \<and> heap_ok c' m' a (put_free L n R) \<and>
    c' = c\<lparr>xFreeBytesRemaining := of_nat (free_total (put_free L n R))\<rparr>"
proof -
  let ?bs = "L @ (n, True) # R" and ?A = "of_nat (a + tot L) :: u32"
  let ?e = "a + tot ?bs"
  note D = heap_okD [OF ok] and b = bs_split_bounds [OF ok refl]
  define m1 where "m1 = set_size ?A (of_nat n) m"
  define c1 where "c1 = c\<lparr>xFreeBytesRemaining := of_nat (free_total L + n + free_total R)\<rparr>"
  have hdr: "xBlockSize m ?A = of_nat n OR push_bit 31 1" "pxNextFreeBlock m ?A = NULL"
    using D(5) by (simp_all add: used_hdr_def)
  have bit: "xBlockAllocatedBit m = push_bit 31 1" using D(1) by (simp add: heap_frame_def)
  have st: "?A \<noteq> xStart c" "?A \<noteq> of_nat ?e"
    using start_outside [OF D(1), of "a + tot L"] b by (auto simp flip: of_nat_add)
  have nb: "sizes_ok ?bs" "?e < 2 ^ 32" using D(2) b by auto
  note ne = neighbours [OF nb]
  have fr1: "heap_frame c1 m1 a ?e" using D(1) st by (auto simp: heap_frame_def m1_def c1_def set_size_def)
  have fh: "free_hdr m1 a L" "free_hdr m1 (a + tot L + n) R"
    using D(4) ne(1,2) by (auto intro: free_hdr_cong simp: m1_def set_size_def simp del: of_nat_add)
  have uh: "used_hdr m1 a L" "used_hdr m1 (a + tot L + n) R"
    using D(5) ne(3,4) by (auto intro: used_hdr_cong simp: m1_def set_size_def simp del: of_nat_add)
  have i: "insertable m1 c1 a L n R ?e"
    unfolding insertable_def using fr1 fh D(2,6) nb by (simp add: heap_frame_def m1_def c1_def set_size_def)
  have fit: "free_total L + n + free_total R < 2 ^ 31"
    using free_total_le [of L] free_total_le [of R] D(1) by (simp add: heap_frame_def)
  have co: "coalesced L" "coalesced R" using D(3) by (auto simp: coalesced_def successively_append_iff successively_Cons)
  have mn: "xMinimumEverFreeBytesRemaining c1 \<le> xFreeBytesRemaining c1"
  proof -
    have "xFreeBytesRemaining c \<le> xFreeBytesRemaining c1"
      using D(7) fit by (simp add: c1_def del: of_nat_add)
    then show ?thesis using D(8) by (simp add: c1_def)
  qed
  have fc: "free_core (?A + 8) c m = do { m2 \<leftarrow> prvInsertBlockIntoFreeList ?A c1 m1; Some (c1, m2) }"
    using hdr bit size_bit [OF b(4)] b(6) D(7)
    by (simp add: free_core_def xHeapStructSize_def sizeof_BlockLink_t_def portBYTE_ALIGNMENT_def
      portBYTE_ALIGNMENT_MASK_def NULL_def Let_def m1_def c1_def set_size_def add_ac)
  show ?thesis
    using insert_heap_ok [OF i fr1 co uh _ mn] insert_block_result [OF i] fc
    by (simp add: c1_def free_total_put_free)
qed

section \<open>First fit\<close>

text \<open>The search ends at the first free block that is large enough, or at the end marker.\<close>

lemma find_block_first:
  assumes "links (pxNextFreeBlock m) p (ys @ x # zs) e"
    and "\<forall>y \<in> set ys. xBlockSize m (of_nat y) < w" and "w \<le> xBlockSize m (of_nat x)"
    and "\<forall>y \<in> set (ys @ x # zs). (of_nat y :: u32) \<noteq> NULL"
  shows "find_block m w p (pxNextFreeBlock m p) = Some (lastp p ys, of_nat x)"
  using assms
proof (induction ys arbitrary: p)
  case Nil
  then have "\<not> xBlockSize m (of_nat x) < w" by (simp add: not_less)
  then show ?case using Nil by (subst find_block.simps) simp
next
  case (Cons y ys)
  have "pxNextFreeBlock m (of_nat y) \<noteq> NULL" using Cons.prems(1,4) by (cases ys) auto
  then show ?case using Cons by (subst find_block.simps) auto
qed

lemma find_block_none:
  assumes "links (pxNextFreeBlock m) p ys e"
    and "\<forall>y \<in> set ys. xBlockSize m (of_nat y) < w" and "e \<noteq> NULL" and "pxNextFreeBlock m e = NULL"
    and "\<forall>y \<in> set ys. (of_nat y :: u32) \<noteq> NULL"
  shows "\<exists>q. find_block m w p (pxNextFreeBlock m p) = Some (q, e)"
  using assms
proof (induction ys arbitrary: p)
  case Nil
  then show ?case by (subst find_block.simps) simp
next
  case (Cons y ys)
  have "pxNextFreeBlock m (of_nat y) \<noteq> NULL" using Cons.prems(1,3,5) by (cases ys) auto
  then show ?case using Cons by (subst find_block.simps) auto
qed

definition fits :: "nat \<Rightarrow> hblk \<Rightarrow> bool" where
  "fits w b \<longleftrightarrow> \<not> snd b \<and> w \<le> fst b"

text \<open>The abstract allocation: the first free block that fits is taken, the rest split off.\<close>

fun alloc_first :: "nat \<Rightarrow> hblk list \<Rightarrow> (hblk list \<times> nat) option" where
  "alloc_first w [] = None"
| "alloc_first w (b # bs) =
     (if fits w b
      then Some ((if fst b - w > 16 then (w, True) # (fst b - w, False) # bs else (fst b, True) # bs), 0)
      else map_option (\<lambda>(bs', d). (b # bs', fst b + d)) (alloc_first w bs))"

lemma alloc_first_split:
  "alloc_first w bs = None \<longleftrightarrow> (\<forall>b \<in> set bs. \<not> fits w b)"
  "(\<forall>b \<in> set L. \<not> fits w b) \<Longrightarrow> fits w (k, False) \<Longrightarrow> alloc_first w (L @ (k, False) # R) =
     Some (L @ (if k - w > 16 then (w, True) # (k - w, False) # R else (k, True) # R), tot L)"
proof -
  show "alloc_first w bs = None \<longleftrightarrow> (\<forall>b \<in> set bs. \<not> fits w b)" by (induction bs) auto
  show "(\<forall>b \<in> set L. \<not> fits w b) \<Longrightarrow> fits w (k, False) \<Longrightarrow> alloc_first w (L @ (k, False) # R) =
     Some (L @ (if k - w > 16 then (w, True) # (k - w, False) # R else (k, True) # R), tot L)"
    by (induction L) (auto simp: tot_def)
qed

lemma first_fit:
  assumes "\<exists>b \<in> set bs. fits w b"
  obtains L k R where "bs = L @ (k, False) # R" "\<forall>b \<in> set L. \<not> fits w b" "w \<le> k"
proof -
  obtain L b R where s: "bs = L @ b # R" "fits w b" "\<forall>y \<in> set L. \<not> fits w y"
    using split_list_first_prop [OF assms] by blast
  then obtain k where "b = (k, False)" by (cases b) (auto simp: fits_def)
  then show ?thesis using s by (intro that) (auto simp: fits_def)
qed

lemma heap_sizes_small:
  assumes ok: "heap_ok c m a bs" and nf: "\<forall>b \<in> set L. \<not> fits w b" and L: "bs = L @ R" and w: "w < 2 ^ 32"
    and y: "y \<in> set (frees a L)"
  shows "xBlockSize m (of_nat y) < of_nat w"
proof -
  obtain k where k: "(y, k, False) \<in> set (blocks a L)" using y by (auto simp: frees_blocks)
  obtain L1 L2 where L1: "L = L1 @ (k, False) # L2" using blocks_split [OF k] by blast
  have "k < w" using nf L1 by (auto simp: fits_def)
  moreover have "free_hdr m a L" using heap_okD(4) [OF ok] L by simp
  then have "xBlockSize m (of_nat y) = of_nat k" using k by (auto simp: free_hdr_def)
  ultimately show ?thesis using w by simp
qed

lemma heap_frees_nonnull:
  assumes ok: "heap_ok c m a bs" and y: "y \<in> set (frees a bs)"
  shows "(of_nat y :: u32) \<noteq> NULL"
proof -
  have "0 < y" "y < 2 ^ 32" using frees_bounds [OF y heap_okD(2) [OF ok]] heap_okD(1) [OF ok] by (auto simp: heap_frame_def)
  then have "(of_nat y :: u32) \<noteq> of_nat 0" by (subst of_nat_u32_eq) auto
  then show ?thesis by (simp add: NULL_def)
qed

section \<open>Taking a block\<close>

lemma links_unlink:
  fixes p :: u32
  assumes "links nx p (xs @ x # ys) e" and "distinct (p # map of_nat (xs @ x # ys))"
  shows "links (nx(lastp p xs := nx (of_nat x))) p (xs @ ys) e"
  using assms
proof (induction xs arbitrary: p)
  case Nil
  have "links nx (of_nat x) ys e" using Nil.prems(1) by simp
  moreover have "p \<notin> of_nat ` set ys" using Nil.prems(2) by simp
  then have "\<forall>y \<in> set ys. (nx(p := nx (of_nat x))) (of_nat y) = nx (of_nat y)" by auto
  ultimately show ?case
    unfolding lastp_simps append_Nil
    using links_retarget [of nx "of_nat x" ys e "nx(p := nx (of_nat x))" p] by (simp only: fun_upd_same)
next
  case (Cons z xs)
  have ne: "lastp (of_nat z) xs \<noteq> p" using Cons.prems(2) by (auto simp: lastp_def)
  have "links (nx(lastp (of_nat z) xs := nx (of_nat x))) (of_nat z) (xs @ ys) e"
    using Cons.prems by (intro Cons.IH) simp_all
  then show ?case using Cons.prems(1) ne by (simp only: append_Cons links.simps lastp_simps fun_upd_other)
qed

lemma mark_used:
  fixes n :: nat
  defines "A a L \<equiv> of_nat (a + tot L) :: u32"
  assumes fr: "heap_frame c m a (a + tot (L @ (n, True) # R))" and so: "sizes_ok (L @ (n, True) # R)"
    and co: "coalesced (L @ (n, True) # R)" and fh: "free_hdr m a (L @ (n, True) # R)"
    and uh: "used_hdr m a L" "used_hdr m (a + tot L + n) R" and sz: "xBlockSize m (A a L) = of_nat n"
    and lk: "links (pxNextFreeBlock m) (xStart c) (frees a (L @ (n, True) # R)) (pxEnd c)"
    and c': "pxEnd c' = pxEnd c" "xStart c' = xStart c" "xFreeBytesRemaining c' = of_nat (free_total L + free_total R)"
      "xMinimumEverFreeBytesRemaining c' \<le> xFreeBytesRemaining c'"
  shows "heap_ok c' (set_next (A a L) NULL (set_size (A a L) (xBlockSize m (A a L) OR xBlockAllocatedBit m) m)) a
    (L @ (n, True) # R)"
proof -
  let ?bs = "L @ (n, True) # R" and ?A = "A a L"
  let ?e = "a + tot ?bs"
  define m3 where "m3 = set_next ?A NULL (set_size ?A (xBlockSize m ?A OR xBlockAllocatedBit m) m)"
  have e: "?e < 2 ^ 32" "8 \<le> n" using fr so by (auto simp: heap_frame_def)
  note ne = neighbours [OF so e(1), folded A_def]
  have bit: "xBlockAllocatedBit m = push_bit 31 1" using fr by (simp add: heap_frame_def)
  have oth: "xBlockSize m3 y = xBlockSize m y" "pxNextFreeBlock m3 y = pxNextFreeBlock m y" if "y \<noteq> ?A" for y
    using that by (simp_all add: m3_def set_next_def set_size_def)
  have at: "xBlockSize m3 ?A = of_nat n OR push_bit 31 1" "pxNextFreeBlock m3 ?A = NULL"
    using sz bit by (simp_all add: m3_def set_next_def set_size_def)
  have st: "xStart c \<noteq> ?A" using start_outside [OF fr, of "a + tot L"] by (simp add: A_def)
  have "of_nat ?e \<noteq> ?A" unfolding A_def using e by (subst of_nat_u32_eq) auto
  then have "heap_frame c' m3 a ?e"
    using fr st oth [of "of_nat ?e"] oth [of "xStart c"] c' by (simp add: heap_frame_def m3_def set_next_def set_size_def)
  moreover have nA: "?A \<notin> of_nat ` set (frees a ?bs)" using ne(1,2) by fastforce
  have "free_hdr m3 a ?bs"
  proof (rule free_hdr_cong [OF fh])
    fix x assume "x \<in> set (frees a ?bs)"
    then have "of_nat x \<noteq> ?A" using nA by (metis image_eqI)
    then show "xBlockSize m3 (of_nat x) = xBlockSize m (of_nat x)" by (rule oth(1))
  qed
  moreover have "pxNextFreeBlock m3 = (pxNextFreeBlock m)(?A := NULL)" by (simp add: m3_def set_next_def set_size_def)
  then have "links (pxNextFreeBlock m3) (xStart c) (frees a ?bs) (pxEnd c)" using lk nA st by (simp add: links_upd)
  moreover have "used_hdr m3 a L" "used_hdr m3 (a + tot L + n) R"
    by (rule used_hdr_cong [OF uh(1)], frule ne(3), simp add: oth)
       (rule used_hdr_cong [OF uh(2)], frule ne(4), simp add: oth)
  then have "used_hdr m3 a ?bs" using at by (simp add: A_def)
  ultimately show ?thesis using so co c' by (simp add: heap_ok_def m3_def)
qed

definition taken :: "nat \<Rightarrow> nat \<Rightarrow> hblk list \<Rightarrow> hblk list" where
  "taken w k R = (if k - w > 16 then (w, True) # (k - w, False) # R else (k, True) # R)"

definition with_free :: "nat \<Rightarrow> xHeapCtx_t \<Rightarrow> xHeapCtx_t" where
  "with_free n c = c\<lparr>xFreeBytesRemaining := of_nat n,
     xMinimumEverFreeBytesRemaining := min (xMinimumEverFreeBytesRemaining c) (of_nat n)\<rparr>"

text \<open>The block is unlinked; what remains of it after the cut goes back to the free list.\<close>

definition unlinked :: "xHeapCtx_t \<Rightarrow> nat \<Rightarrow> hblk list \<Rightarrow> heap_mem \<Rightarrow> heap_mem" where
  "unlinked c a L m = set_next (lastp (xStart c) (frees a L)) (pxNextFreeBlock m (of_nat (a + tot L))) m"

lemma unlinked_ok:
  assumes ok: "heap_ok c m a (L @ (k, False) # R)"
  defines "m1 \<equiv> unlinked c a L m"
  shows "links (pxNextFreeBlock m1) (xStart c) (frees a L @ frees (a + tot L + k) R) (pxEnd c)"
    and "xBlockSize m1 = xBlockSize m" and "xBlockAllocatedBit m1 = xBlockAllocatedBit m"
    and "heap_frame c m1 a (a + tot (L @ (k, False) # R))"
    and "used_hdr m1 a L" and "used_hdr m1 (a + tot L + k) R"
    and "pxNextFreeBlock m (lastp (xStart c) (frees a L)) = of_nat (a + tot L)"
proof -
  let ?bs = "L @ (k, False) # R" and ?P = "lastp (xStart c) (frees a L)"
  note D = heap_okD [OF ok]
  have e: "a + tot ?bs < 2 ^ 32" "unat (xStart c) \<notin> {a..a + tot ?bs}" using D(1) by (auto simp: heap_frame_def)
  have dist: "distinct (xStart c # map of_nat (frees a L @ (a + tot L) # frees (a + tot L + k) R))"
    using frees_distinct [OF D(2) e] by simp
  have lk: "links (pxNextFreeBlock m) (xStart c) (frees a L @ (a + tot L) # frees (a + tot L + k) R) (pxEnd c)"
    using D(6) by simp
  show "links (pxNextFreeBlock m1) (xStart c) (frees a L @ frees (a + tot L + k) R) (pxEnd c)"
    using links_unlink [OF lk dist] by (simp add: m1_def unlinked_def set_next_def)
  show "pxNextFreeBlock m ?P = of_nat (a + tot L)" using lk by (simp add: links_append)
  show sz: "xBlockSize m1 = xBlockSize m" "xBlockAllocatedBit m1 = xBlockAllocatedBit m"
    by (simp_all add: m1_def unlinked_def set_next_def)
  have nx: "pxNextFreeBlock m1 y = pxNextFreeBlock m y" if "y \<noteq> ?P" for y
    using that by (simp add: m1_def unlinked_def set_next_def)
  have notP: "of_nat y \<noteq> ?P" if y: "y \<notin> set (frees a ?bs)" "a \<le> y" "y \<le> a + tot ?bs" for y
  proof (cases "frees a L = []")
    case True
    then show ?thesis using start_outside [OF D(1) y(2,3)] by simp
  next
    case False
    then have l: "last (frees a L) \<in> set (frees a ?bs)" by simp
    then have "last (frees a L) < 2 ^ 32" "last (frees a L) \<noteq> y" using frees_bounds(2) [OF l D(2)] e y by auto
    then show ?thesis using False y e by (simp add: lastp_def)
  qed
  have "a + tot ?bs \<notin> set (frees a ?bs)" using frees_bounds(2) [OF _ D(2)] by fastforce
  then have "pxNextFreeBlock m1 (of_nat (a + tot ?bs)) = pxNextFreeBlock m (of_nat (a + tot ?bs))"
    using nx [OF notP [of "a + tot ?bs"]] by (metis le_add1 order_refl)
  then show "heap_frame c m1 a (a + tot ?bs)" using D(1) sz unfolding heap_frame_def by metis
  have un: "xBlockSize m1 (of_nat x) = xBlockSize m (of_nat x) \<and> pxNextFreeBlock m1 (of_nat x) = pxNextFreeBlock m (of_nat x)"
    if "(x, j, True) \<in> set (blocks a L) \<or> (x, j, True) \<in> set (blocks (a + tot L + k) R)" for x j
  proof -
    have x: "(x, j, True) \<in> set (blocks a ?bs)" using that by auto
    show ?thesis using nx [OF notP [OF used_not_free [OF x D(2)]]] blocks_bounds [OF x D(2)] sz by simp
  qed
  have uh: "used_hdr m a L" "used_hdr m (a + tot L + k) R" using D(5) by simp_all
  show "used_hdr m1 a L" "used_hdr m1 (a + tot L + k) R"
    by (rule used_hdr_cong [OF uh(1) un], erule disjI1) (rule used_hdr_cong [OF uh(2) un], erule disjI2)
qed

lemma coalesced_taken:
  assumes "coalesced (L @ (k, False) # R)"
  shows "coalesced (L @ taken w k R)" and "\<not> right_free R"
  using assms
  by (cases R; auto simp: coalesced_def taken_def successively_append_iff successively_Cons right_free_def)+

lemma take_whole_ok:
  assumes ok: "heap_ok c m a (L @ (k, False) # R)"
    and c': "pxEnd c' = pxEnd c" "xStart c' = xStart c" "xFreeBytesRemaining c' = of_nat (free_total L + free_total R)"
      "xMinimumEverFreeBytesRemaining c' \<le> xFreeBytesRemaining c'"
  defines "A \<equiv> of_nat (a + tot L)" and "m1 \<equiv> unlinked c a L m"
  shows "heap_ok c' (set_next A NULL (set_size A (xBlockSize m1 A OR xBlockAllocatedBit m1) m1)) a (L @ (k, True) # R)"
    and "xBlockSize m1 A = of_nat k"
proof -
  note D = heap_okD [OF ok] and u = unlinked_ok [OF ok, folded m1_def]
  show sz: "xBlockSize m1 A = of_nat k" using D(4) u(2) by (simp add: A_def)
  show "heap_ok c' (set_next A NULL (set_size A (xBlockSize m1 A OR xBlockAllocatedBit m1) m1)) a (L @ (k, True) # R)"
    unfolding A_def
  proof (rule mark_used)
    show "free_hdr m1 a (L @ (k, True) # R)" using D(4) u(2) by (simp add: free_hdr_def)
    show "coalesced (L @ (k, True) # R)"
      using D(3) by (auto simp: coalesced_def successively_append_iff successively_Cons)
    show "xBlockSize m1 (of_nat (a + tot L)) = of_nat k" using sz by (simp add: A_def)
  qed (use u D(2) c' in simp_all)
qed

lemma take_split_ok:
  assumes ok: "heap_ok c m a (L @ (k, False) # R)" and w: "8 \<le> w" "4 dvd w" "w + 16 < k"
    and c': "pxEnd c' = pxEnd c" "xStart c' = xStart c"
      "xFreeBytesRemaining c' = of_nat (free_total L + (k - w) + free_total R)"
      "xMinimumEverFreeBytesRemaining c' \<le> xFreeBytesRemaining c'"
  defines "A \<equiv> of_nat (a + tot L)" and "m1 \<equiv> unlinked c a L m"
  shows "\<exists>m2. prvInsertBlockIntoFreeList (A + of_nat w) c
      (set_size A (of_nat w) (set_size (A + of_nat w) (xBlockSize m1 A - of_nat w) m1)) = Some m2 \<and>
    xBlockSize m2 A = of_nat w \<and>
    heap_ok c' (set_next A NULL (set_size A (xBlockSize m2 A OR xBlockAllocatedBit m2) m2)) a
      (L @ (w, True) # (k - w, False) # R)"
proof -
  let ?bs = "L @ (k, False) # R" and ?L = "L @ [(w, True)]"
  let ?e = "a + tot ?bs"
  note D = heap_okD [OF ok] and u = unlinked_ok [OF ok, folded m1_def]
  define B where "B = (of_nat (a + tot ?L) :: u32)"
  have AB: "A + of_nat w = B" by (simp add: A_def B_def add_ac)
  have szA: "xBlockSize m1 A = of_nat k" using D(4) u(2) by (simp add: A_def)
  define m' where "m' = set_size A (of_nat w) (set_size B (of_nat (k - w)) m1)"
  have b: "?e + 8 \<le> 2 ^ 32" "8 \<le> k" "4 dvd k" using bs_split_bounds [OF ok refl] by auto
  have so: "sizes_ok (?L @ (k - w, True) # R)" "a + tot (?L @ (k - w, True) # R) = ?e"
    using D(2) w b by auto
  have nA: "A \<noteq> B" "A \<noteq> of_nat ?e" "B \<noteq> of_nat ?e"
    unfolding A_def B_def using b w by (subst of_nat_u32_eq; simp)+
  have st: "xStart c \<noteq> A" "xStart c \<noteq> B"
    unfolding A_def B_def using start_outside [OF D(1)] w by (simp_all del: of_nat_add)
  have oth: "xBlockSize m' y = xBlockSize m y" if "y \<noteq> A" "y \<noteq> B" for y
    using that u(2) by (simp add: m'_def set_size_def)
  have nx: "pxNextFreeBlock m' = pxNextFreeBlock m1" by (simp add: m'_def set_size_def)
  have soL: "sizes_ok (L @ (w, True) # [])" "a + tot (L @ (w, True) # []) < 2 ^ 32" "?e < 2 ^ 32"
    using so b by auto
  have neL: "(of_nat x :: u32) \<noteq> A \<and> (of_nat x :: u32) \<noteq> B" if "(x, j, v) \<in> set (blocks a L)" for x j v
    using that neighbours(3) [OF soL(1,2), of x j v] neighbours(3) [OF so(1), of a x j v] so(2) soL(3)
    by (simp add: A_def B_def del: of_nat_add)
  have neR: "(of_nat x :: u32) \<noteq> A \<and> (of_nat x :: u32) \<noteq> B" if "(x, j, v) \<in> set (blocks (a + tot L + k) R)" for x j v
    using that neighbours(4) [OF D(2), of a x j v] neighbours(4) [OF so(1), of a x j v] so(2) soL(3) w
    by (simp add: A_def B_def add.assoc del: of_nat_add)
  have szF: "xBlockSize m' (of_nat x) = xBlockSize m (of_nat x)"
    if "x \<in> set (frees a L) \<or> x \<in> set (frees (a + tot L + k) R)" for x
    using that neL neR unfolding frees_blocks by (metis oth)
  have hm: "free_hdr m a L" "free_hdr m (a + tot L + k) R" using D(4) by simp_all
  have fh: "free_hdr m' a L" "free_hdr m' (a + tot L + k) R"
    by (rule free_hdr_cong [OF hm(1) szF], erule disjI1) (rule free_hdr_cong [OF hm(2) szF], erule disjI2)
  have i: "insertable m' c a ?L (k - w) R ?e"
    unfolding insertable_def
    using so u(1) D(1) fh nx oth [of "xStart c"] st nA b w
    by (simp add: heap_frame_def m'_def set_size_def B_def add.assoc)
  define m2 where "m2 = insert_result m' c a ?L (k - w) R"
  have pf: "put_free ?L (k - w) R = L @ (w, True) # (k - w, False) # R"
    using coalesced_taken(2) [OF D(3)]
    by (simp add: put_free_def cut_left_def cut_right_def left_free_def merged_size_def)
  have so2: "sizes_ok (L @ (w, True) # (k - w, False) # R)" "a + tot (L @ (w, True) # (k - w, False) # R) = ?e"
    using so by simp_all
  note frm = insert_frame [OF i, folded m2_def, unfolded pf]
  have usedf: "xBlockSize m2 (of_nat x) = xBlockSize m' (of_nat x) \<and> pxNextFreeBlock m2 (of_nat x) = pxNextFreeBlock m1 (of_nat x)"
    if x: "(x, j, True) \<in> set (blocks a (L @ (w, True) # (k - w, False) # R))" for x j
    using frm(1,2) [OF used_not_free [OF x so2(1)]] blocks_bounds [OF x so2(1)] so2(2) nx by simp
  have szA2: "xBlockSize m2 A = of_nat w"
    using usedf [of "a + tot L" w] nA(1) by (simp add: A_def m'_def set_size_def)
  have used2: "xBlockSize m2 (of_nat x) = xBlockSize m1 (of_nat x) \<and> pxNextFreeBlock m2 (of_nat x) = pxNextFreeBlock m1 (of_nat x)"
    if "(x, j, True) \<in> set (blocks a L) \<or> (x, j, True) \<in> set (blocks (a + tot L + k) R)" for x j
  proof -
    have x: "(x, j, True) \<in> set (blocks a (L @ (w, True) # (k - w, False) # R))"
      using that w by (auto simp: add.assoc)
    have "of_nat x \<noteq> A \<and> of_nat x \<noteq> B" using that neL neR by blast
    then show ?thesis using usedf [OF x] oth [of "of_nat x"] u(2) by simp
  qed
  have u2: "used_hdr m2 a L" "used_hdr m2 (a + tot L + k) R"
    by (rule used_hdr_cong [OF u(5) used2], erule disjI1) (rule used_hdr_cong [OF u(6) used2], erule disjI2)
  have e: "?e \<notin> set (frees a (L @ (w, True) # (k - w, False) # R))"
    using frees_bounds(2) [OF _ so2(1)] so2(2) by fastforce
  have "heap_ok c' (set_next A NULL (set_size A (xBlockSize m2 A OR xBlockAllocatedBit m2) m2)) a
      (L @ (w, True) # (k - w, False) # R)"
    unfolding A_def
  proof (rule mark_used)
    show "heap_frame c m2 a (a + tot (L @ (w, True) # (k - w, False) # R))"
      unfolding so2(2)
      using u(4) frm [OF e] nx oth [of "of_nat ?e"] oth [of "xStart c"] nA st
      by (simp add: heap_frame_def u(2,3) m'_def set_size_def del: of_nat_add)
    show "coalesced (L @ (w, True) # (k - w, False) # R)"
      using coalesced_taken(1) [OF D(3), of w] w by (simp add: taken_def split: if_splits)
    show "free_hdr m2 a (L @ (w, True) # (k - w, False) # R)" using insert_free_hdr [OF i] by (simp add: m2_def pf)
    show "used_hdr m2 (a + tot L + w) ((k - w, False) # R)" using u2 w by (simp add: add.assoc)
    show "links (pxNextFreeBlock m2) (xStart c) (frees a (L @ (w, True) # (k - w, False) # R)) (pxEnd c)"
      using insert_links [OF i] by (simp only: m2_def pf)
    show "xBlockSize m2 (of_nat (a + tot L)) = of_nat w" using szA2 by (simp only: A_def)
  qed (use so2 u2 c' in simp_all)
  moreover have "of_nat k - of_nat w = (of_nat (k - w) :: u32)" using w by simp
  ultimately show ?thesis
    using insert_block_result [OF i] szA2 unfolding AB szA m2_def m'_def B_def by simp
qed

lemma with_free_cases:
  "(let c1 = c\<lparr>xFreeBytesRemaining := of_nat n\<rparr>
    in if of_nat n < xMinimumEverFreeBytesRemaining c1 then c1\<lparr>xMinimumEverFreeBytesRemaining := of_nat n\<rparr> else c1) =
   with_free n c"
  by (cases c) (auto simp: with_free_def min_def Let_def not_le dest: leD)

lemma with_free_simps [simp]:
  "pxEnd (with_free n c) = pxEnd c" "xStart (with_free n c) = xStart c"
  "xFreeBytesRemaining (with_free n c) = of_nat n" "heap_buf (with_free n c) = heap_buf c"
  "xMinimumEverFreeBytesRemaining (with_free n c) \<le> of_nat n"
  by (simp_all add: with_free_def)

lemma take_block_eq:
  assumes "pxNextFreeBlock m P = A" and "m1 = set_next P (pxNextFreeBlock m A) m"
    and "(if xBlockSize m1 A - w > heapMINIMUM_BLOCK_SIZE
          then prvInsertBlockIntoFreeList (A + w) c (set_size A w (set_size (A + w) (xBlockSize m1 A - w) m1))
          else Some m1) = Some m2"
    and "xFreeBytesRemaining c - xBlockSize m2 A = of_nat n"
  shows "take_block w P A c m =
    Some (with_free n c, set_next A NULL (set_size A (xBlockSize m2 A OR xBlockAllocatedBit m2) m2), A + xHeapStructSize)"
  unfolding take_block_def Let_def assms(1) assms(2) [symmetric]
  using assms(3,4) with_free_cases [of n c, unfolded Let_def] by (auto split: if_splits)

lemma take_block_ok:
  assumes ok: "heap_ok c m a (L @ (k, False) # R)" and w: "8 \<le> w" "4 dvd w" "w \<le> k"
  shows "\<exists>m'. take_block (of_nat w) (lastp (xStart c) (frees a L)) (of_nat (a + tot L)) c m =
      Some (with_free (free_total (L @ taken w k R)) c, m', of_nat (a + tot L) + 8) \<and>
    heap_ok (with_free (free_total (L @ taken w k R)) c) m' a (L @ taken w k R)"
proof -
  define A where "A = (of_nat (a + tot L) :: u32)"
  define m1 where "m1 = unlinked c a L m"
  note D = heap_okD [OF ok] and u = unlinked_ok [OF ok, folded m1_def]
  have szA: "xBlockSize m1 A = of_nat k" using D(4) u(2) by (simp add: A_def)
  have m1: "m1 = set_next (lastp (xStart c) (frees a L)) (pxNextFreeBlock m A) m"
    by (simp only: m1_def unlinked_def A_def)
  have k: "k < 2 ^ 31" using bs_split_bounds(4) [OF ok refl] .
  have gt: "(of_nat k - of_nat w :: u32) > heapMINIMUM_BLOCK_SIZE \<longleftrightarrow> k - w > 16"
  proof -
    have "(of_nat k - of_nat w :: u32) = of_nat (k - w)" using w by simp
    moreover have "heapMINIMUM_BLOCK_SIZE = of_nat 16"
      by (simp add: heapMINIMUM_BLOCK_SIZE_def xHeapStructSize_def sizeof_BlockLink_t_def
          portBYTE_ALIGNMENT_def portBYTE_ALIGNMENT_MASK_def)
    moreover have "(of_nat 16 :: u32) < of_nat (k - w) \<longleftrightarrow> 16 < k - w" using k by (subst of_nat_u32_less) auto
    ultimately show ?thesis by simp
  qed
  have hs: "xHeapStructSize = 8"
    by (simp add: xHeapStructSize_def sizeof_BlockLink_t_def portBYTE_ALIGNMENT_def portBYTE_ALIGNMENT_MASK_def)
  let ?new = "free_total (L @ taken w k R)"
  have f0: "xFreeBytesRemaining c = of_nat (free_total L + k + free_total R)" using D(7) by simp
  have sub: "of_nat (free_total L + k + free_total R) - of_nat j = (of_nat (free_total L + (k - j) + free_total R) :: u32)"
    if "j \<le> k" for j using that by simp
  have cm: "xMinimumEverFreeBytesRemaining (with_free ?new c) \<le> xFreeBytesRemaining (with_free ?new c)"
    by (simp only: with_free_simps)
  show ?thesis
  proof (cases "k - w > 16")
    case True
    then have w16: "w + 16 < k" by simp
    have nw: "?new = free_total L + (k - w) + free_total R" using True by (simp add: taken_def)
    have cw: "xFreeBytesRemaining (with_free ?new c) = of_nat (free_total L + (k - w) + free_total R)"
      by (simp only: nw with_free_simps)
    obtain m2 where m2: "prvInsertBlockIntoFreeList (A + of_nat w) c
        (set_size A (of_nat w) (set_size (A + of_nat w) (xBlockSize m1 A - of_nat w) m1)) = Some m2"
      "xBlockSize m2 A = of_nat w"
      "heap_ok (with_free ?new c) (set_next A NULL (set_size A (xBlockSize m2 A OR xBlockAllocatedBit m2) m2)) a
        (L @ (w, True) # (k - w, False) # R)"
      using take_split_ok [OF ok w(1,2) w16 with_free_simps(1,2) [of ?new c] cw cm] unfolding A_def m1_def by blast
    have fr: "xFreeBytesRemaining c - of_nat w = of_nat ?new"
      unfolding nw f0 by (rule sub) (rule w(3))
    have "take_block (of_nat w) (lastp (xStart c) (frees a L)) A c m = Some (with_free ?new c,
        set_next A NULL (set_size A (xBlockSize m2 A OR xBlockAllocatedBit m2) m2), A + xHeapStructSize)"
      by (rule take_block_eq [OF _ m1]) (use m2 True gt szA u(7) fr in \<open>simp_all only: A_def if_True\<close>)
    then show ?thesis using m2(3) True unfolding A_def hs by (simp only: taken_def if_True) blast
  next
    case False
    have nw: "?new = free_total L + free_total R" using False by (simp add: taken_def)
    have fr: "xFreeBytesRemaining c - of_nat k = of_nat ?new"
      unfolding nw f0 by simp
    have cw: "xFreeBytesRemaining (with_free ?new c) = of_nat (free_total L + free_total R)"
      by (simp only: nw with_free_simps)
    have "take_block (of_nat w) (lastp (xStart c) (frees a L)) A c m = Some (with_free ?new c,
        set_next A NULL (set_size A (xBlockSize m1 A OR xBlockAllocatedBit m1) m1), A + xHeapStructSize)"
      by (rule take_block_eq [OF _ m1]) (use False gt szA u(7) fr in \<open>simp_all only: A_def if_False\<close>)
    then show ?thesis
      using take_whole_ok(1) [OF ok with_free_simps(1,2) [of ?new c] cw cm] False
      unfolding A_def m1_def hs by (simp only: taken_def if_False) blast
  qed
qed

section \<open>Rounding\<close>

lemma and_3_take_bit: "(w AND 3 :: u32) = take_bit 2 w"
proof -
  have "(3 :: u32) = mask 2" by (simp add: mask_eq_decr_exp)
  then show ?thesis by (simp add: take_bit_eq_mask)
qed

lemma and_3: "unat (w AND 3 :: u32) = unat w mod 4"
  by (simp add: and_3_take_bit take_bit_eq_mod unat_mod)

lemma and_3_eq: "(w AND 3 :: u32) = of_nat (unat w mod 4)"
  by (metis and_3 of_nat_unat ucast_id)

lemma and_not_3: "(w AND NOT 3 :: u32) = of_nat (unat w - unat w mod 4)"
proof -
  have "w AND NOT 3 = w AND NOT (w AND 3)" by (rule bit_eqI) (auto simp: bit_simps)
  also have "\<dots> = w - (w AND 3)"
    by (rule disjunctive_diff_eq_and_not [symmetric]) (rule bit_eqI, auto simp: bit_simps)
  also have "\<dots> = of_nat (unat w) - of_nat (unat w mod 4)" by (simp add: and_3_eq)
  also have "\<dots> = of_nat (unat w - unat w mod 4)" by (simp add: of_nat_diff)
  finally show ?thesis .
qed

definition want :: "nat \<Rightarrow> nat" where
  "want n = (n + 11) div 4 * 4"

lemma want_bounds: "n + 8 \<le> want n" "want n < n + 12" "4 dvd want n" "8 \<le> want n"
  by (simp_all add: want_def)

lemma wanted_size_eq:
  assumes "0 < n" and "n < 2 ^ 31"
  shows "wanted_size (of_nat n) = of_nat (want n)"
proof -
  have hs: "xHeapStructSize = 8"
    by (simp add: xHeapStructSize_def sizeof_BlockLink_t_def portBYTE_ALIGNMENT_def portBYTE_ALIGNMENT_MASK_def)
  have n0: "(0 :: u32) < of_nat n" using of_nat_u32_less [of 0 n] assms by simp
  have "(of_nat n + 8 :: u32) = of_nat (n + 8)" by simp
  then have u: "unat (of_nat n + 8 :: u32) = n + 8"
    using assms by (simp only: unat_of_nat take_bit_eq_mod) simp
  show ?thesis
  proof (cases "(n + 8) mod 4 = 0")
    case True
    then have "want n = n + 8" by (simp add: want_def) presburger
    then show ?thesis
      using True n0 u by (simp add: wanted_size_def hs and_3_eq portBYTE_ALIGNMENT_MASK_def)
  next
    case False
    then have m: "(n + 8) mod 4 < 4" "want n = n + 8 + (4 - (n + 8) mod 4)" by (simp_all add: want_def) presburger
    have "(of_nat ((n + 8) mod 4) :: u32) \<noteq> of_nat 0" using False m(1) by (subst of_nat_u32_eq) simp_all
    moreover have "(4 - of_nat ((n + 8) mod 4) :: u32) = of_nat (4 - (n + 8) mod 4)"
      using m(1) by (simp add: of_nat_diff)
    ultimately show ?thesis
      using n0 u by (simp add: wanted_size_def hs and_3_eq m(2) portBYTE_ALIGNMENT_MASK_def portBYTE_ALIGNMENT_def)
  qed
qed

section \<open>Allocation\<close>

lemma top_bit_clear: "(x AND push_bit 31 1 :: u32) = 0 \<longleftrightarrow> unat x < 2 ^ 31"
proof -
  have "bit (unat x) 31 \<longleftrightarrow> bit x 31" by (simp add: bit_unsigned_iff)
  moreover have "bit (unat x) 31 \<longleftrightarrow> odd (unat x div 2 ^ 31)" by (rule bit_iff_odd)
  moreover have "unat x div 2 ^ 31 < 2" using unat_u32_less [of x] by simp
  moreover have "d < 2 \<Longrightarrow> odd d \<longleftrightarrow> d \<noteq> 0" for d :: nat by presburger
  moreover have "unat x div 2 ^ 31 = 0 \<longleftrightarrow> unat x < 2 ^ 31" by (simp add: div_eq_0_iff)
  ultimately have "bit x 31 \<longleftrightarrow> \<not> unat x < 2 ^ 31" by metis
  moreover have "bit (x AND push_bit 31 1) i \<longleftrightarrow> i = 31 \<and> bit x 31" for i by (auto simp: bit_simps bit_31)
  then have "(x AND push_bit 31 1) = 0 \<longleftrightarrow> \<not> bit x 31"
    using bit_eq_iff [of "x AND push_bit 31 1" 0] by auto
  ultimately show ?thesis by simp
qed

lemma fits_free_total: "b \<in> set bs \<Longrightarrow> fits w b \<Longrightarrow> w \<le> free_total bs"
proof (induction bs)
  case (Cons b' bs)
  then show ?case by (cases b') (auto simp: fits_def)
qed simp

lemma malloc_core_ok:
  assumes ok: "heap_ok c m a bs" and n: "0 < n" "n < 2 ^ 31"
  shows "case alloc_first (want n) bs of
      None \<Rightarrow> malloc_core (of_nat n) c m = Some (c, m, NULL)
    | Some (bs', d) \<Rightarrow> (\<exists>m'. malloc_core (of_nat n) c m = Some (with_free (free_total bs') c, m', of_nat (a + d) + 8) \<and>
        heap_ok (with_free (free_total bs') c) m' a bs')"
proof -
  note D = heap_okD [OF ok]
  have e: "pxEnd c \<noteq> NULL" "pxNextFreeBlock m (pxEnd c) = NULL" "a + tot bs < 2 ^ 32" "0 < a"
    "xBlockAllocatedBit m = push_bit 31 1"
  proof -
    have "(of_nat (a + tot bs) :: u32) \<noteq> of_nat 0" using D(1) by (subst of_nat_u32_eq) (auto simp: heap_frame_def)
    then show "pxEnd c \<noteq> NULL" using D(1) by (simp add: heap_frame_def NULL_def)
  qed (use D(1) in \<open>auto simp: heap_frame_def\<close>)
  have ws: "wanted_size (of_nat n) = of_nat (want n)" by (rule wanted_size_eq [OF n])
  have wb: "want n < 2 ^ 32" "8 \<le> want n" "4 dvd want n" using want_bounds [of n] n by auto
  have w0: "(0 :: u32) < of_nat (want n)" using of_nat_u32_less [of 0 "want n"] wb by simp
  have tb: "(of_nat n AND push_bit 31 1 :: u32) = 0"
    using n by (simp only: top_bit_clear) (simp add: unat_of_nat take_bit_eq_mod)
  have ft: "free_total bs < 2 ^ 32" using free_total_le [of bs] e by simp
  define r where "r = find_block m (of_nat (want n)) (xStart c) (pxNextFreeBlock m (xStart c))"
  have mc: "malloc_core (of_nat n) c m = (if want n \<le> free_total bs
      then do { (prev, blk) \<leftarrow> r; if blk \<noteq> pxEnd c then take_block (of_nat (want n)) prev blk c m else Some (c, m, NULL) }
      else Some (c, m, NULL))"
    using e(1,5) tb ws w0 wb ft D(7) by (simp add: malloc_core_def r_def Let_def)
  show ?thesis
  proof (cases "\<exists>b \<in> set bs. fits (want n) b")
    case True
    then obtain L k R where bs: "bs = L @ (k, False) # R" "\<forall>b \<in> set L. \<not> fits (want n) b" "want n \<le> k"
      by (rule first_fit)
    have ft': "want n \<le> free_total bs" using True fits_free_total by blast
    have "xBlockSize m (of_nat (a + tot L)) = of_nat k" using D(4) bs(1) by simp
    then have "of_nat (want n) \<le> xBlockSize m (of_nat (a + tot L))"
      using bs(3) bs_split_bounds [OF ok bs(1)] wb by simp
    moreover have "links (pxNextFreeBlock m) (xStart c) (frees a L @ (a + tot L) # frees (a + tot L + k) R) (pxEnd c)"
      using D(6) bs(1) by simp
    moreover have "\<forall>y \<in> set (frees a L @ (a + tot L) # frees (a + tot L + k) R). (of_nat y :: u32) \<noteq> NULL"
      using heap_frees_nonnull [OF ok] bs(1) by simp
    ultimately have r: "r = Some (lastp (xStart c) (frees a L), of_nat (a + tot L))"
      unfolding r_def using heap_sizes_small [OF ok bs(2,1) wb(1)] by (intro find_block_first) auto
    have "(of_nat (a + tot L) :: u32) \<noteq> of_nat (a + tot bs)"
      using bs_split_bounds [OF ok bs(1)] by (subst of_nat_u32_eq) auto
    then have ne: "of_nat (a + tot L) \<noteq> pxEnd c" using D(1) by (simp add: heap_frame_def)
    show ?thesis
      using take_block_ok [OF ok [unfolded bs(1)] wb(2,3) bs(3)] ft'
        alloc_first_split(2) [OF bs(2), of k R] bs(3) ne
      unfolding mc r by (simp add: bs(1) fits_def taken_def)
  next
    case False
    then have "\<forall>y \<in> set (frees a bs). xBlockSize m (of_nat y) < of_nat (want n)"
      using heap_sizes_small [OF ok, of bs "want n" "[]"] wb(1) by simp
    then obtain q where "r = Some (q, pxEnd c)"
      unfolding r_def using find_block_none [OF D(6) _ e(1,2)] heap_frees_nonnull [OF ok] by blast
    then have "malloc_core (of_nat n) c m = Some (c, m, NULL)" by (simp add: mc)
    moreover have "alloc_first (want n) bs = None" using False by (simp add: alloc_first_split)
    ultimately show ?thesis by simp
  qed
qed

lemma malloc_core_refused:
  assumes ok: "heap_ok c m a bs" and n: "x = 0 \<or> 2 ^ 31 \<le> unat x"
  shows "malloc_core x c m = Some (c, m, NULL)"
proof -
  note D = heap_okD [OF ok]
  have "(of_nat (a + tot bs) :: u32) \<noteq> of_nat 0" using D(1) by (subst of_nat_u32_eq) (auto simp: heap_frame_def)
  then have "pxEnd c \<noteq> NULL" using D(1) by (simp add: heap_frame_def NULL_def)
  moreover have "xBlockAllocatedBit m = push_bit 31 1" using D(1) by (simp add: heap_frame_def)
  ultimately show ?thesis
    using n top_bit_clear [of x] by (auto simp: malloc_core_def Let_def wanted_size_def)
qed

section \<open>Initialisation\<close>

text \<open>The heap a buffer of \<open>s\<close> bytes at \<open>b\<close> gives: aligned up at the start, down at the end.\<close>

definition heap_base :: "nat \<Rightarrow> nat" where
  "heap_base b = (b + 3) div 4 * 4"

definition heap_end :: "nat \<Rightarrow> nat \<Rightarrow> nat" where
  "heap_end b s = (b + s - 8) div 4 * 4"

lemma heap_base_bounds: "b \<le> heap_base b" "heap_base b < b + 4" "4 dvd heap_base b"
  "b mod 4 = 0 \<Longrightarrow> heap_base b = b"
  by (simp_all add: heap_base_def) presburger+

lemma heap_init_ok:
  assumes b: "0 < b" "32 \<le> s" "b + s \<le> 2 ^ 32" "s < 2 ^ 31"
    and c: "heap_buf c = of_nat b" "heap_size c = of_nat s" "unat (xStart c) \<notin> {b..<b + s}"
  shows "case prvHeapInit c m of (c', m') \<Rightarrow>
    heap_ok c' m' (heap_base b) [(heap_end b s - heap_base b, False)]"
proof -
  let ?a = "heap_base b" and ?e = "heap_end b s"
  have a: "b \<le> ?a" "?a < b + 4" "4 dvd ?a" by (rule heap_base_bounds)+
  have e: "?e \<le> b + s - 8" "b + s - 8 < ?e + 4" "4 dvd ?e" by (simp_all add: heap_end_def)
  have n: "8 \<le> ?e - ?a" "4 dvd ?e - ?a" "?a < ?e" "?e < 2 ^ 32" "?a < 2 ^ 32" using a e b by auto
  have cst: "portBYTE_ALIGNMENT_MASK = 3" "portBYTE_ALIGNMENT = 4" "xHeapStructSize = 8"
    by (simp_all add: xHeapStructSize_def sizeof_BlockLink_t_def portBYTE_ALIGNMENT_def portBYTE_ALIGNMENT_MASK_def)
  have ub: "unat (of_nat x :: u32) = x" if "x < 2 ^ 32" for x
    using that by (simp add: unat_of_nat take_bit_eq_mod)
  have mis: "(of_nat b AND 3 :: u32) \<noteq> 0 \<longleftrightarrow> b mod 4 \<noteq> 0"
    using of_nat_u32_eq [of "b mod 4" 0] b by (simp add: and_3_eq ub)
  have up: "(of_nat b + 3 AND NOT 3 :: u32) = of_nat ?a"
  proof -
    have "(of_nat b + 3 :: u32) = of_nat (b + 3)" by simp
    then show ?thesis
      using b by (simp only: and_not_3 ub) (simp add: ub heap_base_def minus_mod_eq_div_mult)
  qed
  have dn: "(of_nat b + of_nat s - 8 AND NOT 3 :: u32) = of_nat ?e"
  proof -
    have "(of_nat b + of_nat s - 8 :: u32) = of_nat (b + s - 8)" using b by (simp add: of_nat_diff)
    moreover have "b + s - 8 < 2 ^ 32" using b by simp
    ultimately show ?thesis
      by (simp only: and_not_3 ub) (simp only: heap_end_def minus_mod_eq_div_mult)
  qed
  define m3 where "m3 = set_next (of_nat ?a) (of_nat ?e) (set_size (of_nat ?a) (of_nat (?e - ?a))
     (set_next (of_nat ?e) NULL (set_size (of_nat ?e) 0 (set_size (xStart c) 0 (set_next (xStart c) (of_nat ?a) m)))))"
  have init: "prvHeapInit c m = (c\<lparr>pxEnd := of_nat ?e, xMinimumEverFreeBytesRemaining := of_nat (?e - ?a),
      xFreeBytesRemaining := of_nat (?e - ?a)\<rparr>, m3\<lparr>xBlockAllocatedBit := push_bit 31 1\<rparr>)"
  proof -
    let ?mis = "of_nat b AND (3 :: u32) \<noteq> 0"
    have ea: "(of_nat ?e - of_nat ?a :: u32) = of_nat (?e - ?a)" using n by (simp add: of_nat_diff)
    have A: "(if ?mis then of_nat b + (4 - 1) AND NOT 3 else of_nat b) = (of_nat ?a :: u32)"
      unfolding mis using up heap_base_bounds(4) [of b] by simp
    have E: "(of_nat ?a + (if ?mis then of_nat s - (of_nat ?a - of_nat b) else of_nat s) - 8 AND NOT 3) = (of_nat ?e :: u32)"
    proof -
      have "of_nat ?a + (if ?mis then of_nat s - (of_nat ?a - of_nat b) else of_nat s) - 8 =
          (of_nat b + of_nat s - 8 :: u32)"
        unfolding mis using heap_base_bounds(4) [of b] by simp
      then show ?thesis using dn by (simp only:)
    qed
    have sz: "xBlockSize (set_next p q (set_size p v x)) p = v" for p q v x by (simp add: set_next_def set_size_def)
    show ?thesis
      unfolding prvHeapInit_def cst c Let_def A
      unfolding E
      unfolding ea sz m3_def by (rule refl)
  qed
  have st: "xStart c \<noteq> of_nat ?a" "xStart c \<noteq> of_nat ?e" "unat (xStart c) \<notin> {?a..?e}"
    using c(3) a e n b ub by (auto simp: not_le not_less)
  have ae: "(of_nat ?a :: u32) \<noteq> of_nat ?e" using n by simp
  have "?e + 8 \<le> 2 ^ 32" "?e - ?a < 2 ^ 31" using a b e by linarith+
  then show ?thesis
    using n a b st ae e by (simp add: init heap_ok_def heap_frame_def m3_def set_next_def set_size_def coalesced_def)
qed

section \<open>What a caller sees\<close>

text \<open>The blocks in use before an allocation are in use after it, and the new one is theirs no part of.\<close>

lemma alloc_first_used:
  assumes al: "alloc_first w bs = Some (bs', d)"
  shows "\<exists>n \<ge> w. (a + d, n, True) \<in> set (blocks a bs') \<and> a + d \<in> set (frees a bs) \<and>
    (\<forall>x k. (x, k, True) \<in> set (blocks a bs') \<longleftrightarrow> (x, k) = (a + d, n) \<or> (x, k, True) \<in> set (blocks a bs))"
proof -
  have ex: "\<exists>b \<in> set bs. fits w b" using al alloc_first_split(1) [of w bs] by auto
  obtain L k R where bs: "bs = L @ (k, False) # R" "\<forall>b \<in> set L. \<not> fits w b" "w \<le> k"
    using first_fit [OF ex] .
  have bs': "bs' = L @ taken w k R" "d = tot L"
    using al alloc_first_split(2) [OF bs(2), of k R] bs by (simp_all add: fits_def taken_def)
  show ?thesis
    by (rule exI [of _ "if k - w > 16 then w else k"])
       (use bs bs' in \<open>auto simp: taken_def add.assoc\<close>)
qed

lemma alloc_free_tiling:
  assumes co: "coalesced bs" and al: "alloc_first w bs = Some (bs', d)"
  obtains L n R where "bs' = L @ (n, True) # R" and "d = tot L" and "put_free L n R = bs"
proof -
  have ex: "\<exists>b \<in> set bs. fits w b" using al alloc_first_split(1) [of w bs] by auto
  obtain L k R where bs: "bs = L @ (k, False) # R" "\<forall>b \<in> set L. \<not> fits w b" "w \<le> k"
    using first_fit [OF ex] .
  have bs': "bs' = L @ taken w k R" "d = tot L"
    using al alloc_first_split(2) [OF bs(2), of k R] bs by (simp_all add: fits_def taken_def)
  have nl: "\<not> left_free L" and nr: "\<not> right_free R"
    using co bs(1) by (auto simp: coalesced_def successively_append_iff successively_Cons left_free_def right_free_def)
  show ?thesis
  proof (cases "k - w > 16")
    case True
    have "put_free L w ((k - w, False) # R) = bs"
      using nl bs(1,3) by (simp add: put_free_def cut_left_def cut_right_def merged_size_def right_free_def)
    then show ?thesis using that [of L w "(k - w, False) # R"] bs' True by (simp add: taken_def)
  next
    case False
    have "put_free L k R = bs"
      using nl nr bs(1) by (simp add: put_free_def cut_left_def cut_right_def merged_size_def)
    then show ?thesis using that [of L k R] bs' False by (simp add: taken_def)
  qed
qed

lemma blocks_aligned:
  "(x, n, u) \<in> set (blocks a bs) \<Longrightarrow> sizes_ok bs \<Longrightarrow> 4 dvd a \<Longrightarrow> 4 dvd x"
proof (induction bs arbitrary: a)
  case (Cons b bs)
  obtain n' u' where b: "b = (n', u')" by (cases b)
  show ?case using Cons.IH [of "a + n'"] Cons.prems b by (auto intro: dvd_add)
qed simp

definition in_use :: "nat \<Rightarrow> hblk list \<Rightarrow> (nat \<times> nat) set" where
  "in_use a bs = {(x, n). (x, n, True) \<in> set (blocks a bs)}"

lemma malloc_spec:
  assumes ok: "heap_ok c m a bs" and x: "0 < unat x" "unat x < 2 ^ 31" and f: "\<exists>b \<in> set bs. fits (want (unat x)) b"
  shows "\<exists>c' m' bs' A n. malloc_core x c m = Some (c', m', of_nat A + 8) \<and> heap_ok c' m' a bs' \<and>
    in_use a bs' = insert (A, n) (in_use a bs) \<and> unat x + 8 \<le> n \<and> 4 dvd A \<and> a \<le> A \<and> A + n \<le> a + tot bs' \<and>
    (\<forall>(y, k) \<in> in_use a bs. y + k \<le> A \<or> A + n \<le> y)"
proof -
  have ux: "of_nat (unat x) = x" by simp
  obtain bs' d where al: "alloc_first (want (unat x)) bs = Some (bs', d)"
    using f alloc_first_split(1) [of "want (unat x)" bs] by (cases "alloc_first (want (unat x)) bs") auto
  obtain m' where m': "malloc_core x c m = Some (with_free (free_total bs') c, m', of_nat (a + d) + 8)"
      "heap_ok (with_free (free_total bs') c) m' a bs'"
    using malloc_core_ok [OF ok x] al ux by auto
  obtain n where n: "want (unat x) \<le> n" "(a + d, n, True) \<in> set (blocks a bs')"
      "\<forall>y k. (y, k, True) \<in> set (blocks a bs') \<longleftrightarrow> (y, k) = (a + d, n) \<or> (y, k, True) \<in> set (blocks a bs)"
      "a + d \<in> set (frees a bs)"
    using alloc_first_used [OF al] by blast
  have so: "sizes_ok bs'" "4 dvd a" using heap_okD(1,2) [OF m'(2)] by (simp_all add: heap_frame_def)
  have nin: "(a + d, n, True) \<notin> set (blocks a bs)"
    using used_not_free [OF _ heap_okD(2) [OF ok]] n(4) by blast
  have dj: "y + k \<le> a + d \<or> a + d + n \<le> y" if "(y, k) \<in> in_use a bs" for y k
    using blocks_disjoint [of y k True a bs' "a + d" n True] n(2,3) so(1) that nin by (auto simp: in_use_def)
  have iu: "in_use a bs' = insert (a + d, n) (in_use a bs)" using n(3) by (auto simp: in_use_def)
  have bd: "a \<le> a + d" "a + d + n \<le> a + tot bs'" using blocks_bounds [OF n(2) so(1)] by simp_all
  have "4 dvd a + d" by (rule blocks_aligned [OF n(2) so])
  then show ?thesis
    using m' iu dj bd n(1) want_bounds(1) [of "unat x"]
    by (intro exI [of _ "with_free (free_total bs') c"] exI [of _ m'] exI [of _ bs'] exI [of _ "a + d"] exI [of _ n]) auto
qed

lemma free_spec:
  assumes ok: "heap_ok c m a bs" and u: "(A, n) \<in> in_use a bs"
  shows "\<exists>c' m' bs'. free_core (of_nat A + 8) c m = Some (c', m') \<and> heap_ok c' m' a bs' \<and>
    in_use a bs' = in_use a bs - {(A, n)} \<and> xFreeBytesRemaining c' = xFreeBytesRemaining c + of_nat n"
proof -
  have u': "(A, n, True) \<in> set (blocks a bs)" using u by (simp add: in_use_def)
  obtain L R where bs: "bs = L @ (n, True) # R" and A: "A = a + tot L" using blocks_split [OF u'] by blast
  obtain c' m' where f: "free_core (of_nat (a + tot L) + 8) c m = Some (c', m')" "heap_ok c' m' a (put_free L n R)"
    "c' = c\<lparr>xFreeBytesRemaining := of_nat (free_total (put_free L n R))\<rparr>"
    using free_core_ok [OF ok [unfolded bs]] by blast
  have so: "sizes_ok L" "sizes_ok R" "8 \<le> n" using heap_okD(2) [OF ok] bs by simp_all
  have "(A, n, True) \<notin> set (blocks a L)" "(A, n, True) \<notin> set (blocks (a + tot L + n) R)"
    using blocks_bounds [of A n True a L] blocks_bounds [of A n True "a + tot L + n" R] so A by auto
  then have "in_use a (put_free L n R) = in_use a bs - {(A, n)}"
    by (auto simp: in_use_def used_put_free bs A)
  moreover have "xFreeBytesRemaining c' = xFreeBytesRemaining c + of_nat n"
    using f(3) heap_okD(7) [OF ok] bs by (simp add: free_total_put_free)
  ultimately show ?thesis using f(1,2) A by blast
qed

lemma malloc_refuses:
  assumes ok: "heap_ok c m a bs" and r: "x = 0 \<or> 2 ^ 31 \<le> unat x \<or> (\<forall>b \<in> set bs. \<not> fits (want (unat x)) b)"
  shows "malloc_core x c m = Some (c, m, NULL)"
proof (cases "x = 0 \<or> 2 ^ 31 \<le> unat x")
  case True
  then show ?thesis by (rule malloc_core_refused [OF ok])
next
  case False
  then have x: "0 < unat x" "unat x < 2 ^ 31" "alloc_first (want (unat x)) bs = None"
    using r by (auto simp: unat_gt_0 alloc_first_split(1))
  then show ?thesis using malloc_core_ok [OF ok x(1,2)] by simp
qed

lemma free_ignores:
  assumes ok: "heap_ok c m a bs"
  shows "free_core NULL c m = Some (c, m)"
    and "(A, n, False) \<in> set (blocks a bs) \<Longrightarrow> free_core (of_nat A + 8) c m = Some (c, m)"
proof -
  show "free_core NULL c m = Some (c, m)" by (simp add: free_core_def)
  show "free_core (of_nat A + 8) c m = Some (c, m)" if f: "(A, n, False) \<in> set (blocks a bs)"
  proof -
    obtain L R where bs: "bs = L @ (n, False) # R" and A: "A = a + tot L" using blocks_split [OF f] by blast
    have n: "n < 2 ^ 31" using bs_split_bounds(4) [OF ok bs] .
    have "xBlockSize m (of_nat A) = of_nat n" using heap_okD(4) [OF ok] bs A by simp
    moreover have "xBlockAllocatedBit m = push_bit 31 1" using heap_okD(1) [OF ok] by (simp add: heap_frame_def)
    moreover have "(of_nat n AND push_bit 31 1 :: u32) = 0"
      using n by (simp only: top_bit_clear) (simp add: unat_of_nat take_bit_eq_mod)
    moreover have "xHeapStructSize = 8"
      by (simp add: xHeapStructSize_def sizeof_BlockLink_t_def portBYTE_ALIGNMENT_def portBYTE_ALIGNMENT_MASK_def)
    ultimately show ?thesis by (simp add: free_core_def)
  qed
qed

lemma malloc_free_spec:
  assumes ok: "heap_ok c m a bs" and x: "0 < unat x" "unat x < 2 ^ 31" and mc: "malloc_core x c m = Some (c', m', p)"
    and p: "p \<noteq> NULL"
  shows "\<exists>c'' m''. free_core p c' m' = Some (c'', m'') \<and> heap_ok c'' m'' a bs \<and>
    xFreeBytesRemaining c'' = xFreeBytesRemaining c"
proof (cases "alloc_first (want (unat x)) bs")
  case None
  then show ?thesis using malloc_core_ok [OF ok x] mc p by simp
next
  case (Some r)
  obtain bs' d where al: "alloc_first (want (unat x)) bs = Some (bs', d)" using Some by (cases r) simp
  have m: "p = of_nat (a + d) + 8" "heap_ok c' m' a bs'" using malloc_core_ok [OF ok x] al mc by auto
  obtain L n R where t: "bs' = L @ (n, True) # R" "d = tot L" "put_free L n R = bs"
    using alloc_free_tiling [OF heap_okD(3) [OF ok] al] .
  obtain c'' m'' where "free_core p c' m' = Some (c'', m'')" "heap_ok c'' m'' a bs"
    using free_core_ok [OF m(2) [unfolded t(1)]] m(1) t(2,3) by auto
  then show ?thesis using heap_okD(7) [OF ok] heap_okD(7) [of c'' m'' a bs] by auto
qed

end
