(* ===== verification/Scenario.thy ===== *)
theory Scenario
  imports Machine EventOrder Fpu Heap4Ok
begin

unbundle bit_operations_syntax

text \<open>
  Concrete states on which the hypotheses of the properties hold: the kernel as it comes out
  of reset with the event lists of one queue, one event group and the timers initialised, a system with the idle task and
  one application task of priority 3 built by the model's own creation code, and states
  reached from it by the operations of the kernel. A small heap completes the picture.
\<close>

section \<open>From reset to a running scheduler\<close>

definition empty_store :: store where
  "empty_store = \<lparr>pxNext = (\<lambda>n. n), pxPrevious = (\<lambda>n. n), xItemValue = (\<lambda>_. 0), pvOwner = (\<lambda>_. 0),
     pvContainer = (\<lambda>_. None), uxNumberOfItems = (\<lambda>_. 0), pxIndex = End\<rparr>"

abbreviation boot_lists :: "lid list" where
  "boot_lists \<equiv> [TasksWaitingToSend 0, TasksWaitingToReceive 0, TasksWaitingForBits 0, TimerList1, TimerList2]"

definition boot0 :: kernel where
  "boot0 = \<lparr>lists = fold vListInitialise boot_lists empty_store, evlists = set boot_lists, tcb = (\<lambda>_. fresh_TCB 0), live = {},
     pxCurrentTCB = None, pxFpTcbOwner = None, pxDelayedTaskList = Delayed1,
     pxOverflowDelayedTaskList = Delayed2, uxTasksDeleted = 0, uxCurrentNumberOfTasks = 0, xTickCount = 0,
     uxTopReadyPriority = 0, xSchedulerRunning = False, uxPendedTicks = 0, xYieldPending = False,
     xNumOfOverflows = 0, uxTaskNumber = 0, xNextTaskUnblockTime = 0, uxSchedulerSuspended = 0,
     ulCriticalNesting = 0, ulPortYieldPending = False, interrupts_on = True, cr0_TS = False,
     fpu_regs = 0, fpu_mem = (\<lambda>_. 0), currentNumberOfFpTasks = 0, ext_calls = []\<rparr>"

definition demo1 :: kernel where
  "demo1 = create_core 7 0 (prvInitialiseTCBVariables 7 ''IDLE'' 0 boot0)"

definition demo2 :: kernel where
  "demo2 = create_core 2 3 (prvInitialiseTCBVariables 2 ''app'' 3 demo1)"

definition demo :: kernel where
  "demo = started demo2"

lemma container_initialise_all: "pvContainer (fold vListInitialise ls s) = pvContainer s"
  by (induction ls arbitrary: s) simp_all

lemma boot0_ok: "boot_state boot0"
proof -
  have "wf_lists {} empty_store" by (simp add: wf_lists_def empty_store_def)
  from initialise_all(1) [OF this, of boot_lists]
  have "wf_lists (evlists boot0) (lists boot0)" by (simp add: boot0_def)
  then show ?thesis by (simp add: boot_state_def boot0_def empty_store_def)
qed

lemmas boot_unfold = create_core_def Let_def prvInitialiseTCBVariables_alt
  initialise_task_lists_alt vPortEnterCritical_def vPortExitCritical_def prvAddTaskToReadyList_def
  taskRECORD_READY_PRIORITY_def init_TCB_def new_priority_def new_items_def configMAX_PRIORITIES_def

lemmas demo1_facts = create_first_ok [OF boot0_ok demo1_def]

lemma demo1_fields:
  "uxSchedulerSuspended demo1 = 0" "ulCriticalNesting demo1 = 0" "\<not> ulPortYieldPending demo1"
  "\<not> xSchedulerRunning demo1" "xTickCount demo1 = 0" "uxPendedTicks demo1 = 0" "prio demo1 7 = 0"
  "econt demo1 t = None" "evlists demo1 = set boot_lists"
  "xNumOfOverflows demo1 = 0" "pxFpTcbOwner demo1 = None" "nstate demo1 7 = eNotWaitingNotification" "nval demo1 7 = 0"
  by (simp_all add: demo1_def boot_unfold boot0_def empty_store_def container_initialise_all)

lemma demo2_facts:
  "kinv {} demo2" "gcont demo2 2 = Some (Ready 3)" "gcont demo2 7 = Some (Ready 0)" "live demo2 = {2, 7}"
  "econt demo2 t = None" "prio demo2 2 = 3" "prio demo2 7 = 0"
proof -
  have n: "Suc (card (live demo1)) < 2 ^ 31" "2 \<notin> live demo1" "live demo1 \<noteq> {}" by (simp_all add: demo1_facts)
  note c = create_ok [OF demo1_facts(1) n(2,1,3) demo2_def]
  show "kinv {} demo2" "gcont demo2 2 = Some (Ready 3)" "prio demo2 2 = 3"
    using c(1-3) by (simp_all add: new_priority_def configMAX_PRIORITIES_def)
  show "gcont demo2 7 = Some (Ready 0)" "live demo2 = {2, 7}" "econt demo2 t = None" "prio demo2 7 = 0"
    using c(4) [of 7] c(5) fun_cong [OF c(6), of t] c(7) [of 7] demo1_facts(3,4) demo1_fields(7) demo1_fields(8) [of t]
    by (auto simp: new_priority_def configMAX_PRIORITIES_def)
qed

lemma demo2_fields:
  "pxCurrentTCB demo2 = Some 2" "uxSchedulerSuspended demo2 = 0" "ulCriticalNesting demo2 = 0"
  "\<not> ulPortYieldPending demo2" "\<not> xSchedulerRunning demo2" "xTickCount demo2 = 0" "uxPendedTicks demo2 = 0"
  "evlists demo2 = set boot_lists" "xNumOfOverflows demo2 = 0"
  "pxFpTcbOwner demo2 = None" "nstate demo2 7 = eNotWaitingNotification" "nval demo2 7 = 0"
  "nstate demo2 2 = eNotWaitingNotification" "nval demo2 2 = 0"
  by (simp_all add: demo2_def boot_unfold cur_def demo1_facts(2) demo1_fields)

lemma demo2_untimed: "\<not> timed demo2 t"
  using demo2_facts(2-4) kinv_liveD(1) [OF demo2_facts(1), of t] by (auto simp: timed_def)

lemma demo2_base: "uxBasePriority (tcb demo2 7) = 0"
  using create_ok(7) [OF demo1_facts(1) _ _ _ demo2_def, of 7]
  by (simp add: demo1_facts demo1_def boot_unfold boot0_def)

lemma demo_base: "uxBasePriority (tcb demo 7) = 0"
  by (simp add: demo_def demo2_base)

lemma demo_facts:
  "kinv {} demo" "gcont demo 2 = Some (Ready 3)" "gcont demo 7 = Some (Ready 0)" "live demo = {2, 7}"
  "econt demo t = None" "prio demo 2 = 3" "prio demo 7 = 0" "running_task demo 2" "cur demo = 2"
proof -
  show "kinv {} demo" unfolding demo_def by (rule kinv_started [OF demo2_facts(1) demo2_untimed])
  show "gcont demo 2 = Some (Ready 3)" "gcont demo 7 = Some (Ready 0)" "live demo = {2, 7}"
    "econt demo t = None" "prio demo 2 = 3" "prio demo 7 = 0" "running_task demo 2" "cur demo = 2"
    using demo2_facts demo2_fields by (simp_all add: demo_def running_task_def cur_def)
qed

lemma demo_fields:
  "pxCurrentTCB demo = Some 2" "uxSchedulerSuspended demo = 0" "ulCriticalNesting demo = 0"
  "\<not> ulPortYieldPending demo" "xSchedulerRunning demo" "xTickCount demo = 0" "uxPendedTicks demo = 0"
  "evlists demo = set boot_lists" "xNumOfOverflows demo = 0"
  "pxFpTcbOwner demo = None" "nstate demo 7 = eNotWaitingNotification" "nval demo 7 = 0"
  "nstate demo 2 = eNotWaitingNotification" "nval demo 2 = 0"
  using demo2_fields by (simp_all add: demo_def)

lemma demo_reachable: "reachable demo"
proof -
  have r1: "reachable demo1" unfolding demo1_def by (rule reachable.first [OF boot0_ok])
  have "kstep demo1 demo2" unfolding demo2_def by (rule kstep.create) (simp_all add: demo1_facts)
  with r1 have r2: "reachable demo2" by (rule reachable.step)
  have "kstep demo2 demo" unfolding demo_def
    by (rule kstep.start) (simp_all add: demo2_fields demo2_untimed)
  with r2 show ?thesis by (rule reachable.step)
qed

lemma demo_handles: "handle_ok demo (Some 7)" "handle_ok demo (Some 2)" "handle_ok demo None"
  by (simp_all add: handle_ok_def prvGetTCBFromHandle_def demo_facts)

lemma demo_notifiable: "notifiable demo 7" "notifiable demo 2"
  by (simp_all add: notifiable_def demo_facts)

lemma demo_event: "event_ready demo 2 (TasksWaitingToReceive 0)"
  by (simp add: event_ready_def demo_facts demo_fields timer_lists_def)

lemma demo_pending: "pending demo = {}"
  by (simp add: pending_def demo_facts)

section \<open>A small heap\<close>

definition demo_ctx :: xHeapCtx_t where
  "demo_ctx = \<lparr>heap_buf = 4096, heap_size = 256, xStart = 16, pxEnd = 0,
     xMinimumEverFreeBytesRemaining = 0, xFreeBytesRemaining = 0\<rparr>"

definition demo_mem :: heap_mem where
  "demo_mem = \<lparr>pxNextFreeBlock = (\<lambda>_. 0), xBlockSize = (\<lambda>_. 0), xBlockAllocatedBit = 0\<rparr>"

definition heap_c :: xHeapCtx_t where
  "heap_c = fst (prvHeapInit demo_ctx demo_mem)"

definition heap_m :: heap_mem where
  "heap_m = snd (prvHeapInit demo_ctx demo_mem)"

lemma heap_demo: "heap_ok heap_c heap_m 4096 [(248, False)]"
  using heap_init_ok [of 4096 256 demo_ctx demo_mem]
  by (simp add: demo_ctx_def heap_c_def heap_m_def heap_base_def heap_end_def split: prod.splits)

lemma heap_demo_malloc:
  "\<exists>m'. malloc_core 20 heap_c heap_m = Some (with_free 220 heap_c, m', 4104) \<and>
     heap_ok (with_free 220 heap_c) m' 4096 [(28, True), (220, False)]"
proof -
  have "alloc_first (want 20) [(248, False)] = Some ([(28, True), (220, False)], 0)"
    by (simp add: fits_def want_def)
  then show ?thesis using malloc_core_ok [OF heap_demo, of 20] by simp
qed

section \<open>States reached from the running system\<close>

lemma exit_quiet_pending: "\<not> ulPortYieldPending k \<Longrightarrow> \<not> ulPortYieldPending (vPortExitCritical k)"
  by (simp add: vPortExitCritical_def Let_def)

lemma exit_nesting: "ulCriticalNesting k = 1 \<Longrightarrow> ulCriticalNesting (vPortExitCritical k) = 0"
  by (simp add: vPortExitCritical_def vPortYieldCall_def Let_def)

lemma suspend_core_fields:
  "pxCurrentTCB (suspend_core t k) = pxCurrentTCB k" "ulPortYieldPending (suspend_core t k) = ulPortYieldPending k"
  "ulCriticalNesting (suspend_core t k) = ulCriticalNesting k" "xSchedulerRunning (suspend_core t k) = xSchedulerRunning k"
  "uxSchedulerSuspended (suspend_core t k) = uxSchedulerSuspended k"
  "uxCurrentNumberOfTasks (suspend_core t k) = uxCurrentNumberOfTasks k"
  by (simp_all add: suspend_core_def Let_def)

lemma demo_suspend_other: "pxCurrentTCB (vTaskSuspend (Some 7) demo) \<noteq> Some 7"
proof -
  define k5 where "k5 = vPortExitCritical (suspend_core 7 (vPortEnterCritical demo))"
  have k5: "pxCurrentTCB k5 = Some 2" "\<not> ulPortYieldPending k5"
    unfolding k5_def using demo_fields
    by (simp_all add: exit_critical_quiet exit_quiet_pending suspend_core_fields)
  have "vTaskSuspend (Some 7) demo = (if xSchedulerRunning k5
      then vPortExitCritical (prvResetNextTaskUnblockTime (vPortEnterCritical k5)) else k5)"
    using k5 by (simp add: vTaskSuspend_alt Let_def prvGetTCBFromHandle_def k5_def)
  then show ?thesis using k5 by (simp add: exit_critical_quiet)
qed

text \<open>The idle task alone, the application task suspended.\<close>

definition demo_idle :: kernel where
  "demo_idle = vTaskSuspend None demo"

lemma length_items:
  assumes "kinv {} k" and "l \<in> KL k"
  shows "length (items (lists k) l) = card {i. pvContainer (lists k) i = Some l}"
  using set_items [OF kinv_wf [OF assms(1)] assms(2)] distinct_card [OF distinct_items [OF kinv_wf [OF assms(1)] assms(2)]]
  by simp

lemma demo_idle_facts:
  "kinv {} demo_idle" "running_task demo_idle 7" "eTaskConfirmSleepModeStatus demo_idle = eNoTasksWaitingTimeout"
proof -
  define k5 where "k5 = vPortExitCritical (suspend_core 2 (vPortEnterCritical demo))"
  have h: "2 = prvGetTCBFromHandle None demo" by (simp add: prvGetTCBFromHandle_def demo_facts)
  note s = suspend_ok [OF demo_facts(1) demo_handles(3) h, folded demo_idle_def]
  show k: "kinv {} demo_idle" by (rule s(1))
  have "kinv {} (vPortEnterCritical demo)" "2 \<in> live (vPortEnterCritical demo)"
    "gcont (vPortEnterCritical demo) 2 \<noteq> Some Termination" using demo_facts by simp_all
  note sc = suspend_core_ok [OF this]
  have k5: "kinv {} k5" unfolding k5_def by (rule kinv_exit_critical [OF sc(1)])
  have f5: "pxCurrentTCB k5 = Some 2" "ulCriticalNesting k5 = 0" "uxSchedulerSuspended k5 = 0" "xSchedulerRunning k5"
    "live k5 = {2, 7}" "gcont k5 7 = Some (Ready 0)"
    unfolding k5_def using demo_fields demo_facts sc(2,5)
    by (simp_all add: exit_critical_quiet suspend_core_fields exit_nesting)
  have eq: "demo_idle = vTaskSwitchContext k5"
    using f5 by (simp add: demo_idle_def vTaskSuspend_alt Let_def k5_def flip: h)
       (simp add: portYIELD_def vPortYieldCall_def)
  have lv: "live demo_idle = {2, 7}" using f5(5) by (simp add: eq)
  have g: "gcont demo_idle 2 = Some Suspended" "gcont demo_idle 7 = Some (Ready 0)" "econt demo_idle u = None" for u
    using s(2) demo_facts by simp_all
  obtain t where t: "pxCurrentTCB demo_idle = Some t" "highest_ready demo_idle t"
    using switch_selects [OF k5 f5(3,6)] by (auto simp: eq)
  have "gcont demo_idle t = Some (Ready (prio demo_idle t))" using t(2) by (simp add: highest_ready_def)
  moreover from this have "t \<in> {2, 7}" using kinv_liveD(1) [OF k] lv by blast
  ultimately show "running_task demo_idle 7" using t(1) g(1) by (auto simp: running_task_def)
  have gl: "gcont demo_idle u = Some l \<Longrightarrow> u = 2 \<and> l = Suspended \<or> u = 7 \<and> l = Ready 0" for u l
    using kinv_liveD(1) [OF k, of u l] lv g by auto
  have tm: "pvContainer (lists demo_idle) (TimerItem m) \<noteq> Some PendingReady"
    "pvContainer (lists demo_idle) (TimerItem m) \<noteq> Some Suspended" for m
    using kinv_contD(7) [OF k, of m] by (auto simp: timer_lists_def)
  have c: "{i. pvContainer (lists demo_idle) i = Some PendingReady} = {}"
    "{i. pvContainer (lists demo_idle) i = Some Suspended} = {Generic 2}"
    by (auto simp: g tm dest: gl, case_tac [!] x, auto simp: g tm dest: gl)
  have len: "uxNumberOfItems (lists demo_idle) l = of_nat (card {i. pvContainer (lists demo_idle) i = Some l})"
    if "l \<in> KL demo_idle" for l
    using uxNumberOfItems_items [OF kinv_wf [OF k] that] length_items [OF k that] by simp
  have "uxCurrentNumberOfTasks demo_idle = 2"
    using kinv_parts(3) [OF k] lv by (simp add: kinv_tasks_def)
  moreover have "\<not> xYieldPending demo_idle" using f5(3) by (simp add: eq vTaskSwitchContext_def)
  ultimately show "eTaskConfirmSleepModeStatus demo_idle = eNoTasksWaitingTimeout"
    using len [of PendingReady] len [of Suspended] c
    by (simp add: eTaskConfirmSleepModeStatus_def listCURRENT_LIST_LENGTH_def)
qed

definition demo_mutex :: kernel where
  "demo_mutex = update_tcb 7 (\<lambda>x. x\<lparr>uxMutexesHeld := 1\<rparr>) demo"

lemma demo_mutex_facts:
  "kinv {} demo_mutex" "7 \<in> live demo_mutex" "cur demo_mutex \<in> live demo_mutex" "gcont demo_mutex 7 \<noteq> Some Termination"
  "uxMutexesHeld (tcb demo_mutex 7) = 1" "uxBasePriority (tcb demo_mutex 7) = prio demo_mutex 7"
  "prio demo_mutex 7 = 0" "prio demo_mutex (cur demo_mutex) = 3"
proof -
  show "kinv {} demo_mutex" unfolding demo_mutex_def by (rule kinv_update_tcb [OF demo_facts(1)]) auto
qed (use demo_facts demo_fields in \<open>simp_all add: demo_mutex_def update_tcb_def cur_def demo_base\<close>)

text \<open>An event list with one waiter, and a task that waits for a notification.\<close>

lemma no_waiters: "items (lists demo) (TasksWaitingToReceive 0) = []"
proof -
  have l: "TasksWaitingToReceive 0 \<in> evlists demo - timer_lists" by (simp add: demo_fields timer_lists_def)
  have si: "set (items (lists demo) (TasksWaitingToReceive 0)) = {i. pvContainer (lists demo) i = Some (TasksWaitingToReceive 0)}"
    by (rule set_items [OF kinv_wf [OF demo_facts(1)]]) (simp add: demo_fields)
  have "pvContainer (lists demo) i \<noteq> Some (TasksWaitingToReceive 0)" for i
    using event_item [OF demo_facts(1) l, of i] demo_facts(5) by auto
  then show ?thesis using si by simp
qed

lemma demo_ordered: "prio_ordered (TasksWaitingToReceive 0) demo"
  by (simp add: prio_ordered_def no_waiters demo_facts)

lemma demo_event_value: "xItemValue (lists demo) (Item (Event 2)) = configMAX_PRIORITIES - prio demo 2"
proof -
  have "xItemValue (lists demo2) (Item (Event 2)) = 5"
    by (simp add: demo2_def boot_unfold cur_def demo1_facts(2) demo1_fields)
  then show ?thesis using demo_facts(6) by (simp add: demo_def configMAX_PRIORITIES_def)
qed

definition demo_blocked :: kernel where
  "demo_blocked = vTaskPlaceOnEventList (TasksWaitingToReceive 0) 5 demo"

lemma demo_blocked_facts:
  "kinv {} demo_blocked" "TasksWaitingToReceive 0 \<in> evlists demo_blocked - timer_lists"
  "items (lists demo_blocked) (TasksWaitingToReceive 0) \<noteq> []" "prio_ordered (TasksWaitingToReceive 0) demo_blocked"
  "uxSchedulerSuspended demo_blocked = 0" "prio demo_blocked 2 = 3"
  "u \<noteq> 2 \<Longrightarrow> econt demo_blocked u = None"
proof -
  note p = place_on_event_list_ok [OF demo_facts(1) demo_event, of 5, folded demo_blocked_def]
  show k: "kinv {} demo_blocked" using p(1) by simp
  show l: "TasksWaitingToReceive 0 \<in> evlists demo_blocked - timer_lists"
    by (simp add: demo_blocked_def vTaskPlaceOnEventList_def block_current_task_def Let_def demo_fields timer_lists_def)
  have "econt demo_blocked 2 = Some (TasksWaitingToReceive 0)" using p(2) by simp
  then have "Event 2 \<in> set (items (lists demo_blocked) (TasksWaitingToReceive 0))"
    using set_items [OF kinv_wf [OF k], of "TasksWaitingToReceive 0"] l by simp
  then show "items (lists demo_blocked) (TasksWaitingToReceive 0) \<noteq> []" by auto
  show "prio_ordered (TasksWaitingToReceive 0) demo_blocked"
    unfolding demo_blocked_def by (rule place_keeps_order [OF demo_facts(1) demo_event demo_ordered demo_event_value]) simp
  show "uxSchedulerSuspended demo_blocked = 0" "prio demo_blocked 2 = 3"
    by (simp_all add: demo_blocked_def vTaskPlaceOnEventList_def block_current_task_def Let_def demo_fields demo_facts)
  show "u \<noteq> 2 \<Longrightarrow> econt demo_blocked u = None" using p(4) [of u] demo_facts(5) by simp
qed

definition demo_wait :: kernel where
  "demo_wait = ulTaskNotifyTake_block portMAX_DELAY demo"

lemma demo_wait_facts:
  "kinv {} demo_wait" "notifiable demo_wait 2" "nstate demo_wait 2 = eWaitingNotification"
  "prio demo_wait 2 > prio demo_wait (cur demo_wait)" "ulCriticalNesting demo_wait = 0" "uxSchedulerSuspended demo_wait = 0"
  "prio demo_wait 2 = 3" "pxCurrentTCB demo_wait \<noteq> Some 2"
proof -
  have w: "portMAX_DELAY \<noteq> 0" by (simp add: portMAX_DELAY_def)
  note b = take_block_waits [OF demo_facts(1,8) _ w, folded demo_wait_def]
  show k: "kinv {} demo_wait" unfolding demo_wait_def by (rule kinv_take_block [OF demo_facts(1,8)])
  show n: "nstate demo_wait 2 = eWaitingNotification" using b(1) demo_fields by simp
  have g: "gcont demo_wait 2 = Some Suspended" "econt demo_wait 2 = None"
    using b(2) fun_cong [OF b(3), of 2] demo_fields demo_facts(5) by simp_all
  show "notifiable demo_wait 2" using g kinv_liveD(1) [OF k g(1)] by (simp add: notifiable_def)
  obtain v where v: "pxCurrentTCB demo_wait = Some v" "highest_ready demo_wait v"
    "ulCriticalNesting demo_wait = 0" "uxSchedulerSuspended demo_wait = 0"
    using take_block_switches [OF demo_facts(1,8) _ w, of 7 0] demo_fields demo_facts(3) by (auto simp: demo_wait_def)
  have pr: "prio demo_wait u = prio demo u" for u
    by (simp add: demo_wait_def ulTaskNotifyTake_block_def wait_for_notification_def block_current_task_def Let_def)
  have lv: "live demo_wait = {2, 7}"
    by (simp add: demo_wait_def ulTaskNotifyTake_block_def wait_for_notification_def block_current_task_def Let_def demo_facts)
  have gv: "gcont demo_wait v = Some (Ready (prio demo_wait v))" using v(2) by (simp add: highest_ready_def)
  have "v = 7" using kinv_liveD(1) [OF k gv] lv gv g(1) by auto
  then show "prio demo_wait 2 > prio demo_wait (cur demo_wait)" "prio demo_wait 2 = 3" "pxCurrentTCB demo_wait \<noteq> Some 2"
    "ulCriticalNesting demo_wait = 0" "uxSchedulerSuspended demo_wait = 0"
    using v pr demo_facts by (simp_all add: cur_def)
qed

lemma demo_gives_cur: "cur (gives 1 2 demo) = 2"
  by (simp add: xTaskGenericNotify_def Let_def demo_fields exit_critical_quiet cur_def set_notify_def)

lemma demo1_fpu: "fpContextPtr (tcb demo1 t) = None" "currentNumberOfFpTasks demo1 = 0"
  by (simp_all add: demo1_def boot_unfold boot0_def fresh_TCB_def)

lemma demo2_fpu: "fpContextPtr (tcb demo2 t) = None" "currentNumberOfFpTasks demo2 = 0"
  by (simp_all add: demo2_def boot_unfold cur_def demo1_facts(2) demo1_fields demo1_fpu)

lemma demo_fpu: "fpu_slots demo" "fpu_inv (demo\<lparr>cr0_TS := True\<rparr>)" "fpContextPtr (tcb demo t) = None"
  "currentNumberOfFpTasks demo = 0"
proof -
  show c: "fpContextPtr (tcb demo t) = None" for t by (simp add: demo_def demo2_fpu)
  show n: "currentNumberOfFpTasks demo = 0" by (simp add: demo_def started_def xPortStartScheduler_def demo2_fpu)
  show "fpu_inv (demo\<lparr>cr0_TS := True\<rparr>)" by (simp add: fpu_inv_def c n demo_fields)
  then show "fpu_slots demo" by (simp add: fpu_slots_def)
qed

end
