(* ===== verification/Ring.thy ===== *)
theory Ring
  imports Prelude
begin

text \<open>
  The storage area of a queue (\<^verbatim>\<open>queue.c\<close>): a ring of \<open>uxLength\<close> slots of \<open>uxItemSize\<close>
  bytes between \<open>pcHead\<close> and \<open>pcTail\<close>. \<open>pcWriteTo\<close> points to the slot that is written next,
  \<open>pcReadFrom\<close> to the slot that was read last. Two fields serve two purposes in the code: for
  a mutex \<open>pcHead\<close> is \<open>NULL\<close> (\<open>uxQueueType\<close>) and \<open>pcTail\<close> is the handle of the holder
  (\<open>pxMutexHolder\<close>); \<open>pcReadFrom\<close> shares a union with \<open>uxRecursiveCallCount\<close>. The record
  keeps the words as they are. The copies are those of \<open>prvCopyDataToQueue\<close> and
  \<open>prvCopyDataFromQueue\<close>; the theory shows that they implement a bounded double-ended queue of
  messages.
\<close>

section \<open>The data model\<close>

type_synonym bytes = "u32 \<Rightarrow> u8"

record Queue_t =
  pcHead :: u32
  pcTail :: u32
  pcWriteTo :: u32
  pcReadFrom :: u32
  uxMessagesWaiting :: u32
  uxLength :: u32
  uxItemSize :: u32
  xRxLock :: u32
  xTxLock :: u32
  pxQueueSetContainer :: "nat option"

fun memcpy_to :: "u32 \<Rightarrow> u8 list \<Rightarrow> bytes \<Rightarrow> bytes" where
  "memcpy_to a [] m = m"
| "memcpy_to a (b # bs) m = memcpy_to (a + 1) bs (m(a := b))"

fun memcpy_from :: "u32 \<Rightarrow> nat \<Rightarrow> bytes \<Rightarrow> u8 list" where
  "memcpy_from a 0 m = []"
| "memcpy_from a (Suc n) m = m a # memcpy_from (a + 1) n m"

datatype copy_position = queueSEND_TO_BACK | queueSEND_TO_FRONT | queueOVERWRITE

definition write_back :: "u8 list \<Rightarrow> Queue_t \<times> bytes \<Rightarrow> Queue_t \<times> bytes" where
  "write_back pvItemToQueue = (\<lambda>(Q, m).
     let m1 = memcpy_to (pcWriteTo Q) (take (unat (uxItemSize Q)) pvItemToQueue) m;
         wt = pcWriteTo Q + uxItemSize Q
     in (Q\<lparr>pcWriteTo := if wt \<ge> pcTail Q then pcHead Q else wt\<rparr>, m1))"

definition write_front :: "copy_position \<Rightarrow> u8 list \<Rightarrow> Queue_t \<times> bytes \<Rightarrow> Queue_t \<times> bytes" where
  "write_front xPosition pvItemToQueue = (\<lambda>(Q, m).
     let m1 = memcpy_to (pcReadFrom Q) (take (unat (uxItemSize Q)) pvItemToQueue) m;
         rf = pcReadFrom Q - uxItemSize Q;
         Q1 = Q\<lparr>pcReadFrom := if rf < pcHead Q then pcTail Q - uxItemSize Q else rf\<rparr>
     in (if xPosition = queueOVERWRITE \<and> uxMessagesWaiting Q1 > 0
         then Q1\<lparr>uxMessagesWaiting := uxMessagesWaiting Q1 - 1\<rparr> else Q1, m1))"

definition count_message :: "Queue_t \<times> bytes \<Rightarrow> Queue_t \<times> bytes" where
  "count_message = (\<lambda>(Q, m). (Q\<lparr>uxMessagesWaiting := uxMessagesWaiting Q + 1\<rparr>, m))"

text \<open>What a send does to the storage area of a queue of items.\<close>

definition ring_put :: "copy_position \<Rightarrow> u8 list \<Rightarrow> Queue_t \<times> bytes \<Rightarrow> Queue_t \<times> bytes" where
  "ring_put xPosition pvItemToQueue qm =
     count_message (if xPosition = queueSEND_TO_BACK then write_back pvItemToQueue qm
                    else write_front xPosition pvItemToQueue qm)"

definition prvCopyDataFromQueue :: "Queue_t \<times> bytes \<Rightarrow> (Queue_t \<times> bytes) \<times> u8 list" where
  "prvCopyDataFromQueue = (\<lambda>(Q, m).
     if uxItemSize Q \<noteq> 0
     then (let rf = pcReadFrom Q + uxItemSize Q;
               Q1 = Q\<lparr>pcReadFrom := if rf \<ge> pcTail Q then pcHead Q else rf\<rparr>
           in ((Q1, m), memcpy_from (pcReadFrom Q1) (unat (uxItemSize Q1)) m))
     else ((Q, m), []))"

text \<open>A receive that is no peek also counts the message off.\<close>

definition ring_take :: "Queue_t \<times> bytes \<Rightarrow> (Queue_t \<times> bytes) \<times> u8 list" where
  "ring_take qm =
     (let ((Q, m), v) = prvCopyDataFromQueue qm
      in ((Q\<lparr>uxMessagesWaiting := uxMessagesWaiting Q - 1\<rparr>, m), v))"

section \<open>Byte copies\<close>

lemma length_memcpy_from [simp]: "length (memcpy_from a n m) = n"
  by (induction a n m rule: memcpy_from.induct) auto

lemma unat_Suc_addr: "Suc (unat (a :: u32)) < 2 ^ 32 \<Longrightarrow> unat (a + 1) = Suc (unat a)"
  by (simp add: unat_word_ariths)

lemma memcpy_to_apply:
  "unat a + length bs < 2 ^ 32 \<Longrightarrow> memcpy_to a bs m x =
     (if unat a \<le> unat x \<and> unat x < unat a + length bs then bs ! (unat x - unat a) else m x)"
proof (induction a bs m rule: memcpy_to.induct)
  case (1 a m)
  then show ?case by auto
next
  case (2 a b bs m)
  then have s: "unat (a + 1) = Suc (unat a)" by (intro unat_Suc_addr) simp
  show ?case
  proof (cases "x = a")
    case True
    have "memcpy_to (a + 1) bs (m(a := b)) x = (m(a := b)) x" using 2 s True by (subst 2) simp_all
    then show ?thesis using True by simp
  next
    case False
    then have n: "unat x \<noteq> unat a" by (simp add: word_unat_eq_iff)
    have i: "Suc (unat a) \<le> unat x \<Longrightarrow> (b # bs) ! (unat x - unat a) = bs ! (unat x - Suc (unat a))"
      by (metis Suc_diff_le diff_Suc_Suc nth_Cons_Suc)
    have "memcpy_to (a + 1) bs (m(a := b)) x =
      (if Suc (unat a) \<le> unat x \<and> unat x < Suc (unat a) + length bs then bs ! (unat x - Suc (unat a)) else m x)"
      using 2 s False by (subst 2) simp_all
    then show ?thesis using i n by auto
  qed
qed

lemma memcpy_from_eq:
  "unat a + n < 2 ^ 32 \<Longrightarrow> memcpy_from a n m = map (\<lambda>i. m (a + of_nat i)) [0..<n]"
proof (induction a n m rule: memcpy_from.induct)
  case (1 a m)
  then show ?case by simp
next
  case (2 a n m)
  then have "unat (a + 1) = Suc (unat a)" by (intro unat_Suc_addr) simp
  then have IH: "memcpy_from (a + 1) n m = map (\<lambda>i. m (a + 1 + of_nat i)) [0..<n]" using 2 by simp
  have "map (\<lambda>i. m (a + of_nat i)) [0..<Suc n] = m a # map (\<lambda>i. m (a + of_nat (Suc i))) [0..<n]"
    by (simp add: upt_conv_Cons map_Suc_upt [symmetric] del: upt_Suc)
  then show ?case using IH by (simp add: add.assoc)
qed

lemma unat_add_addr: "unat (a :: u32) + i < 2 ^ 32 \<Longrightarrow> unat (a + of_nat i) = unat a + i"
  by (simp add: unat_word_ariths unat_of_nat take_bit_nat_eq_self mod_simps)

lemma memcpy_same:
  assumes "unat a + length bs < 2 ^ 32"
  shows "memcpy_from a (length bs) (memcpy_to a bs m) = bs"
proof (rule nth_equalityI)
  fix i assume i: "i < length (memcpy_from a (length bs) (memcpy_to a bs m))"
  then have "unat (a + of_nat i) = unat a + i" using assms by (intro unat_add_addr) simp
  then show "memcpy_from a (length bs) (memcpy_to a bs m) ! i = bs ! i"
    using assms i by (simp add: memcpy_from_eq memcpy_to_apply)
qed simp

lemma memcpy_other:
  assumes "unat a + length bs < 2 ^ 32" and "unat b + n < 2 ^ 32"
    and "unat b + n \<le> unat a \<or> unat a + length bs \<le> unat b"
  shows "memcpy_from b n (memcpy_to a bs m) = memcpy_from b n m"
proof (rule nth_equalityI)
  fix i assume i: "i < length (memcpy_from b n (memcpy_to a bs m))"
  then have "unat (b + of_nat i) = unat b + i" using assms(2) by (intro unat_add_addr) simp
  then show "memcpy_from b n (memcpy_to a bs m) ! i = memcpy_from b n m ! i"
    using assms i by (auto simp: memcpy_from_eq memcpy_to_apply)
qed simp

section \<open>The abstraction\<close>

text \<open>
  \<open>ring_ok\<close> relates the four pointers and the counter; \<open>contents\<close> reads the messages off the
  memory, oldest first. The bound \<open>z \<le> h\<close> keeps \<open>pcReadFrom - uxItemSize\<close> from passing
  address zero, which the comparison with \<open>pcHead\<close> would miss.
\<close>

definition slot :: "Queue_t \<Rightarrow> nat \<Rightarrow> u32" where
  "slot Q i = pcHead Q + of_nat (i * unat (uxItemSize Q))"

abbreviation cap :: "Queue_t \<Rightarrow> nat" where
  "cap Q \<equiv> unat (uxLength Q)"

abbreviation isize :: "Queue_t \<Rightarrow> nat" where
  "isize Q \<equiv> unat (uxItemSize Q)"

abbreviation waiting :: "Queue_t \<Rightarrow> nat" where
  "waiting Q \<equiv> unat (uxMessagesWaiting Q)"

definition read_pos :: "Queue_t \<Rightarrow> nat" where
  "read_pos Q = (unat (pcReadFrom Q) - unat (pcHead Q)) div isize Q"

definition area_ok :: "Queue_t \<Rightarrow> bool" where
  "area_ok Q \<longleftrightarrow> 0 < isize Q \<and> 0 < cap Q \<and> isize Q \<le> unat (pcHead Q) \<and>
     unat (pcHead Q) + cap Q * isize Q < 2 ^ 32 \<and> pcTail Q = slot Q (cap Q)"

definition ring_ok :: "Queue_t \<times> bytes \<Rightarrow> bool" where
  "ring_ok qm \<longleftrightarrow> (case qm of (Q, m) \<Rightarrow>
     area_ok Q \<and> read_pos Q < cap Q \<and> pcReadFrom Q = slot Q (read_pos Q) \<and> waiting Q \<le> cap Q \<and>
     pcWriteTo Q = slot Q ((read_pos Q + 1 + waiting Q) mod cap Q))"

definition contents :: "Queue_t \<times> bytes \<Rightarrow> u8 list list" where
  "contents qm = (case qm of (Q, m) \<Rightarrow>
     map (\<lambda>i. memcpy_from (slot Q ((read_pos Q + 1 + i) mod cap Q)) (isize Q) m) [0..<waiting Q])"

lemma length_contents [simp]: "length (contents (Q, m)) = waiting Q"
  by (simp add: contents_def)

lemma unat_slot:
  assumes "area_ok Q" and "i \<le> cap Q"
  shows "unat (slot Q i) = unat (pcHead Q) + i * isize Q"
proof -
  have "i * isize Q \<le> cap Q * isize Q" using assms(2) by (rule mult_le_mono1)
  then have "unat (pcHead Q) + i * isize Q < 2 ^ 32" using assms(1) unfolding area_ok_def by linarith
  then show ?thesis unfolding slot_def by (rule unat_add_addr)
qed

lemma slot_end:
  assumes "area_ok Q" and "i < cap Q"
  shows "unat (slot Q i) + isize Q < 2 ^ 32" and "unat (slot Q i) + isize Q = unat (pcHead Q) + Suc i * isize Q"
proof -
  have "Suc i * isize Q \<le> cap Q * isize Q" using assms(2) by (intro mult_le_mono1) simp
  then show "unat (slot Q i) + isize Q < 2 ^ 32" "unat (slot Q i) + isize Q = unat (pcHead Q) + Suc i * isize Q"
    using unat_slot [OF assms(1), of i] assms by (simp_all add: area_ok_def)
qed

lemma slot_next:
  assumes "area_ok Q" and "i < cap Q"
  shows "(if slot Q i + uxItemSize Q \<ge> pcTail Q then pcHead Q else slot Q i + uxItemSize Q) = slot Q (Suc i mod cap Q)"
proof -
  have u: "slot Q i + uxItemSize Q = slot Q (Suc i)" by (simp add: slot_def algebra_simps)
  show ?thesis
  proof (cases "Suc i = cap Q")
    case True
    then have "slot Q i + uxItemSize Q = pcTail Q" using assms u by (simp add: area_ok_def)
    then show ?thesis using True by (simp add: slot_def)
  next
    case False
    then have s: "Suc i < cap Q" using assms by simp
    have "Suc i * isize Q < cap Q * isize Q" using s assms by (intro mult_strict_right_mono) (auto simp: area_ok_def)
    then have "\<not> slot Q (Suc i) \<ge> pcTail Q"
      using unat_slot [OF assms(1), of "Suc i"] unat_slot [OF assms(1), of "cap Q"] s assms(1)
      by (simp add: area_ok_def word_le_nat_alt)
    then show ?thesis using u s by simp
  qed
qed

lemma slot_prev:
  assumes "area_ok Q" and "i < cap Q"
  shows "(if slot Q i - uxItemSize Q < pcHead Q then pcTail Q - uxItemSize Q else slot Q i - uxItemSize Q) =
    slot Q ((i + cap Q - 1) mod cap Q)"
proof (cases i)
  case 0
  have c: "0 < cap Q" and z: "0 < isize Q" "isize Q \<le> unat (pcHead Q)" using assms by (auto simp: area_ok_def)
  have le: "uxItemSize Q \<le> pcHead Q" using z by (simp add: word_le_nat_alt)
  have "unat (pcHead Q - uxItemSize Q) = unat (pcHead Q) - isize Q" using le by (simp add: unat_sub)
  then have "pcHead Q - uxItemSize Q < pcHead Q" using z by (simp add: word_less_nat_alt)
  moreover have "pcTail Q - uxItemSize Q = slot Q (cap Q - 1)"
    using assms(1) c by (cases "cap Q") (auto simp: area_ok_def slot_def algebra_simps)
  ultimately show ?thesis using 0 c by (simp add: slot_def)
next
  case (Suc j)
  have e: "slot Q i - uxItemSize Q = slot Q j" by (simp add: Suc slot_def algebra_simps)
  have "\<not> slot Q j < pcHead Q" using unat_slot [OF assms(1), of j] assms(2) Suc by (simp add: word_less_nat_alt)
  then show ?thesis using e assms(2) Suc by simp
qed

lemma slots_apart:
  assumes "area_ok Q" and "i < cap Q" and "j < cap Q" and "i \<noteq> j" and "length bs = isize Q"
  shows "memcpy_from (slot Q j) (isize Q) (memcpy_to (slot Q i) bs m) = memcpy_from (slot Q j) (isize Q) m"
proof (rule memcpy_other)
  show "unat (slot Q i) + length bs < 2 ^ 32" "unat (slot Q j) + isize Q < 2 ^ 32"
    using slot_end(1) assms by auto
  have "i < j \<Longrightarrow> Suc i * isize Q \<le> j * isize Q" "j < i \<Longrightarrow> Suc j * isize Q \<le> i * isize Q"
    by (rule mult_le_mono1, simp)+
  then show "unat (slot Q j) + isize Q \<le> unat (slot Q i) \<or> unat (slot Q i) + length bs \<le> unat (slot Q j)"
    using slot_end(2) [OF assms(1,2)] slot_end(2) [OF assms(1,3)] unat_slot [OF assms(1), of i]
      unat_slot [OF assms(1), of j] assms(2-5) by linarith
qed

lemma slot_same:
  assumes "area_ok Q" and "i < cap Q" and "length bs = isize Q"
  shows "memcpy_from (slot Q i) (isize Q) (memcpy_to (slot Q i) bs m) = bs"
  using memcpy_same [of "slot Q i" bs m] slot_end(1) [OF assms(1,2)] assms(3) by simp

text \<open>The pointer fields the area does not depend on.\<close>

lemma area_frame [simp]:
  "area_ok (Q\<lparr>pcWriteTo := a\<rparr>) = area_ok Q" "area_ok (Q\<lparr>pcReadFrom := a\<rparr>) = area_ok Q"
  "area_ok (Q\<lparr>uxMessagesWaiting := a\<rparr>) = area_ok Q"
  "slot (Q\<lparr>pcWriteTo := a\<rparr>) = slot Q" "slot (Q\<lparr>pcReadFrom := a\<rparr>) = slot Q"
  "slot (Q\<lparr>uxMessagesWaiting := a\<rparr>) = slot Q"
  "read_pos (Q\<lparr>pcWriteTo := a\<rparr>) = read_pos Q" "read_pos (Q\<lparr>uxMessagesWaiting := a\<rparr>) = read_pos Q"
  by (simp_all add: area_ok_def slot_def read_pos_def fun_eq_iff)

lemma read_pos_slot [simp]:
  assumes "area_ok Q" and "i < cap Q"
  shows "read_pos (Q\<lparr>pcReadFrom := slot Q i\<rparr>) = i"
  using unat_slot [OF assms(1), of i] assms by (simp add: read_pos_def area_ok_def)

lemma read_back_eq:
  assumes "ring_ok (Q, m)"
  shows "Q\<lparr>pcReadFrom := slot Q (read_pos Q)\<rparr> = Q"
  using assms by (simp add: ring_ok_def)

section \<open>The copies refine a bounded double-ended queue\<close>

lemma mod_ring_less: "area_ok Q \<Longrightarrow> x mod cap Q < cap Q"
  by (simp add: area_ok_def)

lemma mod_ring_inj:
  assumes "i < n" and "j < n" and "(r + i) mod n = (r + j) mod (n :: nat)"
  shows "i = j"
proof -
  have "j = i" if "i \<le> j" "j < n" "(r + j) mod n = (r + i) mod n" for i j
  proof -
    have "n dvd r + j - (r + i)" using that by (subst mod_eq_dvd_iff_nat [symmetric]) simp_all
    then have "n dvd j - i" by simp
    then show ?thesis using that by (auto dest: dvd_imp_le)
  qed
  then show ?thesis using assms by (metis nat_le_linear)
qed

lemma unat_Suc_waiting:
  assumes "area_ok Q" and "waiting Q < cap Q"
  shows "unat (uxMessagesWaiting Q + 1) = Suc (waiting Q)"
  using assms unat_u32_less [of "uxLength Q"] by (intro unat_Suc_addr) simp

lemma put_back_ok:
  assumes r: "ring_ok (Q, m)" and len: "length x = isize Q" and room: "waiting Q < cap Q"
    and q: "ring_put queueSEND_TO_BACK x (Q, m) = (Q', m')"
  shows "ring_ok (Q', m')" and "contents (Q', m') = contents (Q, m) @ [x]"
    and "uxLength Q' = uxLength Q" and "uxItemSize Q' = uxItemSize Q"
proof -
  let ?c = "cap Q" and ?n = "waiting Q" and ?p = "read_pos Q"
  let ?w = "(?p + 1 + ?n) mod ?c"
  have a: "area_ok Q" and wt: "pcWriteTo Q = slot Q ?w" using r by (auto simp: ring_ok_def)
  have w: "?w < ?c" using a by (rule mod_ring_less)
  have nx: "Suc ?w mod ?c = (?p + 1 + Suc ?n) mod ?c" by (simp add: mod_Suc_eq)
  have Q': "Q' = Q\<lparr>pcWriteTo := slot Q ((?p + 1 + Suc ?n) mod ?c), uxMessagesWaiting := uxMessagesWaiting Q + 1\<rparr>"
    and m': "m' = memcpy_to (slot Q ?w) x m"
    using q slot_next [OF a w] len wt nx
    by (auto simp: ring_put_def write_back_def count_message_def Let_def)
  have n': "unat (uxMessagesWaiting Q + 1) = Suc ?n" by (rule unat_Suc_waiting [OF a room])
  show "ring_ok (Q', m')" using r room n' by (simp add: ring_ok_def Q')
  have old: "memcpy_from (slot Q ((?p + 1 + i) mod ?c)) (isize Q) m' = memcpy_from (slot Q ((?p + 1 + i) mod ?c)) (isize Q) m"
    if "i < ?n" for i
  proof -
    have "?w \<noteq> (?p + 1 + i) mod ?c" using mod_ring_inj [of ?n ?c i "?p + 1"] that room by auto
    then show ?thesis unfolding m' using slots_apart [OF a w mod_ring_less [OF a] _ len] by simp
  qed
  show "contents (Q', m') = contents (Q, m) @ [x]"
    using old n' slot_same [OF a w len, of m] by (simp add: contents_def Q' m')
  show "uxLength Q' = uxLength Q" "uxItemSize Q' = uxItemSize Q" by (simp_all add: Q')
qed

lemma read_before:
  assumes "0 < c" and "r < (c :: nat)"
  shows "((r + c - 1) mod c + 1 + i) mod c = (r + i) mod c"
proof -
  have "((r + c - 1) mod c + 1 + i) mod c = (r + c - 1 + 1 + i) mod c"
    by (metis add.assoc mod_add_left_eq)
  also have "\<dots> = (r + i + c) mod c" using assms by (simp add: algebra_simps)
  finally show ?thesis by simp
qed

lemma front_contents:
  assumes r: "ring_ok (Q, m)" and len: "length x = isize Q" and n: "n < cap Q"
    and Q': "Q' = Q\<lparr>pcReadFrom := slot Q ((read_pos Q + cap Q - 1) mod cap Q), uxMessagesWaiting := v\<rparr>"
    and v: "unat v = Suc n"
  shows "contents (Q', memcpy_to (pcReadFrom Q) x m) =
    x # map (\<lambda>i. memcpy_from (slot Q ((read_pos Q + 1 + i) mod cap Q)) (isize Q) m) [0..<n]"
proof -
  let ?c = "cap Q" and ?p = "read_pos Q" and ?m = "memcpy_to (pcReadFrom Q) x m"
  have a: "area_ok Q" and p: "?p < ?c" and rf: "pcReadFrom Q = slot Q ?p" using r by (auto simp: ring_ok_def)
  have c: "0 < ?c" using a by (simp add: area_ok_def)
  have p': "read_pos Q' = (?p + ?c - 1) mod ?c" using a mod_ring_less [OF a] by (simp add: Q')
  have idx: "(read_pos Q' + 1 + i) mod ?c = (?p + i) mod ?c" for i unfolding p' by (rule read_before [OF c p])
  have first: "memcpy_from (slot Q ((?p + 0) mod ?c)) (isize Q) ?m = x" using slot_same [OF a p len] p rf by simp
  have rest: "memcpy_from (slot Q ((?p + Suc i) mod ?c)) (isize Q) ?m = memcpy_from (slot Q ((?p + 1 + i) mod ?c)) (isize Q) m"
    if "i < n" for i
  proof -
    have "?p \<noteq> (?p + Suc i) mod ?c" using mod_ring_inj [of 0 ?c "Suc i" ?p] that n p by auto
    then show ?thesis using slots_apart [OF a p mod_ring_less [OF a] _ len] rf by simp
  qed
  have "contents (Q', ?m) = map (\<lambda>i. memcpy_from (slot Q ((?p + i) mod ?c)) (isize Q) ?m) [0..<Suc n]"
    using idx by (simp add: contents_def v Q' del: upt_Suc)
  also have "\<dots> = x # map (\<lambda>i. memcpy_from (slot Q ((?p + Suc i) mod ?c)) (isize Q) ?m) [0..<n]"
    using first by (simp add: upt_conv_Cons map_Suc_upt [symmetric] del: upt_Suc)
  finally show ?thesis using rest by simp
qed

lemma write_front_eq:
  assumes r: "ring_ok (Q, m)" and len: "length x = isize Q"
  shows "ring_put queueSEND_TO_FRONT x (Q, m) =
      (Q\<lparr>pcReadFrom := slot Q ((read_pos Q + cap Q - 1) mod cap Q), uxMessagesWaiting := uxMessagesWaiting Q + 1\<rparr>,
       memcpy_to (pcReadFrom Q) x m)"
    and "ring_put queueOVERWRITE x (Q, m) =
      (Q\<lparr>pcReadFrom := slot Q ((read_pos Q + cap Q - 1) mod cap Q),
         uxMessagesWaiting := (if uxMessagesWaiting Q > 0 then uxMessagesWaiting Q else 1)\<rparr>,
       memcpy_to (pcReadFrom Q) x m)"
proof -
  have a: "area_ok Q" and p: "read_pos Q < cap Q" and rf: "pcReadFrom Q = slot Q (read_pos Q)"
    using r by (auto simp: ring_ok_def)
  have pr: "(if pcReadFrom Q - uxItemSize Q < pcHead Q then pcTail Q - uxItemSize Q else pcReadFrom Q - uxItemSize Q) =
    slot Q ((read_pos Q + cap Q - 1) mod cap Q)" unfolding rf by (rule slot_prev [OF a p])
  show "ring_put queueSEND_TO_FRONT x (Q, m) =
      (Q\<lparr>pcReadFrom := slot Q ((read_pos Q + cap Q - 1) mod cap Q), uxMessagesWaiting := uxMessagesWaiting Q + 1\<rparr>,
       memcpy_to (pcReadFrom Q) x m)"
    by (simp add: ring_put_def write_front_def count_message_def Let_def pr len)
  show "ring_put queueOVERWRITE x (Q, m) =
      (Q\<lparr>pcReadFrom := slot Q ((read_pos Q + cap Q - 1) mod cap Q),
         uxMessagesWaiting := (if uxMessagesWaiting Q > 0 then uxMessagesWaiting Q else 1)\<rparr>,
       memcpy_to (pcReadFrom Q) x m)"
    by (simp add: ring_put_def write_front_def count_message_def Let_def pr len word_neq_0_conv [symmetric])
qed

lemma put_front_ok:
  assumes r: "ring_ok (Q, m)" and len: "length x = isize Q" and room: "waiting Q < cap Q"
    and q: "ring_put queueSEND_TO_FRONT x (Q, m) = (Q', m')"
  shows "ring_ok (Q', m')" and "contents (Q', m') = x # contents (Q, m)"
    and "uxLength Q' = uxLength Q" and "uxItemSize Q' = uxItemSize Q"
proof -
  have a: "area_ok Q" and p: "read_pos Q < cap Q" using r by (auto simp: ring_ok_def)
  have c: "0 < cap Q" using a by (simp add: area_ok_def)
  have n': "unat (uxMessagesWaiting Q + 1) = Suc (waiting Q)" by (rule unat_Suc_waiting [OF a room])
  have e: "Q' = Q\<lparr>pcReadFrom := slot Q ((read_pos Q + cap Q - 1) mod cap Q), uxMessagesWaiting := uxMessagesWaiting Q + 1\<rparr>"
    "m' = memcpy_to (pcReadFrom Q) x m" using q write_front_eq(1) [OF r len] by auto
  show "contents (Q', m') = x # contents (Q, m)"
    unfolding e(2) using front_contents [OF r len room e(1) n'] by (simp add: contents_def)
  show "uxLength Q' = uxLength Q" "uxItemSize Q' = uxItemSize Q" by (simp_all add: e)
  have "((read_pos Q + cap Q - 1) mod cap Q + 1 + Suc (waiting Q)) mod cap Q = (read_pos Q + 1 + waiting Q) mod cap Q"
    using read_before [OF c p, of "Suc (waiting Q)"] by simp
  then show "ring_ok (Q', m')" using r room n' a mod_ring_less [OF a] by (simp add: ring_ok_def e)
qed

lemma overwrite_ok:
  assumes r: "ring_ok (Q, m)" and len: "length x = isize Q" and one: "cap Q = 1"
    and q: "ring_put queueOVERWRITE x (Q, m) = (Q', m')"
  shows "ring_ok (Q', m')" and "contents (Q', m') = [x]"
    and "uxLength Q' = uxLength Q" and "uxItemSize Q' = uxItemSize Q"
proof -
  have a: "area_ok Q" and p: "read_pos Q = 0" and w: "waiting Q \<le> 1" using r one by (auto simp: ring_ok_def)
  let ?v = "if uxMessagesWaiting Q > 0 then uxMessagesWaiting Q else 1"
  have v: "unat ?v = Suc 0" using w by (auto simp: word_less_nat_alt)
  have e: "Q' = Q\<lparr>pcReadFrom := slot Q ((read_pos Q + cap Q - 1) mod cap Q), uxMessagesWaiting := ?v\<rparr>"
    "m' = memcpy_to (pcReadFrom Q) x m" using q write_front_eq(2) [OF r len] by auto
  have c: "0 < cap Q" using one by simp
  show "contents (Q', m') = [x]" unfolding e(2) using front_contents [OF r len c e(1) v] by simp
  show "uxLength Q' = uxLength Q" "uxItemSize Q' = uxItemSize Q" by (simp_all add: e)
  have "read_pos Q' = 0" using read_pos_slot [OF a, of 0] one by (simp add: e)
  moreover have "pcWriteTo Q = slot Q 0" using r one by (simp add: ring_ok_def)
  ultimately show "ring_ok (Q', m')" using a one v by (simp add: ring_ok_def e)
qed

lemma take_ok:
  assumes r: "ring_ok (Q, m)" and ne: "waiting Q \<noteq> 0"
    and q: "ring_take (Q, m) = ((Q', m'), x)"
  shows "ring_ok (Q', m')" and "contents (Q, m) = x # contents (Q', m')" and "length x = isize Q"
    and "uxLength Q' = uxLength Q" and "uxItemSize Q' = uxItemSize Q" and "m' = m"
proof -
  let ?c = "cap Q" and ?p = "read_pos Q"
  have a: "area_ok Q" and p: "?p < ?c" and rf: "pcReadFrom Q = slot Q ?p" using r by (auto simp: ring_ok_def)
  have z: "uxItemSize Q \<noteq> 0" using a by (auto simp: area_ok_def)
  have nz: "uxMessagesWaiting Q \<noteq> 0" using ne by auto
  have n': "unat (uxMessagesWaiting Q - 1) = waiting Q - 1" using nz by (simp add: unat_minus_one)
  have s: "Suc ?p mod ?c < ?c" using a by (rule mod_ring_less)
  have e: "Q' = Q\<lparr>pcReadFrom := slot Q (Suc ?p mod ?c), uxMessagesWaiting := uxMessagesWaiting Q - 1\<rparr>"
    "m' = m" "x = memcpy_from (slot Q (Suc ?p mod ?c)) (isize Q) m"
    using q slot_next [OF a p] z rf by (auto simp: ring_take_def prvCopyDataFromQueue_def Let_def)
  have p': "read_pos Q' = Suc ?p mod ?c" using a s by (simp add: e)
  have idx: "(read_pos Q' + 1 + i) mod ?c = (?p + 1 + Suc i) mod ?c" for i
    unfolding p' by (metis Suc_eq_plus1 add_Suc_shift mod_add_left_eq)
  obtain n where n: "waiting Q = Suc n" using ne not0_implies_Suc by blast
  have "contents (Q', m') = map (\<lambda>i. memcpy_from (slot Q ((?p + 1 + Suc i) mod ?c)) (isize Q) m) [0..<n]"
    using idx by (simp add: contents_def e(2)) (simp add: e(1) n' n)
  moreover have "contents (Q, m) = memcpy_from (slot Q ((?p + 1 + 0) mod ?c)) (isize Q) m #
      map (\<lambda>i. memcpy_from (slot Q ((?p + 1 + Suc i) mod ?c)) (isize Q) m) [0..<n]"
    by (simp add: contents_def n upt_conv_Cons map_Suc_upt [symmetric] del: upt_Suc)
  ultimately show "contents (Q, m) = x # contents (Q', m')" by (simp add: e(3))
  have "(read_pos Q' + 1 + n) mod ?c = (?p + 1 + waiting Q) mod ?c" using idx [of n] n by simp
  then show "ring_ok (Q', m')" using r a s n' n p' by (simp add: ring_ok_def e)
  show "length x = isize Q" "uxLength Q' = uxLength Q" "uxItemSize Q' = uxItemSize Q" "m' = m" by (simp_all add: e)
qed

section \<open>The contract of a message queue\<close>

text \<open>
  What the rest of \<^verbatim>\<open>queue.c\<close> and its callers rely on: a queue of at most \<open>bound q\<close> messages that
  takes messages at both ends, overwrites when it has one place, and gives the oldest back.
\<close>

fun takes :: "nat \<Rightarrow> ('q \<Rightarrow> 'q \<times> 'a) \<Rightarrow> 'q \<Rightarrow> 'q \<times> 'a list" where
  "takes 0 get q = (q, [])"
| "takes (Suc n) get q = (let (q1, x) = get q; (q2, xs) = takes n get q1 in (q2, x # xs))"

locale bounded_deque =
  fixes ok :: "'q \<Rightarrow> bool" and bound :: "'q \<Rightarrow> nat" and msgs :: "'q \<Rightarrow> 'a list" and fits :: "'q \<Rightarrow> 'a \<Rightarrow> bool"
    and put :: "copy_position \<Rightarrow> 'a \<Rightarrow> 'q \<Rightarrow> 'q" and get :: "'q \<Rightarrow> 'q \<times> 'a"
  assumes bounded: "ok q \<Longrightarrow> length (msgs q) \<le> bound q"
    and to_back: "ok q \<Longrightarrow> fits q x \<Longrightarrow> length (msgs q) < bound q \<Longrightarrow>
      ok (put queueSEND_TO_BACK x q) \<and> msgs (put queueSEND_TO_BACK x q) = msgs q @ [x]"
    and to_front: "ok q \<Longrightarrow> fits q x \<Longrightarrow> length (msgs q) < bound q \<Longrightarrow>
      ok (put queueSEND_TO_FRONT x q) \<and> msgs (put queueSEND_TO_FRONT x q) = x # msgs q"
    and overwritten: "ok q \<Longrightarrow> fits q x \<Longrightarrow> bound q = 1 \<Longrightarrow>
      ok (put queueOVERWRITE x q) \<and> msgs (put queueOVERWRITE x q) = [x]"
    and got: "ok q \<Longrightarrow> msgs q \<noteq> [] \<Longrightarrow>
      ok (fst (get q)) \<and> msgs q = snd (get q) # msgs (fst (get q)) \<and> bound (fst (get q)) = bound q"
    and same: "ok q \<Longrightarrow> fits q x \<Longrightarrow> bound (put p x q) = bound q \<and> fits (put p x q) = fits q"
begin

lemma send_all:
  assumes "ok q" and "\<forall>x \<in> set xs. fits q x" and "length (msgs q) + length xs \<le> bound q"
  shows "ok (fold (put queueSEND_TO_BACK) xs q) \<and> msgs (fold (put queueSEND_TO_BACK) xs q) = msgs q @ xs"
  using assms
proof (induction xs arbitrary: q)
  case (Cons x xs)
  let ?q = "put queueSEND_TO_BACK x q"
  have b: "ok ?q" "msgs ?q = msgs q @ [x]" "bound ?q = bound q" "fits ?q = fits q"
    using Cons.prems to_back same by auto
  show ?case using Cons.IH [OF b(1)] Cons.prems b by simp
qed simp

lemma receive_all:
  assumes "ok q" and "n \<le> length (msgs q)"
  shows "snd (takes n get q) = take n (msgs q) \<and> msgs (fst (takes n get q)) = drop n (msgs q)"
  using assms
proof (induction n arbitrary: q)
  case (Suc n)
  obtain q1 x where g: "get q = (q1, x)" by fastforce
  have "msgs q \<noteq> []" using Suc.prems by auto
  then have o: "ok q1" "msgs q = x # msgs q1" using got [of q] Suc.prems g by auto
  obtain q2 xs where t: "takes n get q1 = (q2, xs)" by fastforce
  show ?case using Suc.IH [OF o(1)] Suc.prems o(2) g t by simp
qed simp

lemma fifo:
  assumes "ok q" and "msgs q = []" and "\<forall>x \<in> set xs. fits q x" and "length xs \<le> bound q"
  shows "snd (takes (length xs) get (fold (put queueSEND_TO_BACK) xs q)) = xs"
  using receive_all [of "fold (put queueSEND_TO_BACK) xs q" "length xs"] send_all [OF assms(1,3)] assms(2,4) by simp

lemma urgent_first:
  assumes "ok q" and "fits q x" and "length (msgs q) < bound q"
  shows "snd (get (put queueSEND_TO_FRONT x q)) = x \<and> msgs (fst (get (put queueSEND_TO_FRONT x q))) = msgs q"
  using to_front [OF assms] got [of "put queueSEND_TO_FRONT x q"] by simp

end

interpretation rq: bounded_deque ring_ok "\<lambda>q. cap (fst q)" contents "\<lambda>q x. length x = isize (fst q)" ring_put ring_take
proof (unfold_locales, goal_cases)
  case (1 q)
  then show ?case by (cases q) (simp add: ring_ok_def)
next
  case (2 q x)
  obtain Q m Q' m' where e: "q = (Q, m)" "ring_put queueSEND_TO_BACK x (Q, m) = (Q', m')" by (metis surj_pair)
  show ?case using put_back_ok [OF _ _ _ e(2)] 2 e by simp
next
  case (3 q x)
  obtain Q m Q' m' where e: "q = (Q, m)" "ring_put queueSEND_TO_FRONT x (Q, m) = (Q', m')" by (metis surj_pair)
  show ?case using put_front_ok [OF _ _ _ e(2)] 3 e by simp
next
  case (4 q x)
  obtain Q m Q' m' where e: "q = (Q, m)" "ring_put queueOVERWRITE x (Q, m) = (Q', m')" by (metis surj_pair)
  show ?case using overwrite_ok [OF _ _ _ e(2)] 4 e by simp
next
  case (5 q)
  obtain Q m Q' m' x where e: "q = (Q, m)" "ring_take (Q, m) = ((Q', m'), x)" by (metis surj_pair)
  have "waiting Q \<noteq> 0" using 5(2) e(1) by (auto simp: contents_def)
  then show ?case using take_ok [OF _ _ e(2)] 5(1) e by auto
next
  case (6 q x p)
  show ?case by (cases q) (auto simp: ring_put_def write_back_def write_front_def count_message_def Let_def)
qed

end
