(* ===== verification/Queue.thy ===== *)
theory Queue
  imports Ring EventOrder TaskCreate TaskTime
begin

unbundle bit_operations_syntax

text \<open>
  Queues, semaphores and mutexes (\<^verbatim>\<open>queue.c\<close>) with queue sets on, as configured. A queue handle is
  the number of its address, as a task handle is; the two event lists inside a queue are
  \<open>TasksWaitingToSend q\<close> and \<open>TasksWaitingToReceive q\<close>. The calls that may block are loops: one
  pass of the loop is a function that either returns a result or asks for another pass, and what
  other tasks and interrupts do while the caller is off the processor is the argument \<open>others\<close>
  of the loop. A \<open>NULL\<close> pointer that the code would follow is \<open>None\<close>.
\<close>

section \<open>State\<close>

record ipc =
  sys :: os
  queues :: "nat \<Rightarrow> Queue_t"
  qbytes :: bytes
  xQueueRegistry :: "(string option \<times> nat) list"

abbreviation K :: "ipc \<Rightarrow> kernel" where
  "K s \<equiv> kern (sys s)"

definition set_k :: "kernel \<Rightarrow> ipc \<Rightarrow> ipc" where
  "set_k k s = s\<lparr>sys := (sys s)\<lparr>kern := k\<rparr>\<rparr>"

definition on_k :: "(kernel \<Rightarrow> kernel) \<Rightarrow> ipc \<Rightarrow> ipc" where
  "on_k f s = set_k (f (K s)) s"

definition upd_q :: "nat \<Rightarrow> (Queue_t \<Rightarrow> Queue_t) \<Rightarrow> ipc \<Rightarrow> ipc" where
  "upd_q q f s = s\<lparr>queues := (queues s)(q := f (queues s q))\<rparr>"

definition queueUNLOCKED :: u32 where
  "queueUNLOCKED = - 1"

definition queueLOCKED_UNMODIFIED :: u32 where
  "queueLOCKED_UNMODIFIED = 0"

text \<open>The fields with two names: \<open>uxQueueType\<close> is \<open>pcHead\<close>, \<open>pxMutexHolder\<close> is \<open>pcTail\<close>.\<close>

definition is_mutex :: "Queue_t \<Rightarrow> bool" where
  "is_mutex Q \<longleftrightarrow> pcHead Q = NULL"

definition pxMutexHolder :: "Queue_t \<Rightarrow> nat option" where
  "pxMutexHolder Q = (if pcTail Q = NULL then None else Some (unat (pcTail Q)))"

definition task_pointer :: "nat option \<Rightarrow> u32" where
  "task_pointer h = (case h of None \<Rightarrow> NULL | Some t \<Rightarrow> of_nat t)"

text \<open>The idiom that wakes the first waiter, if any, and says whether a switch is due.\<close>

definition wake_waiter :: "lid \<Rightarrow> ipc \<Rightarrow> (ipc \<times> bool) option" where
  "wake_waiter l s =
     (if listLIST_IS_EMPTY l (lists (K s)) then Some (s, False)
      else do { (k, b) \<leftarrow> xTaskRemoveFromEventList l (K s); Some (set_k k s, b) })"

section \<open>Locks\<close>

definition prvLockQueue :: "nat \<Rightarrow> ipc \<Rightarrow> ipc" where
  "prvLockQueue q s =
     (let s1 = on_k vPortEnterCritical s;
          s2 = upd_q q (\<lambda>Q. if xRxLock Q = queueUNLOCKED then Q\<lparr>xRxLock := queueLOCKED_UNMODIFIED\<rparr> else Q) s1;
          s3 = upd_q q (\<lambda>Q. if xTxLock Q = queueUNLOCKED then Q\<lparr>xTxLock := queueLOCKED_UNMODIFIED\<rparr> else Q) s2
      in on_k vPortExitCritical s3)"

definition prvCopyDataToQueue :: "nat \<Rightarrow> u8 list \<Rightarrow> copy_position \<Rightarrow> ipc \<Rightarrow> ipc \<times> bool" where
  "prvCopyDataToQueue q pvItemToQueue xPosition s =
     (let Q = queues s q
      in if uxItemSize Q = 0
         then (let (s1, r) =
                 (if is_mutex Q
                  then (let (k, r) = xTaskPriorityDisinherit (pxMutexHolder Q) (K s)
                        in (upd_q q (\<lambda>Q. Q\<lparr>pcTail := NULL\<rparr>) (set_k k s), r))
                  else (s, False))
               in (upd_q q (\<lambda>Q. Q\<lparr>uxMessagesWaiting := uxMessagesWaiting Q + 1\<rparr>) s1, r))
         else (let (Q1, m) = ring_put xPosition pvItemToQueue (Q, qbytes s)
               in ((upd_q q (\<lambda>_. Q1) s)\<lparr>qbytes := m\<rparr>, False)))"

text \<open>The four bytes of a queue handle, lowest first, which a queue set stores.\<close>

definition handle_bytes :: "nat \<Rightarrow> u8 list" where
  "handle_bytes q = map (\<lambda>i. ucast (drop_bit (8 * i) (of_nat q :: u32))) [0..<4]"

definition prvNotifyQueueSetContainer :: "nat \<Rightarrow> copy_position \<Rightarrow> ipc \<Rightarrow> (ipc \<times> bool) option" where
  "prvNotifyQueueSetContainer q xCopyPosition s =
     (case pxQueueSetContainer (queues s q) of
        None \<Rightarrow> None
      | Some c \<Rightarrow>
          (if uxMessagesWaiting (queues s c) < uxLength (queues s c)
           then (let (s1, r) = prvCopyDataToQueue c (handle_bytes q) xCopyPosition s
                 in if xTxLock (queues s1 c) = queueUNLOCKED
                    then do { (s2, b) \<leftarrow> wake_waiter (TasksWaitingToReceive c) s1; Some (s2, r \<or> b) }
                    else Some (upd_q c (\<lambda>C. C\<lparr>xTxLock := xTxLock C + 1\<rparr>) s1, r))
           else Some (s, False)))"

text \<open>The two loops of \<open>prvUnlockQueue\<close>; the lock counts are signed.\<close>

partial_function (option) unlock_tx :: "nat \<Rightarrow> ipc \<Rightarrow> ipc option" where
  "unlock_tx q s =
     (if sint (xTxLock (queues s q)) > 0
      then (case pxQueueSetContainer (queues s q) of
              Some c \<Rightarrow>
                Option.bind (prvNotifyQueueSetContainer q queueSEND_TO_BACK s) (\<lambda>r.
                  unlock_tx q (upd_q q (\<lambda>Q. Q\<lparr>xTxLock := xTxLock Q - 1\<rparr>)
                    (if snd r then on_k vTaskMissedYield (fst r) else fst r)))
            | None \<Rightarrow>
                if listLIST_IS_EMPTY (TasksWaitingToReceive q) (lists (K s)) then Some s
                else Option.bind (wake_waiter (TasksWaitingToReceive q) s) (\<lambda>r.
                  unlock_tx q (upd_q q (\<lambda>Q. Q\<lparr>xTxLock := xTxLock Q - 1\<rparr>)
                    (if snd r then on_k vTaskMissedYield (fst r) else fst r))))
      else Some s)"

partial_function (option) unlock_rx :: "nat \<Rightarrow> ipc \<Rightarrow> ipc option" where
  "unlock_rx q s =
     (if sint (xRxLock (queues s q)) > 0
      then (if listLIST_IS_EMPTY (TasksWaitingToSend q) (lists (K s)) then Some s
            else Option.bind (wake_waiter (TasksWaitingToSend q) s) (\<lambda>r.
              unlock_rx q (upd_q q (\<lambda>Q. Q\<lparr>xRxLock := xRxLock Q - 1\<rparr>)
                (if snd r then on_k vTaskMissedYield (fst r) else fst r))))
      else Some s)"

definition prvUnlockQueue :: "nat \<Rightarrow> ipc \<Rightarrow> ipc option" where
  "prvUnlockQueue q s = do {
     s1 \<leftarrow> unlock_tx q (on_k vPortEnterCritical s);
     let s2 = on_k vPortExitCritical (upd_q q (\<lambda>Q. Q\<lparr>xTxLock := queueUNLOCKED\<rparr>) s1);
     s3 \<leftarrow> unlock_rx q (on_k vPortEnterCritical s2);
     Some (on_k vPortExitCritical (upd_q q (\<lambda>Q. Q\<lparr>xRxLock := queueUNLOCKED\<rparr>) s3)) }"

section \<open>Creation and reset\<close>

definition init_event_list :: "lid \<Rightarrow> kernel \<Rightarrow> kernel" where
  "init_event_list l k = k\<lparr>lists := vListInitialise l (lists k), evlists := insert l (evlists k)\<rparr>"

definition xQueueGenericReset :: "nat \<Rightarrow> bool \<Rightarrow> ipc \<Rightarrow> ipc option" where
  "xQueueGenericReset q xNewQueue s = do {
     let s1 = on_k vPortEnterCritical s;
     let s2 = upd_q q (\<lambda>Q. Q\<lparr>pcTail := pcHead Q + uxLength Q * uxItemSize Q, uxMessagesWaiting := 0,
                             pcWriteTo := pcHead Q, pcReadFrom := pcHead Q + (uxLength Q - 1) * uxItemSize Q,
                             xRxLock := queueUNLOCKED, xTxLock := queueUNLOCKED\<rparr>) s1;
     s3 \<leftarrow> (if \<not> xNewQueue
           then do { (s', b) \<leftarrow> wake_waiter (TasksWaitingToSend q) s2;
                     Some (if b then on_k portYIELD s' else s') }
           else Some (on_k (init_event_list (TasksWaitingToReceive q))
                       (on_k (init_event_list (TasksWaitingToSend q)) s2)));
     Some (on_k vPortExitCritical s3) }"

definition xQueueGenericCreate :: "hook \<Rightarrow> u32 \<Rightarrow> u32 \<Rightarrow> u32 \<Rightarrow> ipc \<Rightarrow> (ipc \<times> nat option) option" where
  "xQueueGenericCreate hook sizeof_Queue uxQueueLength uxSize s = do {
     let n = (if uxSize = 0 then 0 else uxQueueLength * uxSize + 1);
     (o1, p) \<leftarrow> pvPortMalloc hook (sizeof_Queue + n) (sys s);
     let s1 = s\<lparr>sys := o1\<rparr>;
     if p \<noteq> NULL
     then do {
       let q = unat p;
       let s2 = upd_q q (\<lambda>Q. Q\<lparr>pcHead := if uxSize = 0 then p else p + sizeof_Queue,
                               uxLength := uxQueueLength, uxItemSize := uxSize\<rparr>) s1;
       s3 \<leftarrow> xQueueGenericReset q True s2;
       Some (upd_q q (\<lambda>Q. Q\<lparr>pxQueueSetContainer := None\<rparr>) s3, Some q) }
     else Some (s1, None) }"

definition xQueueCreateCountingSemaphore :: "hook \<Rightarrow> u32 \<Rightarrow> u32 \<Rightarrow> u32 \<Rightarrow> ipc \<Rightarrow> (ipc \<times> nat option) option" where
  "xQueueCreateCountingSemaphore hook sizeof_Queue uxMaxCount uxInitialCount s = do {
     (s1, h) \<leftarrow> xQueueGenericCreate hook sizeof_Queue uxMaxCount 0 s;
     Some (case h of None \<Rightarrow> s1 | Some q \<Rightarrow> upd_q q (\<lambda>Q. Q\<lparr>uxMessagesWaiting := uxInitialCount\<rparr>) s1, h) }"

section \<open>Sending\<close>

definition prvIsQueueFull :: "nat \<Rightarrow> ipc \<Rightarrow> ipc \<times> bool" where
  "prvIsQueueFull q s =
     (let s1 = on_k vPortEnterCritical s
      in (on_k vPortExitCritical s1, uxMessagesWaiting (queues s1 q) = uxLength (queues s1 q)))"

definition prvIsQueueEmpty :: "nat \<Rightarrow> ipc \<Rightarrow> ipc \<times> bool" where
  "prvIsQueueEmpty q s =
     (let s1 = on_k vPortEnterCritical s in (on_k vPortExitCritical s1, uxMessagesWaiting (queues s1 q) = 0))"

text \<open>What \<open>xQueueGenericSend\<close> does in the critical section when there is room.\<close>

definition send_now :: "nat \<Rightarrow> u8 list \<Rightarrow> copy_position \<Rightarrow> ipc \<Rightarrow> ipc option" where
  "send_now q pvItemToQueue xCopyPosition s =
     (let (s1, xYieldRequired) = prvCopyDataToQueue q pvItemToQueue xCopyPosition s
      in case pxQueueSetContainer (queues s1 q) of
           Some c \<Rightarrow> do {
             (s2, b) \<leftarrow> prvNotifyQueueSetContainer q xCopyPosition s1;
             Some (if b then on_k portYIELD s2 else s2) }
         | None \<Rightarrow>
             if \<not> listLIST_IS_EMPTY (TasksWaitingToReceive q) (lists (K s1))
             then do { (s2, b) \<leftarrow> wake_waiter (TasksWaitingToReceive q) s1;
                       Some (if b then on_k portYIELD s2 else s2) }
             else Some (if xYieldRequired then on_k portYIELD s1 else s1))"

text \<open>
  The part of a pass that runs with the scheduler suspended and the queue locked, which sending and
  receiving share: \<open>must_wait\<close> is the test under the lock, \<open>prepare\<close> what is done just
  before the task is placed on the event list \<open>l\<close>. The result is a failed call or another pass.
\<close>

definition wait_pass :: "nat \<Rightarrow> lid \<Rightarrow> (ipc \<Rightarrow> ipc \<times> bool) \<Rightarrow> (ipc \<Rightarrow> ipc) \<Rightarrow> 'r \<Rightarrow> TimeOut_t \<Rightarrow> u32 \<Rightarrow> ipc \<Rightarrow>
    (ipc \<times> ('r + TimeOut_t option \<times> u32)) option" where
  "wait_pass q l must_wait prepare failed xTimeOut xTicksToWait s = do {
     let s1 = prvLockQueue q (on_k vTaskSuspendAll s);
     let (k, expired, xTimeOut1, xTicks1) = xTaskCheckForTimeOut xTimeOut xTicksToWait (K s1);
     let s2 = set_k k s1;
     if \<not> expired
     then (let (s3, b) = must_wait s2
           in if b
              then do {
                s5 \<leftarrow> prvUnlockQueue q (on_k (vTaskPlaceOnEventList l xTicks1) (prepare s3));
                (k6, xAlreadyYielded) \<leftarrow> xTaskResumeAll (K s5);
                Some (set_k (if xAlreadyYielded then k6 else portYIELD k6) s5, Inr (Some xTimeOut1, xTicks1)) }
              else do {
                s5 \<leftarrow> prvUnlockQueue q s3;
                (k6, _) \<leftarrow> xTaskResumeAll (K s5);
                Some (set_k k6 s5, Inr (Some xTimeOut1, xTicks1)) })
     else do {
       s5 \<leftarrow> prvUnlockQueue q s2;
       (k6, _) \<leftarrow> xTaskResumeAll (K s5);
       Some (set_k k6 s5, Inl failed) } }"

definition xQueueGenericSend_pass :: "nat \<Rightarrow> u8 list \<Rightarrow> copy_position \<Rightarrow> TimeOut_t option \<Rightarrow> u32 \<Rightarrow> ipc \<Rightarrow>
    (ipc \<times> (bool + TimeOut_t option \<times> u32)) option" where
  "xQueueGenericSend_pass q pvItemToQueue xCopyPosition entry xTicksToWait s =
     (let s1 = on_k vPortEnterCritical s; Q = queues s1 q
      in if uxMessagesWaiting Q < uxLength Q \<or> xCopyPosition = queueOVERWRITE
         then do { s2 \<leftarrow> send_now q pvItemToQueue xCopyPosition s1; Some (on_k vPortExitCritical s2, Inl True) }
         else if xTicksToWait = 0 then Some (on_k vPortExitCritical s1, Inl False)
         else wait_pass q (TasksWaitingToSend q) (prvIsQueueFull q) (\<lambda>s. s) False
                (case entry of None \<Rightarrow> vTaskSetTimeOutState (K s1) | Some x \<Rightarrow> x) xTicksToWait
                (on_k vPortExitCritical s1))"

partial_function (option) send_loop :: "(ipc \<Rightarrow> ipc) \<Rightarrow> nat \<Rightarrow> u8 list \<Rightarrow> copy_position \<Rightarrow> TimeOut_t option \<Rightarrow> u32 \<Rightarrow>
    ipc \<Rightarrow> (ipc \<times> bool) option" where
  "send_loop others q pvItemToQueue xCopyPosition entry xTicksToWait s =
     Option.bind (xQueueGenericSend_pass q pvItemToQueue xCopyPosition entry xTicksToWait s) (\<lambda>r.
       case snd r of
         Inl res \<Rightarrow> Some (fst r, res)
       | Inr (entry1, xTicks1) \<Rightarrow>
           send_loop others q pvItemToQueue xCopyPosition entry1 xTicks1 (others (fst r)))"

definition xQueueGenericSend :: "(ipc \<Rightarrow> ipc) \<Rightarrow> nat \<Rightarrow> u8 list \<Rightarrow> u32 \<Rightarrow> copy_position \<Rightarrow> ipc \<Rightarrow> (ipc \<times> bool) option" where
  "xQueueGenericSend others q pvItemToQueue xTicksToWait xCopyPosition s =
     send_loop others q pvItemToQueue xCopyPosition None xTicksToWait s"

text \<open>
  From an interrupt: the last component is \<open>*pxHigherPriorityTaskWoken\<close>, set or left alone. The
  wake-up is left to \<open>prvUnlockQueue\<close> while the queue is locked.
\<close>

definition isr_wake_receiver :: "nat \<Rightarrow> copy_position \<Rightarrow> ipc \<Rightarrow> (ipc \<times> bool) option" where
  "isr_wake_receiver q xCopyPosition s =
     (if xTxLock (queues s q) = queueUNLOCKED
      then (case pxQueueSetContainer (queues s q) of
              Some c \<Rightarrow> prvNotifyQueueSetContainer q xCopyPosition s
            | None \<Rightarrow> wake_waiter (TasksWaitingToReceive q) s)
      else Some (upd_q q (\<lambda>Q. Q\<lparr>xTxLock := xTxLock Q + 1\<rparr>) s, False))"

definition xQueueGenericSendFromISR :: "nat \<Rightarrow> u8 list \<Rightarrow> copy_position \<Rightarrow> ipc \<Rightarrow> (ipc \<times> bool \<times> bool) option" where
  "xQueueGenericSendFromISR q pvItemToQueue xCopyPosition s =
     (let (k, mask) = ulPortSetInterruptMask (K s); s1 = set_k k s; Q = queues s1 q
      in if uxMessagesWaiting Q < uxLength Q \<or> xCopyPosition = queueOVERWRITE
         then do {
           (s3, woken) \<leftarrow> isr_wake_receiver q xCopyPosition (fst (prvCopyDataToQueue q pvItemToQueue xCopyPosition s1));
           Some (on_k (vPortClearInterruptMask mask) s3, True, woken) }
         else Some (on_k (vPortClearInterruptMask mask) s1, False, False))"

definition xQueueGiveFromISR :: "nat \<Rightarrow> ipc \<Rightarrow> (ipc \<times> bool \<times> bool) option" where
  "xQueueGiveFromISR q s =
     (let (k, mask) = ulPortSetInterruptMask (K s); s1 = set_k k s; Q = queues s1 q
      in if uxMessagesWaiting Q < uxLength Q
         then do {
           (s3, woken) \<leftarrow> isr_wake_receiver q queueSEND_TO_BACK
             (upd_q q (\<lambda>Q. Q\<lparr>uxMessagesWaiting := uxMessagesWaiting Q + 1\<rparr>) s1);
           Some (on_k (vPortClearInterruptMask mask) s3, True, woken) }
         else Some (on_k (vPortClearInterruptMask mask) s1, False, False))"

section \<open>Receiving\<close>

text \<open>What \<open>xQueueGenericReceive\<close> does in the critical section when there is a message.\<close>

definition receive_now :: "nat \<Rightarrow> bool \<Rightarrow> ipc \<Rightarrow> (ipc \<times> u8 list) option" where
  "receive_now q xJustPeeking s =
     (let Q = queues s q; ((Q1, m), v) = prvCopyDataFromQueue (Q, qbytes s); s1 = upd_q q (\<lambda>_. Q1) s
      in if \<not> xJustPeeking
         then (let s2 = upd_q q (\<lambda>Q. Q\<lparr>uxMessagesWaiting := uxMessagesWaiting Q - 1\<rparr>) s1;
                   s3 = (if is_mutex (queues s2 q)
                         then (let (k, h) = pvTaskIncrementMutexHeldCount (K s2)
                               in upd_q q (\<lambda>Q. Q\<lparr>pcTail := task_pointer h\<rparr>) (set_k k s2))
                         else s2)
               in do { (s4, b) \<leftarrow> wake_waiter (TasksWaitingToSend q) s3;
                       Some (if b then on_k portYIELD s4 else s4, v) })
         else (let s2 = upd_q q (\<lambda>Q'. Q'\<lparr>pcReadFrom := pcReadFrom Q\<rparr>) s1
               in do { (s4, b) \<leftarrow> wake_waiter (TasksWaitingToReceive q) s2;
                       Some (if b then on_k portYIELD s4 else s4, v) }))"

text \<open>The holder of a mutex inherits the priority of the task that is about to wait for it.\<close>

definition inherit_for_wait :: "nat \<Rightarrow> ipc \<Rightarrow> ipc" where
  "inherit_for_wait q s =
     (if is_mutex (queues s q)
      then on_k vPortExitCritical (on_k (vTaskPriorityInherit (pxMutexHolder (queues s q))) (on_k vPortEnterCritical s))
      else s)"

definition xQueueGenericReceive_pass :: "nat \<Rightarrow> bool \<Rightarrow> TimeOut_t option \<Rightarrow> u32 \<Rightarrow> ipc \<Rightarrow>
    (ipc \<times> (u8 list option + TimeOut_t option \<times> u32)) option" where
  "xQueueGenericReceive_pass q xJustPeeking entry xTicksToWait s =
     (let s1 = on_k vPortEnterCritical s; Q = queues s1 q
      in if uxMessagesWaiting Q > 0
         then do { (s2, v) \<leftarrow> receive_now q xJustPeeking s1; Some (on_k vPortExitCritical s2, Inl (Some v)) }
         else if xTicksToWait = 0 then Some (on_k vPortExitCritical s1, Inl None)
         else wait_pass q (TasksWaitingToReceive q) (prvIsQueueEmpty q) (inherit_for_wait q) None
                (case entry of None \<Rightarrow> vTaskSetTimeOutState (K s1) | Some x \<Rightarrow> x) xTicksToWait
                (on_k vPortExitCritical s1))"

partial_function (option) receive_loop :: "(ipc \<Rightarrow> ipc) \<Rightarrow> nat \<Rightarrow> bool \<Rightarrow> TimeOut_t option \<Rightarrow> u32 \<Rightarrow>
    ipc \<Rightarrow> (ipc \<times> u8 list option) option" where
  "receive_loop others q xJustPeeking entry xTicksToWait s =
     Option.bind (xQueueGenericReceive_pass q xJustPeeking entry xTicksToWait s) (\<lambda>r.
       case snd r of
         Inl res \<Rightarrow> Some (fst r, res)
       | Inr (entry1, xTicks1) \<Rightarrow> receive_loop others q xJustPeeking entry1 xTicks1 (others (fst r)))"

definition xQueueGenericReceive :: "(ipc \<Rightarrow> ipc) \<Rightarrow> nat \<Rightarrow> u32 \<Rightarrow> bool \<Rightarrow> ipc \<Rightarrow> (ipc \<times> u8 list option) option" where
  "xQueueGenericReceive others q xTicksToWait xJustPeeking s = receive_loop others q xJustPeeking None xTicksToWait s"

definition xQueueReceiveFromISR :: "nat \<Rightarrow> ipc \<Rightarrow> (ipc \<times> u8 list option \<times> bool) option" where
  "xQueueReceiveFromISR q s =
     (let (k, mask) = ulPortSetInterruptMask (K s); s1 = set_k k s; Q = queues s1 q
      in if uxMessagesWaiting Q > 0
         then (let ((Q1, m), v) = prvCopyDataFromQueue (Q, qbytes s1);
                   s2 = upd_q q (\<lambda>_. Q1\<lparr>uxMessagesWaiting := uxMessagesWaiting Q1 - 1\<rparr>) s1
               in do {
                 (s3, woken) \<leftarrow>
                   (if xRxLock (queues s2 q) = queueUNLOCKED then wake_waiter (TasksWaitingToSend q) s2
                    else Some (upd_q q (\<lambda>Q. Q\<lparr>xRxLock := xRxLock Q + 1\<rparr>) s2, False));
                 Some (on_k (vPortClearInterruptMask mask) s3, Some v, woken) })
         else Some (on_k (vPortClearInterruptMask mask) s1, None, False))"

definition xQueuePeekFromISR :: "nat \<Rightarrow> ipc \<Rightarrow> ipc \<times> u8 list option" where
  "xQueuePeekFromISR q s =
     (let (k, mask) = ulPortSetInterruptMask (K s); s1 = set_k k s; Q = queues s1 q
      in if uxMessagesWaiting Q > 0
         then (let ((Q1, m), v) = prvCopyDataFromQueue (Q, qbytes s1)
               in (on_k (vPortClearInterruptMask mask) (upd_q q (\<lambda>_. Q1\<lparr>pcReadFrom := pcReadFrom Q\<rparr>) s1), Some v))
         else (on_k (vPortClearInterruptMask mask) s1, None))"

section \<open>Mutexes\<close>

definition xQueueCreateMutex :: "hook \<Rightarrow> u32 \<Rightarrow> (ipc \<Rightarrow> ipc) \<Rightarrow> ipc \<Rightarrow> (ipc \<times> nat option) option" where
  "xQueueCreateMutex hook sizeof_Queue others s = do {
     (o1, p) \<leftarrow> pvPortMalloc hook sizeof_Queue (sys s);
     let s1 = s\<lparr>sys := o1\<rparr>;
     if p \<noteq> NULL
     then do {
       let q = unat p;
       let s2 = upd_q q (\<lambda>Q. Q\<lparr>pcTail := NULL, pcHead := NULL, pcWriteTo := NULL, pcReadFrom := NULL,
                               uxMessagesWaiting := 0, uxLength := 1, uxItemSize := 0,
                               xRxLock := queueUNLOCKED, xTxLock := queueUNLOCKED, pxQueueSetContainer := None\<rparr>) s1;
       let s3 = on_k (init_event_list (TasksWaitingToReceive q)) (on_k (init_event_list (TasksWaitingToSend q)) s2);
       (s4, _) \<leftarrow> xQueueGenericSend others q [] 0 queueSEND_TO_BACK s3;
       Some (s4, Some q) }
     else Some (s1, None) }"

definition xQueueGetMutexHolder :: "nat \<Rightarrow> ipc \<Rightarrow> ipc \<times> nat option" where
  "xQueueGetMutexHolder q s =
     (let s1 = on_k vPortEnterCritical s; Q = queues s1 q
      in (on_k vPortExitCritical s1, if is_mutex Q then pxMutexHolder Q else None))"

text \<open>\<open>uxRecursiveCallCount\<close> shares its word with \<open>pcReadFrom\<close>.\<close>

definition xQueueGiveMutexRecursive :: "(ipc \<Rightarrow> ipc) \<Rightarrow> nat \<Rightarrow> ipc \<Rightarrow> (ipc \<times> bool) option" where
  "xQueueGiveMutexRecursive others q s =
     (if pcTail (queues s q) = task_pointer (xTaskGetCurrentTaskHandle (K s))
      then (let s1 = upd_q q (\<lambda>Q. Q\<lparr>pcReadFrom := pcReadFrom Q - 1\<rparr>) s
            in if pcReadFrom (queues s1 q) = 0
               then do { (s2, _) \<leftarrow> xQueueGenericSend others q [] 0 queueSEND_TO_BACK s1; Some (s2, True) }
               else Some (s1, True))
      else Some (s, False))"

definition xQueueTakeMutexRecursive :: "(ipc \<Rightarrow> ipc) \<Rightarrow> nat \<Rightarrow> u32 \<Rightarrow> ipc \<Rightarrow> (ipc \<times> bool) option" where
  "xQueueTakeMutexRecursive others q xTicksToWait s =
     (if pcTail (queues s q) = task_pointer (xTaskGetCurrentTaskHandle (K s))
      then Some (upd_q q (\<lambda>Q. Q\<lparr>pcReadFrom := pcReadFrom Q + 1\<rparr>) s, True)
      else do {
        (s1, v) \<leftarrow> xQueueGenericReceive others q xTicksToWait False s;
        Some (if v \<noteq> None then (upd_q q (\<lambda>Q. Q\<lparr>pcReadFrom := pcReadFrom Q + 1\<rparr>) s1, True) else (s1, False)) })"

section \<open>Queries, registry, deletion\<close>

definition uxQueueMessagesWaiting :: "nat \<Rightarrow> ipc \<Rightarrow> ipc \<times> u32" where
  "uxQueueMessagesWaiting q s =
     (let s1 = on_k vPortEnterCritical s in (on_k vPortExitCritical s1, uxMessagesWaiting (queues s1 q)))"

definition uxQueueSpacesAvailable :: "nat \<Rightarrow> ipc \<Rightarrow> ipc \<times> u32" where
  "uxQueueSpacesAvailable q s =
     (let s1 = on_k vPortEnterCritical s
      in (on_k vPortExitCritical s1, uxLength (queues s1 q) - uxMessagesWaiting (queues s1 q)))"

definition uxQueueMessagesWaitingFromISR :: "nat \<Rightarrow> ipc \<Rightarrow> u32" where
  "uxQueueMessagesWaitingFromISR q s = uxMessagesWaiting (queues s q)"

definition xQueueIsQueueEmptyFromISR :: "nat \<Rightarrow> ipc \<Rightarrow> bool" where
  "xQueueIsQueueEmptyFromISR q s \<longleftrightarrow> uxMessagesWaiting (queues s q) = 0"

definition xQueueIsQueueFullFromISR :: "nat \<Rightarrow> ipc \<Rightarrow> bool" where
  "xQueueIsQueueFullFromISR q s \<longleftrightarrow> uxMessagesWaiting (queues s q) = uxLength (queues s q)"

text \<open>The registry is an array of \<open>configQUEUE_REGISTRY_SIZE\<close> entries: the first free one is taken.\<close>

fun registry_add :: "nat \<Rightarrow> string \<Rightarrow> (string option \<times> nat) list \<Rightarrow> (string option \<times> nat) list" where
  "registry_add q nm [] = []"
| "registry_add q nm ((n, h) # es) =
     (if n = None then (Some nm, q) # es else (n, h) # registry_add q nm es)"

definition vQueueAddToRegistry :: "nat \<Rightarrow> string \<Rightarrow> ipc \<Rightarrow> ipc" where
  "vQueueAddToRegistry q pcQueueName s = s\<lparr>xQueueRegistry := registry_add q pcQueueName (xQueueRegistry s)\<rparr>"

fun registry_remove :: "nat \<Rightarrow> (string option \<times> nat) list \<Rightarrow> (string option \<times> nat) list" where
  "registry_remove q [] = []"
| "registry_remove q ((n, h) # es) = (if h = q then (None, h) # es else (n, h) # registry_remove q es)"

definition vQueueUnregisterQueue :: "nat \<Rightarrow> ipc \<Rightarrow> ipc" where
  "vQueueUnregisterQueue q s = s\<lparr>xQueueRegistry := registry_remove q (xQueueRegistry s)\<rparr>"

definition vQueueDelete :: "nat \<Rightarrow> ipc \<Rightarrow> ipc option" where
  "vQueueDelete q s =
     (let s1 = vQueueUnregisterQueue q s
      in do { o1 \<leftarrow> vPortFree (of_nat q) (sys s1); Some (s1\<lparr>sys := o1\<rparr>) })"

section \<open>The timer task and queue sets\<close>

definition vQueueWaitForMessageRestricted :: "nat \<Rightarrow> u32 \<Rightarrow> bool \<Rightarrow> ipc \<Rightarrow> ipc option" where
  "vQueueWaitForMessageRestricted q xTicksToWait xWaitIndefinitely s =
     (let s1 = prvLockQueue q s
      in prvUnlockQueue q
           (if uxMessagesWaiting (queues s1 q) = 0
            then on_k (vTaskPlaceOnEventListRestricted (TasksWaitingToReceive q) xTicksToWait xWaitIndefinitely) s1
            else s1))"

definition xQueueCreateSet :: "hook \<Rightarrow> u32 \<Rightarrow> u32 \<Rightarrow> ipc \<Rightarrow> (ipc \<times> nat option) option" where
  "xQueueCreateSet hook sizeof_Queue uxEventQueueLength s = xQueueGenericCreate hook sizeof_Queue uxEventQueueLength 4 s"

definition xQueueAddToSet :: "nat \<Rightarrow> nat \<Rightarrow> ipc \<Rightarrow> ipc \<times> bool" where
  "xQueueAddToSet q xQueueSet s =
     (let s1 = on_k vPortEnterCritical s; Q = queues s1 q;
          (s2, r) = (if pxQueueSetContainer Q \<noteq> None then (s1, False)
                     else if uxMessagesWaiting Q \<noteq> 0 then (s1, False)
                     else (upd_q q (\<lambda>Q. Q\<lparr>pxQueueSetContainer := Some xQueueSet\<rparr>) s1, True))
      in (on_k vPortExitCritical s2, r))"

definition xQueueRemoveFromSet :: "nat \<Rightarrow> nat \<Rightarrow> ipc \<Rightarrow> ipc \<times> bool" where
  "xQueueRemoveFromSet q xQueueSet s =
     (if pxQueueSetContainer (queues s q) \<noteq> Some xQueueSet then (s, False)
      else if uxMessagesWaiting (queues s q) \<noteq> 0 then (s, False)
      else (on_k vPortExitCritical
              (upd_q q (\<lambda>Q. Q\<lparr>pxQueueSetContainer := None\<rparr>) (on_k vPortEnterCritical s)), True))"

definition xQueueSelectFromSet :: "(ipc \<Rightarrow> ipc) \<Rightarrow> nat \<Rightarrow> u32 \<Rightarrow> ipc \<Rightarrow> (ipc \<times> u8 list option) option" where
  "xQueueSelectFromSet others xQueueSet xTicksToWait s = xQueueGenericReceive others xQueueSet xTicksToWait False s"

definition xQueueSelectFromSetFromISR :: "nat \<Rightarrow> ipc \<Rightarrow> (ipc \<times> u8 list option) option" where
  "xQueueSelectFromSetFromISR xQueueSet s = do {
     (s1, v, _) \<leftarrow> xQueueReceiveFromISR xQueueSet s; Some (s1, v) }"

end
