(* ===== verification/EventWake.thy ===== *)
theory EventWake
  imports EventOrder TaskTime
begin

text \<open>
  What the users of event lists (queues, event groups) rely on: the sequence of an event list, what
  waking the first waiter, blocking on a list and inheriting a priority do to it, and critical sections
  in which nothing is held back.
\<close>

section \<open>Sequences and context switches\<close>

lemma chain_next: "chain s n = Some xs \<Longrightarrow> \<forall>s'. pxNext s' = pxNext s \<longrightarrow> chain s' n = Some xs"
proof (erule chain.raw_induct [rotated])
  fix f :: "('l, 'i) lstore \<Rightarrow> ('l, 'i) node \<Rightarrow> 'i list option" and s n xs
  assume IH: "\<And>s n xs. f s n = Some xs \<Longrightarrow> \<forall>s'. pxNext s' = pxNext s \<longrightarrow> chain s' n = Some xs"
    and e: "(case pxNext s n of End x \<Rightarrow> Some [] | Item i \<Rightarrow> Option.bind (f s (Item i)) (\<lambda>xs. Some (i # xs))) = Some xs"
  show "\<forall>s'. pxNext s' = pxNext s \<longrightarrow> chain s' n = Some xs"
    using e IH by (auto simp: chain.simps [of _ n] split: node.splits bind_splits)
qed

lemma items_next: "pxNext s' = pxNext s \<Longrightarrow> items s' = items s"
proof (rule ext)
  fix l
  assume n: "pxNext s' = pxNext s"
  have "chain s' (End l) = chain s (End l)"
    using n chain_next [of s "End l"] chain_next [of s' "End l"] by (metis not_Some_eq)
  then show "items s' l = items s l" by (simp add: items_def)
qed

lemma select_items [simp]: "items (lists (taskSELECT_HIGHEST_PRIORITY_TASK k)) = items (lists k)"
  by (rule items_next)
    (simp add: taskSELECT_HIGHEST_PRIORITY_TASK_def listGET_OWNER_OF_NEXT_ENTRY_def Let_def split: option.split)

lemma switch_items [simp]:
  "items (lists (vTaskSwitchContext k)) = items (lists k)" "items (lists (portYIELD k)) = items (lists k)"
  "items (lists (vPortExitCritical k)) = items (lists k)"
  by (simp_all add: vTaskSwitchContext_def portYIELD_def vPortYieldCall_def vPortExitCritical_def Let_def)

lemma set_event_value_items [simp]: "items (lists (set_event_value t v k)) = items (lists k)"
  by (rule items_next) (simp add: set_event_value_def listSET_LIST_ITEM_VALUE_def)

lemma reset_next_lists [simp]: "lists (prvResetNextTaskUnblockTime k) = lists k"
  by (simp add: prvResetNextTaskUnblockTime_def split: option.split)

section \<open>Critical sections\<close>

text \<open>A critical section that nothing was held back in.\<close>

definition calm :: "kernel \<Rightarrow> bool" where
  "calm k \<longleftrightarrow> ulCriticalNesting k = 0 \<and> \<not> ulPortYieldPending k"

lemma critical_pair: "calm k \<Longrightarrow> vPortExitCritical (vPortEnterCritical k) = k\<lparr>interrupts_on := True\<rparr>"
  by (simp add: calm_def vPortExitCritical_def vPortEnterCritical_def Let_def)

lemma calm_frame [simp]:
  "calm (k\<lparr>interrupts_on := b\<rparr>) = calm k" "calm (vTaskSuspendAll k) = calm k" "calm (k\<lparr>lists := x\<rparr>) = calm k"
  by (simp_all add: calm_def vTaskSuspendAll_def)

lemma enter_fields [simp]:
  "ulPortYieldPending (vPortEnterCritical k) = ulPortYieldPending k" "ulCriticalNesting (vPortEnterCritical k) = ulCriticalNesting k + 1"
  by (simp_all add: vPortEnterCritical_def Let_def)

lemma exit_after: "ulCriticalNesting k = 1 \<Longrightarrow> \<not> ulPortYieldPending k \<Longrightarrow>
    vPortExitCritical k = k\<lparr>ulCriticalNesting := 0, interrupts_on := True\<rparr>"
  by (simp add: vPortExitCritical_def Let_def)

section \<open>Resuming the scheduler when nothing is held back\<close>

text \<open>Only who runs has changed: every task is where it was, and so is what it waits for.\<close>

definition same_tasks :: "kernel \<Rightarrow> kernel \<Rightarrow> bool" where
  "same_tasks k k' \<longleftrightarrow> pvContainer (lists k') = pvContainer (lists k) \<and> pvOwner (lists k') = pvOwner (lists k) \<and> xItemValue (lists k') = xItemValue (lists k) \<and>
     items (lists k') = items (lists k) \<and> tcb k' = tcb k \<and> evlists k' = evlists k \<and> live k' = live k \<and>
     uxPendedTicks k' = uxPendedTicks k \<and> xTickCount k' = xTickCount k"

lemma same_tasks_refl: "same_tasks k k"
  by (simp add: same_tasks_def)

lemma same_tasks_trans: "same_tasks k k1 \<Longrightarrow> same_tasks k1 k2 \<Longrightarrow> same_tasks k k2"
  by (simp add: same_tasks_def)

lemma select_values: "xItemValue (lists (taskSELECT_HIGHEST_PRIORITY_TASK k)) = xItemValue (lists k)"
  by (simp add: taskSELECT_HIGHEST_PRIORITY_TASK_def listGET_OWNER_OF_NEXT_ENTRY_def Let_def split: option.split)

lemma switch_values [simp]:
  "xItemValue (lists (vTaskSwitchContext k)) = xItemValue (lists k)" "xItemValue (lists (portYIELD k)) = xItemValue (lists k)"
  "xItemValue (lists (vPortExitCritical k)) = xItemValue (lists k)"
  by (simp_all add: vTaskSwitchContext_def portYIELD_def vPortYieldCall_def vPortExitCritical_def Let_def select_values)

lemma same_tasks_switch:
  "same_tasks k (portYIELD k)" "same_tasks k (vPortExitCritical k)" "same_tasks k (vPortEnterCritical k)"
  "same_tasks k (k\<lparr>uxSchedulerSuspended := n\<rparr>)" "same_tasks k (vTaskSuspendAll k)"
  by (simp_all add: same_tasks_def vPortEnterCritical_def vTaskSuspendAll_def Let_def fun_eq_iff)

lemma pending_list_empty:
  assumes "kinv {} k" and "pending k = {}"
  shows "listLIST_IS_EMPTY PendingReady (lists k)"
  using pending_head [OF assms(1)] assms(2) by (auto simp: listLIST_IS_EMPTY_def)

lemma resume_quiet:
  assumes k: "kinv {} k" and t: "uxPendedTicks k = 0" and p: "pending k = {}"
  shows "\<exists>k' b. xTaskResumeAll k = Some (k', b) \<and> kinv {} k' \<and> same_tasks k k' \<and>
    uxSchedulerSuspended k' = uxSchedulerSuspended k - 1 \<and> (uxSchedulerSuspended k \<noteq> 1 \<longrightarrow> \<not> b)"
proof -
  let ?k2 = "(vPortEnterCritical k)\<lparr>uxSchedulerSuspended := uxSchedulerSuspended k - 1\<rparr>"
  have k2: "kinv {} ?k2" using k by simp
  have p2: "pending ?k2 = {}" using p by (simp add: pending_def)
  have l1: "pending_ready_loop ?k2 = Some ?k2"
    using pending_list_empty [OF k2 p2] by (subst pending_ready_loop.simps) simp
  have l2: "pended_ticks_loop ?k2 = Some ?k2" using t by (subst pended_ticks_loop.simps) simp
  have s2: "same_tasks k ?k2"
    using same_tasks_trans [OF same_tasks_switch(3) same_tasks_switch(4)] by simp
  define a where "a = (uxSchedulerSuspended ?k2 = 0 \<and> uxCurrentNumberOfTasks ?k2 > 0 \<and> xYieldPending ?k2)"
  let ?k5 = "if a then portYIELD ?k2 else ?k2"
  have eq: "xTaskResumeAll k = Some (vPortExitCritical ?k5, a)"
    using l1 l2 by (auto simp: xTaskResumeAll_def Let_def a_def)
  have "kinv {} (vPortExitCritical ?k5)" using k2 kinv_portYIELD [OF k2] by (simp add: kinv_exit_critical)
  moreover have "same_tasks k (vPortExitCritical ?k5)"
    using s2 same_tasks_trans [OF s2 same_tasks_switch(1)] same_tasks_trans [OF _ same_tasks_switch(2)] by auto
  moreover have "uxSchedulerSuspended k \<noteq> 1 \<Longrightarrow> \<not> a" by (simp add: a_def)
  ultimately show ?thesis using eq by (intro exI [of _ "vPortExitCritical ?k5"] exI [of _ a]) simp
qed

text \<open>Nothing is held back: no tick and no task that becomes ready when the scheduler is resumed.\<close>

definition quiet :: "kernel \<Rightarrow> bool" where
  "quiet k \<longleftrightarrow> uxPendedTicks k = 0 \<and> pending k = {}"

section \<open>The items of an event list\<close>

lemma event_list_kinds:
  assumes "kinvd D X k" and "l \<in> evlists k"
  shows "l \<noteq> PendingReady" and "l \<noteq> Ready p" and "l \<noteq> Suspended" and "l \<noteq> Delayed1" and "l \<noteq> Delayed2"
    and "l \<noteq> Termination"
  using assms by (auto simp: kinvd_def kinv_lists_def)

lemma event_items_remove_generic:
  assumes "kinvd D X k" and "l \<in> evlists k"
  shows "items (lists (remove_generic_item t k)) l = items (lists k) l"
proof -
  have lK: "l \<in> KL k" using assms(2) by simp
  have "Generic t \<notin> set (items (lists k) l)"
    using set_items [OF kinv_wf [OF assms(1)] lK] kinv_contD(1) [OF assms(1), of t l] event_list_kinds [OF assms(1), of l] assms(2)
    by (auto simp: state_lists_def)
  then show ?thesis
    using uxListRemove_store(2) [OF kinv_wf [OF assms(1)] lK] by (simp add: remove_generic_item_def remove1_idem)
qed

lemma event_items_remove_state:
  assumes "kinvd D X k" and "l \<in> evlists k"
  shows "items (lists (remove_state_item t k)) l = items (lists k) l"
  using event_items_remove_generic [OF assms, of t]
  by (simp add: remove_state_item_def remove_generic_item_def taskRESET_READY_PRIORITY_def reset_ready_priority_def split_beta Let_def)

lemma event_items_add_ready:
  assumes "kinvd D X k" and "l \<in> evlists k" and "gcont k t = None" and "prio k t < configMAX_PRIORITIES"
  shows "items (lists (prvAddTaskToReadyList t k)) l = items (lists k) l"
proof -
  have "l \<noteq> Ready (prio k t)" using event_list_kinds(2) [OF assms(1)] assms(2) by blast
  then show ?thesis
    using vListInsertEnd_store(2) [OF kinv_wf [OF assms(1)], of "Ready (prio k t)" "Generic t" l] assms(2-4)
    by (simp add: prvAddTaskToReadyList_def taskRECORD_READY_PRIORITY_def Let_def)
qed

lemma event_items_remove_event:
  assumes "kinvd D X k" and "l \<in> evlists k"
  shows "items (lists (remove_event_item t k)) l = remove1 (Event t) (items (lists k) l)"
  using uxListRemove_store(2) [OF kinv_wf [OF assms(1)], of l] assms(2) by (simp add: remove_event_item_def)

lemma event_items:
  assumes "kinv {} k" and "l \<in> evlists k - timer_lists"
  shows "set (items (lists k) l) = Event ` {t. econt k t = Some l}" and "distinct (items (lists k) l)"
    and "length (items (lists k) l) < 2 ^ 31"
proof -
  have lK: "l \<in> KL k" using assms(2) by simp
  show s: "set (items (lists k) l) = Event ` {t. econt k t = Some l}"
    using set_items [OF kinv_wf [OF assms(1)] lK] event_item [OF assms] by auto
  show d: "distinct (items (lists k) l)" by (rule distinct_items [OF kinv_wf [OF assms(1)] lK])
  have f: "finite (live k)" "card (live k) < 2 ^ 31" using kinv_parts(3) [OF assms(1)] by (auto simp: kinv_tasks_def)
  have "set (items (lists k) l) \<subseteq> Event ` live k" using s kinv_liveD(2) [OF assms(1)] by auto
  then have "length (items (lists k) l) \<le> card (Event ` live k)" using d f(1) by (intro length_le_card) auto
  then show "length (items (lists k) l) < 2 ^ 31" using card_image_le [OF f(1), of Event] f(2) by linarith
qed

lemma list_empty_iff:
  assumes "kinv {} k" and "l \<in> evlists k - timer_lists"
  shows "listLIST_IS_EMPTY l (lists k) \<longleftrightarrow> items (lists k) l = []"
  using uxNumberOfItems_items [OF kinv_wf [OF assms(1)], of l] assms(2) event_items(3) [OF assms]
    of_nat_length_0_iff [of "items (lists k) l"] by (simp add: listLIST_IS_EMPTY_def)

lemma event_items_apart:
  assumes "kinv {} k" and "l \<in> evlists k - timer_lists" and "l' \<in> evlists k - timer_lists" and "l \<noteq> l'"
    and "econt k t = Some l"
  shows "remove1 (Event t) (items (lists k) l') = items (lists k) l'"
proof -
  have "Event t \<notin> set (items (lists k) l')" using event_items(1) [OF assms(1,3)] assms(4,5) by auto
  then show ?thesis by (rule remove1_idem)
qed

lemma distinct_singleton_set: "set xs = {a} \<Longrightarrow> distinct xs \<Longrightarrow> xs = [a]"
  by (cases xs) (auto simp: subset_singleton_iff)

section \<open>Waking the first waiter\<close>

text \<open>The two lists of software timers, and their items, as they were.\<close>

definition timer_frame :: "kernel \<Rightarrow> kernel \<Rightarrow> bool" where
  "timer_frame k k' \<longleftrightarrow> evlists k' = evlists k \<and>
     (\<forall>m. pvContainer (lists k') (TimerItem m) = pvContainer (lists k) (TimerItem m) \<and>
        pvOwner (lists k') (TimerItem m) = pvOwner (lists k) (TimerItem m) \<and>
        xItemValue (lists k') (Item (TimerItem m)) = xItemValue (lists k) (Item (TimerItem m))) \<and>
     (\<forall>l \<in> evlists k \<inter> timer_lists. items (lists k') l = items (lists k) l)"

lemma timer_frame_refl: "timer_frame k k"
  by (simp add: timer_frame_def)

lemma timer_frame_trans: "timer_frame k k1 \<Longrightarrow> timer_frame k1 k2 \<Longrightarrow> timer_frame k k2"
  by (simp add: timer_frame_def)

lemma same_tasks_timers: "same_tasks k k' \<Longrightarrow> timer_frame k k'"
  by (simp add: timer_frame_def same_tasks_def)

lemma no_event_in_timer_list:
  assumes "kinv {} k" and "l \<in> evlists k \<inter> timer_lists"
  shows "Event t \<notin> set (items (lists k) l)"
  using set_items [OF kinv_wf [OF assms(1)], of l] assms(2) kinv_contD(6) [OF assms(1), of t l] by auto

text \<open>What waking task \<open>t\<close> from its event list does, and all it leaves alone.\<close>

definition event_woken :: "kernel \<Rightarrow> nat \<Rightarrow> kernel \<Rightarrow> bool" where
  "event_woken k t k' \<longleftrightarrow> kinv {} k' \<and>
     (\<forall>u. gcont k' u = (if u = t \<and> uxSchedulerSuspended k = 0 then Some (Ready (prio k t)) else gcont k u)) \<and>
     (\<forall>u. econt k' u = (if u = t then (if uxSchedulerSuspended k = 0 then None else Some PendingReady) else econt k u)) \<and>
     tcb k' = tcb k \<and> evlists k' = evlists k \<and> live k' = live k \<and> pxCurrentTCB k' = pxCurrentTCB k \<and>
     uxSchedulerSuspended k' = uxSchedulerSuspended k \<and> ulCriticalNesting k' = ulCriticalNesting k \<and>
     ulPortYieldPending k' = ulPortYieldPending k \<and> xTickCount k' = xTickCount k \<and> uxPendedTicks k' = uxPendedTicks k \<and>
     (\<forall>l \<in> evlists k. items (lists k') l = remove1 (Event t) (items (lists k) l)) \<and> timer_frame k k'"

lemma event_wake_ok:
  assumes k: "kinv {} k" and l: "l \<in> evlists k - timer_lists" and ne: "items (lists k) l \<noteq> []"
  shows "\<exists>k' t. xTaskRemoveFromEventList l k = Some (k', prio k t > prio k (cur k)) \<and>
    items (lists k) l = Event t # tl (items (lists k) l) \<and> econt k t = Some l \<and> event_woken k t k'"
proof -
  obtain k' t where r: "xTaskRemoveFromEventList l k = Some (k', prio k t > prio k (cur k))" "kinv {} k'"
    "hd (items (lists k) l) = Event t" "econt k t = Some l" "tcb k' = tcb k"
    "gcont k' = (gcont k)(t := if uxSchedulerSuspended k = 0 then Some (Ready (prio k t)) else gcont k t)"
    "econt k' = (econt k)(t := if uxSchedulerSuspended k = 0 then None else Some PendingReady)"
    using remove_from_event_list_ok [OF assms] by blast
  have h: "items (lists k) l = Event t # tl (items (lists k) l)" using r(3) ne by (metis list.collapse)
  have tl: "t \<in> live k" by (rule kinv_liveD(2) [OF k r(4)])
  let ?k1 = "remove_event_item t k"
  have k1: "kinv {} ?k1" by (rule kinv_remove_event_item [OF k])
  obtain g where g: "gcont k t = Some g" "g \<noteq> Termination"
    using kinv_liveD(5) [OF k tl] kinv_contD(5) [OF k r(4)] by auto
  have kg: "kinv {t} (remove_generic_item t ?k1)" using kinv_remove_generic_item [OF k1, of t g] g by simp
  have pr: "prio k t < configMAX_PRIORITIES" by (rule kinv_tcbD(1) [OF k tl])
  have ow: "listGET_OWNER_OF_HEAD_ENTRY l (lists k) = Some t"
    using event_head [OF assms] h by (metis item.inject(2) list.sel(1))
  define k2 where "k2 = (if uxSchedulerSuspended k = 0 then prvAddTaskToReadyList t (remove_generic_item t ?k1)
     else ?k1\<lparr>lists := vListInsertEnd PendingReady (Event t) (lists ?k1)\<rparr>)"
  have eq: "k' = prvResetNextTaskUnblockTime (if prio k t > prio k (cur k) then k2\<lparr>xYieldPending := True\<rparr> else k2)"
    using r(1) ow by (auto simp: xTaskRemoveFromEventList_def Let_def k2_def cur_def split: if_splits)
  have i: "items (lists k2) l' = remove1 (Event t) (items (lists k) l')" if l': "l' \<in> evlists k" for l'
  proof -
    have "items (lists (prvAddTaskToReadyList t (remove_generic_item t ?k1))) l' = items (lists ?k1) l'"
      using event_items_add_ready [OF kg, of l' t] event_items_remove_generic [OF k1, of l' t] l' pr by simp
    moreover have "items (vListInsertEnd PendingReady (Event t) (lists ?k1)) l' = items (lists ?k1) l'"
      using vListInsertEnd_store(2) [OF kinv_wf [OF k1], of PendingReady "Event t" l'] l'
        event_list_kinds(1) [OF k, of l'] by simp
    ultimately show ?thesis using event_items_remove_event [OF k, of l' t] l' by (simp add: k2_def)
  qed
  have "timer_frame k k'"
    unfolding timer_frame_def using i remove1_idem [OF no_event_in_timer_list [OF k]] by (auto simp: eq k2_def)
  then have "event_woken k t k'"
    unfolding event_woken_def using r(2,5) fun_cong [OF r(6)] fun_cong [OF r(7)] i by (auto simp: eq k2_def)
  then show ?thesis using r(1,4) h by blast
qed

section \<open>Blocking\<close>

lemma fresh_timeout:
  assumes "calm k" and "w \<noteq> 0" and "xTimeOnEntering x = xTickCount k" and "xOverflowCount x = xNumOfOverflows k"
  shows "\<exists>x'. xTaskCheckForTimeOut x w k = (k\<lparr>interrupts_on := True\<rparr>, False, x', w)"
  using assms critical_pair [OF assms(1)]
  by (auto simp: xTaskCheckForTimeOut_def Let_def word_neq_0_conv)

text \<open>The task is off the processor: on the event list, for \<open>w\<close> ticks or without a limit.\<close>

definition blocked_on :: "kernel \<Rightarrow> nat \<Rightarrow> lid \<Rightarrow> u32 \<Rightarrow> bool" where
  "blocked_on k t l w \<longleftrightarrow> econt k t = Some l \<and>
     (if w = portMAX_DELAY then gcont k t = Some Suspended else timed k t \<and> remaining k t = w)"

lemma resumed_blocked:
  assumes r: "resumed k k'" and p: "uxPendedTicks k = 0" "pending k = {}" and w: "w \<noteq> 0" and b: "blocked_on k t l w"
    and k: "kinv {} k"
  shows "blocked_on k' t l w" and "gcont k' u = gcont k u" and "econt k' u = econt k u"
proof -
  have "remaining k u \<noteq> 0" if "timed k u" for u
    by (rule remaining_nonzero [OF k that])
  then have s: "gcont k' u = gcont k u" "econt k' u = econt k u" for u using r p by (auto simp: resumed_def)
  show "gcont k' u = gcont k u" "econt k' u = econt k u" by (rule s)+
  show "blocked_on k' t l w"
  proof -
    have "gval k' t = gval k t" "xTickCount k' = xTickCount k" using r p(1) fun_cong [of "gval k'" "gval k" t]
      by (auto simp: resumed_def)
    then show ?thesis using b s by (auto simp: blocked_on_def timed_def remaining_def split: if_splits)
  qed
qed

lemma place_frame [simp]:
  "evlists (vTaskPlaceOnEventList l w k) = evlists k" "tcb (vTaskPlaceOnEventList l w k) = tcb k"
  "live (vTaskPlaceOnEventList l w k) = live k" "uxSchedulerSuspended (vTaskPlaceOnEventList l w k) = uxSchedulerSuspended k"
  "ulCriticalNesting (vTaskPlaceOnEventList l w k) = ulCriticalNesting k"
  "ulPortYieldPending (vTaskPlaceOnEventList l w k) = ulPortYieldPending k"
  "uxPendedTicks (vTaskPlaceOnEventList l w k) = uxPendedTicks k"
  by (simp_all add: vTaskPlaceOnEventList_def block_current_task_def Let_def)

lemma resumed_keeps:
  assumes "resumed k k'"
  shows "tcb k' = tcb k" "live k' = live k" "evlists k' = evlists k" "uxSchedulerSuspended k' = 0" "uxPendedTicks k' = 0"
  using assms by (simp_all add: resumed_def)

text \<open>A task that may block on \<open>l\<close>: it runs, waits for nothing, and nothing is held back.\<close>

definition may_block :: "kernel \<Rightarrow> nat \<Rightarrow> lid \<Rightarrow> bool" where
  "may_block k t l \<longleftrightarrow> kinv {} k \<and> event_ready k t l \<and> calm k \<and> uxSchedulerSuspended k = 0 \<and>
     uxPendedTicks k = 0 \<and> pending k = {}"

lemma may_block_suspended:
  assumes "may_block k t l"
  defines "k2 \<equiv> (vTaskSuspendAll (k\<lparr>interrupts_on := True\<rparr>))\<lparr>interrupts_on := True\<rparr>"
  shows "kinv {} k2" "event_ready k2 t l" "calm k2" "uxSchedulerSuspended k2 = 1" "uxPendedTicks k2 = 0" "pending k2 = {}"
    "gcont k2 = gcont k" "econt k2 = econt k" "evlists k2 = evlists k" "tcb k2 = tcb k"
  using assms(1) by (simp_all add: k2_def may_block_def event_ready_def running_task_def pending_def)

lemma blocked_same: "same_tasks k k' \<Longrightarrow> blocked_on k t l w \<Longrightarrow> blocked_on k' t l w"
  by (auto simp: blocked_on_def timed_def remaining_def same_tasks_def)

section \<open>Inheritance\<close>

lemma set_event_value_nesting [simp]:
  "ulCriticalNesting (set_event_value t v k) = ulCriticalNesting k"
  "ulPortYieldPending (set_event_value t v k) = ulPortYieldPending k"
  "uxPendedTicks (set_event_value t v k) = uxPendedTicks k"
  by (simp_all add: set_event_value_def)

lemma inherit_frame [simp]:
  "evlists (vTaskPriorityInherit h k) = evlists k" "pxCurrentTCB (vTaskPriorityInherit h k) = pxCurrentTCB k"
  "uxSchedulerSuspended (vTaskPriorityInherit h k) = uxSchedulerSuspended k"
  "ulCriticalNesting (vTaskPriorityInherit h k) = ulCriticalNesting k"
  "ulPortYieldPending (vTaskPriorityInherit h k) = ulPortYieldPending k"
  "uxPendedTicks (vTaskPriorityInherit h k) = uxPendedTicks k" "xTickCount (vTaskPriorityInherit h k) = xTickCount k"
  "econt (vTaskPriorityInherit h k) u = econt k u"
  by (simp_all add: vTaskPriorityInherit_def Let_def split: option.split)

lemma inherit_live [simp]: "live (vTaskPriorityInherit h k) = live k"
  by (simp add: vTaskPriorityInherit_def Let_def split: option.split)

lemma disinherit_frame [simp]:
  "evlists (fst (xTaskPriorityDisinherit h k)) = evlists k" "pxCurrentTCB (fst (xTaskPriorityDisinherit h k)) = pxCurrentTCB k"
  "uxSchedulerSuspended (fst (xTaskPriorityDisinherit h k)) = uxSchedulerSuspended k"
  "econt (fst (xTaskPriorityDisinherit h k)) u = econt k u"
  by (simp_all add: xTaskPriorityDisinherit_def Let_def split: option.split)

lemma disinherit_others: "u \<noteq> t \<Longrightarrow> tcb (fst (xTaskPriorityDisinherit (Some t) k)) u = tcb k u"
  by (simp add: xTaskPriorityDisinherit_def Let_def update_tcb_def)


text \<open>The waiting task \<open>t\<close>, the holder \<open>h\<close>, and the state in which \<open>h\<close> has inherited.\<close>

lemma inherit_in_section:
  assumes k: "kinv {} k" and e: "event_ready k t l" and c: "calm k" and h: "h \<in> live k" "h \<noteq> t"
  defines "k2 \<equiv> vPortExitCritical (vTaskPriorityInherit (Some h) (vPortEnterCritical k))"
  shows "kinv {} k2" "event_ready k2 t l" "calm k2" "uxSchedulerSuspended k2 = uxSchedulerSuspended k"
    "uxPendedTicks k2 = uxPendedTicks k" "pending k2 = pending k" "evlists k2 = evlists k"
    "prio k2 h = max (prio k h) (prio k t)" "u \<noteq> h \<Longrightarrow> tcb k2 u = tcb k u"
    "uxBasePriority (tcb k2 h) = uxBasePriority (tcb k h)" "uxMutexesHeld (tcb k2 h) = uxMutexesHeld (tcb k h)"
    "econt k2 = econt k" "gcont k2 h = (if gcont k h = Some (Ready (prio k h)) then Some (Ready (max (prio k h) (prio k t))) else gcont k h)"
    "u \<noteq> h \<Longrightarrow> gcont k2 u = gcont k u"
proof -
  let ?k0 = "vPortEnterCritical k"
  let ?k1 = "vTaskPriorityInherit (Some h) ?k0"
  have ct: "cur k = t" "t \<in> live k" using event_readyD [OF k e] e by (auto simp: event_ready_def running_task_def cur_def)
  have k0: "kinv {} ?k0" "h \<in> live ?k0" "cur ?k0 \<in> live ?k0" using k h ct by (simp_all add: cur_def)
  note i = inherit_ok [OF k0]
  have eq: "k2 = ?k1\<lparr>ulCriticalNesting := 0, interrupts_on := True\<rparr>"
    unfolding k2_def by (rule exit_after) (use c in \<open>simp_all add: calm_def\<close>)
  have cr: "cur ?k0 = t" using ct by (simp add: cur_def)
  show "kinv {} k2" "calm k2" "uxSchedulerSuspended k2 = uxSchedulerSuspended k"
    "uxPendedTicks k2 = uxPendedTicks k" "evlists k2 = evlists k" "econt k2 = econt k"
    "prio k2 h = max (prio k h) (prio k t)" "u \<noteq> h \<Longrightarrow> tcb k2 u = tcb k u" 
    "uxBasePriority (tcb k2 h) = uxBasePriority (tcb k h)" "uxMutexesHeld (tcb k2 h) = uxMutexesHeld (tcb k h)"
    "gcont k2 h = (if gcont k h = Some (Ready (prio k h)) then Some (Ready (max (prio k h) (prio k t))) else gcont k h)"
    using i(1-5) i(6) [of h] c by (auto simp: eq calm_def cr ct(1))
  have g: "gcont k2 u = gcont k u" if "u \<noteq> h" for u using i(6) [of u] that by (simp add: eq)
  then show "u \<noteq> h \<Longrightarrow> gcont k2 u = gcont k u" .
  show "pending k2 = pending k" by (simp add: pending_def eq)
  show "event_ready k2 t l" using e h(2) g [of t] i(5) [of t] by (auto simp: event_ready_def running_task_def eq)
qed

lemma disinherit_items:
  assumes k: "kinv {} k" and t: "t \<in> live k" and nt: "gcont k t \<noteq> Some Termination" and l: "l \<in> evlists k - timer_lists"
  shows "items (lists (fst (xTaskPriorityDisinherit (Some t) k))) l = items (lists k) l"
proof -
  let ?k1 = "update_tcb t (\<lambda>x. x\<lparr>uxMutexesHeld := uxMutexesHeld x - 1\<rparr>) k" and ?g = "\<lambda>x. x\<lparr>uxPriority := uxBasePriority x\<rparr>"
  let ?k2 = "remove_state_item t ?k1"
  have k1: "kinv {} ?k1" by (rule kinv_update_tcb [OF k]) auto
  obtain c where c: "gcont ?k1 t = Some c" "c \<noteq> Termination" using kinv_liveD(5) [OF k t] nt by auto
  have k2: "kinv {t} ?k2" "bit_exact (prio ?k1 t) ?k2" using kinv_remove_state_item [OF k1 c] by simp_all
  have "kinv {t} (update_tcb t ?g ?k2)"
    by (rule kinv_set_priority [OF k2(1)]) (use k2(2) t kinv_tcbD [OF k t] in auto)
  then have k4: "kinv {t} (set_event_value t v (update_tcb t ?g ?k2))" for v by simp
  have i2: "items (lists ?k2) l = items (lists k) l" using event_items_remove_state [OF k1, of l t] l by simp
  show ?thesis
    using event_items_add_ready [OF k4, where l = l and t = t] i2 l kinv_tcbD(2) [OF k t]
    by (simp add: xTaskPriorityDisinherit_def Let_def)
qed

section \<open>The timer task blocks\<close>

lemma block_current_task_timers:
  assumes k: "kinv {} k" and t: "running_task k t"
  shows "pvContainer (lists (block_current_task forever w k)) (TimerItem m) = pvContainer (lists k) (TimerItem m)"
    and "pvOwner (lists (block_current_task forever w k)) (TimerItem m) = pvOwner (lists k) (TimerItem m)"
proof -
  let ?k1 = "remove_ready_item t (prio k t) k"
  have g: "gcont k t = Some (Ready (prio k t))" and c: "cur k = t" "cur ?k1 = t"
    using t by (simp_all add: running_task_def cur_def)
  have k1: "kinv {t} ?k1" using kinv_remove_ready_item [OF k g] by simp
  show "pvContainer (lists (block_current_task forever w k)) (TimerItem m) = pvContainer (lists k) (TimerItem m)"
    "pvOwner (lists (block_current_task forever w k)) (TimerItem m) = pvOwner (lists k) (TimerItem m)"
    using add_delayed_lists [OF k1] c by (simp_all add: block_current_task_def Let_def)
qed

lemma place_restricted_more:
  assumes k: "kinv {} k" and e: "event_ready k t l" and w: "forever \<or> w \<noteq> 0"
  defines "k' \<equiv> vTaskPlaceOnEventListRestricted l w forever k"
  shows "if forever then gcont k' t = Some Suspended else timed k' t \<and> remaining k' t = w"
    and "u \<noteq> t \<Longrightarrow> gcont k' u = gcont k u \<and> econt k' u = econt k u"
    and "timer_frame k k'"
proof -
  note d = event_readyD [OF k e]
  let ?k1 = "k\<lparr>lists := vListInsertEnd l (Event t) (lists k)\<rparr>"
  have k1: "kinv {} ?k1" by (rule kinv_put_event(2) [OF k d(1,5,6,4)])
  have t1: "running_task ?k1 t" using d(7) by (simp add: running_task_def)
  note b = block_current_task_ok [OF k1 t1 w] and v = block_current_task_events [OF k1 t1]
  have eq: "k' = block_current_task forever w ?k1"
    by (simp add: k'_def vTaskPlaceOnEventListRestricted_def d(2))
  show "if forever then gcont k' t = Some Suspended else timed k' t \<and> remaining k' t = w" using b(2) unfolding eq .
  show "u \<noteq> t \<Longrightarrow> gcont k' u = gcont k u \<and> econt k' u = econt k u"
    using b(4) [of u] fun_cong [OF b(3), of u] by (simp add: eq)
  have le: "l \<in> evlists k - timer_lists" using e by (simp add: event_ready_def)
  have "items (lists k') l' = items (lists k) l'" if l': "l' \<in> evlists k \<inter> timer_lists" for l'
  proof -
    have "l' \<noteq> l" "l' \<in> KL k" "l \<in> KL k" using l' le by auto
    then show ?thesis
      using v(1) [of l' forever w] l' vListInsertEnd_store(2) [OF kinv_wf [OF k], of l "Event t" l'] d(6) by (simp add: eq)
  qed
  moreover have "xItemValue (lists k') (Item (TimerItem m)) = xItemValue (lists k) (Item (TimerItem m))" for m
    using v(4) [of l] le by (simp add: eq)
  moreover have "evlists k' = evlists k" "pvContainer (lists k') (TimerItem m) = pvContainer (lists k) (TimerItem m)"
    "pvOwner (lists k') (TimerItem m) = pvOwner (lists k) (TimerItem m)" for m
    using block_current_task_timers [OF k1 t1, of forever w m] le by (simp_all add: eq block_current_task_def Let_def)
  ultimately show "timer_frame k k'" by (simp add: timer_frame_def)
qed

lemma restricted_frame [simp]:
  "tcb (vTaskPlaceOnEventListRestricted l w f k) = tcb k" "evlists (vTaskPlaceOnEventListRestricted l w f k) = evlists k"
  "uxSchedulerSuspended (vTaskPlaceOnEventListRestricted l w f k) = uxSchedulerSuspended k"
  "ulCriticalNesting (vTaskPlaceOnEventListRestricted l w f k) = ulCriticalNesting k"
  "ulPortYieldPending (vTaskPlaceOnEventListRestricted l w f k) = ulPortYieldPending k"
  "uxPendedTicks (vTaskPlaceOnEventListRestricted l w f k) = uxPendedTicks k"
  by (simp_all add: vTaskPlaceOnEventListRestricted_def block_current_task_def Let_def)

end
