(* ===== verification/QueueOk.thy ===== *)
theory QueueOk
  imports Queue EventWake
begin

text \<open>
  What the queue operations do to the kernel: every operation keeps \<open>kinv\<close>, a send or receive that
  need not wait wakes the first waiter of the other side, one that must wait blocks the caller on the
  event list of the queue, and \<open>prvUnlockQueue\<close> makes up for the wake-ups that were held back while
  the queue was locked.
\<close>

section \<open>Frames\<close>

lemma ipc_simps [simp]:
  "K (set_k k s) = k" "queues (set_k k s) = queues s" "qbytes (set_k k s) = qbytes s"
  "K (on_k f s) = f (K s)" "queues (on_k f s) = queues s" "qbytes (on_k f s) = qbytes s"
  "K (upd_q q g s) = K s" "queues (upd_q q g s) = (queues s)(q := g (queues s q))" "qbytes (upd_q q g s) = qbytes s"
  "xQueueRegistry (set_k k s) = xQueueRegistry s" "xQueueRegistry (on_k f s) = xQueueRegistry s"
  "xQueueRegistry (upd_q q g s) = xQueueRegistry s"
  by (simp_all add: set_k_def on_k_def upd_q_def)

section \<open>Waking the first waiter\<close>

lemma wake_waiter_ok:
  assumes k: "kinv {} (K s)" and l: "l \<in> evlists (K s) - timer_lists"
  shows "items (lists (K s)) l = [] \<Longrightarrow> wake_waiter l s = Some (s, False)"
    and "items (lists (K s)) l \<noteq> [] \<Longrightarrow> \<exists>k' t. wake_waiter l s = Some (set_k k' s, prio (K s) t > prio (K s) (cur (K s))) \<and>
      items (lists (K s)) l = Event t # tl (items (lists (K s)) l) \<and> econt (K s) t = Some l \<and> event_woken (K s) t k'"
proof -
  have e: "listLIST_IS_EMPTY l (lists (K s)) \<longleftrightarrow> items (lists (K s)) l = []"
    using list_empty_iff [OF k, of l] l by simp
  show "items (lists (K s)) l = [] \<Longrightarrow> wake_waiter l s = Some (s, False)" using e by (simp add: wake_waiter_def)
  show "items (lists (K s)) l \<noteq> [] \<Longrightarrow> \<exists>k' t. wake_waiter l s = Some (set_k k' s, prio (K s) t > prio (K s) (cur (K s))) \<and>
      items (lists (K s)) l = Event t # tl (items (lists (K s)) l) \<and> econt (K s) t = Some l \<and> event_woken (K s) t k'"
    using event_wake_ok [OF k l] e by (fastforce simp: wake_waiter_def)
qed

section \<open>Unlocking a queue\<close>

lemma sint_dec: "sint (w :: u32) > 0 \<Longrightarrow> sint (w - 1) = sint w - 1"
proof -
  assume p: "sint w > 0"
  have b: "sint w < 2 ^ 31" using sint_lt [of w] by simp
  have "sint (w - 1) = signed_take_bit 31 (sint w - 1)" by (simp add: sint_word_ariths)
  also have "\<dots> = sint w - 1" using p b by (intro signed_take_bit_int_eq_self) simp_all
  finally show ?thesis .
qed

lemma sint_inc: "0 \<le> sint (w :: u32) \<Longrightarrow> sint w + 1 < 2 ^ 31 \<Longrightarrow> sint (w + 1) = sint w + 1"
proof -
  assume p: "0 \<le> sint w" "sint w + 1 < 2 ^ 31"
  have "sint (w + 1) = signed_take_bit 31 (sint w + 1)" by (simp add: sint_word_ariths)
  also have "\<dots> = sint w + 1" using p by (intro signed_take_bit_int_eq_self) simp_all
  finally show ?thesis .
qed

text \<open>
  \<open>drained l n k k'\<close>: the first \<open>n\<close> waiters of \<open>l\<close> have been woken, in order; with the
  scheduler suspended they are pending, else ready.
\<close>

definition drained :: "lid \<Rightarrow> nat \<Rightarrow> kernel \<Rightarrow> kernel \<Rightarrow> bool" where
  "drained l n k k' \<longleftrightarrow> kinv {} k' \<and>
     (\<forall>t. gcont k' t = (if Event t \<in> set (take n (items (lists k) l)) \<and> uxSchedulerSuspended k = 0
        then Some (Ready (prio k t)) else gcont k t)) \<and>
     (\<forall>t. econt k' t = (if Event t \<in> set (take n (items (lists k) l))
        then (if uxSchedulerSuspended k = 0 then None else Some PendingReady) else econt k t)) \<and>
     tcb k' = tcb k \<and> evlists k' = evlists k \<and> live k' = live k \<and> pxCurrentTCB k' = pxCurrentTCB k \<and>
     uxSchedulerSuspended k' = uxSchedulerSuspended k \<and> ulCriticalNesting k' = ulCriticalNesting k \<and>
     ulPortYieldPending k' = ulPortYieldPending k \<and> xTickCount k' = xTickCount k \<and> uxPendedTicks k' = uxPendedTicks k \<and>
     items (lists k') l = drop n (items (lists k) l) \<and>
     (\<forall>l' \<in> evlists k - timer_lists - {l}. items (lists k') l' = items (lists k) l')"

lemma drained_0: "kinv {} k \<Longrightarrow> drained l 0 k k"
  by (simp add: drained_def)

lemma drained_empty: "kinv {} k \<Longrightarrow> items (lists k) l = [] \<Longrightarrow> drained l n k k"
  by (simp add: drained_def)

lemma drained_frame [simp]: "drained l n k (k'\<lparr>xYieldPending := b\<rparr>) = drained l n k k'"
  "drained l n (k\<lparr>xYieldPending := b\<rparr>) k' = drained l n k k'"
  by (simp_all add: drained_def)

lemma drained_Suc:
  assumes k: "kinv {} k" and l: "l \<in> evlists k - timer_lists"
    and h: "items (lists k) l = Event t # ts" and w: "event_woken k t k1" and d: "drained l n k1 k2"
  shows "drained l (Suc n) k k2"
proof -
  have et: "econt k t = Some l" using event_items(1) [OF k l] h by auto
  have nt: "Event t \<notin> set ts" using event_items(2) [OF k l] h by simp
  have i1: "items (lists k1) l = ts" using w h l by (simp add: event_woken_def)
  have i2: "items (lists k1) l' = items (lists k) l'" if "l' \<in> evlists k - timer_lists - {l}" for l'
    using w that event_items_apart [OF k l, of l' t] et by (auto simp: event_woken_def)
  have nt': "Event t \<notin> set (take n ts)" using nt by (meson in_set_takeD)
  show ?thesis
    using d w i2 nt' unfolding drained_def event_woken_def i1 h by auto
qed

text \<open>One turn of either unlock loop: a waiter is woken and the lock count goes down.\<close>

lemma unlock_step:
  assumes k: "kinv {} (K s)" and l: "l \<in> evlists (K s) - timer_lists" and ne: "items (lists (K s)) l \<noteq> []"
  obtains r where "wake_waiter l s = Some r"
    and "\<And>s1. s1 = upd_q q g (if snd r then on_k vTaskMissedYield (fst r) else fst r) \<Longrightarrow>
      kinv {} (K s1) \<and> evlists (K s1) = evlists (K s) \<and> qbytes s1 = qbytes s \<and>
      queues s1 = (queues s)(q := g (queues s q)) \<and> (\<forall>n k2. drained l n (K s1) k2 \<longrightarrow> drained l (Suc n) (K s) k2)"
proof -
  obtain k' t where w: "wake_waiter l s = Some (set_k k' s, prio (K s) t > prio (K s) (cur (K s)))"
    "items (lists (K s)) l = Event t # tl (items (lists (K s)) l)" "event_woken (K s) t k'"
    using wake_waiter_ok(2) [OF k l ne] by blast
  have d: "drained l (Suc n) (K s) k2" if "drained l n k' k2" for n k2 by (rule drained_Suc [OF k l w(2,3) that])
  show thesis
    by (rule that [OF w(1)]) (use w(3) d in \<open>auto simp: event_woken_def vTaskMissedYield_def\<close>)
qed

lemma unlock_rx_ok:
  assumes "kinv {} (K s)" and "TasksWaitingToSend q \<in> evlists (K s)" and "n = nat (sint (xRxLock (queues s q)))"
  shows "\<exists>s' v. unlock_rx q s = Some s' \<and> drained (TasksWaitingToSend q) n (K s) (K s') \<and> qbytes s' = qbytes s \<and>
    queues s' = (queues s)(q := (queues s q)\<lparr>xRxLock := v\<rparr>)"
  using assms
proof (induction n arbitrary: s)
  case 0
  then show ?case
    by (subst unlock_rx.simps) (auto simp: drained_0 intro: exI [of _ "xRxLock (queues s q)"])
next
  case (Suc n)
  let ?l = "TasksWaitingToSend q" and ?g = "\<lambda>Q. Q\<lparr>xRxLock := xRxLock Q - 1\<rparr>"
  have l: "?l \<in> evlists (K s) - timer_lists" using Suc.prems(2) by (simp add: timer_lists_def)
  have p: "sint (xRxLock (queues s q)) > 0" using Suc.prems(3) by simp
  show ?case
  proof (cases "items (lists (K s)) ?l = []")
    case True
    then show ?thesis using p list_empty_iff [OF Suc.prems(1) l] drained_empty [OF Suc.prems(1) True]
      by (subst unlock_rx.simps) (auto intro: exI [of _ "xRxLock (queues s q)"])
  next
    case False
    obtain r where w: "wake_waiter ?l s = Some r" and st: "\<And>s1. s1 = upd_q q ?g (if snd r then on_k vTaskMissedYield (fst r) else fst r) \<Longrightarrow>
      kinv {} (K s1) \<and> evlists (K s1) = evlists (K s) \<and> qbytes s1 = qbytes s \<and>
      queues s1 = (queues s)(q := ?g (queues s q)) \<and> (\<forall>n k2. drained ?l n (K s1) k2 \<longrightarrow> drained ?l (Suc n) (K s) k2)"
      using unlock_step [OF Suc.prems(1) l False, of q ?g] by blast
    define s1 where "s1 = upd_q q ?g (if snd r then on_k vTaskMissedYield (fst r) else fst r)"
    note f = st [OF s1_def]
    have eq: "unlock_rx q s = unlock_rx q s1"
      using p False list_empty_iff [OF Suc.prems(1) l] by (subst unlock_rx.simps) (simp add: w s1_def)
    have n: "n = nat (sint (xRxLock (queues s1 q)))" using Suc.prems(3) p f by (simp add: sint_dec)
    have c: "kinv {} (K s1)" "TasksWaitingToSend q \<in> evlists (K s1)" using f Suc.prems(2) by simp_all
    obtain s' v where s': "unlock_rx q s1 = Some s'" "drained ?l n (K s1) (K s')" "qbytes s' = qbytes s1"
      "queues s' = (queues s1)(q := (queues s1 q)\<lparr>xRxLock := v\<rparr>)"
      using Suc.IH [OF c n] by blast
    show ?thesis using eq s' f by (intro exI [of _ s'] exI [of _ v]) simp
  qed
qed

lemma unlock_tx_ok:
  assumes "kinv {} (K s)" and "TasksWaitingToReceive q \<in> evlists (K s)" and "pxQueueSetContainer (queues s q) = None"
    and "n = nat (sint (xTxLock (queues s q)))"
  shows "\<exists>s' v. unlock_tx q s = Some s' \<and> drained (TasksWaitingToReceive q) n (K s) (K s') \<and> qbytes s' = qbytes s \<and>
    queues s' = (queues s)(q := (queues s q)\<lparr>xTxLock := v\<rparr>)"
  using assms
proof (induction n arbitrary: s)
  case 0
  then show ?case
    by (subst unlock_tx.simps) (auto simp: drained_0 intro: exI [of _ "xTxLock (queues s q)"])
next
  case (Suc n)
  let ?l = "TasksWaitingToReceive q" and ?g = "\<lambda>Q. Q\<lparr>xTxLock := xTxLock Q - 1\<rparr>"
  have l: "?l \<in> evlists (K s) - timer_lists" using Suc.prems(2) by (simp add: timer_lists_def)
  have p: "sint (xTxLock (queues s q)) > 0" using Suc.prems(4) by simp
  show ?case
  proof (cases "items (lists (K s)) ?l = []")
    case True
    then show ?thesis using p Suc.prems(3) list_empty_iff [OF Suc.prems(1) l] drained_empty [OF Suc.prems(1) True]
      by (subst unlock_tx.simps) (auto intro: exI [of _ "xTxLock (queues s q)"])
  next
    case False
    obtain r where w: "wake_waiter ?l s = Some r" and st: "\<And>s1. s1 = upd_q q ?g (if snd r then on_k vTaskMissedYield (fst r) else fst r) \<Longrightarrow>
      kinv {} (K s1) \<and> evlists (K s1) = evlists (K s) \<and> qbytes s1 = qbytes s \<and>
      queues s1 = (queues s)(q := ?g (queues s q)) \<and> (\<forall>n k2. drained ?l n (K s1) k2 \<longrightarrow> drained ?l (Suc n) (K s) k2)"
      using unlock_step [OF Suc.prems(1) l False, of q ?g] by blast
    define s1 where "s1 = upd_q q ?g (if snd r then on_k vTaskMissedYield (fst r) else fst r)"
    note f = st [OF s1_def]
    have eq: "unlock_tx q s = unlock_tx q s1"
      using p False Suc.prems(3) list_empty_iff [OF Suc.prems(1) l] by (subst unlock_tx.simps) (simp add: w s1_def)
    have n: "n = nat (sint (xTxLock (queues s1 q)))" using Suc.prems(4) p f by (simp add: sint_dec)
    have c: "kinv {} (K s1)" "TasksWaitingToReceive q \<in> evlists (K s1)" "pxQueueSetContainer (queues s1 q) = None"
      using f Suc.prems(2,3) by simp_all
    obtain s' v where s': "unlock_tx q s1 = Some s'" "drained ?l n (K s1) (K s')" "qbytes s' = qbytes s1"
      "queues s' = (queues s1)(q := (queues s1 q)\<lparr>xTxLock := v\<rparr>)"
      using Suc.IH [OF c n] by blast
    show ?thesis using eq s' f by (intro exI [of _ s'] exI [of _ v]) simp
  qed
qed

definition queue_live :: "nat \<Rightarrow> ipc \<Rightarrow> bool" where
  "queue_live q s \<longleftrightarrow> TasksWaitingToSend q \<in> evlists (K s) \<and> TasksWaitingToReceive q \<in> evlists (K s)"

lemma queue_liveD:
  "queue_live q s \<Longrightarrow> TasksWaitingToSend q \<in> evlists (K s) - timer_lists"
  "queue_live q s \<Longrightarrow> TasksWaitingToReceive q \<in> evlists (K s) - timer_lists"
  by (auto simp: queue_live_def timer_lists_def)

lemma prvUnlockQueue_ok:
  assumes k: "kinv {} (K s)" and q: "queue_live q s" and c: "pxQueueSetContainer (queues s q) = None"
    and n: "n = nat (sint (xTxLock (queues s q)))" and m: "m = nat (sint (xRxLock (queues s q)))"
  shows "\<exists>s'. prvUnlockQueue q s = Some s' \<and> kinv {} (K s') \<and> qbytes s' = qbytes s \<and>
    queues s' = (queues s)(q := (queues s q)\<lparr>xRxLock := queueUNLOCKED, xTxLock := queueUNLOCKED\<rparr>) \<and>
    evlists (K s') = evlists (K s) \<and> tcb (K s') = tcb (K s) \<and> uxSchedulerSuspended (K s') = uxSchedulerSuspended (K s) \<and>
    items (lists (K s')) (TasksWaitingToReceive q) = drop n (items (lists (K s)) (TasksWaitingToReceive q)) \<and>
    items (lists (K s')) (TasksWaitingToSend q) = drop m (items (lists (K s)) (TasksWaitingToSend q)) \<and>
    (\<forall>t. Event t \<in> set (take n (items (lists (K s)) (TasksWaitingToReceive q))) \<union>
           set (take m (items (lists (K s)) (TasksWaitingToSend q))) \<longrightarrow>
       (if uxSchedulerSuspended (K s) = 0 then gcont (K s') t = Some (Ready (prio (K s) t)) \<and> econt (K s') t = None
        else econt (K s') t = Some PendingReady))"
proof -
  let ?R = "TasksWaitingToReceive q" and ?S = "TasksWaitingToSend q"
  let ?s0 = "on_k vPortEnterCritical s"
  have p0: "kinv {} (K ?s0)" "?R \<in> evlists (K ?s0)" "pxQueueSetContainer (queues ?s0 q) = None"
    "n = nat (sint (xTxLock (queues ?s0 q)))" using k q c n by (simp_all add: queue_live_def)
  obtain s1 v where u1: "unlock_tx q ?s0 = Some s1" "drained ?R n (K ?s0) (K s1)" "qbytes s1 = qbytes ?s0"
    "queues s1 = (queues ?s0)(q := (queues ?s0 q)\<lparr>xTxLock := v\<rparr>)"
    using unlock_tx_ok [OF p0] by blast
  have s1: "unlock_tx q ?s0 = Some s1" "drained ?R n (K ?s0) (K s1)" "qbytes s1 = qbytes s"
    "queues s1 = (queues s)(q := (queues s q)\<lparr>xTxLock := v\<rparr>)"
    using u1 by (simp_all only: ipc_simps)
  let ?s2 = "on_k vPortEnterCritical (on_k vPortExitCritical (upd_q q (\<lambda>Q. Q\<lparr>xTxLock := queueUNLOCKED\<rparr>) s1))"
  have k2: "kinv {} (K ?s2)" "evlists (K ?s2) = evlists (K s)" using s1(2) by (auto simp: drained_def intro: kinv_exit_critical)
  have m2: "m = nat (sint (xRxLock (queues ?s2 q)))" using s1(4) m by simp
  have q2: "?S \<in> evlists (K ?s2)" using k2(2) q by (simp add: queue_live_def)
  obtain s3 v' where s3: "unlock_rx q ?s2 = Some s3" "drained ?S m (K ?s2) (K s3)" "qbytes s3 = qbytes ?s2"
    "queues s3 = (queues ?s2)(q := (queues ?s2 q)\<lparr>xRxLock := v'\<rparr>)"
    using unlock_rx_ok [OF k2(1) q2 m2] by blast
  let ?s4 = "on_k vPortExitCritical (upd_q q (\<lambda>Q. Q\<lparr>xRxLock := queueUNLOCKED\<rparr>) s3)"
  have eq: "prvUnlockQueue q s = Some ?s4" using s1(1) s3(1) by (simp add: prvUnlockQueue_def Let_def)
  have SR: "?S \<in> evlists (K s) - timer_lists - {?R}" "?R \<in> evlists (K s) - timer_lists - {?S}"
    using queue_liveD [OF q] by auto
  have R2: "items (lists (K ?s2)) ?R = drop n (items (lists (K s)) ?R)" and S2: "items (lists (K ?s2)) ?S = items (lists (K s)) ?S"
    using s1(2) SR(1) by (simp_all add: drained_def)
  have R4: "items (lists (K ?s4)) ?R = drop n (items (lists (K s)) ?R)" and S4: "items (lists (K ?s4)) ?S = drop m (items (lists (K s)) ?S)"
    using s3(2) SR(2) k2(2) R2 S2 by (simp_all add: drained_def)
  have apart: "Event t \<notin> set (items (lists (K s)) ?S)" if "Event t \<in> set (items (lists (K s)) ?R)" for t
    using event_items(1) [OF k queue_liveD(1) [OF q]] event_items(1) [OF k queue_liveD(2) [OF q]] that by auto
  have w: "if uxSchedulerSuspended (K s) = 0 then gcont (K ?s4) t = Some (Ready (prio (K s) t)) \<and> econt (K ?s4) t = None
        else econt (K ?s4) t = Some PendingReady"
    if "Event t \<in> set (take n (items (lists (K s)) ?R)) \<union> set (take m (items (lists (K s)) ?S))" for t
    using that s1(2) s3(2) S2 apart [of t] by (auto simp: drained_def dest: in_set_takeD)
  show ?thesis
    by (intro exI [of _ ?s4] conjI eq R4 S4 allI impI w)
      (use s1 s3 in \<open>auto simp: drained_def kinv_exit_critical\<close>)
qed

section \<open>Sends from interrupts\<close>

lemma mask_pair [simp]: "vPortClearInterruptMask (snd (ulPortSetInterruptMask k)) (fst (ulPortSetInterruptMask k)) = k"
  by (simp add: vPortClearInterruptMask_def ulPortSetInterruptMask_def)

lemma set_k_id [simp]: "set_k (K s) s = s" "set_k k (set_k k' s) = set_k k s"
  by (simp_all add: set_k_def)

lemma ring_lock_frame [simp]:
  "ring_ok (Q\<lparr>xTxLock := a\<rparr>, m) = ring_ok (Q, m)" "contents (Q\<lparr>xTxLock := a\<rparr>, m) = contents (Q, m)"
  "ring_ok (Q\<lparr>xRxLock := a\<rparr>, m) = ring_ok (Q, m)" "contents (Q\<lparr>xRxLock := a\<rparr>, m) = contents (Q, m)"
  by (simp_all add: ring_ok_def contents_def area_ok_def slot_def read_pos_def)

lemma ring_put_fields:
  assumes "ring_put p x (Q, m) = (Q', m')"
  shows "xTxLock Q' = xTxLock Q" "xRxLock Q' = xRxLock Q" "pxQueueSetContainer Q' = pxQueueSetContainer Q"
    "uxLength Q' = uxLength Q" "uxItemSize Q' = uxItemSize Q" "pcHead Q' = pcHead Q" "pcTail Q' = pcTail Q"
  using assms by (auto simp: ring_put_def write_back_def write_front_def count_message_def Let_def split: if_splits)

text \<open>A queue of items that is in order: the storage area and the size of a message.\<close>

definition item_queue :: "nat \<Rightarrow> ipc \<Rightarrow> bool" where
  "item_queue q s \<longleftrightarrow> ring_ok (queues s q, qbytes s)"

definition messages :: "nat \<Rightarrow> ipc \<Rightarrow> u8 list list" where
  "messages q s = contents (queues s q, qbytes s)"

text \<open>What no call changes of a queue.\<close>

definition shape :: "nat \<Rightarrow> ipc \<Rightarrow> u32 \<times> u32 \<times> nat option" where
  "shape q s = (uxLength (queues s q), uxItemSize (queues s q), pxQueueSetContainer (queues s q))"

lemma item_size: "item_queue q s \<Longrightarrow> uxItemSize (queues s q) \<noteq> 0"
  by (auto simp: item_queue_def ring_ok_def area_ok_def)

lemma length_messages: "length (messages q s) = waiting (queues s q)"
  by (simp add: messages_def)

lemma copy_to_item_queue:
  assumes "item_queue q s" and "ring_put p x (queues s q, qbytes s) = (Q', m')"
  shows "prvCopyDataToQueue q x p s = (s\<lparr>queues := (queues s)(q := Q'), qbytes := m'\<rparr>, False)"
  using assms item_size by (simp add: prvCopyDataToQueue_def Let_def upd_q_def)

text \<open>Messages that interrupts send one after the other, as far as they are accepted.\<close>

fun isr_sends :: "nat \<Rightarrow> u8 list list \<Rightarrow> ipc \<Rightarrow> ipc option" where
  "isr_sends q [] s = Some s"
| "isr_sends q (x # xs) s =
     Option.bind (xQueueGenericSendFromISR q x queueSEND_TO_BACK s)
       (\<lambda>r. if fst (snd r) then isr_sends q xs (fst r) else None)"

lemma isr_send_locked:
  assumes q: "item_queue q s" and x: "length x = isize (queues s q)" and room: "length (messages q s) < cap (queues s q)"
    and lock: "xTxLock (queues s q) \<noteq> queueUNLOCKED"
  shows "\<exists>s'. xQueueGenericSendFromISR q x queueSEND_TO_BACK s = Some (s', True, False) \<and> K s' = K s \<and>
    item_queue q s' \<and> messages q s' = messages q s @ [x] \<and> xTxLock (queues s' q) = xTxLock (queues s q) + 1 \<and>
    xRxLock (queues s' q) = xRxLock (queues s q) \<and> pxQueueSetContainer (queues s' q) = pxQueueSetContainer (queues s q) \<and>
    cap (queues s' q) = cap (queues s q) \<and> isize (queues s' q) = isize (queues s q)"
proof -
  let ?s1 = "set_k (fst (ulPortSetInterruptMask (K s))) s"
  obtain Q' m' where p: "ring_put queueSEND_TO_BACK x (queues s q, qbytes s) = (Q', m')" by fastforce
  have r: "waiting (queues s q) < cap (queues s q)" using room by (simp add: length_messages)
  note ok = put_back_ok [OF _ x r p] and f = ring_put_fields [OF p]
  have q1: "item_queue q ?s1" using q by (simp add: item_queue_def)
  have p1: "ring_put queueSEND_TO_BACK x (queues ?s1 q, qbytes ?s1) = (Q', m')" using p by simp
  have w: "uxMessagesWaiting (queues s q) < uxLength (queues s q)" using r by (simp add: word_less_nat_alt)
  have e: "xQueueGenericSendFromISR q x queueSEND_TO_BACK s =
    Some (on_k (vPortClearInterruptMask (snd (ulPortSetInterruptMask (K s))))
      (upd_q q (\<lambda>Q. Q\<lparr>xTxLock := xTxLock Q + 1\<rparr>) (?s1\<lparr>queues := (queues s)(q := Q'), qbytes := m'\<rparr>)), True, False)"
    using w f(1) lock copy_to_item_queue [OF q1 p1]
    by (simp add: xQueueGenericSendFromISR_def isr_wake_receiver_def split_beta Let_def)
  show ?thesis
    by (intro exI conjI, rule e)
      (use ok q f in \<open>auto simp: item_queue_def messages_def on_k_def set_k_def upd_q_def\<close>)
qed

lemma isr_sends_locked:
  assumes "item_queue q s" and "\<forall>x \<in> set xs. length x = isize (queues s q)"
    and "length (messages q s) + length xs \<le> cap (queues s q)"
    and "0 \<le> sint (xTxLock (queues s q))" and "sint (xTxLock (queues s q)) + int (length xs) < 2 ^ 31"
  shows "\<exists>s'. isr_sends q xs s = Some s' \<and> K s' = K s \<and> item_queue q s' \<and> messages q s' = messages q s @ xs \<and>
    sint (xTxLock (queues s' q)) = sint (xTxLock (queues s q)) + int (length xs) \<and>
    xRxLock (queues s' q) = xRxLock (queues s q) \<and> pxQueueSetContainer (queues s' q) = pxQueueSetContainer (queues s q)"
  using assms
proof (induction xs arbitrary: s)
  case (Cons x xs)
  have u: "xTxLock (queues s q) \<noteq> queueUNLOCKED" using Cons.prems(4) by (auto simp: queueUNLOCKED_def)
  obtain s1 where s1: "xQueueGenericSendFromISR q x queueSEND_TO_BACK s = Some (s1, True, False)" "K s1 = K s"
    "item_queue q s1" "messages q s1 = messages q s @ [x]" "xTxLock (queues s1 q) = xTxLock (queues s q) + 1"
    "xRxLock (queues s1 q) = xRxLock (queues s q)" "pxQueueSetContainer (queues s1 q) = pxQueueSetContainer (queues s q)"
    "cap (queues s1 q) = cap (queues s q)" "isize (queues s1 q) = isize (queues s q)"
    using isr_send_locked [OF Cons.prems(1) _ _ u] Cons.prems(2,3) by force
  have i: "sint (xTxLock (queues s1 q)) = sint (xTxLock (queues s q)) + 1"
    unfolding s1(5) using Cons.prems(4,5) by (intro sint_inc) auto
  show ?case using Cons.IH [OF s1(3)] Cons.prems s1 i by (simp add: add.assoc)
qed simp

lemma locked_wakeups:
  assumes k: "kinv {} (K s)" and q: "queue_live q s" and c: "pxQueueSetContainer (queues s q) = None"
    and i: "item_queue q s" and sz: "\<forall>x \<in> set xs. length x = isize (queues s q)"
    and room: "length (messages q s) + length xs \<le> cap (queues s q)" and n: "length xs < 2 ^ 31"
    and l: "xTxLock (queues s q) = queueLOCKED_UNMODIFIED" "xRxLock (queues s q) = queueLOCKED_UNMODIFIED"
  shows "\<exists>s1 s2. isr_sends q xs s = Some s1 \<and> K s1 = K s \<and> prvUnlockQueue q s1 = Some s2 \<and> kinv {} (K s2) \<and>
    messages q s2 = messages q s @ xs \<and>
    items (lists (K s2)) (TasksWaitingToReceive q) = drop (length xs) (items (lists (K s)) (TasksWaitingToReceive q)) \<and>
    items (lists (K s2)) (TasksWaitingToSend q) = items (lists (K s)) (TasksWaitingToSend q) \<and>
    (\<forall>t. Event t \<in> set (take (length xs) (items (lists (K s)) (TasksWaitingToReceive q))) \<longrightarrow>
       (if uxSchedulerSuspended (K s) = 0 then gcont (K s2) t = Some (Ready (prio (K s) t)) \<and> econt (K s2) t = None
        else econt (K s2) t = Some PendingReady))"
proof -
  obtain s1 where s1: "isr_sends q xs s = Some s1" "K s1 = K s" "item_queue q s1" "messages q s1 = messages q s @ xs"
    "sint (xTxLock (queues s1 q)) = int (length xs)" "xRxLock (queues s1 q) = queueLOCKED_UNMODIFIED"
    "pxQueueSetContainer (queues s1 q) = None"
    using isr_sends_locked [OF i sz room] l n c by (auto simp: queueLOCKED_UNMODIFIED_def)
  have k1: "kinv {} (K s1)" "queue_live q s1" using k q s1(2) by (simp_all add: queue_live_def)
  have n1: "length xs = nat (sint (xTxLock (queues s1 q)))" "0 = nat (sint (xRxLock (queues s1 q)))"
    using s1(5,6) by (simp_all add: queueLOCKED_UNMODIFIED_def)
  obtain s2 where s2: "prvUnlockQueue q s1 = Some s2" "kinv {} (K s2)" "qbytes s2 = qbytes s1"
    "queues s2 = (queues s1)(q := (queues s1 q)\<lparr>xRxLock := queueUNLOCKED, xTxLock := queueUNLOCKED\<rparr>)"
    "items (lists (K s2)) (TasksWaitingToReceive q) = drop (length xs) (items (lists (K s1)) (TasksWaitingToReceive q))"
    "items (lists (K s2)) (TasksWaitingToSend q) = drop 0 (items (lists (K s1)) (TasksWaitingToSend q))"
    "\<forall>t. Event t \<in> set (take (length xs) (items (lists (K s1)) (TasksWaitingToReceive q))) \<union>
           set (take 0 (items (lists (K s1)) (TasksWaitingToSend q))) \<longrightarrow>
       (if uxSchedulerSuspended (K s1) = 0 then gcont (K s2) t = Some (Ready (prio (K s1) t)) \<and> econt (K s2) t = None
        else econt (K s2) t = Some PendingReady)"
    using prvUnlockQueue_ok [OF k1 s1(7) n1] by blast
  have m: "messages q s2 = messages q s @ xs" using s1(4) s2(3,4) by (simp add: messages_def)
  show ?thesis
    by (intro exI [of _ s1] exI [of _ s2] conjI) (use s1(1,2) s2 m in simp_all)
qed

section \<open>Sends and receives that need not wait\<close>

text \<open>
  What waking the first waiter of \<open>l\<close>, if any, and the end of the critical section leave: the
  invariant, and the head of the list on its way to run.
\<close>

definition woke_first :: "lid \<Rightarrow> kernel \<Rightarrow> kernel \<Rightarrow> bool" where
  "woke_first l k k' \<longleftrightarrow> kinv {} k' \<and> evlists k' = evlists k \<and>
     items (lists k') l = drop 1 (items (lists k) l) \<and>
     (\<forall>t. gcont k' t = (if Event t \<in> set (take 1 (items (lists k) l)) \<and> uxSchedulerSuspended k = 0
        then Some (Ready (prio k t)) else gcont k t)) \<and>
     (\<forall>t. econt k' t = (if Event t \<in> set (take 1 (items (lists k) l))
        then (if uxSchedulerSuspended k = 0 then None else Some PendingReady) else econt k t)) \<and>
     tcb k' = tcb k \<and> uxSchedulerSuspended k' = uxSchedulerSuspended k \<and> xTickCount k' = xTickCount k \<and>
     uxPendedTicks k' = uxPendedTicks k \<and> live k' = live k \<and> timer_frame k k'"

lemma woke_first_frame:
  "woke_first l k k' \<Longrightarrow> woke_first l k (portYIELD k')"
  "woke_first l k k' \<Longrightarrow> woke_first l k (vPortExitCritical k')"
  "woke_first l (vPortEnterCritical k) k' \<Longrightarrow> woke_first l k k'"
  using same_tasks_timers [OF same_tasks_switch(1), of k'] same_tasks_timers [OF same_tasks_switch(2), of k']
    same_tasks_timers [OF same_tasks_switch(3), of k]
  by (auto simp: woke_first_def kinv_portYIELD kinv_exit_critical intro: timer_frame_trans)

lemma wake_then_yield:
  assumes k: "kinv {} (K s)" and l: "l \<in> evlists (K s) - timer_lists"
  shows "\<exists>s' b. wake_waiter l s = Some (s', b) \<and> queues s' = queues s \<and> qbytes s' = qbytes s \<and>
    woke_first l (K s) (K (if b then on_k portYIELD s' else s')) \<and> (items (lists (K s)) l = [] \<longrightarrow> s' = s \<and> \<not> b)"
proof (cases "items (lists (K s)) l = []")
  case True
  then show ?thesis using wake_waiter_ok(1) [OF k l True] k
    by (intro exI [of _ s] exI [of _ False]) (simp add: woke_first_def timer_frame_refl)
next
  case False
  then obtain k' t where w: "wake_waiter l s = Some (set_k k' s, prio (K s) t > prio (K s) (cur (K s)))"
    "items (lists (K s)) l = Event t # tl (items (lists (K s)) l)" "event_woken (K s) t k'"
    using wake_waiter_ok(2) [OF k l] by blast
  have t: "take 1 (items (lists (K s)) l) = [Event t]" "drop 1 (items (lists (K s)) l) = tl (items (lists (K s)) l)"
    by (subst w(2), simp)+
  have i: "items (lists k') l = tl (items (lists (K s)) l)"
    using w(3) l by (simp add: event_woken_def) (subst w(2), simp)
  have "woke_first l (K s) k'" using w(3) i unfolding woke_first_def event_woken_def t by auto
  then show ?thesis using w(1) False woke_first_frame(1) by auto
qed

lemma send_room_ok:
  assumes k: "kinv {} (K s)" and q: "queue_live q s" and c: "pxQueueSetContainer (queues s q) = None"
    and i: "item_queue q s" and x: "length x = isize (queues s q)" and p: "p \<noteq> queueOVERWRITE"
    and room: "length (messages q s) < cap (queues s q)"
  shows "\<exists>s'. xQueueGenericSend_pass q x p entry w s = Some (s', Inl True) \<and> item_queue q s' \<and>
    messages q s' = (if p = queueSEND_TO_BACK then messages q s @ [x] else x # messages q s) \<and>
    woke_first (TasksWaitingToReceive q) (K s) (K s') \<and> (\<forall>q'. q' \<noteq> q \<longrightarrow> queues s' q' = queues s q') \<and> shape q s' = shape q s"
proof -
  let ?R = "TasksWaitingToReceive q" and ?s0 = "on_k vPortEnterCritical s"
  obtain Q' m' where e: "ring_put p x (queues s q, qbytes s) = (Q', m')" by fastforce
  have r: "waiting (queues s q) < cap (queues s q)" using room by (simp add: length_messages)
  have pp: "p = queueSEND_TO_BACK \<or> p = queueSEND_TO_FRONT" using p by (cases p) auto
  have ri: "ring_ok (queues s q, qbytes s)" using i by (simp add: item_queue_def)
  have ok: "ring_ok (Q', m')" "contents (Q', m') = (if p = queueSEND_TO_BACK then messages q s @ [x] else x # messages q s)"
    using put_back_ok [OF ri x r] put_front_ok [OF ri x r] pp e by (auto simp: messages_def)
  have f: "pxQueueSetContainer Q' = None" using ring_put_fields(3) [OF e] c by simp
  let ?s1 = "?s0\<lparr>queues := (queues s)(q := Q'), qbytes := m'\<rparr>"
  have cp: "prvCopyDataToQueue q x p ?s0 = (?s1, False)"
    using copy_to_item_queue [of q ?s0 p x Q' m'] i e by (simp add: item_queue_def)
  have K1: "K ?s1 = vPortEnterCritical (K s)" by simp
  have k1: "kinv {} (K ?s1)" and l1: "?R \<in> evlists (K ?s1) - timer_lists" using k queue_liveD(2) [OF q] by simp_all
  obtain s2 b where s2: "wake_waiter ?R ?s1 = Some (s2, b)" "queues s2 = queues ?s1" "qbytes s2 = qbytes ?s1"
    "woke_first ?R (K ?s1) (K (if b then on_k portYIELD s2 else s2))" "items (lists (K ?s1)) ?R = [] \<longrightarrow> s2 = ?s1 \<and> \<not> b"
    using wake_then_yield [OF k1 l1] by blast
  let ?s3 = "if b then on_k portYIELD s2 else s2"
  have sn: "send_now q x p ?s0 = Some ?s3"
    using f s2(1,5) list_empty_iff [OF k1 l1] by (auto simp: send_now_def cp Let_def)
  have w: "uxMessagesWaiting (queues s q) < uxLength (queues s q)" using r by (simp add: word_less_nat_alt)
  have pass: "xQueueGenericSend_pass q x p entry w s = Some (on_k vPortExitCritical ?s3, Inl True)"
    using w sn by (simp add: xQueueGenericSend_pass_def Let_def)
  have wk: "woke_first ?R (K s) (K (on_k vPortExitCritical ?s3))"
    using woke_first_frame(2) [OF woke_first_frame(3) [OF s2(4) [unfolded K1]]] by simp
  show ?thesis
    by (intro exI [of _ "on_k vPortExitCritical ?s3"] conjI pass wk)
      (use s2(2,3) ok ring_put_fields(3-5) [OF e] in \<open>auto simp: item_queue_def messages_def shape_def\<close>)
qed

lemma ring_take_eq:
  "ring_take (Q, m) = (let ((Q1, m1), v) = prvCopyDataFromQueue (Q, m)
     in ((Q1\<lparr>uxMessagesWaiting := uxMessagesWaiting Q1 - 1\<rparr>, m1), v))"
  by (simp add: ring_take_def Let_def split_beta)

lemma copy_from_fields:
  assumes "prvCopyDataFromQueue (Q, m) = ((Q1, m1), v)"
  shows "m1 = m" "Q1\<lparr>pcReadFrom := pcReadFrom Q\<rparr> = Q" "pcHead Q1 = pcHead Q" "uxLength Q1 = uxLength Q"
    "uxItemSize Q1 = uxItemSize Q" "pxQueueSetContainer Q1 = pxQueueSetContainer Q"
  using assms by (auto simp: prvCopyDataFromQueue_def Let_def split: if_splits)

lemma item_queue_no_mutex: "item_queue q s \<Longrightarrow> pcHead (queues s q) \<noteq> NULL"
  by (auto simp: item_queue_def ring_ok_def area_ok_def NULL_def)

lemma receive_room_ok:
  assumes k: "kinv {} (K s)" and q: "queue_live q s" and i: "item_queue q s" and ne: "messages q s \<noteq> []"
  shows "\<exists>s'. xQueueGenericReceive_pass q peek entry w s = Some (s', Inl (Some (hd (messages q s)))) \<and> item_queue q s' \<and>
    messages q s' = (if peek then messages q s else tl (messages q s)) \<and>
    woke_first (if peek then TasksWaitingToReceive q else TasksWaitingToSend q) (K s) (K s') \<and>
    (\<forall>q'. q' \<noteq> q \<longrightarrow> queues s' q' = queues s q') \<and> shape q s' = shape q s"
proof -
  let ?l = "if peek then TasksWaitingToReceive q else TasksWaitingToSend q" and ?s0 = "on_k vPortEnterCritical s"
  let ?Q = "queues s q"
  obtain Q1 v where e: "prvCopyDataFromQueue (?Q, qbytes s) = ((Q1, qbytes s), v)"
    using copy_from_fields(1) by (metis surj_pair)
  note f = copy_from_fields(2,3) [OF e]
  let ?Q2 = "Q1\<lparr>uxMessagesWaiting := uxMessagesWaiting Q1 - 1\<rparr>"
  have tk: "ring_take (?Q, qbytes s) = ((?Q2, qbytes s), v)" by (simp add: ring_take_eq e)
  have wne: "waiting ?Q \<noteq> 0" using ne length_messages [of q s] by (metis length_0_conv)
  have ok: "ring_ok (?Q2, qbytes s)" "messages q s = v # contents (?Q2, qbytes s)"
    using take_ok(1,2) [OF _ wne tk] i by (simp_all add: item_queue_def messages_def)
  let ?s1 = "upd_q q (\<lambda>_. if peek then ?Q else ?Q2) ?s0"
  have nm: "\<not> is_mutex ?Q2" using item_queue_no_mutex [OF i] f(2) by (simp add: is_mutex_def)
  have k1: "kinv {} (K ?s1)" and l1: "?l \<in> evlists (K ?s1) - timer_lists" using k queue_liveD [OF q] by simp_all
  obtain s2 b where s2: "wake_waiter ?l ?s1 = Some (s2, b)" "queues s2 = queues ?s1" "qbytes s2 = qbytes ?s1"
    "woke_first ?l (K ?s1) (K (if b then on_k portYIELD s2 else s2))"
    using wake_then_yield [OF k1 l1] by blast
  let ?s3 = "if b then on_k portYIELD s2 else s2"
  have u: "upd_q q g (upd_q q h s) = upd_q q (g \<circ> h) s" for g h s by (simp add: upd_q_def)
  have rn: "receive_now q peek ?s0 = Some (?s3, v)"
    using s2(1) nm f(1) by (cases peek) (simp_all add: receive_now_def e u comp_def Let_def)
  have w: "uxMessagesWaiting ?Q > 0" using wne by (simp add: word_less_nat_alt)
  have pass: "xQueueGenericReceive_pass q peek entry w s = Some (on_k vPortExitCritical ?s3, Inl (Some (hd (messages q s))))"
    using w rn ok(2) by (simp add: xQueueGenericReceive_pass_def Let_def)
  have wk: "woke_first ?l (K s) (K (on_k vPortExitCritical ?s3))"
    using woke_first_frame(2) [OF woke_first_frame(3), of ?l "K s" "K ?s3"] s2(4) by simp
  show ?thesis
    by (intro exI [of _ "on_k vPortExitCritical ?s3"] conjI pass wk)
      (use s2(2,3) ok i copy_from_fields(4-6) [OF e] in \<open>auto simp: item_queue_def messages_def shape_def\<close>)
qed

lemma send_refused:
  assumes "waiting (queues s q) = cap (queues s q)" and "p \<noteq> queueOVERWRITE"
  shows "xQueueGenericSend_pass q x p entry 0 s = Some (on_k vPortExitCritical (on_k vPortEnterCritical s), Inl False)"
  using assms by (simp add: xQueueGenericSend_pass_def Let_def word_less_nat_alt)

lemma receive_refused:
  assumes "uxMessagesWaiting (queues s q) = 0"
  shows "xQueueGenericReceive_pass q peek entry 0 s = Some (on_k vPortExitCritical (on_k vPortEnterCritical s), Inl None)"
  using assms by (simp add: xQueueGenericReceive_pass_def Let_def)

lemma send_returns: "xQueueGenericSend_pass q x p None w s = Some (s', Inl r) \<Longrightarrow> xQueueGenericSend others q x w p s = Some (s', r)"
  by (simp add: xQueueGenericSend_def send_loop.simps)

lemma receive_returns:
  "xQueueGenericReceive_pass q peek None w s = Some (s', Inl r) \<Longrightarrow> xQueueGenericReceive others q w peek s = Some (s', r)"
  by (simp add: xQueueGenericReceive_def receive_loop.simps)

text \<open>The answers of calls that do not wait.\<close>

lemma send_answers:
  assumes k: "kinv {} (K s)" and q: "queue_live q s" and i: "item_queue q s" and c: "pxQueueSetContainer (queues s q) = None"
    and x: "length x = isize (queues s q)"
  shows "\<exists>s'. xQueueGenericSend others q x 0 queueSEND_TO_BACK s = Some (s', length (messages q s) < cap (queues s q)) \<and>
    (if length (messages q s) < cap (queues s q)
     then item_queue q s' \<and> messages q s' = messages q s @ [x] \<and> woke_first (TasksWaitingToReceive q) (K s) (K s') \<and>
       (\<forall>q'. q' \<noteq> q \<longrightarrow> queues s' q' = queues s q')
     else queues s' = queues s \<and> qbytes s' = qbytes s \<and> kinv {} (K s'))"
proof (cases "length (messages q s) < cap (queues s q)")
  case True
  obtain s' where s': "xQueueGenericSend_pass q x queueSEND_TO_BACK None 0 s = Some (s', Inl True)" "item_queue q s'"
    "messages q s' = messages q s @ [x]" "woke_first (TasksWaitingToReceive q) (K s) (K s')"
    "\<forall>q'. q' \<noteq> q \<longrightarrow> queues s' q' = queues s q'"
    using send_room_ok [OF k q c i x _ True, of queueSEND_TO_BACK None 0] by auto
  show ?thesis using True send_returns [OF s'(1), of others] s'(2-5) by auto
next
  case False
  then have f: "waiting (queues s q) = cap (queues s q)"
    using i by (simp add: length_messages item_queue_def ring_ok_def)
  have "kinv {} (K (on_k vPortExitCritical (on_k vPortEnterCritical s)))" using k by (simp add: kinv_exit_critical)
  then show ?thesis using False send_returns [OF send_refused [OF f], where others = others] by simp
qed

lemma receive_answers:
  assumes k: "kinv {} (K s)" and q: "queue_live q s" and i: "item_queue q s"
  shows "\<exists>s'. xQueueGenericReceive others q 0 False s = Some (s', if messages q s = [] then None else Some (hd (messages q s))) \<and>
    (if messages q s = [] then queues s' = queues s \<and> qbytes s' = qbytes s \<and> kinv {} (K s')
     else item_queue q s' \<and> messages q s' = tl (messages q s) \<and> woke_first (TasksWaitingToSend q) (K s) (K s') \<and>
       (\<forall>q'. q' \<noteq> q \<longrightarrow> queues s' q' = queues s q'))"
proof (cases "messages q s = []")
  case True
  then have e: "uxMessagesWaiting (queues s q) = 0" using length_messages [of q s] by (simp add: unat_eq_0 [symmetric])
  have "kinv {} (K (on_k vPortExitCritical (on_k vPortEnterCritical s)))" using k by (simp add: kinv_exit_critical)
  then show ?thesis using True receive_returns [OF receive_refused [OF e], where others = others] by simp
next
  case False
  then show ?thesis using receive_room_ok [OF k q i False, of False None 0] receive_returns [where others = others] by fastforce
qed

section \<open>Waiting\<close>

lemma lock_unlocked:
  assumes "calm (K s)" and "xTxLock (queues s q) = queueUNLOCKED" and "xRxLock (queues s q) = queueUNLOCKED"
  shows "prvLockQueue q s = set_k ((K s)\<lparr>interrupts_on := True\<rparr>)
    (upd_q q (\<lambda>Q. Q\<lparr>xRxLock := queueLOCKED_UNMODIFIED, xTxLock := queueLOCKED_UNMODIFIED\<rparr>) s)"
  using assms critical_pair [OF assms(1)] by (simp add: prvLockQueue_def Let_def set_k_def on_k_def upd_q_def)

lemma unlock_unmodified:
  assumes "calm (K s)" and "xTxLock (queues s q) = queueLOCKED_UNMODIFIED" and "xRxLock (queues s q) = queueLOCKED_UNMODIFIED"
  shows "prvUnlockQueue q s = Some (set_k ((K s)\<lparr>interrupts_on := True\<rparr>)
    (upd_q q (\<lambda>Q. Q\<lparr>xTxLock := queueUNLOCKED, xRxLock := queueUNLOCKED\<rparr>) s))"
proof -
  let ?s0 = "on_k vPortEnterCritical s"
  have t: "unlock_tx q ?s0 = Some ?s0" using assms(2) by (subst unlock_tx.simps) (simp add: queueLOCKED_UNMODIFIED_def)
  let ?s1 = "upd_q q (\<lambda>Q. Q\<lparr>xTxLock := queueUNLOCKED\<rparr>) ?s0"
  let ?s2 = "on_k vPortEnterCritical (on_k vPortExitCritical ?s1)"
  have r: "unlock_rx q ?s2 = Some ?s2" using assms(3) by (subst unlock_rx.simps) (simp add: queueLOCKED_UNMODIFIED_def)
  have c: "calm ((K s)\<lparr>interrupts_on := True\<rparr>)" using assms(1) by simp
  show ?thesis
    using critical_pair [OF assms(1)] critical_pair [OF c]
    by (simp add: prvUnlockQueue_def t r Let_def) (simp add: set_k_def on_k_def upd_q_def)
qed

lemma wait_pass_blocks:
  assumes c: "calm (K s)" and lk: "xTxLock (queues s q) = queueUNLOCKED" "xRxLock (queues s q) = queueUNLOCKED"
    and x: "xTimeOnEntering x = xTickCount (K s)" "xOverflowCount x = xNumOfOverflows (K s)" and w: "w \<noteq> 0"
    and s1: "s1 = set_k ((vTaskSuspendAll (K s))\<lparr>interrupts_on := True\<rparr>)
      (upd_q q (\<lambda>Q. Q\<lparr>xRxLock := queueLOCKED_UNMODIFIED, xTxLock := queueLOCKED_UNMODIFIED\<rparr>) s)"
    and mw: "must_wait s1 = (s1, True)" and pr: "prepare s1 = set_k k2 s1"
    and k: "kinv {} k2" and e: "event_ready k2 t l" and c2: "calm k2"
    and f: "uxSchedulerSuspended k2 = 1" "uxPendedTicks k2 = 0" "pending k2 = {}"
  shows "\<exists>s' x'. wait_pass q l must_wait prepare failed x w s = Some (s', Inr (Some x', w)) \<and> kinv {} (K s') \<and>
    blocked_on (K s') t l w \<and> (\<forall>u. u \<noteq> t \<longrightarrow> gcont (K s') u = gcont k2 u \<and> econt (K s') u = econt k2 u) \<and>
    queues s' = queues s \<and> qbytes s' = qbytes s \<and> evlists (K s') = evlists k2 \<and> tcb (K s') = tcb k2 \<and>
    uxSchedulerSuspended (K s') = 0 \<and> uxPendedTicks (K s') = 0"
proof -
  let ?k3 = "vTaskPlaceOnEventList l w k2"
  note p = place_on_event_list_ok [OF k e w]
  have b3: "blocked_on ?k3 t l w" using p(2,3) by (simp add: blocked_on_def)
  have c3: "calm ?k3" using c2 by (simp add: calm_def)
  have ne: "l \<noteq> PendingReady" using e event_list_kinds(1) [OF k] by (auto simp: event_ready_def)
  have pe: "pending ?k3 = {}"
  proof -
    have "econt ?k3 u \<noteq> Some PendingReady" for u using p(2) p(4) [of u] f(3) ne by (cases "u = t") (auto simp: pending_def)
    then show ?thesis by (simp add: pending_def)
  qed
  have lock: "prvLockQueue q (on_k vTaskSuspendAll s) = s1"
    using lock_unlocked [of "on_k vTaskSuspendAll s" q] c lk by (simp add: s1 set_k_def on_k_def upd_q_def)
  obtain x' where to: "xTaskCheckForTimeOut x w (K s1) = (K s1, False, x', w)"
    using fresh_timeout [of "K s1" w x] c w x by (auto simp: s1 vTaskSuspendAll_def calm_def)
  have rest: "(queues s q)\<lparr>xTxLock := queueUNLOCKED, xRxLock := queueUNLOCKED\<rparr> = queues s q"
    by (intro Queue_t.equality) (simp_all add: lk)
  have ul: "prvUnlockQueue q (set_k ?k3 s1) = Some (set_k (?k3\<lparr>interrupts_on := True\<rparr>) (set_k ?k3 (upd_q q (\<lambda>Q. Q) s)))"
    using unlock_unmodified [of "set_k ?k3 s1" q] c3 rest by (simp add: s1 set_k_def upd_q_def)
  let ?k4 = "?k3\<lparr>interrupts_on := True\<rparr>"
  have k4: "kinv {} ?k4" using p(1) by simp
  obtain k' k5 b where r: "xTaskResumeAll ?k4 = Some (k5, b)" "k' = (if b then k5 else portYIELD k5)" "kinv {} k'"
    "uxSchedulerSuspended ?k4 = 1 \<and> live ?k4 \<noteq> {} \<longrightarrow> resumed ?k4 k'"
    using resume_then_yield [OF k4] by blast
  have "t \<in> live k2" by (rule event_readyD(1) [OF k e])
  then have rs: "resumed ?k4 k'" using r(4) f(1) by auto
  have b4: "blocked_on ?k4 t l w" using b3 by (auto simp: blocked_on_def timed_def remaining_def split: if_splits)
  have pt: "uxPendedTicks ?k4 = 0" "pending ?k4 = {}" using f(2) pe by (simp_all add: pending_def)
  note rb = resumed_blocked [OF rs pt w b4 k4] and rk = resumed_keeps [OF rs]
  let ?s' = "set_k k' (set_k ?k4 (set_k ?k3 (upd_q q (\<lambda>Q. Q) s)))"
  have eq: "wait_pass q l must_wait prepare failed x w s = Some (?s', Inr (Some x', w))"
    unfolding wait_pass_def lock Let_def to by (simp add: mw pr on_k_def ul r(1,2))
  show ?thesis
    by (intro exI [of _ ?s'] exI [of _ x'] conjI eq)
      (use r(3) rb rk p(4) in simp_all)
qed

definition unlocked :: "nat \<Rightarrow> ipc \<Rightarrow> bool" where
  "unlocked q s \<longleftrightarrow> xTxLock (queues s q) = queueUNLOCKED \<and> xRxLock (queues s q) = queueUNLOCKED"

definition blocks_caller :: "ipc \<Rightarrow> nat \<Rightarrow> lid \<Rightarrow> u32 \<Rightarrow> ipc \<Rightarrow> bool" where
  "blocks_caller s t l w s' \<longleftrightarrow> kinv {} (K s') \<and> blocked_on (K s') t l w \<and>
     (\<forall>u. u \<noteq> t \<longrightarrow> gcont (K s') u = gcont (K s) u \<and> econt (K s') u = econt (K s) u) \<and>
     queues s' = queues s \<and> qbytes s' = qbytes s \<and> evlists (K s') = evlists (K s) \<and> tcb (K s') = tcb (K s) \<and>
     uxSchedulerSuspended (K s') = 0 \<and> uxPendedTicks (K s') = 0"

lemma wait_pass_plain:
  assumes m: "may_block (K s) t l" and u: "unlocked q s" and w: "w \<noteq> 0"
    and s1: "s1 = set_k ((vTaskSuspendAll ((K s)\<lparr>interrupts_on := True\<rparr>))\<lparr>interrupts_on := True\<rparr>)
      (upd_q q (\<lambda>Q. Q\<lparr>xRxLock := queueLOCKED_UNMODIFIED, xTxLock := queueLOCKED_UNMODIFIED\<rparr>) s)"
    and mw: "must_wait s1 = (s1, True)" and pr: "prepare s1 = s1"
  shows "\<exists>s' x'. wait_pass q l must_wait prepare failed (vTaskSetTimeOutState (K s)) w
      (set_k ((K s)\<lparr>interrupts_on := True\<rparr>) s) = Some (s', Inr (Some x', w)) \<and> blocks_caller s t l w s'"
proof -
  let ?s0 = "set_k ((K s)\<lparr>interrupts_on := True\<rparr>) s" and ?k2 = "(vTaskSuspendAll ((K s)\<lparr>interrupts_on := True\<rparr>))\<lparr>interrupts_on := True\<rparr>"
  note f = may_block_suspended [OF m]
  have e1: "s1 = set_k ((vTaskSuspendAll (K ?s0))\<lparr>interrupts_on := True\<rparr>)
      (upd_q q (\<lambda>Q. Q\<lparr>xRxLock := queueLOCKED_UNMODIFIED, xTxLock := queueLOCKED_UNMODIFIED\<rparr>) ?s0)"
    by (simp add: s1 set_k_def upd_q_def)
  have p1: "prepare s1 = set_k ?k2 s1" using pr by (simp add: s1 set_k_def)
  have "\<exists>s' x'. wait_pass q l must_wait prepare failed (vTaskSetTimeOutState (K s)) w ?s0 = Some (s', Inr (Some x', w)) \<and>
    kinv {} (K s') \<and> blocked_on (K s') t l w \<and> (\<forall>u. u \<noteq> t \<longrightarrow> gcont (K s') u = gcont ?k2 u \<and> econt (K s') u = econt ?k2 u) \<and>
    queues s' = queues ?s0 \<and> qbytes s' = qbytes ?s0 \<and> evlists (K s') = evlists ?k2 \<and> tcb (K s') = tcb ?k2 \<and>
    uxSchedulerSuspended (K s') = 0 \<and> uxPendedTicks (K s') = 0"
    by (rule wait_pass_blocks [where s = ?s0 and must_wait = must_wait and prepare = prepare, OF _ _ _ _ _ w e1 mw p1 f(1-6)])
      (use m u in \<open>simp_all add: may_block_def unlocked_def vTaskSetTimeOutState_def\<close>)
  then show ?thesis using fun_cong [OF f(7)] fun_cong [OF f(8)] f(9,10) unfolding blocks_caller_def by (simp only: ipc_simps)
qed

lemma enter_exit_calm: "calm (K s) \<Longrightarrow> on_k vPortExitCritical (on_k vPortEnterCritical s) = set_k ((K s)\<lparr>interrupts_on := True\<rparr>) s"
  using critical_pair by (simp add: on_k_def set_k_def)

lemma send_blocks:
  assumes m: "may_block (K s) t (TasksWaitingToSend q)" and u: "unlocked q s" and w: "w \<noteq> 0"
    and full: "waiting (queues s q) = cap (queues s q)" and p: "p \<noteq> queueOVERWRITE"
  shows "\<exists>s' x'. xQueueGenericSend_pass q x p None w s = Some (s', Inr (Some x', w)) \<and>
    blocks_caller s t (TasksWaitingToSend q) w s'"
proof -
  have c: "calm (K s)" using m by (simp add: may_block_def)
  let ?s1 = "set_k ((vTaskSuspendAll ((K s)\<lparr>interrupts_on := True\<rparr>))\<lparr>interrupts_on := True\<rparr>)
      (upd_q q (\<lambda>Q. Q\<lparr>xRxLock := queueLOCKED_UNMODIFIED, xTxLock := queueLOCKED_UNMODIFIED\<rparr>) s)"
  have "prvIsQueueFull q ?s1 = (?s1, True)"
    using enter_exit_calm [of ?s1] c full by (simp add: prvIsQueueFull_def Let_def word_unat_eq_iff)
  then have "\<exists>s' x'. wait_pass q (TasksWaitingToSend q) (prvIsQueueFull q) (\<lambda>s. s) False (vTaskSetTimeOutState (K s)) w
      (set_k ((K s)\<lparr>interrupts_on := True\<rparr>) s) = Some (s', Inr (Some x', w)) \<and> blocks_caller s t (TasksWaitingToSend q) w s'"
    by (rule wait_pass_plain [OF m u w refl]) simp
  then show ?thesis
    using full w p enter_exit_calm [OF c]
    by (simp add: xQueueGenericSend_pass_def Let_def word_less_nat_alt vTaskSetTimeOutState_def)
qed

lemma receive_blocks:
  assumes m: "may_block (K s) t (TasksWaitingToReceive q)" and u: "unlocked q s" and w: "w \<noteq> 0"
    and empty: "uxMessagesWaiting (queues s q) = 0" and nm: "pcHead (queues s q) \<noteq> NULL"
  shows "\<exists>s' x'. xQueueGenericReceive_pass q peek None w s = Some (s', Inr (Some x', w)) \<and>
    blocks_caller s t (TasksWaitingToReceive q) w s'"
proof -
  have c: "calm (K s)" using m by (simp add: may_block_def)
  let ?s1 = "set_k ((vTaskSuspendAll ((K s)\<lparr>interrupts_on := True\<rparr>))\<lparr>interrupts_on := True\<rparr>)
      (upd_q q (\<lambda>Q. Q\<lparr>xRxLock := queueLOCKED_UNMODIFIED, xTxLock := queueLOCKED_UNMODIFIED\<rparr>) s)"
  have "prvIsQueueEmpty q ?s1 = (?s1, True)"
    using enter_exit_calm [of ?s1] c empty by (simp add: prvIsQueueEmpty_def Let_def)
  then have "\<exists>s' x'. wait_pass q (TasksWaitingToReceive q) (prvIsQueueEmpty q) (inherit_for_wait q) None
      (vTaskSetTimeOutState (K s)) w (set_k ((K s)\<lparr>interrupts_on := True\<rparr>) s) = Some (s', Inr (Some x', w)) \<and>
      blocks_caller s t (TasksWaitingToReceive q) w s'"
    by (rule wait_pass_plain [OF m u w refl]) (use nm in \<open>simp add: inherit_for_wait_def is_mutex_def\<close>)
  then show ?thesis
    using empty w enter_exit_calm [OF c]
    by (simp add: xQueueGenericReceive_pass_def Let_def vTaskSetTimeOutState_def)
qed

text \<open>
  A receiver that waits gets the message: \<open>others\<close> stands for what happens while it is off the
  processor, here one send of \<open>x\<close> by whichever task runs.
\<close>

lemma rendezvous:
  assumes m: "may_block (K s) t (TasksWaitingToReceive q)" and u: "unlocked q s" and w: "w \<noteq> 0" and q: "queue_live q s"
    and i: "item_queue q s" and e: "messages q s = []" and c: "pxQueueSetContainer (queues s q) = None"
    and none: "\<And>v. econt (K s) v \<noteq> Some (TasksWaitingToReceive q)" and x: "length x = isize (queues s q)"
    and o: "\<And>z z'. xQueueGenericSend (\<lambda>s. s) q x 0 queueSEND_TO_BACK z = Some (z', True) \<Longrightarrow> others z = z'"
  shows "\<exists>s1 s2 s3 x'. xQueueGenericReceive_pass q False None w s = Some (s1, Inr (Some x', w)) \<and>
    blocked_on (K s1) t (TasksWaitingToReceive q) w \<and> xQueueGenericSend (\<lambda>s. s) q x 0 queueSEND_TO_BACK s1 = Some (s2, True) \<and>
    gcont (K s2) t = Some (Ready (prio (K s) t)) \<and> econt (K s2) t = None \<and>
    xQueueGenericReceive others q w False s = Some (s3, Some x) \<and> messages q s3 = [] \<and> kinv {} (K s3)"
proof -
  let ?R = "TasksWaitingToReceive q"
  have e0: "uxMessagesWaiting (queues s q) = 0" using e length_messages [of q s] by (simp add: unat_eq_0 [symmetric])
  obtain s1 x' where s1: "xQueueGenericReceive_pass q False None w s = Some (s1, Inr (Some x', w))" "blocks_caller s t ?R w s1"
    using receive_blocks [OF m u w e0 item_queue_no_mutex [OF i], of False] by blast
  note b = s1(2) [unfolded blocks_caller_def]
  have k1: "kinv {} (K s1)" "queue_live q s1" "item_queue q s1" "messages q s1 = []" "pxQueueSetContainer (queues s1 q) = None"
    "length x = isize (queues s1 q)" "length (messages q s1) < cap (queues s1 q)"
    using b q i e c x by (auto simp: queue_live_def item_queue_def messages_def ring_ok_def area_ok_def)
  have it: "set (items (lists (K s1)) ?R) = {Event t}"
    using event_items(1) [OF k1(1) queue_liveD(2) [OF k1(2)]] b none by (auto simp: blocked_on_def)
  have one: "items (lists (K s1)) ?R = [Event t]"
    using it event_items(2) [OF k1(1) queue_liveD(2) [OF k1(2)]] by (rule distinct_singleton_set)
  have nb: "queueSEND_TO_BACK \<noteq> queueOVERWRITE" by simp
  obtain s2 where s2: "xQueueGenericSend_pass q x queueSEND_TO_BACK None 0 s1 = Some (s2, Inl True)" "item_queue q s2"
    "messages q s2 = [x]" "woke_first ?R (K s1) (K s2)"
    using send_room_ok [OF k1(1,2,5,3,6) nb k1(7), of None 0] k1(4) by auto
  have r2: "gcont (K s2) t = Some (Ready (prio (K s) t))" "econt (K s2) t = None" "kinv {} (K s2)" "evlists (K s2) = evlists (K s1)"
    using s2(4) one b by (simp_all add: woke_first_def)
  have snd: "xQueueGenericSend (\<lambda>s. s) q x 0 queueSEND_TO_BACK s1 = Some (s2, True)" by (rule send_returns [OF s2(1)])
  have q2: "queue_live q s2" using k1(2) r2(4) by (simp add: queue_live_def)
  obtain s3 where s3: "xQueueGenericReceive_pass q False (Some x') w s2 = Some (s3, Inl (Some x))" "messages q s3 = []"
    "woke_first (TasksWaitingToSend q) (K s2) (K s3)"
    using receive_room_ok [OF r2(3) q2 s2(2), of False "Some x'" w] s2(3) by auto
  have "xQueueGenericReceive others q w False s = Some (s3, Some x)"
    unfolding xQueueGenericReceive_def
    by (subst receive_loop.simps) (simp add: s1(1) o [OF snd] receive_loop.simps [of _ _ _ _ _ s2] s3(1))
  then show ?thesis using s1(1) b snd r2(1,2) s3(2,3) unfolding woke_first_def by blast
qed

section \<open>Mutexes\<close>

definition mutex_queue :: "nat \<Rightarrow> ipc \<Rightarrow> bool" where
  "mutex_queue q s \<longleftrightarrow> is_mutex (queues s q) \<and> uxItemSize (queues s q) = 0 \<and> uxLength (queues s q) = 1 \<and>
     pxQueueSetContainer (queues s q) = None"

lemma mutex_wait:
  assumes m: "may_block (K s) t (TasksWaitingToReceive q)" and u: "unlocked q s" and w: "w \<noteq> 0"
    and mx: "is_mutex (queues s q)" and taken: "uxMessagesWaiting (queues s q) = 0"
    and h: "pxMutexHolder (queues s q) = Some h" "h \<in> live (K s)" "h \<noteq> t"
  shows "\<exists>s' x'. xQueueGenericReceive_pass q peek None w s = Some (s', Inr (Some x', w)) \<and> kinv {} (K s') \<and>
    blocked_on (K s') t (TasksWaitingToReceive q) w \<and> prio (K s') h = max (prio (K s) h) (prio (K s) t) \<and>
    (\<forall>v. v \<noteq> h \<longrightarrow> tcb (K s') v = tcb (K s) v) \<and> uxBasePriority (tcb (K s') h) = uxBasePriority (tcb (K s) h) \<and>
    uxMutexesHeld (tcb (K s') h) = uxMutexesHeld (tcb (K s) h) \<and> queues s' = queues s \<and> qbytes s' = qbytes s \<and>
    (gcont (K s) h = Some (Ready (prio (K s) h)) \<longrightarrow> gcont (K s') h = Some (Ready (prio (K s') h))) \<and>
    evlists (K s') = evlists (K s) \<and> uxSchedulerSuspended (K s') = 0 \<and>
    (\<forall>v. v \<noteq> t \<longrightarrow> econt (K s') v = econt (K s) v)"
proof -
  let ?l = "TasksWaitingToReceive q"
  let ?k1 = "(vTaskSuspendAll ((K s)\<lparr>interrupts_on := True\<rparr>))\<lparr>interrupts_on := True\<rparr>"
  let ?s0 = "set_k ((K s)\<lparr>interrupts_on := True\<rparr>) s"
  let ?s1 = "set_k ?k1 (upd_q q (\<lambda>Q. Q\<lparr>xRxLock := queueLOCKED_UNMODIFIED, xTxLock := queueLOCKED_UNMODIFIED\<rparr>) s)"
  have c: "calm (K s)" using m by (simp add: may_block_def)
  note f = may_block_suspended [OF m]
  have h1: "h \<in> live ?k1" using h(2) by simp
  note i = inherit_in_section [OF f(1-3) h1 h(3)]
  let ?k2 = "vPortExitCritical (vTaskPriorityInherit (Some h) (vPortEnterCritical ?k1))"
  have e1: "?s1 = set_k ((vTaskSuspendAll (K ?s0))\<lparr>interrupts_on := True\<rparr>)
      (upd_q q (\<lambda>Q. Q\<lparr>xRxLock := queueLOCKED_UNMODIFIED, xTxLock := queueLOCKED_UNMODIFIED\<rparr>) ?s0)"
    by (simp add: set_k_def upd_q_def)
  have mw: "prvIsQueueEmpty q ?s1 = (?s1, True)"
    using enter_exit_calm [of ?s1] c taken by (simp add: prvIsQueueEmpty_def Let_def)
  have hq: "pxMutexHolder (queues ?s1 q) = Some h" "is_mutex (queues ?s1 q)"
    using h(1) mx by (auto simp: pxMutexHolder_def is_mutex_def split: if_splits)
  have p1: "inherit_for_wait q ?s1 = set_k ?k2 ?s1"
    unfolding inherit_for_wait_def using hq by (simp only: if_True on_k_def ipc_simps set_k_id)
  have wp: "\<exists>s' x'. wait_pass q ?l (prvIsQueueEmpty q) (inherit_for_wait q) (None :: u8 list option) (vTaskSetTimeOutState (K s)) w ?s0 = Some (s', Inr (Some x', w)) \<and>
    kinv {} (K s') \<and> blocked_on (K s') t ?l w \<and> (\<forall>u. u \<noteq> t \<longrightarrow> gcont (K s') u = gcont ?k2 u \<and> econt (K s') u = econt ?k2 u) \<and>
    queues s' = queues ?s0 \<and> qbytes s' = qbytes ?s0 \<and> evlists (K s') = evlists ?k2 \<and> tcb (K s') = tcb ?k2 \<and>
    uxSchedulerSuspended (K s') = 0 \<and> uxPendedTicks (K s') = 0"
    by (rule wait_pass_blocks [where s = ?s0 and must_wait = "prvIsQueueEmpty q" and prepare = "inherit_for_wait q", OF _ _ _ _ _ w e1 mw p1 i(1-3)])
      (use m u f(4-6) i(4-6) in \<open>simp_all add: may_block_def unlocked_def vTaskSetTimeOutState_def\<close>)
  then obtain s' x' where s': "wait_pass q ?l (prvIsQueueEmpty q) (inherit_for_wait q) (None :: u8 list option) (vTaskSetTimeOutState (K s)) w ?s0 = Some (s', Inr (Some x', w))"
    "kinv {} (K s')" "blocked_on (K s') t ?l w" "gcont (K s') h = gcont ?k2 h" "queues s' = queues s" "qbytes s' = qbytes s"
    "evlists (K s') = evlists ?k2" "tcb (K s') = tcb ?k2" "uxSchedulerSuspended (K s') = 0"
    "\<forall>u. u \<noteq> t \<longrightarrow> econt (K s') u = econt ?k2 u"
    using h(3) by (simp only: ipc_simps) blast
  have pass: "xQueueGenericReceive_pass q peek None w s = Some (s', Inr (Some x', w))"
    using s'(1) taken w enter_exit_calm [OF c] by (simp add: xQueueGenericReceive_pass_def Let_def vTaskSetTimeOutState_def)
  show ?thesis
    by (intro exI [of _ s'] exI [of _ x'] conjI pass s'(2,3,5,6,9))
      (use s'(4,7,8,10) i(7-13) f(7-10) in simp_all)
qed

lemma mutex_give:
  assumes k: "kinv {} (K s)" and q: "queue_live q s" and m: "mutex_queue q s" and taken: "uxMessagesWaiting (queues s q) = 0"
    and h: "pxMutexHolder (queues s q) = Some h" "h \<in> live (K s)" "gcont (K s) h \<noteq> Some Termination"
  defines "kd \<equiv> fst (xTaskPriorityDisinherit (Some h) (vPortEnterCritical (K s)))"
  shows "\<exists>s'. xQueueGenericSend_pass q x queueSEND_TO_BACK entry w s = Some (s', Inl True) \<and>
    pxMutexHolder (queues s' q) = None \<and> uxMessagesWaiting (queues s' q) = 1 \<and> mutex_queue q s' \<and>
    woke_first (TasksWaitingToReceive q) kd (K s')"
proof -
  let ?R = "TasksWaitingToReceive q" and ?s0 = "on_k vPortEnterCritical s"
  let ?y = "snd (xTaskPriorityDisinherit (Some h) (vPortEnterCritical (K s)))"
  let ?s1 = "upd_q q (\<lambda>Q. Q\<lparr>uxMessagesWaiting := uxMessagesWaiting Q + 1\<rparr>) (upd_q q (\<lambda>Q. Q\<lparr>pcTail := NULL\<rparr>) (set_k kd ?s0))"
  have cp: "prvCopyDataToQueue q x queueSEND_TO_BACK ?s0 = (?s1, ?y)"
    using m h(1) by (simp add: prvCopyDataToQueue_def Let_def split_beta mutex_queue_def kd_def)
  have k0: "kinv {} (vPortEnterCritical (K s))" "h \<in> live (vPortEnterCritical (K s))"
    "gcont (vPortEnterCritical (K s)) h \<noteq> Some Termination" using k h(2,3) by simp_all
  have k1: "kinv {} (K ?s1)" using disinherit_ok(1) [OF k0] by (simp add: kd_def)
  have l1: "?R \<in> evlists (K ?s1) - timer_lists" using queue_liveD(2) [OF q] by (simp add: kd_def)
  obtain s2 b where s2: "wake_waiter ?R ?s1 = Some (s2, b)" "queues s2 = queues ?s1" "qbytes s2 = qbytes ?s1"
    "woke_first ?R (K ?s1) (K (if b then on_k portYIELD s2 else s2))" "items (lists (K ?s1)) ?R = [] \<longrightarrow> s2 = ?s1 \<and> \<not> b"
    using wake_then_yield [OF k1 l1] by blast
  let ?s3 = "if items (lists (K ?s1)) ?R \<noteq> [] then (if b then on_k portYIELD s2 else s2) else (if ?y then on_k portYIELD ?s1 else ?s1)"
  have sn: "send_now q x queueSEND_TO_BACK ?s0 = Some ?s3"
    using m s2(1) list_empty_iff [OF k1 l1] by (simp add: send_now_def cp Let_def mutex_queue_def)
  have w3: "woke_first ?R kd (K ?s3)"
    using s2(4,5) woke_first_frame(1) [of ?R kd] by (auto split: if_splits)
  have pass: "xQueueGenericSend_pass q x queueSEND_TO_BACK entry w s = Some (on_k vPortExitCritical ?s3, Inl True)"
    using sn taken m by (simp add: xQueueGenericSend_pass_def Let_def mutex_queue_def)
  have q3: "queues ?s3 = queues ?s1" using s2(2) by simp
  show ?thesis
    by (intro exI [of _ "on_k vPortExitCritical ?s3"] conjI pass)
      (use w3 q3 m taken woke_first_frame(2) [OF w3] in \<open>simp_all add: pxMutexHolder_def mutex_queue_def is_mutex_def\<close>)
qed

lemma mutex_take:
  assumes k: "kinv {} (K s)" and q: "queue_live q s" and m: "mutex_queue q s" and free: "uxMessagesWaiting (queues s q) = 1"
    and t: "pxCurrentTCB (K s) = Some t" "0 < t" "t < 2 ^ 32"
    and nw: "\<And>u. econt (K s) u \<noteq> Some (TasksWaitingToSend q)"
  shows "\<exists>s'. xQueueGenericReceive_pass q False entry w s = Some (s', Inl (Some [])) \<and> kinv {} (K s') \<and>
    pxMutexHolder (queues s' q) = Some t \<and> uxMessagesWaiting (queues s' q) = 0 \<and> mutex_queue q s' \<and> queue_live q s' \<and>
    tcb (K s') = (tcb (K s))(t := (tcb (K s) t)\<lparr>uxMutexesHeld := uxMutexesHeld (tcb (K s) t) + 1\<rparr>)"
proof -
  let ?S = "TasksWaitingToSend q" and ?s0 = "on_k vPortEnterCritical s"
  let ?k1 = "update_tcb t (\<lambda>x. x\<lparr>uxMutexesHeld := uxMutexesHeld x + 1\<rparr>) (vPortEnterCritical (K s))"
  let ?s3 = "upd_q q (\<lambda>Q. Q\<lparr>uxMessagesWaiting := 0, pcTail := of_nat t\<rparr>) (set_k ?k1 s)"
  have k1: "kinv {} (K ?s3)" using k by (auto intro!: kinv_update_tcb)
  have l1: "?S \<in> evlists (K ?s3) - timer_lists" using queue_liveD(1) [OF q] by simp
  have e: "items (lists (K ?s3)) ?S = []" using event_items(1) [OF k1 l1] nw by auto
  have ww: "wake_waiter ?S ?s3 = Some (?s3, False)" by (rule wake_waiter_ok(1) [OF k1 l1 e])
  have s3: "?s3 = upd_q q (\<lambda>Q. Q\<lparr>pcTail := of_nat t\<rparr>) (set_k ?k1 (upd_q q (\<lambda>Q. Q\<lparr>uxMessagesWaiting := uxMessagesWaiting Q - 1\<rparr>)
      (upd_q q (\<lambda>_. queues s q) ?s0)))" using free by (simp add: upd_q_def set_k_def on_k_def)
  have rn: "receive_now q False ?s0 = Some (?s3, [])"
    using m t(1) ww unfolding s3
    by (simp add: receive_now_def prvCopyDataFromQueue_def mutex_queue_def is_mutex_def pvTaskIncrementMutexHeldCount_def
        Let_def split_beta task_pointer_def)
  have pass: "xQueueGenericReceive_pass q False entry w s = Some (on_k vPortExitCritical ?s3, Inl (Some []))"
    using rn free by (simp add: xQueueGenericReceive_pass_def Let_def)
  have u: "unat (of_nat t :: u32) = t" using t(3) by (simp add: unat_of_nat)
  have nn: "of_nat t \<noteq> (NULL :: u32)" using u t(2) by (auto simp: NULL_def)
  show ?thesis
    by (intro exI [of _ "on_k vPortExitCritical ?s3"] conjI pass)
      (use k1 m q u nn in \<open>auto simp: pxMutexHolder_def mutex_queue_def is_mutex_def queue_live_def update_tcb_def
        intro!: kinv_exit_critical\<close>)
qed


text \<open>One turn of a mutex: a task waits for it, the holder runs at the higher priority, gives it, and is back to its own.\<close>

lemma mutex_cycle:
  assumes m: "may_block (K s) t (TasksWaitingToReceive q)" and u: "unlocked q s" and w: "w \<noteq> 0" and q: "queue_live q s"
    and mx: "mutex_queue q s" and taken: "uxMessagesWaiting (queues s q) = 0"
    and h: "pxMutexHolder (queues s q) = Some h" "h \<noteq> t" "gcont (K s) h = Some (Ready (prio (K s) h))"
    and one: "uxMutexesHeld (tcb (K s) h) = 1" "uxBasePriority (tcb (K s) h) = prio (K s) h"
    and none: "\<And>v. econt (K s) v \<noteq> Some (TasksWaitingToReceive q)"
  shows "\<exists>s1 s2 x'. xQueueGenericReceive_pass q False None w s = Some (s1, Inr (Some x', w)) \<and>
    blocked_on (K s1) t (TasksWaitingToReceive q) w \<and> prio (K s1) h = max (prio (K s) h) (prio (K s) t) \<and>
    gcont (K s1) h = Some (Ready (prio (K s1) h)) \<and> kinv {} (K s1) \<and>
    xQueueGenericSend (\<lambda>s. s) q x 0 queueSEND_TO_BACK s1 = Some (s2, True) \<and> kinv {} (K s2) \<and>
    pxMutexHolder (queues s2 q) = None \<and> uxMessagesWaiting (queues s2 q) = 1 \<and> prio (K s2) h = prio (K s) h \<and>
    gcont (K s2) t = Some (Ready (prio (K s) t)) \<and> econt (K s2) t = None"
proof -
  let ?R = "TasksWaitingToReceive q"
  have k: "kinv {} (K s)" using m by (simp add: may_block_def)
  have hl: "h \<in> live (K s)" by (rule kinv_liveD(1) [OF k h(3)])
  have im: "is_mutex (queues s q)" using mx by (simp add: mutex_queue_def)
  obtain s1 x' where s1: "xQueueGenericReceive_pass q False None w s = Some (s1, Inr (Some x', w))" "kinv {} (K s1)"
    "blocked_on (K s1) t ?R w" "prio (K s1) h = max (prio (K s) h) (prio (K s) t)"
    "\<forall>v. v \<noteq> h \<longrightarrow> tcb (K s1) v = tcb (K s) v" "uxBasePriority (tcb (K s1) h) = uxBasePriority (tcb (K s) h)"
    "uxMutexesHeld (tcb (K s1) h) = uxMutexesHeld (tcb (K s) h)" "queues s1 = queues s"
    "gcont (K s1) h = Some (Ready (prio (K s1) h))" "evlists (K s1) = evlists (K s)" "uxSchedulerSuspended (K s1) = 0"
    "\<forall>v. v \<noteq> t \<longrightarrow> econt (K s1) v = econt (K s) v"
    using mutex_wait [OF m u w im taken h(1) hl h(2), of False] h(3) by blast
  have q1: "queue_live q s1" "mutex_queue q s1" "uxMessagesWaiting (queues s1 q) = 0" "pxMutexHolder (queues s1 q) = Some h"
    using q mx taken h(1) s1(8,10) by (simp_all add: queue_live_def mutex_queue_def)
  have h1: "h \<in> live (K s1)" "gcont (K s1) h \<noteq> Some Termination" using kinv_liveD(1) [OF s1(2,9)] s1(9) by simp_all
  let ?k0 = "vPortEnterCritical (K s1)"
  let ?kd = "fst (xTaskPriorityDisinherit (Some h) ?k0)"
  have k0: "kinv {} ?k0" "h \<in> live ?k0" "gcont ?k0 h \<noteq> Some Termination" using s1(2) h1 by simp_all
  have it: "items (lists (K s1)) ?R = [Event t]"
    using event_items(1,2) [OF s1(2) queue_liveD(2) [OF q1(1)]] s1(3,12) none
    by (intro distinct_singleton_set) (auto simp: blocked_on_def)
  have itd: "items (lists ?kd) ?R = [Event t]"
    using disinherit_items [OF k0, of ?R] queue_liveD(2) [OF q1(1)] it by (simp add: vPortEnterCritical_def Let_def)
  obtain s2 where s2: "xQueueGenericSend_pass q x queueSEND_TO_BACK None 0 s1 = Some (s2, Inl True)"
    "pxMutexHolder (queues s2 q) = None" "uxMessagesWaiting (queues s2 q) = 1" "woke_first ?R ?kd (K s2)"
    using mutex_give [OF s1(2) q1 h1, of x None 0] by blast
  have pd: "prio ?kd h = prio (K s) h" using disinherit_ok(5) [OF k0] s1(6,7) one by simp
  have pt: "prio ?kd t = prio (K s) t" using disinherit_others [of t h ?k0] h(2) s1(5) by simp
  have "gcont (K s2) t = Some (Ready (prio (K s) t))" "econt (K s2) t = None" "prio (K s2) h = prio (K s) h" "kinv {} (K s2)"
    using s2(4) itd pd pt s1(11) by (simp_all add: woke_first_def)
  then show ?thesis using s1(1,2,3,4,9) s2(2,3) send_returns [OF s2(1)] by blast
qed

section \<open>The wait of the timer task\<close>

text \<open>\<open>vQueueWaitForMessageRestricted\<close> on an empty queue blocks the caller; the scheduler is suspended.\<close>

lemma restricted_wait_ok:
  assumes k: "kinv {} (K i)" and e: "event_ready (K i) t (TasksWaitingToReceive q)" and c: "calm (K i)" and u: "unlocked q i"
    and m: "uxMessagesWaiting (queues i q) = 0" and w: "forever \<or> w \<noteq> 0" and p: "pending (K i) = {}"
  shows "\<exists>i'. vQueueWaitForMessageRestricted q w forever i = Some i' \<and> kinv {} (K i') \<and>
    econt (K i') t = Some (TasksWaitingToReceive q) \<and>
    (if forever then gcont (K i') t = Some Suspended else timed (K i') t \<and> remaining (K i') t = w) \<and>
    timer_frame (K i) (K i') \<and> queues i' = queues i \<and> qbytes i' = qbytes i \<and> pending (K i') = {} \<and>
    uxPendedTicks (K i') = uxPendedTicks (K i) \<and> uxSchedulerSuspended (K i') = uxSchedulerSuspended (K i)"
proof -
  let ?R = "TasksWaitingToReceive q" and ?k1 = "(K i)\<lparr>interrupts_on := True\<rparr>"
  let ?k2 = "vTaskPlaceOnEventListRestricted ?R w forever ?k1"
  let ?i1 = "set_k ?k1 (upd_q q (\<lambda>Q. Q\<lparr>xRxLock := queueLOCKED_UNMODIFIED, xTxLock := queueLOCKED_UNMODIFIED\<rparr>) i)"
  have k1: "kinv {} ?k1" "event_ready ?k1 t ?R" using k e by (simp_all add: event_ready_def running_task_def)
  note r = place_restricted_ok [OF k1 w] and o = place_restricted_more [OF k1 w]
  have c2: "calm ?k2" using c by (simp add: calm_def)
  have lock: "prvLockQueue q i = ?i1" using lock_unlocked [OF c] u by (simp add: unlocked_def)
  have rest: "(queues i q)\<lparr>xTxLock := queueUNLOCKED, xRxLock := queueUNLOCKED\<rparr> = queues i q"
    by (intro Queue_t.equality) (use u in \<open>simp_all add: unlocked_def\<close>)
  let ?i' = "set_k (?k2\<lparr>interrupts_on := True\<rparr>) (upd_q q (\<lambda>Q. Q) i)"
  have eq: "vQueueWaitForMessageRestricted q w forever i = Some ?i'"
    using unlock_unmodified [of "set_k ?k2 ?i1" q] c2 rest m
    by (simp add: vQueueWaitForMessageRestricted_def lock on_k_def set_k_def upd_q_def)
  have pe: "pending ?k2 = {}"
  proof -
    have "econt ?k2 v \<noteq> Some PendingReady" for v using r(2) o(2) [of v] p by (cases "v = t") (auto simp: pending_def)
    then show ?thesis by (simp add: pending_def)
  qed
  have tm: "timed (?k2\<lparr>interrupts_on := True\<rparr>) t = timed ?k2 t" "remaining (?k2\<lparr>interrupts_on := True\<rparr>) t = remaining ?k2 t"
    by (simp_all add: timed_def remaining_def)
  have fr: "timer_frame (K i) (?k2\<lparr>interrupts_on := True\<rparr>)" using o(3) by (simp add: timer_frame_def)
  have g: "if forever then gcont (K ?i') t = Some Suspended else timed (K ?i') t \<and> remaining (K ?i') t = w"
    using o(1) tm by (cases forever) simp_all
  show ?thesis
    by (intro exI [of _ ?i'] conjI eq g) (use r fr pe in \<open>simp_all add: pending_def\<close>)
qed

end
