(* ===== verification/Channel.thy ===== *)
theory Channel
  imports QueueOk
begin

text \<open>
  What a client of a queue relies on, as an interface: a bounded channel of messages that are received
  in the order they were sent, and a receive that says when there are none. The functions of
  \<^verbatim>\<open>queue.c\<close> provide it, for calls that do not wait.
\<close>

primrec send_each :: "('a \<Rightarrow> 's \<Rightarrow> ('s \<times> bool) option) \<Rightarrow> 'a list \<Rightarrow> 's \<Rightarrow> 's option" where
  "send_each snd' [] s = Some s"
| "send_each snd' (x # xs) s = Option.bind (snd' x s) (\<lambda>(s', r). if r then send_each snd' xs s' else None)"

primrec receive_each :: "('s \<Rightarrow> ('s \<times> 'a option) option) \<Rightarrow> nat \<Rightarrow> 's \<Rightarrow> ('s \<times> 'a list) option" where
  "receive_each rcv 0 s = Some (s, [])"
| "receive_each rcv (Suc n) s = Option.bind (rcv s) (\<lambda>(s', r). case r of
     None \<Rightarrow> Some (s', [])
   | Some x \<Rightarrow> map_option (\<lambda>(s2, xs). (s2, x # xs)) (receive_each rcv n s'))"

locale message_channel =
  fixes ok :: "'s \<Rightarrow> bool" and bound :: "'s \<Rightarrow> nat" and msgs :: "'s \<Rightarrow> 'a list" and fits :: "'s \<Rightarrow> 'a \<Rightarrow> bool"
    and snd' :: "'a \<Rightarrow> 's \<Rightarrow> ('s \<times> bool) option" and rcv :: "'s \<Rightarrow> ('s \<times> 'a option) option"
  assumes sent: "ok s \<Longrightarrow> fits s x \<Longrightarrow> length (msgs s) < bound s \<Longrightarrow>
      \<exists>s'. snd' x s = Some (s', True) \<and> ok s' \<and> msgs s' = msgs s @ [x] \<and> bound s' = bound s \<and> fits s' = fits s"
    and received: "ok s \<Longrightarrow> msgs s = x # xs \<Longrightarrow> \<exists>s'. rcv s = Some (s', Some x) \<and> ok s' \<and> msgs s' = xs"
    and empty: "ok s \<Longrightarrow> msgs s = [] \<Longrightarrow> \<exists>s'. rcv s = Some (s', None) \<and> ok s' \<and> msgs s' = []"
begin

lemma sent_each:
  assumes "ok s" and "\<forall>x \<in> set xs. fits s x" and "length (msgs s) + length xs \<le> bound s"
  shows "\<exists>s'. send_each snd' xs s = Some s' \<and> ok s' \<and> msgs s' = msgs s @ xs"
  using assms
proof (induction xs arbitrary: s)
  case (Cons x xs)
  have "fits s x" "length (msgs s) < bound s" using Cons.prems by auto
  with sent [OF Cons.prems(1)] obtain s1 where s1: "snd' x s = Some (s1, True)" "ok s1" "msgs s1 = msgs s @ [x]"
    "bound s1 = bound s" "fits s1 = fits s" by blast
  then show ?case using Cons.IH [OF s1(2)] Cons.prems by simp
qed simp

text \<open>Asking for more messages than there are ends with those there are.\<close>

lemma received_each:
  assumes "ok s"
  shows "\<exists>s'. receive_each rcv n s = Some (s', take n (msgs s)) \<and> ok s' \<and> msgs s' = drop n (msgs s)"
  using assms
proof (induction n arbitrary: s)
  case (Suc n)
  show ?case
  proof (cases "msgs s")
    case Nil
    then show ?thesis using empty [OF Suc.prems] by auto
  next
    case (Cons x xs)
    from received [OF Suc.prems Cons] obtain s1 where s1: "rcv s = Some (s1, Some x)" "ok s1" "msgs s1 = xs" by blast
    then show ?thesis using Suc.IH [OF s1(2)] Cons by auto
  qed
qed simp

lemma in_order:
  assumes "ok s" and "\<forall>x \<in> set xs. fits s x" and "length (msgs s) + length xs \<le> bound s"
  shows "\<exists>s1 s2. send_each snd' xs s = Some s1 \<and> receive_each rcv n s1 = Some (s2, take n (msgs s @ xs)) \<and>
    msgs s2 = drop n (msgs s @ xs)"
proof -
  obtain s1 where s1: "send_each snd' xs s = Some s1" "ok s1" "msgs s1 = msgs s @ xs" using sent_each [OF assms] by blast
  then show ?thesis using received_each [OF s1(2), of n] by auto
qed

end

definition channel_ok :: "nat \<Rightarrow> ipc \<Rightarrow> bool" where
  "channel_ok q s \<longleftrightarrow> kinv {} (K s) \<and> queue_live q s \<and> item_queue q s \<and> pxQueueSetContainer (queues s q) = None"

interpretation qc: message_channel "channel_ok q" "\<lambda>s. cap (queues s q)" "messages q" "\<lambda>s x. length x = isize (queues s q)"
  "\<lambda>x. xQueueGenericSend others q x 0 queueSEND_TO_BACK" "xQueueGenericReceive others q 0 False" for q others
proof (unfold_locales, goal_cases)
  case (1 s x)
  then have c: "kinv {} (K s)" "queue_live q s" "item_queue q s" "pxQueueSetContainer (queues s q) = None"
    by (simp_all add: channel_ok_def)
  have nb: "queueSEND_TO_BACK \<noteq> queueOVERWRITE" by simp
  obtain s' where s': "xQueueGenericSend_pass q x queueSEND_TO_BACK None 0 s = Some (s', Inl True)" "item_queue q s'"
    "messages q s' = messages q s @ [x]" "woke_first (TasksWaitingToReceive q) (K s) (K s')" "shape q s' = shape q s"
    using send_room_ok [OF c(1,2,4,3) 1(2) nb 1(3), of None 0] by auto
  show ?case
    by (intro exI [of _ s'] conjI send_returns [OF s'(1)])
      (use s'(2-5) c in \<open>simp_all add: channel_ok_def woke_first_def queue_live_def shape_def\<close>)
next
  case (2 s x xs)
  then have c: "kinv {} (K s)" "queue_live q s" "item_queue q s" "pxQueueSetContainer (queues s q) = None" "messages q s \<noteq> []"
    by (simp_all add: channel_ok_def)
  obtain s' where s': "xQueueGenericReceive_pass q False None 0 s = Some (s', Inl (Some x))" "item_queue q s'"
    "messages q s' = xs" "woke_first (TasksWaitingToSend q) (K s) (K s')" "shape q s' = shape q s"
    using receive_room_ok [OF c(1-3,5), of False None 0] 2(2) by auto
  show ?case
    by (intro exI [of _ s'] conjI receive_returns [OF s'(1)])
      (use s'(2-5) c in \<open>simp_all add: channel_ok_def woke_first_def queue_live_def shape_def\<close>)
next
  case (3 s)
  have e: "uxMessagesWaiting (queues s q) = 0" using 3(2) length_messages [of q s] by (simp add: unat_eq_0 [symmetric])
  let ?s' = "on_k vPortExitCritical (on_k vPortEnterCritical s)"
  show ?case
    by (intro exI [of _ ?s'] conjI receive_returns [OF receive_refused [OF e]])
      (use 3 in \<open>simp_all add: channel_ok_def queue_live_def item_queue_def messages_def kinv_exit_critical\<close>)
qed

end
