(* ===== verification/QueueScenario.thy ===== *)
theory QueueScenario
  imports Scenario Channel
begin

text \<open>
  Concrete states for queues: the running system with an empty queue of two messages of four bytes,
  the same queue full or locked, and a mutex that the idle task holds.
\<close>

definition demo_queue :: Queue_t where
  "demo_queue = \<lparr>pcHead = 4096, pcTail = 4104, pcWriteTo = 4096, pcReadFrom = 4100, uxMessagesWaiting = 0,
     uxLength = 2, uxItemSize = 4, xRxLock = queueUNLOCKED, xTxLock = queueUNLOCKED, pxQueueSetContainer = None\<rparr>"

definition demo_os :: "kernel \<Rightarrow> os" where
  "demo_os k = \<lparr>kern = k, hmem = heap_m, genericHeapCtx = heap_c, stackHeapCtx = heap_c\<rparr>"

definition demo_ipc :: "Queue_t \<Rightarrow> kernel \<Rightarrow> ipc" where
  "demo_ipc Q k = \<lparr>sys = demo_os k, queues = (\<lambda>_. Q), qbytes = (\<lambda>_. 0), xQueueRegistry = replicate 8 (None, 0)\<rparr>"

lemma demo_ipc_simps [simp]:
  "K (demo_ipc Q k) = k" "queues (demo_ipc Q k) q = Q" "qbytes (demo_ipc Q k) = (\<lambda>_. 0)"
  by (simp_all add: demo_ipc_def demo_os_def)

lemma demo_ring: "ring_ok (demo_queue, m)" "contents (demo_queue, m) = []" "cap demo_queue = 2" "isize demo_queue = 4"
  by (simp_all add: ring_ok_def area_ok_def demo_queue_def read_pos_def slot_def contents_def)

lemma demo_calm: "calm demo"
  by (simp add: calm_def demo_fields)

lemma demo_may_block: "may_block demo 2 (TasksWaitingToReceive 0)"
  by (simp add: may_block_def demo_facts(1) demo_event demo_calm demo_fields demo_pending)

abbreviation demo_q :: ipc where
  "demo_q \<equiv> demo_ipc demo_queue demo"

lemma demo_q_facts:
  "queue_live 0 demo_q" "item_queue 0 demo_q" "messages 0 demo_q = []" "unlocked 0 demo_q"
  "pxQueueSetContainer (queues demo_q 0) = None" "\<And>v. econt (K demo_q) v \<noteq> Some (TasksWaitingToReceive 0)"
  by (simp_all add: queue_live_def demo_fields item_queue_def messages_def demo_ring unlocked_def demo_facts)
    (simp_all add: demo_queue_def)

definition demo_locked :: ipc where
  "demo_locked = demo_ipc (demo_queue\<lparr>xRxLock := queueLOCKED_UNMODIFIED, xTxLock := queueLOCKED_UNMODIFIED\<rparr>) demo_blocked"

lemma demo_locked_facts:
  "kinv {} (K demo_locked)" "queue_live 0 demo_locked" "pxQueueSetContainer (queues demo_locked 0) = None"
  "item_queue 0 demo_locked" "messages 0 demo_locked = []" "cap (queues demo_locked 0) = 2" "isize (queues demo_locked 0) = 4"
  "xTxLock (queues demo_locked 0) = queueLOCKED_UNMODIFIED" "xRxLock (queues demo_locked 0) = queueLOCKED_UNMODIFIED"
  "items (lists (K demo_locked)) (TasksWaitingToReceive 0) = [Event 2]" "uxSchedulerSuspended (K demo_locked) = 0"
proof -
  have l: "TasksWaitingToSend 0 \<in> evlists demo_blocked" "TasksWaitingToReceive 0 \<in> evlists demo_blocked"
    by (simp_all add: demo_blocked_def demo_fields)
  have e: "econt demo_blocked 2 = Some (TasksWaitingToReceive 0)"
    using place_on_event_list_ok(2) [OF demo_facts(1) demo_event, of 5] by (simp add: demo_blocked_def)
  have o: "u = 2" if "econt demo_blocked u = Some (TasksWaitingToReceive 0)" for u
    using demo_blocked_facts(7) [of u] that by fastforce
  show "items (lists (K demo_locked)) (TasksWaitingToReceive 0) = [Event 2]"
  proof -
    have "{t. econt demo_blocked t = Some (TasksWaitingToReceive 0)} = {2}" using e o by blast
    then have "set (items (lists demo_blocked) (TasksWaitingToReceive 0)) = {Event 2}"
      using event_items(1) [OF demo_blocked_facts(1,2)] by simp
    from distinct_singleton_set [OF this event_items(2) [OF demo_blocked_facts(1,2)]]
    show ?thesis by (simp add: demo_locked_def)
  qed
qed (use demo_blocked_facts demo_ring in \<open>simp_all add: demo_locked_def queue_live_def item_queue_def messages_def demo_blocked_def
    demo_fields\<close>, simp_all add: demo_queue_def)

text \<open>A mutex that task 7 holds while task 2 runs.\<close>

definition demo_held :: ipc where
  "demo_held = demo_ipc \<lparr>pcHead = NULL, pcTail = 7, pcWriteTo = NULL, pcReadFrom = NULL, uxMessagesWaiting = 0,
     uxLength = 1, uxItemSize = 0, xRxLock = queueUNLOCKED, xTxLock = queueUNLOCKED, pxQueueSetContainer = None\<rparr> demo_mutex"

lemma demo_held_facts:
  "may_block (K demo_held) 2 (TasksWaitingToReceive 0)" "unlocked 0 demo_held" "queue_live 0 demo_held" "mutex_queue 0 demo_held"
  "uxMessagesWaiting (queues demo_held 0) = 0" "pxMutexHolder (queues demo_held 0) = Some 7"
  "gcont (K demo_held) 7 = Some (Ready (prio (K demo_held) 7))" "uxMutexesHeld (tcb (K demo_held) 7) = 1"
  "uxBasePriority (tcb (K demo_held) 7) = prio (K demo_held) 7" "econt (K demo_held) v \<noteq> Some (TasksWaitingToReceive 0)"
  "prio (K demo_held) 7 = 0" "prio (K demo_held) 2 = 3"
proof -
  have c: "calm demo_mutex" "event_ready demo_mutex 2 (TasksWaitingToReceive 0)" "uxSchedulerSuspended demo_mutex = 0"
    "uxPendedTicks demo_mutex = 0" "pending demo_mutex = {}" "evlists demo_mutex = evlists demo"
    "gcont demo_mutex = gcont demo" "econt demo_mutex = econt demo"
    using demo_calm demo_event demo_pending demo_fields
    by (auto simp: demo_mutex_def update_tcb_def calm_def event_ready_def running_task_def pending_def)
  show "may_block (K demo_held) 2 (TasksWaitingToReceive 0)"
    by (simp add: may_block_def demo_held_def c demo_mutex_facts(1))
  show "queue_live 0 demo_held" by (simp add: queue_live_def demo_held_def c demo_fields)
  show "gcont (K demo_held) 7 = Some (Ready (prio (K demo_held) 7))" "prio (K demo_held) 7 = 0"
    "econt (K demo_held) v \<noteq> Some (TasksWaitingToReceive 0)" "prio (K demo_held) 2 = 3"
    using fun_cong [OF c(7), of 7] fun_cong [OF c(8), of v] demo_facts by (simp_all add: demo_held_def demo_mutex_def update_tcb_def)
qed (use demo_mutex_facts in \<open>simp_all add: demo_held_def unlocked_def mutex_queue_def is_mutex_def pxMutexHolder_def NULL_def\<close>)

end
