(* ===== verification/EventGroup.thy ===== *)
theory EventGroup
  imports EventWake TaskCreate
begin

unbundle bit_operations_syntax

text \<open>
  Event groups (\<^verbatim>\<open>event_groups.c\<close>). A group is the 24 bits its tasks wait for and a list of
  waiting tasks; what a task waits for is in the value of its event list item, with control bits
  in the top byte. A handle is the number of the address of the group. A call that may block is split
  where the caller leaves the processor; what other tasks do until it runs again is the argument
  \<open>others\<close>. \<open>None\<close> is a pointer that is no list item of a task, or a loop that does not end.
\<close>

section \<open>State\<close>

record EventGroup_t =
  uxEventBits :: u32

record evg =
  gsys :: os
  groups :: "nat \<Rightarrow> EventGroup_t"

abbreviation G :: "evg \<Rightarrow> kernel" where
  "G s \<equiv> kern (gsys s)"

definition set_g :: "kernel \<Rightarrow> evg \<Rightarrow> evg" where
  "set_g k s = s\<lparr>gsys := (gsys s)\<lparr>kern := k\<rparr>\<rparr>"

definition put_bits :: "nat \<Rightarrow> u32 \<Rightarrow> evg \<Rightarrow> evg" where
  "put_bits g b s = s\<lparr>groups := (groups s)(g := (groups s g)\<lparr>uxEventBits := b\<rparr>)\<rparr>"

abbreviation bits :: "nat \<Rightarrow> evg \<Rightarrow> u32" where
  "bits g s \<equiv> uxEventBits (groups s g)"

definition eventCLEAR_EVENTS_ON_EXIT_BIT :: u32 where
  "eventCLEAR_EVENTS_ON_EXIT_BIT = 0x01000000"

definition eventUNBLOCKED_DUE_TO_BIT_SET :: u32 where
  "eventUNBLOCKED_DUE_TO_BIT_SET = 0x02000000"

definition eventWAIT_FOR_ALL_BITS :: u32 where
  "eventWAIT_FOR_ALL_BITS = 0x04000000"

definition eventEVENT_BITS_CONTROL_BYTES :: u32 where
  "eventEVENT_BITS_CONTROL_BYTES = 0xFF000000"

section \<open>Operations\<close>

definition prvTestWaitCondition :: "u32 \<Rightarrow> u32 \<Rightarrow> bool \<Rightarrow> bool" where
  "prvTestWaitCondition uxCurrentEventBits uxBitsToWaitFor xWaitForAllBits \<longleftrightarrow>
     (if \<not> xWaitForAllBits then uxCurrentEventBits AND uxBitsToWaitFor \<noteq> 0
      else uxCurrentEventBits AND uxBitsToWaitFor = uxBitsToWaitFor)"

definition xEventGroupCreate :: "hook \<Rightarrow> u32 \<Rightarrow> evg \<Rightarrow> (evg \<times> nat option) option" where
  "xEventGroupCreate hook sizeof_EventGroup s = do {
     (o1, p) \<leftarrow> pvPortMalloc hook sizeof_EventGroup (gsys s);
     let s1 = s\<lparr>gsys := o1\<rparr>;
     if p \<noteq> NULL
     then (let g = unat p; s2 = put_bits g 0 s1; l = TasksWaitingForBits g; k = G s2
           in Some (set_g (k\<lparr>lists := vListInitialise l (lists k), evlists := insert l (evlists k)\<rparr>) s2, Some g))
     else Some (s1, None) }"

text \<open>The test of one waiter in \<open>xEventGroupSetBits\<close>: its bits, whether they match, what is to be cleared.\<close>

definition bits_waited_for :: "u32 \<Rightarrow> u32" where
  "bits_waited_for v = v AND NOT eventEVENT_BITS_CONTROL_BYTES"

definition match_found :: "u32 \<Rightarrow> u32 \<Rightarrow> bool" where
  "match_found v b =
     (let uxControlBits = v AND eventEVENT_BITS_CONTROL_BYTES; w = bits_waited_for v
      in if uxControlBits AND eventWAIT_FOR_ALL_BITS = 0 then w AND b \<noteq> 0 else w AND b = w)"

definition bits_cleared_by :: "u32 \<Rightarrow> u32" where
  "bits_cleared_by v =
     (if (v AND eventEVENT_BITS_CONTROL_BYTES) AND eventCLEAR_EVENTS_ON_EXIT_BIT \<noteq> 0 then bits_waited_for v else 0)"

partial_function (option) set_bits_loop :: "lid \<Rightarrow> u32 \<Rightarrow> (lid, item) node \<Rightarrow> u32 \<Rightarrow> kernel \<Rightarrow> (kernel \<times> u32) option" where
  "set_bits_loop pxList b pxListItem uxBitsToClear k =
     (if pxListItem = listGET_END_MARKER pxList then Some (k, uxBitsToClear)
      else (case pxListItem of
              Item (Event t) \<Rightarrow>
                let nxt = listGET_NEXT pxListItem (lists k); v = listGET_LIST_ITEM_VALUE (Event t) (lists k)
                in if match_found v b
                   then set_bits_loop pxList b nxt (uxBitsToClear OR bits_cleared_by v)
                          (fst (xTaskRemoveFromUnorderedEventList t (b OR eventUNBLOCKED_DUE_TO_BIT_SET) k))
                   else set_bits_loop pxList b nxt uxBitsToClear k
            | _ \<Rightarrow> None))"

definition xEventGroupSetBits :: "(evg \<Rightarrow> evg) \<Rightarrow> nat \<Rightarrow> u32 \<Rightarrow> evg \<Rightarrow> (evg \<times> u32) option" where
  "xEventGroupSetBits others g uxBitsToSet s = do {
     let l = TasksWaitingForBits g;
     let k1 = vTaskSuspendAll (G s);
     let b = bits g s OR uxBitsToSet;
     (k2, uxBitsToClear) \<leftarrow> set_bits_loop l b (listGET_HEAD_ENTRY l (lists k1)) 0 k1;
     let s2 = put_bits g (b AND NOT uxBitsToClear) (set_g k2 s);
     (k3, yielded) \<leftarrow> xTaskResumeAll (G s2);
     let s3 = (if yielded then others (set_g k3 s2) else set_g k3 s2);
     Some (s3, bits g s3) }"

definition xEventGroupClearBits :: "nat \<Rightarrow> u32 \<Rightarrow> evg \<Rightarrow> evg \<times> u32" where
  "xEventGroupClearBits g uxBitsToClear s =
     (let s1 = set_g (vPortEnterCritical (G s)) s;
          s2 = put_bits g (bits g s1 AND NOT uxBitsToClear) s1
      in (set_g (vPortExitCritical (G s2)) s2, bits g s1))"

definition xEventGroupGetBitsFromISR :: "nat \<Rightarrow> evg \<Rightarrow> evg \<times> u32" where
  "xEventGroupGetBitsFromISR g s =
     (let (k, mask) = ulPortSetInterruptMask (G s); s1 = set_g k s
      in (set_g (vPortClearInterruptMask mask (G s1)) s1, bits g s1))"

text \<open>
  The two blocking calls. The first half ends with a result, or with the caller off the
  processor; the second half runs when it is back.
\<close>

definition leave_processor :: "evg \<Rightarrow> evg option" where
  "leave_processor s = do {
     (k, xAlreadyYielded) \<leftarrow> xTaskResumeAll (G s);
     Some (set_g (if xAlreadyYielded then k else portYIELD k) s) }"

definition end_wait :: "nat \<Rightarrow> u32 \<Rightarrow> bool \<Rightarrow> bool \<Rightarrow> evg \<Rightarrow> evg \<times> u32" where
  "end_wait g uxBitsToWaitFor xClearOnExit xWaitForAllBits s =
     (let (k, v) = uxTaskResetEventItemValue (G s); s1 = set_g k s;
          (s2, r) = (if v AND eventUNBLOCKED_DUE_TO_BIT_SET = 0
                     then (let s2 = set_g (vPortEnterCritical (G s1)) s1; r = bits g s2;
                               s3 = (if prvTestWaitCondition r uxBitsToWaitFor xWaitForAllBits \<and> xClearOnExit
                                     then put_bits g (bits g s2 AND NOT uxBitsToWaitFor) s2 else s2)
                           in (set_g (vPortExitCritical (G s3)) s3, r))
                     else (s1, v))
      in (s2, r AND NOT eventEVENT_BITS_CONTROL_BYTES))"

definition xEventGroupWaitBits_block :: "nat \<Rightarrow> u32 \<Rightarrow> bool \<Rightarrow> bool \<Rightarrow> u32 \<Rightarrow> evg \<Rightarrow> (evg \<times> u32 option) option" where
  "xEventGroupWaitBits_block g uxBitsToWaitFor xClearOnExit xWaitForAllBits xTicksToWait s =
     (let s1 = set_g (vTaskSuspendAll (G s)) s; uxCurrentEventBits = bits g s1
      in if prvTestWaitCondition uxCurrentEventBits uxBitsToWaitFor xWaitForAllBits
         then do {
           let s2 = (if xClearOnExit then put_bits g (bits g s1 AND NOT uxBitsToWaitFor) s1 else s1);
           (k, _) \<leftarrow> xTaskResumeAll (G s2);
           Some (set_g k s2, Some uxCurrentEventBits) }
         else if xTicksToWait = 0
         then do { (k, _) \<leftarrow> xTaskResumeAll (G s1); Some (set_g k s1, Some uxCurrentEventBits) }
         else do {
           let c = (if xClearOnExit then eventCLEAR_EVENTS_ON_EXIT_BIT else 0) OR
                   (if xWaitForAllBits then eventWAIT_FOR_ALL_BITS else 0);
           s3 \<leftarrow> leave_processor
             (set_g (vTaskPlaceOnUnorderedEventList (TasksWaitingForBits g) (uxBitsToWaitFor OR c) xTicksToWait (G s1)) s1);
           Some (s3, None) })"

definition xEventGroupWaitBits :: "(evg \<Rightarrow> evg) \<Rightarrow> nat \<Rightarrow> u32 \<Rightarrow> bool \<Rightarrow> bool \<Rightarrow> u32 \<Rightarrow> evg \<Rightarrow> (evg \<times> u32) option" where
  "xEventGroupWaitBits others g uxBitsToWaitFor xClearOnExit xWaitForAllBits xTicksToWait s = do {
     (s1, r) \<leftarrow> xEventGroupWaitBits_block g uxBitsToWaitFor xClearOnExit xWaitForAllBits xTicksToWait s;
     Some (case r of Some v \<Rightarrow> (s1, v)
           | None \<Rightarrow> end_wait g uxBitsToWaitFor xClearOnExit xWaitForAllBits (others s1)) }"

definition xEventGroupSync_block :: "nat \<Rightarrow> u32 \<Rightarrow> u32 \<Rightarrow> u32 \<Rightarrow> evg \<Rightarrow> (evg \<times> u32 option) option" where
  "xEventGroupSync_block g uxBitsToSet uxBitsToWaitFor xTicksToWait s = do {
     let s1 = set_g (vTaskSuspendAll (G s)) s;
     let uxOriginalBitValue = bits g s1;
     (s2, _) \<leftarrow> xEventGroupSetBits (\<lambda>s. s) g uxBitsToSet s1;
     if (uxOriginalBitValue OR uxBitsToSet) AND uxBitsToWaitFor = uxBitsToWaitFor
     then do {
       let s3 = put_bits g (bits g s2 AND NOT uxBitsToWaitFor) s2;
       (k, _) \<leftarrow> xTaskResumeAll (G s3);
       Some (set_g k s3, Some (uxOriginalBitValue OR uxBitsToSet)) }
     else if xTicksToWait \<noteq> 0
     then do {
       s4 \<leftarrow> leave_processor
         (set_g (vTaskPlaceOnUnorderedEventList (TasksWaitingForBits g)
            (uxBitsToWaitFor OR eventCLEAR_EVENTS_ON_EXIT_BIT OR eventWAIT_FOR_ALL_BITS) xTicksToWait (G s2)) s2);
       Some (s4, None) }
     else do { (k, _) \<leftarrow> xTaskResumeAll (G s2); Some (set_g k s2, Some (bits g s2)) } }"

text \<open>A wait that times out in \<open>xEventGroupSync\<close> is one for all bits that clears them.\<close>

definition xEventGroupSync :: "(evg \<Rightarrow> evg) \<Rightarrow> nat \<Rightarrow> u32 \<Rightarrow> u32 \<Rightarrow> u32 \<Rightarrow> evg \<Rightarrow> (evg \<times> u32) option" where
  "xEventGroupSync others g uxBitsToSet uxBitsToWaitFor xTicksToWait s = do {
     (s1, r) \<leftarrow> xEventGroupSync_block g uxBitsToSet uxBitsToWaitFor xTicksToWait s;
     Some (case r of Some v \<Rightarrow> (s1, v) | None \<Rightarrow> end_wait g uxBitsToWaitFor True True (others s1)) }"

partial_function (option) release_loop :: "lid \<Rightarrow> kernel \<Rightarrow> kernel option" where
  "release_loop l k =
     (if listCURRENT_LIST_LENGTH l (lists k) > 0
      then (case listGET_HEAD_ENTRY l (lists k) of
              Item (Event t) \<Rightarrow> release_loop l (fst (xTaskRemoveFromUnorderedEventList t eventUNBLOCKED_DUE_TO_BIT_SET k))
            | _ \<Rightarrow> None)
      else Some k)"

definition vEventGroupDelete :: "nat \<Rightarrow> evg \<Rightarrow> evg option" where
  "vEventGroupDelete g s = do {
     k \<leftarrow> release_loop (TasksWaitingForBits g) (vTaskSuspendAll (G s));
     let s1 = set_g k s;
     o1 \<leftarrow> vPortFree (of_nat g) (gsys s1);
     let s2 = s1\<lparr>gsys := o1\<rparr>;
     (k3, _) \<leftarrow> xTaskResumeAll (G s2);
     Some (set_g k3 s2) }"

definition vEventGroupSetBitsCallback :: "(evg \<Rightarrow> evg) \<Rightarrow> nat \<Rightarrow> u32 \<Rightarrow> evg \<Rightarrow> evg option" where
  "vEventGroupSetBitsCallback others pvEventGroup ulBitsToSet s = do {
     (s1, _) \<leftarrow> xEventGroupSetBits others pvEventGroup ulBitsToSet s; Some s1 }"

definition vEventGroupClearBitsCallback :: "nat \<Rightarrow> u32 \<Rightarrow> evg \<Rightarrow> evg" where
  "vEventGroupClearBitsCallback pvEventGroup ulBitsToClear s = fst (xEventGroupClearBits pvEventGroup ulBitsToClear s)"

end
