(* ===== verification/EventGroupOk.thy ===== *)
theory EventGroupOk
  imports EventGroup
begin

unbundle bit_operations_syntax

text \<open>
  What setting bits does to the waiting tasks: exactly those whose condition holds are readied, each
  with the bits it was released by in its event list item, and the bits they asked to be cleared
  are cleared after all of them have been looked at.
\<close>

section \<open>Frames\<close>

abbreviation evalue :: "kernel \<Rightarrow> nat \<Rightarrow> u32" where
  "evalue k t \<equiv> xItemValue (lists k) (Item (Event t))"

lemma evg_simps [simp]:
  "G (set_g k s) = k" "groups (set_g k s) = groups s" "G (put_bits g b s) = G s"
  "groups (put_bits g b s) = (groups s)(g := (groups s g)\<lparr>uxEventBits := b\<rparr>)"
  by (simp_all add: set_g_def put_bits_def)

section \<open>Releasing waiters\<close>

text \<open>
  \<open>released W v k k'\<close>: exactly the tasks of \<open>W\<close> have been taken off their event list and readied,
  with \<open>v\<close> in their event list item.
\<close>

definition released :: "nat set \<Rightarrow> u32 \<Rightarrow> kernel \<Rightarrow> kernel \<Rightarrow> bool" where
  "released W v k k' \<longleftrightarrow> kinv {} k' \<and>
     (\<forall>t. gcont k' t = (if t \<in> W then Some (Ready (prio k t)) else gcont k t)) \<and>
     (\<forall>t. econt k' t = (if t \<in> W then None else econt k t)) \<and>
     (\<forall>t. evalue k' t = (if t \<in> W then v OR taskEVENT_LIST_ITEM_VALUE_IN_USE else evalue k t)) \<and>
     (\<forall>l \<in> evlists k - timer_lists. items (lists k') l = filter (\<lambda>i. i \<notin> Event ` W) (items (lists k) l)) \<and>
     tcb k' = tcb k \<and> evlists k' = evlists k \<and> live k' = live k \<and>
     uxPendedTicks k' = uxPendedTicks k \<and> xTickCount k' = xTickCount k"

lemma released_none: "kinv {} k \<Longrightarrow> released {} v k k"
  by (simp add: released_def)

lemma released_more:
  assumes "released {t} v k k1" and "released W v k1 k2"
  shows "released (insert t W) v k k2"
proof -
  have "filter (\<lambda>i. i \<notin> Event ` W) (filter (\<lambda>i. i \<notin> Event ` {t}) xs) = filter (\<lambda>i. i \<notin> Event ` insert t W) xs" for xs
    by (induction xs) auto
  then have f: "\<forall>l \<in> evlists k - timer_lists. items (lists k2) l = filter (\<lambda>i. i \<notin> Event ` insert t W) (items (lists k) l)"
    using assms by (simp add: released_def)
  show ?thesis using assms unfolding released_def by (intro conjI f) simp_all
qed

lemma release_one:
  assumes k: "kinv {} k" and l: "l \<in> evlists k - timer_lists" and t: "econt k t = Some l"
  shows "released {t} v k (fst (xTaskRemoveFromUnorderedEventList t v k))"
    and "uxSchedulerSuspended (fst (xTaskRemoveFromUnorderedEventList t v k)) = uxSchedulerSuspended k"
proof -
  let ?k' = "fst (xTaskRemoveFromUnorderedEventList t v k)"
  note r = remove_unordered_ok [OF k t]
  have tl: "t \<in> live k" by (rule kinv_liveD(2) [OF k t])
  have ow: "pvOwner (lists k) (Event t) = t" by (rule kinv_tcbD(4) [OF k tl])
  let ?k1 = "set_event_value t (v OR taskEVENT_LIST_ITEM_VALUE_IN_USE) k"
  let ?k2 = "remove_event_item t ?k1"
  let ?k3 = "prvAddTaskToReadyList t (remove_generic_item t ?k2)"
  have eq: "?k' = (if prio k t > prio k (cur k) then ?k3\<lparr>xYieldPending := True\<rparr> else ?k3)"
    by (simp add: xTaskRemoveFromUnorderedEventList_def Let_def ow cur_def remove_event_item_def)
  obtain g where g: "gcont k t = Some g" "g \<noteq> Termination"
    using kinv_liveD(5) [OF k tl] kinv_contD(5) [OF k t] by auto
  have k2: "kinv {} ?k2" using k by (simp add: kinv_remove_event_item)
  have k3: "kinv {t} (remove_generic_item t ?k2)" using kinv_remove_generic_item [OF k2, of t g] g by simp
  have i: "items (lists ?k') l' = filter (\<lambda>i. i \<notin> Event ` {t}) (items (lists k) l')" if l': "l' \<in> evlists k - timer_lists" for l'
  proof -
    have "items (lists ?k') l' = remove1 (Event t) (items (lists k) l')"
      using event_items_add_ready [OF k3, of l' t] event_items_remove_generic [OF k2, of l' t]
        event_items_remove_event [of False "{}" ?k1 l' t] k l' kinv_tcbD(1) [OF k tl] by (simp add: eq)
    then show ?thesis using distinct_remove1_removeAll [OF event_items(2) [OF k l']] by (simp add: removeAll_filter_not_eq eq_commute)
  qed
  have c: "\<forall>u. gcont ?k' u = (if u \<in> {t} then Some (Ready (prio k u)) else gcont k u)"
    "\<forall>u. econt ?k' u = (if u \<in> {t} then None else econt k u)"
    using r(2,3,5) by auto
  have f: "\<forall>u. evalue ?k' u = (if u \<in> {t} then v OR taskEVENT_LIST_ITEM_VALUE_IN_USE else evalue k u)"
    "evlists ?k' = evlists k" "live ?k' = live k" "uxPendedTicks ?k' = uxPendedTicks k" "xTickCount ?k' = xTickCount k"
    by (simp_all add: eq)
  show "released {t} v k ?k'" unfolding released_def using r(1,6) i c f by blast
  show "uxSchedulerSuspended ?k' = uxSchedulerSuspended k" by (simp add: eq)
qed

lemma next_of_item:
  assumes "kinvd D X k" and "l \<in> KL k" and "items (lists k) l = xs @ i # ys"
  shows "listGET_NEXT (Item i) (lists k) = first_node ys (End l)"
proof -
  have "is_list (lists k) l (xs @ i # ys)" using wf_lists_is_list [OF kinv_wf [OF assms(1)] assms(2)] assms(3) by simp
  then show ?thesis using dpath_first by (fastforce simp: is_list_def listGET_NEXT_def)
qed

lemma head_of_list:
  assumes "kinvd D X k" and "l \<in> KL k"
  shows "listGET_HEAD_ENTRY l (lists k) = first_node (items (lists k) l) (End l)"
  using wf_lists_is_list [OF kinv_wf [OF assms(1)] assms(2)] dpath_first
  by (fastforce simp: is_list_def listGET_HEAD_ENTRY_def)

text \<open>The waiters among \<open>xs\<close> that the bits release, and the bits they clear.\<close>

definition satisfied :: "u32 \<Rightarrow> kernel \<Rightarrow> item list \<Rightarrow> nat set" where
  "satisfied b k xs = {t. Event t \<in> set xs \<and> match_found (evalue k t) b}"

definition to_clear :: "u32 \<Rightarrow> kernel \<Rightarrow> item list \<Rightarrow> u32" where
  "to_clear b k xs = foldr (\<lambda>i c. let v = xItemValue (lists k) (Item i) in (if match_found v b then bits_cleared_by v else 0) OR c) xs 0"

lemma to_clear_cong:
  assumes "\<And>i. i \<in> set xs \<Longrightarrow> xItemValue (lists k') (Item i) = xItemValue (lists k) (Item i)"
  shows "to_clear b k' xs = to_clear b k xs"
  unfolding to_clear_def by (rule foldr_cong) (use assms in simp_all)

text \<open>A waiter that matches: after its release the rest of the list is looked at in the same way.\<close>

lemma set_bits_match:
  assumes k: "kinv {} k" and l: "l \<in> evlists k - timer_lists" and i: "items (lists k) l = xs @ Event t # ys"
    and m: "match_found (evalue k t) b"
  defines "v \<equiv> b OR eventUNBLOCKED_DUE_TO_BIT_SET"
  defines "k1 \<equiv> fst (xTaskRemoveFromUnorderedEventList t v k)"
  shows "set_bits_loop l b (first_node (Event t # ys) (End l)) c k = set_bits_loop l b (first_node ys (End l)) (c OR bits_cleared_by (evalue k t)) k1"
    and "released {t} v k k1" and "l \<in> evlists k1 - timer_lists" and "items (lists k1) l = xs @ ys"
    and "satisfied b k (Event t # ys) = insert t (satisfied b k1 ys)"
    and "bits_cleared_by (evalue k t) OR to_clear b k1 ys = to_clear b k (Event t # ys)"
    and "uxSchedulerSuspended k1 = uxSchedulerSuspended k"
proof -
  note si = event_items(1,2) [OF k l]
  have t: "econt k t = Some l" using si(1) i by auto
  have nt: "Event t \<notin> set xs" "Event t \<notin> set ys" using si(2) i by simp_all
  note r = release_one [OF k l t, of v, folded k1_def]
  show "released {t} v k k1" "uxSchedulerSuspended k1 = uxSchedulerSuspended k" by (rule r)+
  show "l \<in> evlists k1 - timer_lists" using r l by (simp add: released_def)
  have "filter (\<lambda>i. i \<notin> Event ` {t}) zs = zs" if "Event t \<notin> set zs" for zs using that by (intro filter_True) auto
  then show "items (lists k1) l = xs @ ys" using r l i nt unfolding released_def by simp
  have ev: "evalue k1 u = evalue k u" if "Event u \<in> set ys" for u using r nt(2) that by (auto simp: released_def)
  show "satisfied b k (Event t # ys) = insert t (satisfied b k1 ys)" using m ev by (auto simp: satisfied_def)
  have "to_clear b k1 ys = to_clear b k ys"
  proof (rule to_clear_cong)
    fix j assume j: "j \<in> set ys"
    then obtain u where "j = Event u" using si(1) i by auto
    then show "xItemValue (lists k1) (Item j) = xItemValue (lists k) (Item j)" using ev [of u] j by simp
  qed
  then show "bits_cleared_by (evalue k t) OR to_clear b k1 ys = to_clear b k (Event t # ys)" using m by (simp add: to_clear_def)
  have "l \<in> KL k" using l by simp
  from next_of_item [OF k this i]
  show "set_bits_loop l b (first_node (Event t # ys) (End l)) c k = set_bits_loop l b (first_node ys (End l)) (c OR bits_cleared_by (evalue k t)) k1"
    using m by (subst set_bits_loop.simps) (simp add: listGET_END_MARKER_def listGET_LIST_ITEM_VALUE_def k1_def v_def)
qed

lemma set_bits_loop_ok:
  assumes "kinv {} k" and "l \<in> evlists k - timer_lists" and "items (lists k) l = xs @ ys"
  shows "\<exists>k'. set_bits_loop l b (first_node ys (End l)) c k = Some (k', c OR to_clear b k ys) \<and>
    released (satisfied b k ys) (b OR eventUNBLOCKED_DUE_TO_BIT_SET) k k' \<and> uxSchedulerSuspended k' = uxSchedulerSuspended k"
  using assms
proof (induction ys arbitrary: xs c k)
  case Nil
  then show ?case
    by (subst set_bits_loop.simps) (simp add: listGET_END_MARKER_def to_clear_def satisfied_def released_none)
next
  case (Cons i ys)
  let ?v = "b OR eventUNBLOCKED_DUE_TO_BIT_SET"
  have lK: "l \<in> KL k" using Cons.prems(2) by simp
  obtain t where t: "i = Event t" using event_items(1) [OF Cons.prems(1,2)] Cons.prems(3) by auto
  show ?case
  proof (cases "match_found (evalue k t) b")
    case True
    let ?k1 = "fst (xTaskRemoveFromUnorderedEventList t ?v k)" and ?c = "c OR bits_cleared_by (evalue k t)"
    note m = set_bits_match [OF Cons.prems(1,2) Cons.prems(3) [unfolded t] True]
    have k1: "kinv {} ?k1" using m(2) by (simp add: released_def)
    obtain k' where k': "set_bits_loop l b (first_node ys (End l)) ?c ?k1 = Some (k', ?c OR to_clear b ?k1 ys)"
      "released (satisfied b ?k1 ys) ?v ?k1 k'" "uxSchedulerSuspended k' = uxSchedulerSuspended ?k1"
      using Cons.IH [OF k1 m(3,4)] by blast
    then show ?thesis using m(1,5,7) m(6) [symmetric] released_more [OF m(2) k'(2)] t by (auto simp: or.assoc)
  next
    case False
    have i1: "items (lists k) l = (xs @ [i]) @ ys" using Cons.prems(3) by simp
    obtain k' where k': "set_bits_loop l b (first_node ys (End l)) c k = Some (k', c OR to_clear b k ys)"
      "released (satisfied b k ys) ?v k k'" "uxSchedulerSuspended k' = uxSchedulerSuspended k"
      using Cons.IH [OF Cons.prems(1,2) i1] by blast
    have "satisfied b k (i # ys) = satisfied b k ys" "to_clear b k (i # ys) = to_clear b k ys"
      using False t by (auto simp: satisfied_def to_clear_def)
    moreover have "set_bits_loop l b (first_node (i # ys) (End l)) c k = set_bits_loop l b (first_node ys (End l)) c k"
      using False t next_of_item [OF Cons.prems(1) lK Cons.prems(3)]
      by (subst set_bits_loop.simps) (simp add: listGET_END_MARKER_def listGET_LIST_ITEM_VALUE_def)
    ultimately show ?thesis using k' by simp
  qed
qed

lemma released_same: "released W v k k1 \<Longrightarrow> same_tasks k1 k2 \<Longrightarrow> kinv {} k2 \<Longrightarrow> released W v k k2"
  by (simp add: released_def same_tasks_def)

lemma released_after: "same_tasks k k1 \<Longrightarrow> released W v k1 k2 \<Longrightarrow> released W v k k2"
  by (simp add: released_def same_tasks_def)

lemma released_pending: "released W v k k' \<Longrightarrow> pending k = {} \<Longrightarrow> pending k' = {}"
  by (auto simp: released_def pending_def)

definition group_live :: "nat \<Rightarrow> evg \<Rightarrow> bool" where
  "group_live g s \<longleftrightarrow> TasksWaitingForBits g \<in> evlists (G s)"

lemma set_bits_ok:
  fixes m :: u32
  assumes k: "kinv {} (G s)" and g: "group_live g s" and q: "quiet (G s)"
  defines "b \<equiv> bits g s OR m" and "xs \<equiv> items (lists (G s)) (TasksWaitingForBits g)"
  shows "\<exists>s1 y. xEventGroupSetBits others g m s = Some (if y then others s1 else s1, bits g (if y then others s1 else s1)) \<and>
    released (satisfied b (G s) xs) (b OR eventUNBLOCKED_DUE_TO_BIT_SET) (G s) (G s1) \<and>
    groups s1 = (groups s)(g := (groups s g)\<lparr>uxEventBits := b AND NOT (to_clear b (G s) xs)\<rparr>) \<and>
    uxSchedulerSuspended (G s1) = uxSchedulerSuspended (G s) \<and> (uxSchedulerSuspended (G s) \<noteq> 0 \<longrightarrow> \<not> y)"
proof -
  let ?l = "TasksWaitingForBits g" and ?k1 = "vTaskSuspendAll (G s)" and ?v = "b OR eventUNBLOCKED_DUE_TO_BIT_SET"
  have k1: "kinv {} ?k1" "?l \<in> evlists ?k1 - timer_lists" "?l \<in> KL ?k1"
    using k g by (simp_all add: group_live_def timer_lists_def)
  have st1: "same_tasks (G s) ?k1" by (rule same_tasks_switch(5))
  have x1: "items (lists ?k1) ?l = [] @ xs" using st1 by (simp add: xs_def same_tasks_def)
  have sv: "satisfied b ?k1 xs = satisfied b (G s) xs" "to_clear b ?k1 xs = to_clear b (G s) xs"
    using st1 by (simp_all add: satisfied_def to_clear_def same_tasks_def)
  obtain k2 where k2: "set_bits_loop ?l b (first_node xs (End ?l)) 0 ?k1 = Some (k2, 0 OR to_clear b ?k1 xs)"
    "released (satisfied b ?k1 xs) ?v ?k1 k2" "uxSchedulerSuspended k2 = uxSchedulerSuspended ?k1"
    using set_bits_loop_ok [OF k1(1,2) x1] by blast
  have r2: "released (satisfied b (G s) xs) ?v (G s) k2" using released_after [OF st1 k2(2)] sv(1) by simp
  have p2: "kinv {} k2" "uxPendedTicks k2 = 0" "pending k2 = {}"
    using r2 q released_pending [OF r2] by (simp_all add: released_def quiet_def)
  obtain k3 y where k3: "xTaskResumeAll k2 = Some (k3, y)" "kinv {} k3" "same_tasks k2 k3"
    "uxSchedulerSuspended k3 = uxSchedulerSuspended k2 - 1" "uxSchedulerSuspended k2 \<noteq> 1 \<longrightarrow> \<not> y"
    using resume_quiet [OF p2] by blast
  have hd: "listGET_HEAD_ENTRY ?l (lists ?k1) = first_node xs (End ?l)" using head_of_list [OF k1(1,3)] x1 by simp
  let ?s1 = "set_g k3 (put_bits g (b AND NOT (to_clear b (G s) xs)) (set_g k2 s))"
  have eq: "xEventGroupSetBits others g m s = Some (if y then others ?s1 else ?s1, bits g (if y then others ?s1 else ?s1))"
    using k2(1) k3(1) sv(2) hd by (simp add: xEventGroupSetBits_def Let_def b_def)
  show ?thesis
    by (intro exI [of _ ?s1] exI [of _ y] conjI eq)
      (use released_same [OF r2 k3(3,2)] k2(3) k3(4,5) in \<open>simp_all add: vTaskSuspendAll_def\<close>)
qed

section \<open>Waiting for bits\<close>

lemma place_unordered_frame [simp]:
  "evlists (vTaskPlaceOnUnorderedEventList l v w k) = evlists k" "tcb (vTaskPlaceOnUnorderedEventList l v w k) = tcb k"
  "live (vTaskPlaceOnUnorderedEventList l v w k) = live k"
  "uxSchedulerSuspended (vTaskPlaceOnUnorderedEventList l v w k) = uxSchedulerSuspended k"
  "uxPendedTicks (vTaskPlaceOnUnorderedEventList l v w k) = uxPendedTicks k"
  by (simp_all add: vTaskPlaceOnUnorderedEventList_def block_current_task_def Let_def)

lemma place_unordered_others:
  fixes v :: u32
  assumes k: "kinv {} k" and e: "event_ready k t l" and w: "w \<noteq> 0"
  defines "k' \<equiv> vTaskPlaceOnUnorderedEventList l v w k"
  shows "u \<noteq> t \<Longrightarrow> gcont k' u = gcont k u \<and> econt k' u = econt k u"
    and "evalue k' u = (if u = t then v OR taskEVENT_LIST_ITEM_VALUE_IN_USE else evalue k u)"
proof -
  note d = event_readyD [OF k e]
  let ?k0 = "set_event_value t (v OR taskEVENT_LIST_ITEM_VALUE_IN_USE) k"
  let ?k1 = "?k0\<lparr>lists := vListInsertEnd l (Event t) (lists ?k0)\<rparr>"
  have k0: "kinv {} ?k0" using k by simp
  have k1: "kinv {} ?k1" by (rule kinv_put_event(2) [OF k0]) (use d in simp_all)
  have t1: "running_task ?k1 t" using d(7) by (simp add: running_task_def)
  have l1: "l \<in> evlists ?k1 - timer_lists" using e by (simp add: event_ready_def)
  have w': "w = portMAX_DELAY \<or> w \<noteq> 0" using w by simp
  note b = block_current_task_ok [OF k1 t1 w'] and v = block_current_task_events [OF k1 t1 DiffD1 [OF l1]]
  have eq: "k' = block_current_task (w = portMAX_DELAY) w ?k1"
    using d(2) by (simp add: k'_def vTaskPlaceOnUnorderedEventList_def Let_def cur_def)
  show "u \<noteq> t \<Longrightarrow> gcont k' u = gcont k u \<and> econt k' u = econt k u"
    using b(4) [of u] fun_cong [OF b(3), of u] by (simp add: eq)
  show "evalue k' u = (if u = t then v OR taskEVENT_LIST_ITEM_VALUE_IN_USE else evalue k u)"
    using v(2) by (simp add: eq)
qed

text \<open>The value a waiting task carries, taken apart again.\<close>

definition wait_value :: "u32 \<Rightarrow> bool \<Rightarrow> bool \<Rightarrow> u32" where
  "wait_value w xClearOnExit xWaitForAllBits =
     w OR ((if xClearOnExit then eventCLEAR_EVENTS_ON_EXIT_BIT else 0) OR (if xWaitForAllBits then eventWAIT_FOR_ALL_BITS else 0)) OR
     taskEVENT_LIST_ITEM_VALUE_IN_USE"

lemmas control_bits = eventCLEAR_EVENTS_ON_EXIT_BIT_def eventUNBLOCKED_DUE_TO_BIT_SET_def eventWAIT_FOR_ALL_BITS_def
  eventEVENT_BITS_CONTROL_BYTES_def taskEVENT_LIST_ITEM_VALUE_IN_USE_def

lemma no_control: "(w :: u32) AND c = 0 \<Longrightarrow> w AND NOT c = w"
proof -
  have "w = (w AND c) OR (w AND NOT c)" by (simp flip: bit.conj_disj_distrib)
  then show "w AND c = 0 \<Longrightarrow> w AND NOT c = w" by simp
qed

lemma control_split:
  fixes w :: u32
  assumes "w AND eventEVENT_BITS_CONTROL_BYTES = 0"
  shows "(w OR c) AND NOT eventEVENT_BITS_CONTROL_BYTES = w OR (c AND NOT eventEVENT_BITS_CONTROL_BYTES)"
    and "(w OR c) AND eventEVENT_BITS_CONTROL_BYTES = c AND eventEVENT_BITS_CONTROL_BYTES"
  using assms no_control [OF assms] by (simp_all add: bit.conj_disj_distrib2)

lemma wait_value_parts:
  assumes w: "w AND eventEVENT_BITS_CONTROL_BYTES = 0"
  shows "bits_waited_for (wait_value w c a) = w" and "match_found (wait_value w c a) b = prvTestWaitCondition b w a"
    and "bits_cleared_by (wait_value w c a) = (if c then w else 0)"
proof -
  show p: "bits_waited_for (wait_value w c a) = w"
    unfolding bits_waited_for_def wait_value_def or.assoc control_split(1) [OF w] by (cases c; cases a) (simp_all add: control_bits)
  have q: "(wait_value w c a AND eventEVENT_BITS_CONTROL_BYTES) AND eventWAIT_FOR_ALL_BITS = 0 \<longleftrightarrow> \<not> a"
    "(wait_value w c a AND eventEVENT_BITS_CONTROL_BYTES) AND eventCLEAR_EVENTS_ON_EXIT_BIT = 0 \<longleftrightarrow> \<not> c"
    unfolding wait_value_def or.assoc control_split(2) [OF w] by (cases c; cases a; simp add: control_bits)+
  show "match_found (wait_value w c a) b = prvTestWaitCondition b w a"
    unfolding match_found_def Let_def p q(1) prvTestWaitCondition_def by (simp add: and.commute [of b w])
  show "bits_cleared_by (wait_value w c a) = (if c then w else 0)"
    unfolding bits_cleared_by_def p q(2) by simp
qed

lemma released_value:
  assumes "b AND eventEVENT_BITS_CONTROL_BYTES = 0"
  shows "((b OR eventUNBLOCKED_DUE_TO_BIT_SET) OR taskEVENT_LIST_ITEM_VALUE_IN_USE) AND NOT eventEVENT_BITS_CONTROL_BYTES = b"
    and "((b OR eventUNBLOCKED_DUE_TO_BIT_SET) OR taskEVENT_LIST_ITEM_VALUE_IN_USE) AND eventUNBLOCKED_DUE_TO_BIT_SET \<noteq> 0"
proof -
  show "((b OR eventUNBLOCKED_DUE_TO_BIT_SET) OR taskEVENT_LIST_ITEM_VALUE_IN_USE) AND NOT eventEVENT_BITS_CONTROL_BYTES = b"
    unfolding or.assoc control_split(1) [OF assms] by (simp add: control_bits)
  have "(b OR c) AND eventUNBLOCKED_DUE_TO_BIT_SET = (b AND eventUNBLOCKED_DUE_TO_BIT_SET) OR (c AND eventUNBLOCKED_DUE_TO_BIT_SET)" for c
    by (simp add: bit.conj_disj_distrib2)
  then show "((b OR eventUNBLOCKED_DUE_TO_BIT_SET) OR taskEVENT_LIST_ITEM_VALUE_IN_USE) AND eventUNBLOCKED_DUE_TO_BIT_SET \<noteq> 0"
    unfolding or.assoc by (simp add: control_bits or_eq_0_iff)
qed

text \<open>A group that holds no control bits, and a task that may wait on it.\<close>

lemma wait_bits_blocks:
  assumes m: "may_block (G s) t (TasksWaitingForBits g)" and w: "w \<noteq> 0"
    and no: "\<not> prvTestWaitCondition (bits g s) f a"
  shows "\<exists>s1. xEventGroupWaitBits_block g f c a w s = Some (s1, None) \<and> kinv {} (G s1) \<and>
    blocked_on (G s1) t (TasksWaitingForBits g) w \<and> groups s1 = groups s \<and> quiet (G s1) \<and>
    evalue (G s1) t = wait_value f c a \<and> evlists (G s1) = evlists (G s) \<and> tcb (G s1) = tcb (G s) \<and>
    (\<forall>u. u \<noteq> t \<longrightarrow> gcont (G s1) u = gcont (G s) u \<and> econt (G s1) u = econt (G s) u \<and> evalue (G s1) u = evalue (G s) u) \<and>
    uxSchedulerSuspended (G s1) = 0"
proof -
  let ?l = "TasksWaitingForBits g" and ?k1 = "vTaskSuspendAll (G s)"
  define v where "v = f OR ((if c then eventCLEAR_EVENTS_ON_EXIT_BIT else 0) OR (if a then eventWAIT_FOR_ALL_BITS else 0))"
  let ?k2 = "vTaskPlaceOnUnorderedEventList ?l v w ?k1"
  have k1: "kinv {} ?k1" "event_ready ?k1 t ?l" "uxPendedTicks ?k1 = 0" "pending ?k1 = {}"
    using m by (simp_all add: may_block_def event_ready_def running_task_def pending_def)
  note p = place_unordered_ok [OF k1(1,2) w] and o = place_unordered_others [OF k1(1,2) w]
  have b2: "blocked_on ?k2 t ?l w" unfolding blocked_on_def using p(2,3) by blast
  have p2: "pending ?k2 = {}"
  proof -
    have "econt ?k2 u \<noteq> Some PendingReady" for u using p(2) o(1) [of u] k1(4) by (cases "u = t") (auto simp: pending_def)
    then show ?thesis by (simp add: pending_def)
  qed
  obtain k3 y where k3: "xTaskResumeAll ?k2 = Some (k3, y)" "kinv {} k3" "same_tasks ?k2 k3"
    "uxSchedulerSuspended k3 = uxSchedulerSuspended ?k2 - 1"
    using resume_quiet [OF p(1) _ p2] k1(3) by auto
  let ?k4 = "if y then k3 else portYIELD k3"
  have k4: "kinv {} ?k4" "same_tasks ?k2 ?k4" "uxSchedulerSuspended ?k4 = 0"
    using k3 same_tasks_trans [OF k3(3) same_tasks_switch(1)] m
    by (auto simp: kinv_portYIELD vTaskSuspendAll_def may_block_def)
  let ?s1 = "set_g ?k4 (set_g ?k2 (set_g ?k1 s))"
  have eq: "xEventGroupWaitBits_block g f c a w s = Some (?s1, None)"
    using no w k3(1) by (simp add: xEventGroupWaitBits_block_def leave_processor_def Let_def flip: v_def)
  have b4: "blocked_on ?k4 t ?l w"
    by (rule blocked_same [OF k4(2) b2])
  have q4: "quiet ?k4" using p2 k1(3) k4(2) by (simp add: quiet_def pending_def same_tasks_def)
  have st: "same_tasks (G s) ?k1" by (rule same_tasks_switch(5))
  have v4: "evalue ?k4 t = wait_value f c a" using o(2) k4(2) by (simp add: same_tasks_def wait_value_def v_def or.assoc)
  have ot: "gcont ?k4 u = gcont (G s) u \<and> econt ?k4 u = econt (G s) u \<and> evalue ?k4 u = evalue (G s) u" if "u \<noteq> t" for u
    using o(1) [OF that] o(2) [of _ u] that k4(2) st unfolding same_tasks_def by simp
  show ?thesis
    by (intro exI [of _ ?s1] conjI eq) (use k4 b4 q4 v4 ot st in \<open>simp_all add: same_tasks_def\<close>)
qed

lemma or_of_zero: "(x :: u32) AND c = 0 \<Longrightarrow> y AND c = 0 \<Longrightarrow> (x OR y) AND c = 0"
  by (simp add: bit.conj_disj_distrib2)

lemma to_clear_mem:
  assumes "i \<in> set xs" and "match_found (xItemValue (lists k) (Item i)) b"
  shows "to_clear b k xs AND bits_cleared_by (xItemValue (lists k) (Item i)) = bits_cleared_by (xItemValue (lists k) (Item i))"
  using assms
proof (induction xs)
  case (Cons j xs)
  let ?c = "bits_cleared_by (xItemValue (lists k) (Item i))"
  show ?case
  proof (cases "i = j")
    case True
    then show ?thesis using Cons.prems(2) by (simp add: to_clear_def bit.conj_disj_distrib2 and.commute)
  next
    case False
    then have "to_clear b k xs AND ?c = ?c" using Cons by simp
    moreover have "to_clear b k (j # xs) = (if match_found (xItemValue (lists k) (Item j)) b
        then bits_cleared_by (xItemValue (lists k) (Item j)) else 0) OR to_clear b k xs" by (simp add: to_clear_def Let_def)
    ultimately show ?thesis by (simp add: bit.conj_disj_distrib2)
  qed
qed simp

text \<open>
  A task that waits for bits gets them: setting bits that meet its condition readies it, clears what
  it asked to be cleared, and when it runs again the call returns the bits at the moment of release.
\<close>

lemma wait_then_set:
  assumes m: "may_block (G s) t (TasksWaitingForBits g)" and w: "w \<noteq> 0"
    and f: "f AND eventEVENT_BITS_CONTROL_BYTES = 0" and b: "(bits g s OR m') AND eventEVENT_BITS_CONTROL_BYTES = 0"
    and no: "\<not> prvTestWaitCondition (bits g s) f a" and yes: "prvTestWaitCondition (bits g s OR m') f a"
  shows "\<exists>s1 s2. xEventGroupWaitBits_block g f c a w s = Some (s1, None) \<and> blocked_on (G s1) t (TasksWaitingForBits g) w \<and>
    xEventGroupSetBits (\<lambda>s. s) g m' s1 = Some (s2, bits g s2) \<and> kinv {} (G s2) \<and>
    gcont (G s2) t = Some (Ready (prio (G s) t)) \<and> econt (G s2) t = None \<and> (c \<longrightarrow> bits g s2 AND f = 0) \<and>
    (\<forall>others. pxCurrentTCB (G (others s1)) = Some t \<and> evalue (G (others s1)) t = evalue (G s2) t \<longrightarrow>
       (\<exists>s4. xEventGroupWaitBits others g f c a w s = Some (s4, bits g s OR m')))"
proof -
  let ?l = "TasksWaitingForBits g" and ?b = "bits g s OR m'"
  obtain s1 where s1: "xEventGroupWaitBits_block g f c a w s = Some (s1, None)" "kinv {} (G s1)" "blocked_on (G s1) t ?l w"
    "groups s1 = groups s" "quiet (G s1)" "evalue (G s1) t = wait_value f c a" "evlists (G s1) = evlists (G s)"
    "tcb (G s1) = tcb (G s)" using wait_bits_blocks [OF m w no] by blast
  have gl: "group_live g s1" using m s1(7) by (simp add: group_live_def may_block_def event_ready_def)
  have le: "?l \<in> evlists (G s1) - timer_lists" using gl by (simp add: group_live_def timer_lists_def)
  let ?xs = "items (lists (G s1)) ?l" and ?v = "?b OR eventUNBLOCKED_DUE_TO_BIT_SET"
  have b1: "bits g s1 OR m' = ?b" using s1(4) by simp
  obtain s2 where s2: "xEventGroupSetBits (\<lambda>s. s) g m' s1 = Some (s2, bits g s2)"
    "released (satisfied ?b (G s1) ?xs) ?v (G s1) (G s2)"
    "groups s2 = (groups s1)(g := (groups s1 g)\<lparr>uxEventBits := ?b AND NOT (to_clear ?b (G s1) ?xs)\<rparr>)"
    using set_bits_ok [OF s1(2) gl s1(5), of "\<lambda>s. s" m', unfolded b1] by (auto split: if_splits)
  note wv = wait_value_parts [OF f]
  have tx: "Event t \<in> set ?xs" using event_items(1) [OF s1(2) le] s1(3) by (auto simp: blocked_on_def)
  have mt: "match_found (evalue (G s1) t) ?b" using yes wv(2) s1(6) by simp
  have tW: "t \<in> satisfied ?b (G s1) ?xs" using tx mt by (simp add: satisfied_def)
  have r: "kinv {} (G s2)" "gcont (G s2) t = Some (Ready (prio (G s) t))" "econt (G s2) t = None"
    "evalue (G s2) t = ?v OR taskEVENT_LIST_ITEM_VALUE_IN_USE"
    using s2(2) tW s1(8) by (simp_all add: released_def)
  have cl: "bits g s2 AND f = 0" if "c"
  proof -
    have "to_clear ?b (G s1) ?xs AND f = f" using to_clear_mem [OF tx mt] wv(3) s1(6) that by simp
    then have "NOT (to_clear ?b (G s1) ?xs) AND f = 0"
      by (metis and.assoc and.commute bit.conj_cancel_right bit.conj_zero_right)
    then show ?thesis using s2(3) by (simp add: and.assoc)
  qed
  have ret: "\<exists>s4. xEventGroupWaitBits others g f c a w s = Some (s4, ?b)"
    if o: "pxCurrentTCB (G (others s1)) = Some t" "evalue (G (others s1)) t = evalue (G s2) t" for others
  proof -
    have "snd (uxTaskResetEventItemValue (G (others s1))) = ?v OR taskEVENT_LIST_ITEM_VALUE_IN_USE"
      using o r(4) by (simp add: uxTaskResetEventItemValue_def cur_def listGET_LIST_ITEM_VALUE_def)
    then have "snd (end_wait g f c a (others s1)) = ?b"
      using released_value [OF b] by (simp add: end_wait_def split_beta Let_def)
    then show ?thesis using s1(1) by (simp add: xEventGroupWaitBits_def) (metis prod.collapse)
  qed
  show ?thesis using s1(1,3) s2(1) r(1-3) cl ret by blast
qed

section \<open>Rendezvous\<close>

text \<open>The task that completes a rendezvous does not block; the others are released and the bits are cleared.\<close>

lemma sync_last:
  fixes m' f :: u32
  assumes k: "kinv {} (G s)" and g: "group_live g s" and q: "quiet (G s)" and all: "(bits g s OR m') AND f = f"
  defines "b \<equiv> bits g s OR m'" and "xs \<equiv> items (lists (G s)) (TasksWaitingForBits g)"
  shows "\<exists>s'. xEventGroupSync others g m' f w s = Some (s', b) \<and>
    released (satisfied b (G s) xs) (b OR eventUNBLOCKED_DUE_TO_BIT_SET) (G s) (G s') \<and> bits g s' AND f = 0"
proof -
  let ?s1 = "set_g (vTaskSuspendAll (G s)) s"
  have st: "same_tasks (G s) (G ?s1)" using same_tasks_switch(5) by simp
  have k1: "kinv {} (G ?s1)" "group_live g ?s1" "quiet (G ?s1)"
    using k g q by (simp_all add: group_live_def quiet_def pending_def)
  have e1: "bits g ?s1 OR m' = b" "items (lists (G ?s1)) (TasksWaitingForBits g) = xs"
    "satisfied b (G ?s1) xs = satisfied b (G s) xs" "to_clear b (G ?s1) xs = to_clear b (G s) xs"
    using st by (simp_all add: b_def xs_def satisfied_def to_clear_def same_tasks_def)
  obtain s2 where s2: "xEventGroupSetBits (\<lambda>s. s) g m' ?s1 = Some (s2, bits g s2)"
    "released (satisfied b (G s) xs) (b OR eventUNBLOCKED_DUE_TO_BIT_SET) (G ?s1) (G s2)"
    using set_bits_ok [OF k1, of "\<lambda>s. s" m', unfolded e1] by (auto split: if_splits)
  note r2 = released_after [OF st s2(2)]
  let ?s3 = "put_bits g (bits g s2 AND NOT f) s2"
  have p3: "kinv {} (G ?s3)" "uxPendedTicks (G ?s3) = 0" "pending (G ?s3) = {}"
    using r2 q released_pending [OF r2] by (simp_all add: released_def quiet_def)
  obtain k4 y where k4: "xTaskResumeAll (G ?s3) = Some (k4, y)" "kinv {} k4" "same_tasks (G ?s3) k4"
    using resume_quiet [OF p3] by blast
  have "xEventGroupSync_block g m' f w s = Some (set_g k4 ?s3, Some b)"
    using s2(1) all k4(1) by (simp add: xEventGroupSync_block_def Let_def b_def)
  then have eq: "xEventGroupSync others g m' f w s = Some (set_g k4 ?s3, b)" by (simp add: xEventGroupSync_def)
  have "released (satisfied b (G s) xs) (b OR eventUNBLOCKED_DUE_TO_BIT_SET) (G s) k4"
    using released_same [OF r2 _ k4(2)] k4(3) by simp
  moreover have "(bits g s2 AND NOT f) AND f = 0" by (simp add: and.assoc)
  ultimately show ?thesis using eq by (intro exI [of _ "set_g k4 ?s3"]) simp
qed

section \<open>Deletion\<close>

lemma release_loop_ok:
  assumes "kinv {} k" and "l \<in> evlists k - timer_lists" and "items (lists k) l = xs"
  shows "\<exists>k'. release_loop l k = Some k' \<and> released {t. Event t \<in> set xs} eventUNBLOCKED_DUE_TO_BIT_SET k k' \<and>
    uxSchedulerSuspended k' = uxSchedulerSuspended k"
  using assms
proof (induction xs arbitrary: k)
  case Nil
  then show ?case using list_empty_iff [OF Nil.prems(1,2)]
    by (subst release_loop.simps) (simp add: listLIST_IS_EMPTY_def listCURRENT_LIST_LENGTH_def released_none)
next
  case (Cons i xs)
  have lK: "l \<in> KL k" using Cons.prems(2) by simp
  note si = event_items(1,2) [OF Cons.prems(1,2)]
  obtain t where t: "i = Event t" "econt k t = Some l" using si(1) Cons.prems(3) by auto
  let ?k1 = "fst (xTaskRemoveFromUnorderedEventList t eventUNBLOCKED_DUE_TO_BIT_SET k)"
  note r = release_one [OF Cons.prems(1,2) t(2), of eventUNBLOCKED_DUE_TO_BIT_SET]
  have "filter (\<lambda>i. i \<notin> Event ` {t}) xs = xs" using si(2) Cons.prems(3) t(1) by (intro filter_True) auto
  then have k1: "kinv {} ?k1" "l \<in> evlists ?k1 - timer_lists" "items (lists ?k1) l = xs"
    using r(1) Cons.prems(2,3) t(1) by (simp_all add: released_def)
  obtain k' where k': "release_loop l ?k1 = Some k'" "released {t. Event t \<in> set xs} eventUNBLOCKED_DUE_TO_BIT_SET ?k1 k'"
    "uxSchedulerSuspended k' = uxSchedulerSuspended ?k1" using Cons.IH [OF k1] by blast
  have ne: "listCURRENT_LIST_LENGTH l (lists k) > 0"
    using list_empty_iff [OF Cons.prems(1,2)] Cons.prems(3)
    by (simp add: listLIST_IS_EMPTY_def listCURRENT_LIST_LENGTH_def word_neq_0_conv)
  have hd: "listGET_HEAD_ENTRY l (lists k) = Item (Event t)" using head_of_list [OF Cons.prems(1) lK] Cons.prems(3) t(1) by simp
  have "release_loop l k = release_loop l ?k1" using ne hd by (subst release_loop.simps) simp
  moreover have "insert t {t. Event t \<in> set xs} = {t. Event t \<in> set (i # xs)}" using t(1) by auto
  ultimately show ?case using k' released_more [OF r(1) k'(2)] r(2) by simp
qed

end
