(* ===== verification/Timer.thy ===== *)
theory Timer
  imports Queue
begin

unbundle bit_operations_syntax

text \<open>
  Software timers (\<^verbatim>\<open>timers.c\<close>). A timer is a structure and one item in one of two lists sorted by
  expiry time, the current one and the one for expiry times beyond the next overflow of the
  tick count. Only the timer task touches the lists; the others send it commands through a queue, as
  sixteen bytes. Timer callbacks and pended functions are code of the application: they are
  arguments, \<open>cb\<close> and \<open>pf\<close>, that take the address of the function, its arguments and the state.
\<close>

section \<open>State and messages\<close>

record Timer_t =
  pcTimerName :: string
  xTimerPeriodInTicks :: u32
  uxAutoReload :: u32
  pvTimerID :: u32
  pxCallbackFunction :: u32

record tmr =
  tipc :: ipc
  timers :: "nat \<Rightarrow> Timer_t"
  pxCurrentTimerList :: lid
  pxOverflowTimerList :: lid
  xTimerQueue :: "nat option"
  xLastTime :: u32

abbreviation TK :: "tmr \<Rightarrow> kernel" where
  "TK s \<equiv> K (tipc s)"

definition on_t :: "(kernel \<Rightarrow> kernel) \<Rightarrow> tmr \<Rightarrow> tmr" where
  "on_t f s = s\<lparr>tipc := on_k f (tipc s)\<rparr>"

definition set_lists :: "store \<Rightarrow> tmr \<Rightarrow> tmr" where
  "set_lists x s = on_t (\<lambda>k. k\<lparr>lists := x\<rparr>) s"

definition upd_timer :: "nat \<Rightarrow> (Timer_t \<Rightarrow> Timer_t) \<Rightarrow> tmr \<Rightarrow> tmr" where
  "upd_timer t f s = s\<lparr>timers := (timers s)(t := f (timers s t))\<rparr>"

type_synonym callback = "u32 \<Rightarrow> nat \<Rightarrow> tmr \<Rightarrow> tmr option"

type_synonym pended = "u32 \<Rightarrow> u32 \<Rightarrow> u32 \<Rightarrow> tmr \<Rightarrow> tmr option"

datatype DaemonTaskMessage_t =
    TimerParameters (xMessageID: u32) u32 u32
  | CallbackParameters (xMessageID: u32) u32 u32 u32

definition tmrCOMMAND_EXECUTE_CALLBACK_FROM_ISR :: u32 where
  "tmrCOMMAND_EXECUTE_CALLBACK_FROM_ISR = - 2"

definition tmrCOMMAND_EXECUTE_CALLBACK :: u32 where
  "tmrCOMMAND_EXECUTE_CALLBACK = - 1"

definition tmrCOMMAND_START_DONT_TRACE :: u32 where
  "tmrCOMMAND_START_DONT_TRACE = 0"

definition tmrCOMMAND_START :: u32 where
  "tmrCOMMAND_START = 1"

definition tmrCOMMAND_RESET :: u32 where
  "tmrCOMMAND_RESET = 2"

definition tmrCOMMAND_STOP :: u32 where
  "tmrCOMMAND_STOP = 3"

definition tmrCOMMAND_CHANGE_PERIOD :: u32 where
  "tmrCOMMAND_CHANGE_PERIOD = 4"

definition tmrCOMMAND_DELETE :: u32 where
  "tmrCOMMAND_DELETE = 5"

definition tmrFIRST_FROM_ISR_COMMAND :: u32 where
  "tmrFIRST_FROM_ISR_COMMAND = 6"

definition tmrCOMMAND_START_FROM_ISR :: u32 where
  "tmrCOMMAND_START_FROM_ISR = 6"

definition tmrCOMMAND_RESET_FROM_ISR :: u32 where
  "tmrCOMMAND_RESET_FROM_ISR = 7"

definition tmrCOMMAND_STOP_FROM_ISR :: u32 where
  "tmrCOMMAND_STOP_FROM_ISR = 8"

definition tmrCOMMAND_CHANGE_PERIOD_FROM_ISR :: u32 where
  "tmrCOMMAND_CHANGE_PERIOD_FROM_ISR = 9"

text \<open>
  The bytes of a message, lowest first. A timer command does not write the last word of the union, and
  nothing reads it; it is 0 here.
\<close>

definition word_bytes :: "u32 \<Rightarrow> u8 list" where
  "word_bytes w = map (\<lambda>i. ucast (drop_bit (8 * i) w)) [0..<4]"

definition bytes_word :: "u8 list \<Rightarrow> u32" where
  "bytes_word bs = foldr (\<lambda>b w. ucast b OR push_bit 8 w) bs 0"

fun message_bytes :: "DaemonTaskMessage_t \<Rightarrow> u8 list" where
  "message_bytes (TimerParameters n v t) = word_bytes n @ word_bytes v @ word_bytes t @ word_bytes 0"
| "message_bytes (CallbackParameters n f a b) = word_bytes n @ word_bytes f @ word_bytes a @ word_bytes b"

definition bytes_message :: "u8 list \<Rightarrow> DaemonTaskMessage_t" where
  "bytes_message bs =
     (let n = bytes_word (take 4 bs); w1 = bytes_word (take 4 (drop 4 bs)); w2 = bytes_word (take 4 (drop 8 bs))
      in if sint n < 0 then CallbackParameters n w1 w2 (bytes_word (take 4 (drop 12 bs))) else TimerParameters n w1 w2)"

definition sizeof_DaemonTaskMessage_t :: u32 where
  "sizeof_DaemonTaskMessage_t = 16"

definition configTIMER_QUEUE_LENGTH :: u32 where
  "configTIMER_QUEUE_LENGTH = 5"

definition configTIMER_TASK_PRIORITY :: u32 where
  "configTIMER_TASK_PRIORITY = configMAX_PRIORITIES - 1"

section \<open>Creation\<close>

definition prvCheckForValidListAndQueue :: "hook \<Rightarrow> u32 \<Rightarrow> tmr \<Rightarrow> tmr option" where
  "prvCheckForValidListAndQueue hook sizeof_Queue s = do {
     let s1 = on_t vPortEnterCritical s;
     s2 \<leftarrow> (if xTimerQueue s1 = None
            then do {
              let s' = (on_t (init_event_list TimerList2) (on_t (init_event_list TimerList1) s1))
                         \<lparr>pxCurrentTimerList := TimerList1, pxOverflowTimerList := TimerList2\<rparr>;
              (i, q) \<leftarrow> xQueueGenericCreate hook sizeof_Queue configTIMER_QUEUE_LENGTH sizeof_DaemonTaskMessage_t (tipc s');
              Some (s'\<lparr>tipc := (case q of None \<Rightarrow> i | Some q' \<Rightarrow> vQueueAddToRegistry q' ''TmrQ'' i), xTimerQueue := q\<rparr>) }
            else Some s1);
     Some (on_t vPortExitCritical s2) }"

definition xTimerCreateTimerTask :: "hook \<Rightarrow> u32 \<Rightarrow> u32 \<Rightarrow> u16 \<Rightarrow> tmr \<Rightarrow> (tmr \<times> bool) option" where
  "xTimerCreateTimerTask hook sizeof_Queue sizeof_TCB configTIMER_TASK_STACK_DEPTH s = do {
     s1 \<leftarrow> prvCheckForValidListAndQueue hook sizeof_Queue s;
     if xTimerQueue s1 \<noteq> None
     then do {
       (o1, t) \<leftarrow> xTaskGenericCreate hook sizeof_TCB ''Tmr Svc'' configTIMER_TASK_STACK_DEPTH configTIMER_TASK_PRIORITY NULL
                    (sys (tipc s1));
       Some (s1\<lparr>tipc := (tipc s1)\<lparr>sys := o1\<rparr>\<rparr>, t \<noteq> None) }
     else Some (s1, False) }"

definition xTimerCreate :: "hook \<Rightarrow> u32 \<Rightarrow> u32 \<Rightarrow> string \<Rightarrow> u32 \<Rightarrow> u32 \<Rightarrow> u32 \<Rightarrow> u32 \<Rightarrow> tmr \<Rightarrow> (tmr \<times> nat option) option" where
  "xTimerCreate hook sizeof_Queue sizeof_Timer pcTimerName' xPeriod xReload pvID pxCallback s =
     (if xPeriod = 0 then Some (s, None)
      else do {
        (o1, p) \<leftarrow> pvPortMalloc hook sizeof_Timer (sys (tipc s));
        let s1 = s\<lparr>tipc := (tipc s)\<lparr>sys := o1\<rparr>\<rparr>;
        if p \<noteq> NULL
        then do {
          s2 \<leftarrow> prvCheckForValidListAndQueue hook sizeof_Queue s1;
          let t = unat p;
          let s3 = upd_timer t (\<lambda>_. \<lparr>pcTimerName = pcTimerName', xTimerPeriodInTicks = xPeriod, uxAutoReload = xReload,
                                    pvTimerID = pvID, pxCallbackFunction = pxCallback\<rparr>) s2;
          Some (set_lists (vListInitialiseItem (TimerItem t) (lists (TK s3))) s3, Some t) }
        else Some (s1, None) })"

section \<open>Commands\<close>

text \<open>The results: whether the command was queued, and \<open>*pxHigherPriorityTaskWoken\<close>.\<close>

definition xTimerGenericCommand :: "(ipc \<Rightarrow> ipc) \<Rightarrow> nat \<Rightarrow> u32 \<Rightarrow> u32 \<Rightarrow> u32 \<Rightarrow> tmr \<Rightarrow> (tmr \<times> bool \<times> bool) option" where
  "xTimerGenericCommand others xTimer xCommandID xOptionalValue xTicksToWait s =
     (case xTimerQueue s of
        None \<Rightarrow> Some (s, False, False)
      | Some q \<Rightarrow>
          let m = message_bytes (TimerParameters xCommandID xOptionalValue (of_nat xTimer))
          in if sint xCommandID < sint tmrFIRST_FROM_ISR_COMMAND
             then do {
               (i, r) \<leftarrow> xQueueGenericSend others q m
                 (if xTaskGetSchedulerState (TK s) = taskSCHEDULER_RUNNING then xTicksToWait else 0) queueSEND_TO_BACK (tipc s);
               Some (s\<lparr>tipc := i\<rparr>, r, False) }
             else do {
               (i, r, w) \<leftarrow> xQueueGenericSendFromISR q m queueSEND_TO_BACK (tipc s);
               Some (s\<lparr>tipc := i\<rparr>, r, w) })"

definition prvInsertTimerInActiveList :: "nat \<Rightarrow> u32 \<Rightarrow> u32 \<Rightarrow> u32 \<Rightarrow> tmr \<Rightarrow> tmr \<times> bool" where
  "prvInsertTimerInActiveList t xNextExpiryTime xTimeNow xCommandTime s =
     (let s1 = set_lists (listSET_LIST_ITEM_VALUE (TimerItem t) xNextExpiryTime (lists (TK s))) s;
          s2 = set_lists (listSET_LIST_ITEM_OWNER (TimerItem t) t (lists (TK s1))) s1
      in if xNextExpiryTime \<le> xTimeNow
         then (if xTimeNow - xCommandTime \<ge> xTimerPeriodInTicks (timers s2 t) then (s2, True)
               else (set_lists (vListInsert (pxOverflowTimerList s2) (TimerItem t) (lists (TK s2))) s2, False))
         else (if xTimeNow < xCommandTime \<and> xNextExpiryTime \<ge> xCommandTime then (s2, True)
               else (set_lists (vListInsert (pxCurrentTimerList s2) (TimerItem t) (lists (TK s2))) s2, False)))"

text \<open>The commands of \<open>tmrNO_DELAY\<close> that the timer task sends to itself: whether they were queued is not looked at.\<close>

definition restart :: "nat \<Rightarrow> u32 \<Rightarrow> tmr \<Rightarrow> tmr option" where
  "restart t xTime s = do {
     (s1, _) \<leftarrow> xTimerGenericCommand (\<lambda>i. i) t tmrCOMMAND_START_DONT_TRACE xTime 0 s; Some s1 }"

definition call_back :: "callback \<Rightarrow> nat \<Rightarrow> tmr \<Rightarrow> tmr option" where
  "call_back cb t s = cb (pxCallbackFunction (timers s t)) t s"

definition prvProcessExpiredTimer :: "callback \<Rightarrow> u32 \<Rightarrow> u32 \<Rightarrow> tmr \<Rightarrow> tmr option" where
  "prvProcessExpiredTimer cb xNextExpireTime xTimeNow s =
     (case listGET_OWNER_OF_HEAD_ENTRY (pxCurrentTimerList s) (lists (TK s)) of
        None \<Rightarrow> None
      | Some t \<Rightarrow> do {
          let s1 = set_lists (fst (uxListRemove (TimerItem t) (lists (TK s)))) s;
          s2 \<leftarrow> (if uxAutoReload (timers s1 t) = 1
                 then (let (s', b) = prvInsertTimerInActiveList t (xNextExpireTime + xTimerPeriodInTicks (timers s1 t))
                                       xTimeNow xNextExpireTime s1
                       in if b then restart t xNextExpireTime s' else Some s')
                 else Some s1);
          call_back cb t s2 })"

section \<open>Time\<close>

definition prvGetNextExpireTime :: "tmr \<Rightarrow> u32 \<times> bool" where
  "prvGetNextExpireTime s =
     (let e = listLIST_IS_EMPTY (pxCurrentTimerList s) (lists (TK s))
      in (if \<not> e then listGET_ITEM_VALUE_OF_HEAD_ENTRY (pxCurrentTimerList s) (lists (TK s)) else 0, e))"

partial_function (option) switch_loop :: "callback \<Rightarrow> tmr \<Rightarrow> tmr option" where
  "switch_loop cb s =
     (if listLIST_IS_EMPTY (pxCurrentTimerList s) (lists (TK s)) then Some s
      else (case listGET_OWNER_OF_HEAD_ENTRY (pxCurrentTimerList s) (lists (TK s)) of
              None \<Rightarrow> None
            | Some t \<Rightarrow>
                let xNextExpireTime = listGET_ITEM_VALUE_OF_HEAD_ENTRY (pxCurrentTimerList s) (lists (TK s));
                    s1 = set_lists (fst (uxListRemove (TimerItem t) (lists (TK s)))) s
                in Option.bind (call_back cb t s1) (\<lambda>s2.
                     if uxAutoReload (timers s2 t) = 1
                     then (let xReloadTime = xNextExpireTime + xTimerPeriodInTicks (timers s2 t)
                           in if xReloadTime > xNextExpireTime
                              then switch_loop cb
                                     (let x1 = listSET_LIST_ITEM_VALUE (TimerItem t) xReloadTime (lists (TK s2));
                                          x2 = listSET_LIST_ITEM_OWNER (TimerItem t) t x1
                                      in set_lists (vListInsert (pxCurrentTimerList s2) (TimerItem t) x2) s2)
                              else Option.bind (restart t xNextExpireTime s2) (switch_loop cb))
                     else switch_loop cb s2)))"

definition prvSwitchTimerLists :: "callback \<Rightarrow> tmr \<Rightarrow> tmr option" where
  "prvSwitchTimerLists cb s = do {
     s1 \<leftarrow> switch_loop cb s;
     Some (s1\<lparr>pxCurrentTimerList := pxOverflowTimerList s1, pxOverflowTimerList := pxCurrentTimerList s1\<rparr>) }"

definition prvSampleTimeNow :: "callback \<Rightarrow> tmr \<Rightarrow> (tmr \<times> u32 \<times> bool) option" where
  "prvSampleTimeNow cb s = do {
     let xTimeNow = snd (xTaskGetTickCount (TK s));
     let s1 = on_t (\<lambda>k. fst (xTaskGetTickCount k)) s;
     if xTimeNow < xLastTime s1
     then do { s2 \<leftarrow> prvSwitchTimerLists cb s1; Some (s2\<lparr>xLastTime := xTimeNow\<rparr>, xTimeNow, True) }
     else Some (s1\<lparr>xLastTime := xTimeNow\<rparr>, xTimeNow, False) }"

definition resume_all :: "tmr \<Rightarrow> (tmr \<times> bool) option" where
  "resume_all s = do { (k, b) \<leftarrow> xTaskResumeAll (TK s); Some (on_t (\<lambda>_. k) s, b) }"

definition prvProcessTimerOrBlockTask :: "callback \<Rightarrow> u32 \<Rightarrow> bool \<Rightarrow> tmr \<Rightarrow> tmr option" where
  "prvProcessTimerOrBlockTask cb xNextExpireTime xListWasEmpty s = do {
     (s2, xTimeNow, xTimerListsWereSwitched) \<leftarrow> prvSampleTimeNow cb (on_t vTaskSuspendAll s);
     if \<not> xTimerListsWereSwitched
     then (if \<not> xListWasEmpty \<and> xNextExpireTime \<le> xTimeNow
           then do { (s3, _) \<leftarrow> resume_all s2; prvProcessExpiredTimer cb xNextExpireTime xTimeNow s3 }
           else do {
             let e = (if xListWasEmpty then listLIST_IS_EMPTY (pxOverflowTimerList s2) (lists (TK s2)) else False);
             q \<leftarrow> xTimerQueue s2;
             i \<leftarrow> vQueueWaitForMessageRestricted q (xNextExpireTime - xTimeNow) e (tipc s2);
             (s4, xAlreadyYielded) \<leftarrow> resume_all (s2\<lparr>tipc := i\<rparr>);
             Some (if xAlreadyYielded then s4 else on_t portYIELD s4) })
     else do { (s3, _) \<leftarrow> resume_all s2; Some s3 } }"

section \<open>The timer task\<close>

definition process_timer_command :: "callback \<Rightarrow> u32 \<Rightarrow> u32 \<Rightarrow> nat \<Rightarrow> tmr \<Rightarrow> tmr option" where
  "process_timer_command cb xCommand xMessageValue t s = do {
     let s1 = (if \<not> listIS_CONTAINED_WITHIN None (TimerItem t) (lists (TK s))
               then set_lists (fst (uxListRemove (TimerItem t) (lists (TK s)))) s else s);
     (s2, xTimeNow, _) \<leftarrow> prvSampleTimeNow cb s1;
     if xCommand \<in> {tmrCOMMAND_START, tmrCOMMAND_START_FROM_ISR, tmrCOMMAND_RESET, tmrCOMMAND_RESET_FROM_ISR,
                     tmrCOMMAND_START_DONT_TRACE}
     then (let (s3, b) = prvInsertTimerInActiveList t (xMessageValue + xTimerPeriodInTicks (timers s2 t)) xTimeNow xMessageValue s2
           in if b
              then do {
                s4 \<leftarrow> call_back cb t s3;
                if uxAutoReload (timers s4 t) = 1
                then restart t (xMessageValue + xTimerPeriodInTicks (timers s4 t)) s4
                else Some s4 }
              else Some s3)
     else if xCommand \<in> {tmrCOMMAND_STOP, tmrCOMMAND_STOP_FROM_ISR} then Some s2
     else if xCommand \<in> {tmrCOMMAND_CHANGE_PERIOD, tmrCOMMAND_CHANGE_PERIOD_FROM_ISR}
     then (let s3 = upd_timer t (\<lambda>x. x\<lparr>xTimerPeriodInTicks := xMessageValue\<rparr>) s2
           in Some (fst (prvInsertTimerInActiveList t (xTimeNow + xTimerPeriodInTicks (timers s3 t)) xTimeNow xTimeNow s3)))
     else if xCommand = tmrCOMMAND_DELETE
     then do { o1 \<leftarrow> vPortFree (of_nat t) (sys (tipc s2)); Some (s2\<lparr>tipc := (tipc s2)\<lparr>sys := o1\<rparr>\<rparr>) }
     else Some s2 }"

definition process_message :: "callback \<Rightarrow> pended \<Rightarrow> DaemonTaskMessage_t \<Rightarrow> tmr \<Rightarrow> tmr option" where
  "process_message cb pf m s =
     (case m of
        CallbackParameters n f a b \<Rightarrow> pf f a b s
      | TimerParameters n v t \<Rightarrow> process_timer_command cb n v (unat t) s)"

partial_function (option) prvProcessReceivedCommands :: "callback \<Rightarrow> pended \<Rightarrow> tmr \<Rightarrow> tmr option" where
  "prvProcessReceivedCommands cb pf s =
     Option.bind (xTimerQueue s) (\<lambda>q.
       Option.bind (xQueueGenericReceive (\<lambda>i. i) q 0 False (tipc s)) (\<lambda>r.
         case snd r of
           None \<Rightarrow> Some (s\<lparr>tipc := fst r\<rparr>)
         | Some x \<Rightarrow> Option.bind (process_message cb pf (bytes_message x) (s\<lparr>tipc := fst r\<rparr>)) (prvProcessReceivedCommands cb pf)))"

text \<open>One turn of the timer task; \<open>others\<close> is what happens if it blocks in the middle.\<close>

definition timer_turn :: "(tmr \<Rightarrow> tmr) \<Rightarrow> callback \<Rightarrow> pended \<Rightarrow> tmr \<Rightarrow> tmr option" where
  "timer_turn others cb pf s = do {
     let (xNextExpireTime, xListWasEmpty) = prvGetNextExpireTime s;
     s1 \<leftarrow> prvProcessTimerOrBlockTask cb xNextExpireTime xListWasEmpty s;
     prvProcessReceivedCommands cb pf (others s1) }"

section \<open>Queries and pended functions\<close>

definition xTimerIsTimerActive :: "nat \<Rightarrow> tmr \<Rightarrow> tmr \<times> bool" where
  "xTimerIsTimerActive t s =
     (let s1 = on_t vPortEnterCritical s
      in (on_t vPortExitCritical s1, \<not> listIS_CONTAINED_WITHIN None (TimerItem t) (lists (TK s1))))"

definition pvTimerGetTimerID :: "nat \<Rightarrow> tmr \<Rightarrow> tmr \<times> u32" where
  "pvTimerGetTimerID t s =
     (let s1 = on_t vPortEnterCritical s in (on_t vPortExitCritical s1, pvTimerID (timers s1 t)))"

definition vTimerSetTimerID :: "nat \<Rightarrow> u32 \<Rightarrow> tmr \<Rightarrow> tmr" where
  "vTimerSetTimerID t pvNewID s =
     on_t vPortExitCritical (upd_timer t (\<lambda>x. x\<lparr>pvTimerID := pvNewID\<rparr>) (on_t vPortEnterCritical s))"

definition pcTimerGetTimerName :: "nat \<Rightarrow> tmr \<Rightarrow> string" where
  "pcTimerGetTimerName t s = pcTimerName (timers s t)"

definition xTimerPendFunctionCallFromISR :: "u32 \<Rightarrow> u32 \<Rightarrow> u32 \<Rightarrow> tmr \<Rightarrow> (tmr \<times> bool \<times> bool) option" where
  "xTimerPendFunctionCallFromISR xFunctionToPend pvParameter1 ulParameter2 s = do {
     q \<leftarrow> xTimerQueue s;
     (i, r, w) \<leftarrow> xQueueGenericSendFromISR q
       (message_bytes (CallbackParameters tmrCOMMAND_EXECUTE_CALLBACK_FROM_ISR xFunctionToPend pvParameter1 ulParameter2))
       queueSEND_TO_BACK (tipc s);
     Some (s\<lparr>tipc := i\<rparr>, r, w) }"

definition xTimerPendFunctionCall :: "(ipc \<Rightarrow> ipc) \<Rightarrow> u32 \<Rightarrow> u32 \<Rightarrow> u32 \<Rightarrow> u32 \<Rightarrow> tmr \<Rightarrow> (tmr \<times> bool) option" where
  "xTimerPendFunctionCall others xFunctionToPend pvParameter1 ulParameter2 xTicksToWait s = do {
     q \<leftarrow> xTimerQueue s;
     (i, r) \<leftarrow> xQueueGenericSend others q
       (message_bytes (CallbackParameters tmrCOMMAND_EXECUTE_CALLBACK xFunctionToPend pvParameter1 ulParameter2))
       xTicksToWait queueSEND_TO_BACK (tipc s);
     Some (s\<lparr>tipc := i\<rparr>, r) }"

text \<open>The event group calls from interrupts are pended; the address of the callback is an argument.\<close>

definition xEventGroupSetBitsFromISR :: "u32 \<Rightarrow> nat \<Rightarrow> u32 \<Rightarrow> tmr \<Rightarrow> (tmr \<times> bool \<times> bool) option" where
  "xEventGroupSetBitsFromISR vEventGroupSetBitsCallback' xEventGroup uxBitsToSet s =
     xTimerPendFunctionCallFromISR vEventGroupSetBitsCallback' (of_nat xEventGroup) uxBitsToSet s"

definition xEventGroupClearBitsFromISR :: "u32 \<Rightarrow> nat \<Rightarrow> u32 \<Rightarrow> tmr \<Rightarrow> (tmr \<times> bool) option" where
  "xEventGroupClearBitsFromISR vEventGroupClearBitsCallback' xEventGroup uxBitsToClear s = do {
     (s1, r, _) \<leftarrow> xTimerPendFunctionCallFromISR vEventGroupClearBitsCallback' (of_nat xEventGroup) uxBitsToClear s;
     Some (s1, r) }"

end
