(* ===== verification/TimerOk.thy ===== *)
theory TimerOk
  imports Timer Channel
begin

unbundle bit_operations_syntax

text \<open>
  Timers fire when they should: a timer is put in the list that is right for its expiry time, or is
  found to have expired already, exactly if its period has passed since the command, across an
  overflow of the tick count; the timer task calls back the first timer of the current list when
  its time has come, and a command reaches it through the queue unchanged.
\<close>

section \<open>Messages\<close>

lemma low_byte_rest: "(ucast (ucast (drop_bit n w) :: u8) :: u32) OR push_bit 8 (drop_bit (n + 8) w) = drop_bit n (w :: u32)"
proof (rule bit_word_eqI)
  fix i assume "i < LENGTH(32)"
  then show "bit ((ucast (ucast (drop_bit n w) :: u8) :: u32) OR push_bit 8 (drop_bit (n + 8) w)) i = bit (drop_bit n w) i"
    by (cases "i < 8") (auto simp: bit_simps)
qed

lemma bytes_word_bytes [simp]: "bytes_word (word_bytes w) = w"
proof -
  have e: "[0..<4] = [0, 1, 2, 3 :: nat]" by (simp add: upt_rec)
  have "drop_bit 32 w = 0" by (rule bit_word_eqI) (auto simp: bit_simps dest: bit_imp_le_length)
  then show ?thesis
    using low_byte_rest [of 0 w] low_byte_rest [of 8 w] low_byte_rest [of 16 w] low_byte_rest [of 24 w]
    by (simp add: bytes_word_def word_bytes_def e)
qed

lemma length_word_bytes [simp]: "length (word_bytes w) = 4"
  by (simp add: word_bytes_def)

lemma length_message [simp]: "length (message_bytes m) = 16"
  by (cases m) simp_all

text \<open>A message is read back as it was sent: negative numbers are pended functions, the others timer commands.\<close>

definition message_ok :: "DaemonTaskMessage_t \<Rightarrow> bool" where
  "message_ok m \<longleftrightarrow> (case m of TimerParameters n v t \<Rightarrow> 0 \<le> sint n | CallbackParameters n f a b \<Rightarrow> sint n < 0)"

lemma message_round_trip: "message_ok m \<Longrightarrow> bytes_message (message_bytes m) = m"
  by (cases m) (simp_all add: message_ok_def bytes_message_def Let_def)

section \<open>Expiry\<close>

text \<open>The test of \<open>prvInsertTimerInActiveList\<close> is exact: the period has passed since the command.\<close>

lemma expiry_test:
  fixes now c p :: u32
  shows "(if c + p \<le> now then now - c \<ge> p else now < c \<and> c + p \<ge> c) \<longleftrightarrow> now - c \<ge> p"
proof -
  have u: "unat x < 2 ^ 32" for x :: u32 by (rule unat_u32_less)
  have s: "unat (c + p) = (if unat c + unat p < 2 ^ 32 then unat c + unat p else unat c + unat p - 2 ^ 32)"
    by (simp add: unat_plus_if_size word_size)
  have d: "unat (now - c) = (if c \<le> now then unat now - unat c else 2 ^ 32 + unat now - unat c)"
    by (simp add: unat_sub_if_size word_size word_le_nat_alt) (simp add: add.commute)
  show ?thesis
    unfolding word_le_nat_alt word_less_nat_alt s d using u [of c] u [of p] u [of now] by (auto simp: word_le_nat_alt)
qed

section \<open>The invariant of the timer lists\<close>

lemma tmr_simps [simp]:
  "TK (on_t f s) = f (TK s)" "timers (on_t f s) = timers s" "pxCurrentTimerList (on_t f s) = pxCurrentTimerList s"
  "pxOverflowTimerList (on_t f s) = pxOverflowTimerList s" "xTimerQueue (on_t f s) = xTimerQueue s" "xLastTime (on_t f s) = xLastTime s"
  "queues (tipc (on_t f s)) = queues (tipc s)" "qbytes (tipc (on_t f s)) = qbytes (tipc s)"
  "TK (set_lists x s) = (TK s)\<lparr>lists := x\<rparr>" "timers (set_lists x s) = timers s"
  "pxCurrentTimerList (set_lists x s) = pxCurrentTimerList s" "pxOverflowTimerList (set_lists x s) = pxOverflowTimerList s"
  "xTimerQueue (set_lists x s) = xTimerQueue s" "xLastTime (set_lists x s) = xLastTime s"
  "queues (tipc (set_lists x s)) = queues (tipc s)" "qbytes (tipc (set_lists x s)) = qbytes (tipc s)"
  by (simp_all add: on_t_def set_lists_def)

abbreviation tcont :: "tmr \<Rightarrow> nat \<Rightarrow> lid option" where
  "tcont s t \<equiv> pvContainer (lists (TK s)) (TimerItem t)"

abbreviation expiry :: "tmr \<Rightarrow> nat \<Rightarrow> u32" where
  "expiry s t \<equiv> xItemValue (lists (TK s)) (Item (TimerItem t))"

definition timer_sorted :: "store \<Rightarrow> lid \<Rightarrow> bool" where
  "timer_sorted x l \<longleftrightarrow> sorted (map (\<lambda>i. xItemValue x (Item i)) (items x l))"

text \<open>
  The two lists are sorted, every item in them belongs to its timer, whose handle is a 32-bit address, and the overflow list holds only
  expiry times up to the last sample of the time: they lie beyond the next overflow of the tick count.
\<close>

definition handle :: "nat \<Rightarrow> bool" where
  "handle t \<longleftrightarrow> 0 < t \<and> t < 2 ^ 32"

definition tinv :: "tmr \<Rightarrow> bool" where
  "tinv s \<longleftrightarrow> kinv {} (TK s) \<and> timer_lists \<subseteq> evlists (TK s) \<and>
     (pxCurrentTimerList s = TimerList1 \<and> pxOverflowTimerList s = TimerList2 \<or>
      pxCurrentTimerList s = TimerList2 \<and> pxOverflowTimerList s = TimerList1) \<and>
     (\<forall>t. tcont s t \<noteq> None \<longrightarrow> pvOwner (lists (TK s)) (TimerItem t) = t \<and> handle t) \<and>
     (\<forall>l \<in> timer_lists. timer_sorted (lists (TK s)) l) \<and>
     (\<forall>t. tcont s t = Some (pxOverflowTimerList s) \<longrightarrow> expiry s t \<le> xLastTime s)"

lemma tinvD:
  assumes "tinv s"
  shows "kinv {} (TK s)" "wf_lists (KL (TK s)) (lists (TK s))" "timer_lists \<subseteq> evlists (TK s)"
    "pxCurrentTimerList s \<in> timer_lists" "pxOverflowTimerList s \<in> timer_lists" "pxCurrentTimerList s \<noteq> pxOverflowTimerList s"
    "pxCurrentTimerList s \<in> KL (TK s)" "pxOverflowTimerList s \<in> KL (TK s)"
    "tcont s t \<noteq> None \<Longrightarrow> pvOwner (lists (TK s)) (TimerItem t) = t \<and> handle t" "l \<in> timer_lists \<Longrightarrow> timer_sorted (lists (TK s)) l"
    "tcont s t = Some (pxOverflowTimerList s) \<Longrightarrow> expiry s t \<le> xLastTime s"
    "timer_lists = {pxCurrentTimerList s, pxOverflowTimerList s}"
  using assms kinv_wf [of False "{}" "TK s"] unfolding tinv_def timer_lists_def by auto

lemma timer_items:
  assumes "kinv {} k" and "l \<in> evlists k \<inter> timer_lists"
  shows "set (items (lists k) l) = TimerItem ` {t. pvContainer (lists k) (TimerItem t) = Some l}" and "distinct (items (lists k) l)"
proof -
  have lK: "l \<in> KL k" using assms(2) by simp
  have "\<exists>t. i = TimerItem t" if "pvContainer (lists k) i = Some l" for i
    using that kinv_contD(1) [OF assms(1), of _ l] kinv_contD(6) [OF assms(1), of _ l] assms(2)
    by (cases i) (auto simp: timer_lists_def state_lists_def)
  then show "set (items (lists k) l) = TimerItem ` {t. pvContainer (lists k) (TimerItem t) = Some l}"
    using set_items [OF kinv_wf [OF assms(1)] lK] by auto
  show "distinct (items (lists k) l)" by (rule distinct_items [OF kinv_wf [OF assms(1)] lK])
qed

lemma kinv_timer_store:
  assumes k: "kinvd D X k" and wf: "wf_lists (KL k) s'"
    and c: "\<And>u. pvContainer s' (Generic u) = gcont k u" "\<And>u. pvContainer s' (Event u) = econt k u"
    and tc: "\<And>m l. pvContainer s' (TimerItem m) = Some l \<Longrightarrow> l \<in> evlists k \<inter> timer_lists"
    and v: "\<And>u. xItemValue s' (Item (Generic u)) = gval k u"
    and ow: "\<And>u. pvOwner s' (Generic u) = pvOwner (lists k) (Generic u)" "\<And>u. pvOwner s' (Event u) = pvOwner (lists k) (Event u)"
    and it: "\<And>l. l \<in> {Delayed1, Delayed2} \<Longrightarrow> items s' l = items (lists k) l"
  shows "kinvd D X (k\<lparr>lists := s'\<rparr>)" (is "kinvd _ _ ?k'")
proof -
  have tm: "terminated ?k' = terminated k" by (simp add: terminated_def c)
  have "kinv_lists ?k'" using wf kinv_parts(2) [OF k] by (simp add: kinv_lists_def)
  moreover have "kinv_tasks X ?k'"
    using kinv_parts(3) [OF k] tc unfolding kinv_tasks_def tm by (simp add: c ow)
  moreover have "kinv_ready X ?k'" using kinv_parts(4) [OF k] unfolding kinv_ready_def by (simp add: c)
  moreover have "kinv_time D ?k'"
  proof (rule kinv_time_same_lists [OF kinv_parts(5) [OF k]])
    fix l assume l: "l \<in> {Delayed1, Delayed2}"
    have lK: "l \<in> KL k" using l by auto
    have "\<exists>u. i = Generic u" if "i \<in> set (items (lists k) l)" for i
      using that set_items [OF kinv_wf [OF k] lK] state_item_generic [OF k, of l 0 i] l by auto
    then have "map (\<lambda>i. xItemValue s' (Item i)) (items s' l) = map (\<lambda>i. xItemValue (lists k) (Item i)) (items (lists k) l)"
      using it [OF l] v by force
    then show "delayed_sorted l ?k'" using kinv_delayed_sorted [OF k l] by (simp add: delayed_sorted_def)
  qed (simp add: c v)
  ultimately show ?thesis by (simp add: kinvd_def)
qed

lemma tinv_set_lists:
  assumes t: "tinv s" and wf: "wf_lists (KL (TK s)) x"
    and c: "\<And>u. pvContainer x (Generic u) = gcont (TK s) u" "\<And>u. pvContainer x (Event u) = econt (TK s) u"
    and tc: "\<And>m l. pvContainer x (TimerItem m) = Some l \<Longrightarrow> l \<in> timer_lists"
    and v: "\<And>u. xItemValue x (Item (Generic u)) = gval (TK s) u"
    and ow: "\<And>u. pvOwner x (Generic u) = pvOwner (lists (TK s)) (Generic u)"
      "\<And>u. pvOwner x (Event u) = pvOwner (lists (TK s)) (Event u)"
      "\<And>m. pvContainer x (TimerItem m) \<noteq> None \<Longrightarrow> pvOwner x (TimerItem m) = m \<and> handle m"
    and it: "\<And>l. l \<in> {Delayed1, Delayed2} \<Longrightarrow> items x l = items (lists (TK s)) l"
    and so: "\<And>l. l \<in> timer_lists \<Longrightarrow> timer_sorted x l"
    and ov: "\<And>m. pvContainer x (TimerItem m) = Some (pxOverflowTimerList s) \<Longrightarrow> xItemValue x (Item (TimerItem m)) \<le> xLastTime s"
  shows "tinv (set_lists x s)"
proof -
  have "kinv {} ((TK s)\<lparr>lists := x\<rparr>)"
    by (rule kinv_timer_store [OF tinvD(1) [OF t] wf]) (use c tc v ow it tinvD(3) [OF t] in blast)+
  then show ?thesis using t ow(3) so ov unfolding tinv_def by simp
qed

lemma timer_list_kinds: "l \<in> timer_lists \<Longrightarrow> l \<noteq> Delayed1 \<and> l \<noteq> Delayed2"
  by (auto simp: timer_lists_def)

lemma tinv_remove:
  assumes "tinv s"
  shows "tinv (set_lists (fst (uxListRemove (TimerItem t) (lists (TK s)))) s)"
proof (rule tinv_set_lists [OF assms])
  note st = uxListRemove_store [OF tinvD(2) [OF assms], where i = "TimerItem t"]
  show "wf_lists (KL (TK s)) (fst (uxListRemove (TimerItem t) (lists (TK s))))" by (rule st(1))
  show "timer_sorted (fst (uxListRemove (TimerItem t) (lists (TK s)))) l" if "l \<in> timer_lists" for l
  proof -
    have i: "items (fst (uxListRemove (TimerItem t) (lists (TK s)))) l = remove1 (TimerItem t) (items (lists (TK s)) l)"
      using st(2) [of l] tinvD(3) [OF assms] that by auto
    have "sorted (map f (remove1 a xs))" if "sorted (map f xs)" for f :: "item \<Rightarrow> u32" and a xs
      using that by (induction xs) (auto dest: set_remove1_subset [THEN subsetD])
    then show ?thesis using tinvD(10) [OF assms that] i by (simp add: timer_sorted_def)
  qed
  show "items (fst (uxListRemove (TimerItem t) (lists (TK s)))) l = items (lists (TK s)) l" if "l \<in> {Delayed1, Delayed2}" for l
  proof -
    have "TimerItem t \<notin> set (items (lists (TK s)) l)"
      using set_items [OF tinvD(2) [OF assms], of l] that kinv_contD(7) [OF tinvD(1) [OF assms], of t l]
      by (auto simp: timer_lists_def)
    then show ?thesis using st(2) [of l] that by (auto simp: remove1_idem)
  qed
qed (use tinvD(9) [OF assms] tinvD(11) [OF assms] kinv_contD(7) [OF tinvD(1) [OF assms]] in \<open>auto split: if_splits\<close>)

text \<open>Arming a timer that is in no list: its item gets the expiry time and goes into the list \<open>l\<close> in order.\<close>

definition arm :: "nat \<Rightarrow> u32 \<Rightarrow> lid \<Rightarrow> tmr \<Rightarrow> tmr" where
  "arm t e l s = set_lists (vListInsert l (TimerItem t) (listSET_LIST_ITEM_OWNER (TimerItem t) t
     (listSET_LIST_ITEM_VALUE (TimerItem t) e (lists (TK s))))) s"

lemma arm_ok:
  assumes s: "tinv s" and out: "tcont s t = None" and h: "handle t" and l: "l \<in> timer_lists" and o: "l = pxOverflowTimerList s \<Longrightarrow> e \<le> xLastTime s"
  shows "tinv (arm t e l s)" and "tcont (arm t e l s) m = (if m = t then Some l else tcont s m)"
    and "expiry (arm t e l s) m = (if m = t then e else expiry s m)"
    and "l' \<in> timer_lists \<Longrightarrow> l' \<noteq> l \<Longrightarrow> items (lists (TK (arm t e l s))) l' = items (lists (TK s)) l'"
    and "items (lists (TK (arm t e l s))) l = insert_by (\<lambda>i. if i = TimerItem t then e else xItemValue (lists (TK s)) (Item i))
      (TimerItem t) (items (lists (TK s)) l)"
    and "gcont (TK (arm t e l s)) u = gcont (TK s) u \<and> econt (TK (arm t e l s)) u = econt (TK s) u"
proof -
  let ?x1 = "listSET_LIST_ITEM_VALUE (TimerItem t) e (lists (TK s))"
  let ?x2 = "listSET_LIST_ITEM_OWNER (TimerItem t) t ?x1"
  have lK: "l \<in> KL (TK s)" using l tinvD(3) [OF s] by auto
  have w1: "wf_lists (KL (TK s)) ?x1" by (rule set_value_store(1) [OF tinvD(2) [OF s]])
  have w2: "wf_lists (KL (TK s)) ?x2" by (rule set_owner_store(1) [OF w1])
  have i2: "items ?x2 l' = items (lists (TK s)) l'" if "l' \<in> KL (TK s)" for l'
    using set_owner_store(2) [OF w1 that] set_value_store(2) [OF tinvD(2) [OF s] that] by simp
  have c2: "pvContainer ?x2 (TimerItem t) = None" using out by simp
  note st = vListInsert_store [OF w2 lK c2]
  let ?f = "\<lambda>y. xItemValue ?x2 (Item y)"
  have f: "?f = (\<lambda>i. if i = TimerItem t then e else xItemValue (lists (TK s)) (Item i))" by (auto simp: fun_eq_iff)
  have it: "items (vListInsert l (TimerItem t) ?x2) l' =
      (if l' = l then insert_by ?f (TimerItem t) (items (lists (TK s)) l) else items (lists (TK s)) l')" if "l' \<in> KL (TK s)" for l'
    using st(2) [OF that] i2 [OF that] i2 [OF lK] by simp
  have nin: "TimerItem t \<notin> set (items (lists (TK s)) l')" if "l' \<in> timer_lists" for l'
    using set_items [OF tinvD(2) [OF s], of l'] tinvD(3) [OF s] that out by auto
  have srt: "sorted (map ?f (items (lists (TK s)) l'))" if "l' \<in> timer_lists" for l'
  proof -
    have "map ?f (items (lists (TK s)) l') = map (\<lambda>i. xItemValue (lists (TK s)) (Item i)) (items (lists (TK s)) l')"
      using nin [OF that] by (auto simp: f)
    then show ?thesis using tinvD(10) [OF s that] unfolding timer_sorted_def by (simp only:)
  qed
  show "tinv (arm t e l s)"
    unfolding arm_def
  proof (rule tinv_set_lists [OF s st(1)])
    show "timer_sorted (vListInsert l (TimerItem t) ?x2) l'" if l': "l' \<in> timer_lists" for l'
    proof -
      have "l' \<in> KL (TK s)" using l' tinvD(3) [OF s] by auto
      then show ?thesis using it [of l'] srt [OF l'] sorted_insert_by [OF srt [OF l]] st(4) by (auto simp: timer_sorted_def)
    qed
    show "items (vListInsert l (TimerItem t) ?x2) l' = items (lists (TK s)) l'" if "l' \<in> {Delayed1, Delayed2}" for l'
      using it [of l'] that timer_list_kinds [OF l] by auto
  qed (use st(3-5) l o out h tinvD(9,11) [OF s] kinv_contD(7) [OF tinvD(1) [OF s]] in \<open>auto split: if_splits\<close>)
  show "tcont (arm t e l s) m = (if m = t then Some l else tcont s m)" "expiry (arm t e l s) m = (if m = t then e else expiry s m)"
    using st(3,4) by (simp_all add: arm_def)
  show "l' \<in> timer_lists \<Longrightarrow> l' \<noteq> l \<Longrightarrow> items (lists (TK (arm t e l s))) l' = items (lists (TK s)) l'"
    using it [of l'] tinvD(3) [OF s] by (auto simp: arm_def)
  show "items (lists (TK (arm t e l s))) l = insert_by (\<lambda>i. if i = TimerItem t then e else xItemValue (lists (TK s)) (Item i))
      (TimerItem t) (items (lists (TK s)) l)"
    using it [OF lK] unfolding f by (simp add: arm_def)
  show "gcont (TK (arm t e l s)) u = gcont (TK s) u \<and> econt (TK (arm t e l s)) u = econt (TK s) u"
    using st(3) by (simp add: arm_def)
qed

definition stamp :: "nat \<Rightarrow> u32 \<Rightarrow> tmr \<Rightarrow> tmr" where
  "stamp t e s = set_lists (listSET_LIST_ITEM_OWNER (TimerItem t) t (listSET_LIST_ITEM_VALUE (TimerItem t) e (lists (TK s)))) s"

lemma set_lists_again [simp]: "set_lists x (set_lists y s) = set_lists x s"
  by (simp add: set_lists_def on_t_def on_k_def set_k_def)

lemma stamp_ok:
  assumes s: "tinv s" and out: "tcont s t = None"
  shows "tinv (stamp t e s)" and "tcont (stamp t e s) m = tcont s m" and "m \<noteq> t \<Longrightarrow> expiry (stamp t e s) m = expiry s m"
    and "l \<in> timer_lists \<Longrightarrow> items (lists (TK (stamp t e s))) l = items (lists (TK s)) l"
proof -
  let ?x1 = "listSET_LIST_ITEM_VALUE (TimerItem t) e (lists (TK s))"
  let ?x2 = "listSET_LIST_ITEM_OWNER (TimerItem t) t ?x1"
  have w1: "wf_lists (KL (TK s)) ?x1" by (rule set_value_store(1) [OF tinvD(2) [OF s]])
  have w2: "wf_lists (KL (TK s)) ?x2" by (rule set_owner_store(1) [OF w1])
  have i2: "items ?x2 l' = items (lists (TK s)) l'" if "l' \<in> KL (TK s)" for l'
    using set_owner_store(2) [OF w1 that] set_value_store(2) [OF tinvD(2) [OF s] that] by simp
  show "tinv (stamp t e s)"
    unfolding stamp_def
  proof (rule tinv_set_lists [OF s w2])
    show "timer_sorted ?x2 l'" if l': "l' \<in> timer_lists" for l'
    proof -
      have "TimerItem t \<notin> set (items (lists (TK s)) l')"
        using set_items [OF tinvD(2) [OF s], of l'] tinvD(3) [OF s] l' out by auto
      then have "map (\<lambda>i. xItemValue ?x2 (Item i)) (items (lists (TK s)) l') =
          map (\<lambda>i. xItemValue (lists (TK s)) (Item i)) (items (lists (TK s)) l')" by auto
      moreover have "items ?x2 l' = items (lists (TK s)) l'" using i2 [of l'] tinvD(3) [OF s] l' by auto
      ultimately show ?thesis using tinvD(10) [OF s l'] unfolding timer_sorted_def by (simp only:)
    qed
    show "items ?x2 l' = items (lists (TK s)) l'" if "l' \<in> {Delayed1, Delayed2}" for l' using i2 [of l'] that by auto
  qed (use out tinvD(9,11) [OF s] kinv_contD(7) [OF tinvD(1) [OF s]] in \<open>auto split: if_splits\<close>)
  show "tcont (stamp t e s) m = tcont s m" "m \<noteq> t \<Longrightarrow> expiry (stamp t e s) m = expiry s m" by (simp_all add: stamp_def)
  show "l \<in> timer_lists \<Longrightarrow> items (lists (TK (stamp t e s))) l = items (lists (TK s)) l"
    using i2 [of l] tinvD(3) [OF s] by (auto simp: stamp_def)
qed

lemma insert_timer_eq:
  fixes now c :: u32 and s t
  defines "e \<equiv> c + xTimerPeriodInTicks (timers s t)"
  shows "prvInsertTimerInActiveList t e now c s =
    (if now - c \<ge> xTimerPeriodInTicks (timers s t) then (stamp t e s, True)
     else (arm t e (if e \<le> now then pxOverflowTimerList s else pxCurrentTimerList s) s, False))"
  using expiry_test [of c "xTimerPeriodInTicks (timers s t)" now]
  unfolding e_def [symmetric] prvInsertTimerInActiveList_def Let_def stamp_def arm_def tmr_simps set_lists_again
  by (simp split: if_splits) blast

text \<open>
  The outcome: the timer has expired exactly if its period has passed since the command; else it is in
  the list that is right for its expiry time, which is as far ahead as what is left of the period.
\<close>

lemma insert_timer_ok:
  fixes c :: u32
  assumes s: "tinv s" and out: "tcont s t = None" and h: "handle t"
  defines "p \<equiv> xTimerPeriodInTicks (timers s t)" and "now \<equiv> xLastTime s"
  defines "r \<equiv> prvInsertTimerInActiveList t (c + p) now c s"
  shows "snd r \<longleftrightarrow> now - c \<ge> p" and "tinv (fst r)"
    and "\<not> snd r \<Longrightarrow> tcont (fst r) t = Some (if c + p > now then pxCurrentTimerList s else pxOverflowTimerList s) \<and>
      expiry (fst r) t = c + p \<and> expiry (fst r) t - now = p - (now - c)"
    and "snd r \<Longrightarrow> tcont (fst r) t = None"
    and "m \<noteq> t \<Longrightarrow> tcont (fst r) m = tcont s m \<and> expiry (fst r) m = expiry s m"
    and "timers (fst r) = timers s" and "pxCurrentTimerList (fst r) = pxCurrentTimerList s"
proof -
  let ?l = "if c + p \<le> now then pxOverflowTimerList s else pxCurrentTimerList s"
  have eq: "r = (if now - c \<ge> p then (stamp t (c + p) s, True) else (arm t (c + p) ?l s, False))"
    unfolding r_def p_def by (rule insert_timer_eq)
  have l: "?l \<in> timer_lists" "?l = pxOverflowTimerList s \<Longrightarrow> c + p \<le> xLastTime s"
    using tinvD(4-6) [OF s] by (auto simp: now_def split: if_splits)
  note a = arm_ok [OF s out h l] and st = stamp_ok [OF s out]
  show "snd r \<longleftrightarrow> now - c \<ge> p" by (simp add: eq)
  show "tinv (fst r)" using a(1) st(1) by (simp add: eq)
  show "\<not> snd r \<Longrightarrow> tcont (fst r) t = Some (if c + p > now then pxCurrentTimerList s else pxOverflowTimerList s) \<and>
      expiry (fst r) t = c + p \<and> expiry (fst r) t - now = p - (now - c)"
    using a(2) [of t] a(3) [of t] by (auto simp: eq not_le split: if_splits)
  show "snd r \<Longrightarrow> tcont (fst r) t = None" using st(2) out by (auto simp: eq split: if_splits)
  show "m \<noteq> t \<Longrightarrow> tcont (fst r) m = tcont s m \<and> expiry (fst r) m = expiry s m"
    using a(2) [of m] a(3) [of m] st(2,3) by (simp add: eq)
  show "timers (fst r) = timers s" "pxCurrentTimerList (fst r) = pxCurrentTimerList s" by (simp_all add: eq arm_def stamp_def)
qed

section \<open>The first timer\<close>

lemma timer_list_length:
  assumes s: "tinv s" and l: "l \<in> timer_lists"
  shows "length (items (lists (TK s)) l) < 2 ^ 32"
proof -
  have le: "l \<in> evlists (TK s) \<inter> timer_lists" using l tinvD(3) [OF s] by auto
  note ti = timer_items [OF tinvD(1) [OF s] le]
  have "set (items (lists (TK s)) l) \<subseteq> TimerItem ` {1..<2 ^ 32}" using ti(1) tinvD(9) [OF s] by (fastforce simp: handle_def)
  then have "length (items (lists (TK s)) l) \<le> card (TimerItem ` {1..<2 ^ 32})" using ti(2) by (intro length_le_card) auto
  also have "\<dots> \<le> card {1..<2 ^ 32 :: nat}" by (rule card_image_le) simp
  finally show ?thesis by simp
qed

lemma timer_list_empty_iff:
  assumes s: "tinv s" and l: "l \<in> timer_lists"
  shows "listLIST_IS_EMPTY l (lists (TK s)) \<longleftrightarrow> items (lists (TK s)) l = []"
proof -
  have "l \<in> KL (TK s)" using l tinvD(3) [OF s] by auto
  then show ?thesis
    using uxNumberOfItems_items [OF tinvD(2) [OF s]] timer_list_length [OF s l]
    by (simp add: listLIST_IS_EMPTY_def word_unat_eq_iff unat_of_nat)
qed

lemma first_timer:
  assumes s: "tinv s" and i: "items (lists (TK s)) (pxCurrentTimerList s) = TimerItem t # ts"
  shows "prvGetNextExpireTime s = (expiry s t, False)" and "tcont s t = Some (pxCurrentTimerList s)" and "handle t"
    and "listGET_OWNER_OF_HEAD_ENTRY (pxCurrentTimerList s) (lists (TK s)) = Some t"
proof -
  have le: "pxCurrentTimerList s \<in> evlists (TK s) \<inter> timer_lists" using tinvD(3,4) [OF s] by auto
  show c: "tcont s t = Some (pxCurrentTimerList s)" using timer_items(1) [OF tinvD(1) [OF s] le] i by auto
  then show "handle t" using tinvD(9) [OF s, of t] by simp
  have o: "pvOwner (lists (TK s)) (TimerItem t) = t" using tinvD(9) [OF s, of t] c by simp
  note h = head_owner [OF tinvD(2) [OF s] tinvD(7) [OF s], unfolded i]
  show "listGET_OWNER_OF_HEAD_ENTRY (pxCurrentTimerList s) (lists (TK s)) = Some t" using h(1) o by simp
  show "prvGetNextExpireTime s = (expiry s t, False)"
    using h(2) timer_list_empty_iff [OF s tinvD(4) [OF s]] i by (simp add: prvGetNextExpireTime_def)
qed

text \<open>Steps that leave the timer lists alone.\<close>

lemma tinv_frame:
  assumes s: "tinv s" and k: "kinv {} (TK s')" and f: "timer_frame (TK s) (TK s')"
    and e: "pxCurrentTimerList s' = pxCurrentTimerList s" "pxOverflowTimerList s' = pxOverflowTimerList s" "xLastTime s \<le> xLastTime s'"
  shows "tinv s'"
proof -
  have "timer_sorted (lists (TK s')) l" if l: "l \<in> timer_lists" for l
  proof -
    have le: "l \<in> evlists (TK s) \<inter> timer_lists" using tinvD(3) [OF s] l by auto
    have i: "items (lists (TK s')) l = items (lists (TK s)) l" using f le by (simp add: timer_frame_def)
    have "map (\<lambda>i. xItemValue (lists (TK s')) (Item i)) (items (lists (TK s)) l) =
        map (\<lambda>i. xItemValue (lists (TK s)) (Item i)) (items (lists (TK s)) l)"
      using timer_items(1) [OF tinvD(1) [OF s] le] f by (auto simp: timer_frame_def)
    then show ?thesis using tinvD(10) [OF s l] i unfolding timer_sorted_def by (simp only:)
  qed
  then show ?thesis
    using s k f e order_trans [OF _ e(3)] unfolding tinv_def timer_frame_def by auto
qed

lemma sample_no_overflow:
  assumes s: "tinv s" and n: "xLastTime s \<le> xTickCount (TK s)"
  shows "\<exists>s2. prvSampleTimeNow cb s = Some (s2, xTickCount (TK s), False) \<and> tinv s2 \<and> xLastTime s2 = xTickCount (TK s) \<and>
    same_tasks (TK s) (TK s2) \<and> uxSchedulerSuspended (TK s2) = uxSchedulerSuspended (TK s) \<and> timers s2 = timers s \<and>
    pxCurrentTimerList s2 = pxCurrentTimerList s \<and> pxOverflowTimerList s2 = pxOverflowTimerList s \<and>
    xTimerQueue s2 = xTimerQueue s \<and> queues (tipc s2) = queues (tipc s) \<and> qbytes (tipc s2) = qbytes (tipc s)"
proof -
  let ?s2 = "(on_t (\<lambda>k. fst (xTaskGetTickCount k)) s)\<lparr>xLastTime := xTickCount (TK s)\<rparr>"
  have eq: "prvSampleTimeNow cb s = Some (?s2, xTickCount (TK s), False)"
    using n by (simp add: prvSampleTimeNow_def xTaskGetTickCount_def Let_def not_less [symmetric])
  have st: "same_tasks (TK s) (TK ?s2)"
    using same_tasks_trans [OF same_tasks_switch(3) same_tasks_switch(2)] by (simp add: xTaskGetTickCount_def Let_def)
  have k: "kinv {} (TK ?s2)" using tinvD(1) [OF s] by (simp add: xTaskGetTickCount_def Let_def kinv_exit_critical)
  have "tinv ?s2" by (rule tinv_frame [OF s k same_tasks_timers [OF st]]) (use n in simp_all)
  then show ?thesis
    by (intro exI [of _ ?s2] conjI eq) (use st in \<open>simp_all add: xTaskGetTickCount_def Let_def\<close>)
qed

section \<open>Expiry of the first timer\<close>

lemma resume_all_quiet:
  assumes s: "tinv s" and q: "quiet (TK s)"
  shows "\<exists>s' b. resume_all s = Some (s', b) \<and> tinv s' \<and> same_tasks (TK s) (TK s') \<and>
    uxSchedulerSuspended (TK s') = uxSchedulerSuspended (TK s) - 1 \<and> timers s' = timers s \<and>
    pxCurrentTimerList s' = pxCurrentTimerList s \<and> pxOverflowTimerList s' = pxOverflowTimerList s \<and> xLastTime s' = xLastTime s \<and>
    xTimerQueue s' = xTimerQueue s \<and> queues (tipc s') = queues (tipc s) \<and> qbytes (tipc s') = qbytes (tipc s)"
proof -
  obtain k b where k: "xTaskResumeAll (TK s) = Some (k, b)" "kinv {} k" "same_tasks (TK s) k"
    "uxSchedulerSuspended k = uxSchedulerSuspended (TK s) - 1"
    using resume_quiet [OF tinvD(1) [OF s]] q by (auto simp: quiet_def)
  let ?s' = "on_t (\<lambda>_. k) s"
  have "tinv ?s'" by (rule tinv_frame [OF s]) (use k same_tasks_timers in simp_all)
  moreover have "resume_all s = Some (?s', b)" using k(1) by (simp add: resume_all_def)
  ultimately show ?thesis using k by (intro exI [of _ ?s'] exI [of _ b]) simp
qed

lemma expired_timer_ok:
  assumes s: "tinv s" and i: "items (lists (TK s)) (pxCurrentTimerList s) = TimerItem t # ts"
  defines "p \<equiv> xTimerPeriodInTicks (timers s t)" and "now \<equiv> xLastTime s" and "v \<equiv> expiry s t"
    and "a \<equiv> uxAutoReload (timers s t) = 1"
  shows "\<exists>s'. prvProcessExpiredTimer cb v now s =
      (if a \<and> now - v \<ge> p then Option.bind (restart t v s') (call_back cb t) else call_back cb t s') \<and> tinv s' \<and>
    tcont s' t = (if a \<and> now - v < p then Some (if v + p > now then pxCurrentTimerList s else pxOverflowTimerList s) else None) \<and>
    (a \<and> now - v < p \<longrightarrow> expiry s' t = v + p) \<and>
    (\<forall>m. m \<noteq> t \<longrightarrow> tcont s' m = tcont s m \<and> expiry s' m = expiry s m) \<and> timers s' = timers s"
proof -
  let ?s1 = "set_lists (fst (uxListRemove (TimerItem t) (lists (TK s)))) s"
  note f = first_timer [OF s i]
  have s1: "tinv ?s1" by (rule tinv_remove [OF s])
  have o1: "tcont ?s1 t = None" "\<And>m. m \<noteq> t \<Longrightarrow> tcont ?s1 m = tcont s m" "\<And>m. expiry ?s1 m = expiry s m" by simp_all
  let ?r = "prvInsertTimerInActiveList t (v + p) now v ?s1"
  note r = insert_timer_ok [OF s1 o1(1) f(3), where c = v, unfolded tmr_simps, folded p_def now_def]
  have eq: "prvProcessExpiredTimer cb v now s =
      (if a then (if snd ?r then Option.bind (restart t v (fst ?r)) (call_back cb t) else call_back cb t (fst ?r))
       else call_back cb t ?s1)"
    using f(4) by (simp add: prvProcessExpiredTimer_def Let_def split_beta a_def p_def)
  show ?thesis
  proof (cases a)
    case True
    show ?thesis
      by (rule exI [of _ "fst ?r"]) (use r True o1 in \<open>auto simp: eq not_le\<close>)
  next
    case False
    show ?thesis by (rule exI [of _ ?s1]) (use False s1 o1 in \<open>simp add: eq\<close>)
  qed
qed

text \<open>When the first timer is due the timer task takes it out, arms it again if it is periodic, and calls it back.\<close>

lemma due_timer_fires:
  assumes s: "tinv s" and q: "quiet (TK s)" and n: "xLastTime s \<le> xTickCount (TK s)"
    and i: "items (lists (TK s)) (pxCurrentTimerList s) = TimerItem t # ts" and due: "expiry s t \<le> xTickCount (TK s)"
  defines "p \<equiv> xTimerPeriodInTicks (timers s t)" and "now \<equiv> xTickCount (TK s)" and "v \<equiv> expiry s t"
    and "a \<equiv> uxAutoReload (timers s t) = 1"
  shows "\<exists>s'. prvProcessTimerOrBlockTask cb v False s =
      (if a \<and> now - v \<ge> p then Option.bind (restart t v s') (call_back cb t) else call_back cb t s') \<and> tinv s' \<and>
    tcont s' t = (if a \<and> now - v < p then Some (if v + p > now then pxCurrentTimerList s else pxOverflowTimerList s) else None) \<and>
    (a \<and> now - v < p \<longrightarrow> expiry s' t = v + p) \<and>
    (\<forall>m. m \<noteq> t \<longrightarrow> tcont s' m = tcont s m \<and> expiry s' m = expiry s m) \<and> timers s' = timers s"
proof -
  let ?s1 = "on_t vTaskSuspendAll s"
  have st1: "same_tasks (TK s) (TK ?s1)" using same_tasks_switch(5) by simp
  have s1: "tinv ?s1" by (rule tinv_frame [OF s _ same_tasks_timers [OF st1]]) (use tinvD(1) [OF s] in simp_all)
  obtain s2 where s2: "prvSampleTimeNow cb ?s1 = Some (s2, now, False)" "tinv s2" "xLastTime s2 = now" "same_tasks (TK ?s1) (TK s2)"
    "timers s2 = timers s" "pxCurrentTimerList s2 = pxCurrentTimerList s" "pxOverflowTimerList s2 = pxOverflowTimerList s"
    using sample_no_overflow [OF s1, of cb] n by (auto simp: now_def)
  have st2: "same_tasks (TK s) (TK s2)" by (rule same_tasks_trans [OF st1 s2(4)])
  have q2: "quiet (TK s2)" using q st2 by (simp add: quiet_def pending_def same_tasks_def)
  obtain s3 b where s3: "resume_all s2 = Some (s3, b)" "tinv s3" "same_tasks (TK s2) (TK s3)" "timers s3 = timers s2"
    "pxCurrentTimerList s3 = pxCurrentTimerList s2" "pxOverflowTimerList s3 = pxOverflowTimerList s2" "xLastTime s3 = xLastTime s2"
    using resume_all_quiet [OF s2(2) q2] by blast
  have st3: "same_tasks (TK s) (TK s3)" by (rule same_tasks_trans [OF st2 s3(3)])
  have i3: "items (lists (TK s3)) (pxCurrentTimerList s3) = TimerItem t # ts" using i st3 s2(6) s3(5) by (simp add: same_tasks_def)
  have e3: "tcont s3 m = tcont s m" "expiry s3 m = expiry s m" for m using st3 by (simp_all add: same_tasks_def)
  have eq: "prvProcessTimerOrBlockTask cb v False s = prvProcessExpiredTimer cb v now s3"
    using s2(1) s3(1) due by (simp add: prvProcessTimerOrBlockTask_def v_def now_def)
  show ?thesis
    using expired_timer_ok [OF s3(2) i3, of cb, unfolded e3 s3(4-7) s2(3,5-7)] unfolding eq unfolding p_def v_def a_def .
qed

section \<open>Commands\<close>

definition timer_queue :: "nat \<Rightarrow> tmr \<Rightarrow> bool" where
  "timer_queue q s \<longleftrightarrow> xTimerQueue s = Some q \<and> queue_live q (tipc s) \<and> item_queue q (tipc s) \<and>
     pxQueueSetContainer (queues (tipc s) q) = None \<and> uxItemSize (queues (tipc s) q) = sizeof_DaemonTaskMessage_t"

lemma timer_queueD:
  assumes "timer_queue q s"
  shows "xTimerQueue s = Some q" "queue_live q (tipc s)" "item_queue q (tipc s)" "pxQueueSetContainer (queues (tipc s) q) = None"
    "isize (queues (tipc s) q) = 16"
  using assms by (simp_all add: timer_queue_def sizeof_DaemonTaskMessage_t_def)

text \<open>A message that finds room in the queue is its last one; the timers are as they were.\<close>

definition same_timers :: "tmr \<Rightarrow> tmr \<Rightarrow> bool" where
  "same_timers s s' \<longleftrightarrow> timer_frame (TK s) (TK s') \<and> xTickCount (TK s') = xTickCount (TK s) \<and> timers s' = timers s \<and>
     xTimerQueue s' = xTimerQueue s \<and> xLastTime s' = xLastTime s \<and>
     pxCurrentTimerList s' = pxCurrentTimerList s \<and> pxOverflowTimerList s' = pxOverflowTimerList s"

lemma same_timersD:
  assumes "same_timers s s'"
  shows "tcont s' m = tcont s m" "expiry s' m = expiry s m" "xTickCount (TK s') = xTickCount (TK s)" "timers s' = timers s"
    "xTimerQueue s' = xTimerQueue s" "xLastTime s' = xLastTime s" "pxCurrentTimerList s' = pxCurrentTimerList s"
    "pxOverflowTimerList s' = pxOverflowTimerList s"
  using assms by (simp_all add: same_timers_def timer_frame_def)

lemma same_timers_trans: "same_timers s s1 \<Longrightarrow> same_timers s1 s2 \<Longrightarrow> same_timers s s2"
  using timer_frame_trans by (auto simp: same_timers_def)

lemma same_timers_woken: "woke_first l (TK s) (K i) \<Longrightarrow> same_timers s (s\<lparr>tipc := i\<rparr>)"
  by (simp add: same_timers_def woke_first_def)

lemma message_sent:
  assumes s: "tinv s" and q: "timer_queue q s" and room: "length (messages q (tipc s)) < cap (queues (tipc s) q)"
  shows "\<exists>i. xQueueGenericSend others q (message_bytes m) w queueSEND_TO_BACK (tipc s) = Some (i, True) \<and> tinv (s\<lparr>tipc := i\<rparr>) \<and>
    same_timers s (s\<lparr>tipc := i\<rparr>) \<and> messages q i = messages q (tipc s) @ [message_bytes m] \<and> item_queue q i \<and> queue_live q i \<and>
    woke_first (TasksWaitingToReceive q) (TK s) (K i)"
proof -
  note qd = timer_queueD [OF q]
  have len: "length (message_bytes m) = isize (queues (tipc s) q)" using qd(5) by simp
  have nb: "queueSEND_TO_BACK \<noteq> queueOVERWRITE" by simp
  obtain i where i: "xQueueGenericSend_pass q (message_bytes m) queueSEND_TO_BACK None w (tipc s) = Some (i, Inl True)" "item_queue q i"
    "messages q i = messages q (tipc s) @ [message_bytes m]" "woke_first (TasksWaitingToReceive q) (TK s) (K i)"
    using send_room_ok [OF tinvD(1) [OF s] qd(2,4,3) len nb room, of None w] by auto
  have "tinv (s\<lparr>tipc := i\<rparr>)" by (rule tinv_frame [OF s]) (use i(4) in \<open>simp_all add: woke_first_def\<close>)
  moreover have "queue_live q i" using qd(2) i(4) by (simp add: queue_live_def woke_first_def)
  ultimately show ?thesis using i same_timers_woken [OF i(4)] send_returns [OF i(1)] by blast
qed

lemma command_sent:
  assumes s: "tinv s" and q: "timer_queue q s" and n: "sint n < 6" and room: "length (messages q (tipc s)) < cap (queues (tipc s) q)"
  shows "\<exists>s'. xTimerGenericCommand others t n v w s = Some (s', True, False) \<and> tinv s' \<and> same_timers s s' \<and>
    messages q (tipc s') = messages q (tipc s) @ [message_bytes (TimerParameters n v (of_nat t))] \<and> item_queue q (tipc s') \<and>
    queue_live q (tipc s') \<and> woke_first (TasksWaitingToReceive q) (TK s) (TK s')"
proof -
  let ?m = "TimerParameters n v (of_nat t)" and ?w = "if xTaskGetSchedulerState (TK s) = taskSCHEDULER_RUNNING then w else 0"
  obtain i where i: "xQueueGenericSend others q (message_bytes ?m) ?w queueSEND_TO_BACK (tipc s) = Some (i, True)"
    "tinv (s\<lparr>tipc := i\<rparr>)" "same_timers s (s\<lparr>tipc := i\<rparr>)" "messages q i = messages q (tipc s) @ [message_bytes ?m]"
    "item_queue q i" "queue_live q i" "woke_first (TasksWaitingToReceive q) (TK s) (K i)"
    using message_sent [OF s q room] by blast
  have "xTimerGenericCommand others t n v w s = Some (s\<lparr>tipc := i\<rparr>, True, False)"
    using timer_queueD(1) [OF q] n i(1) by (simp add: xTimerGenericCommand_def tmrFIRST_FROM_ISR_COMMAND_def del: message_bytes.simps)
  then show ?thesis using i(2-7) by (intro exI [of _ "s\<lparr>tipc := i\<rparr>"]) simp
qed

text \<open>The timer task reads a message as what was sent, and ends when the queue is empty.\<close>

lemma message_received:
  assumes s: "tinv s" and q: "xTimerQueue s = Some q" "queue_live q (tipc s)" "item_queue q (tipc s)"
    and m: "messages q (tipc s) = message_bytes m # ms" and ok: "message_ok m"
  shows "\<exists>s'. prvProcessReceivedCommands cb pf s = Option.bind (process_message cb pf m s') (prvProcessReceivedCommands cb pf) \<and>
    tinv s' \<and> same_timers s s' \<and> messages q (tipc s') = ms"
proof -
  obtain i where i: "xQueueGenericReceive_pass q False None 0 (tipc s) = Some (i, Inl (Some (message_bytes m)))" "item_queue q i"
    "messages q i = ms" "woke_first (TasksWaitingToSend q) (TK s) (K i)"
    using receive_room_ok [OF tinvD(1) [OF s] q(2,3), of False None 0] m by auto
  have "xQueueGenericReceive (\<lambda>i. i) q 0 False (tipc s) = Some (i, Some (message_bytes m))" by (rule receive_returns [OF i(1)])
  then have eq: "prvProcessReceivedCommands cb pf s =
      Option.bind (process_message cb pf m (s\<lparr>tipc := i\<rparr>)) (prvProcessReceivedCommands cb pf)"
    using q(1) message_round_trip [OF ok] by (subst prvProcessReceivedCommands.simps) simp
  have "tinv (s\<lparr>tipc := i\<rparr>)" by (rule tinv_frame [OF s]) (use i(4) in \<open>simp_all add: woke_first_def\<close>)
  then show ?thesis using eq same_timers_woken [OF i(4)] i(3) by (intro exI [of _ "s\<lparr>tipc := i\<rparr>"]) simp
qed

lemma no_more_messages:
  assumes s: "tinv s" and q: "xTimerQueue s = Some q" and m: "messages q (tipc s) = []"
  shows "\<exists>s'. prvProcessReceivedCommands cb pf s = Some s' \<and> tinv s' \<and> same_timers s s' \<and> messages q (tipc s') = []"
proof -
  have e: "uxMessagesWaiting (queues (tipc s) q) = 0" using m length_messages [of q "tipc s"] by (simp add: unat_eq_0 [symmetric])
  let ?s' = "s\<lparr>tipc := on_k vPortExitCritical (on_k vPortEnterCritical (tipc s))\<rparr>"
  have "prvProcessReceivedCommands cb pf s = Some ?s'"
    using q receive_returns [OF receive_refused [OF e]] by (subst prvProcessReceivedCommands.simps) simp
  moreover have st: "same_tasks (TK s) (TK ?s')" using same_tasks_trans [OF same_tasks_switch(3) same_tasks_switch(2)] by simp
  have "kinv {} (TK ?s')" using tinvD(1) [OF s] by (simp add: kinv_exit_critical)
  from tinv_frame [OF s this same_tasks_timers [OF st]] have "tinv ?s'" by simp
  moreover have "same_timers s ?s'" using same_tasks_timers [OF st] st by (simp add: same_timers_def same_tasks_def)
  moreover have "messages q (tipc ?s') = []" using m by (simp add: messages_def)
  ultimately show ?thesis by blast
qed

lemma start_processed:
  assumes s: "tinv s" and h: "handle t" and n: "xLastTime s \<le> xTickCount (TK s)"
    and cm: "cmd \<in> {tmrCOMMAND_START, tmrCOMMAND_START_FROM_ISR, tmrCOMMAND_RESET, tmrCOMMAND_RESET_FROM_ISR, tmrCOMMAND_START_DONT_TRACE}"
  defines "p \<equiv> xTimerPeriodInTicks (timers s t)" and "now \<equiv> xTickCount (TK s)"
  assumes early: "now - c < p"
  shows "\<exists>s'. process_timer_command cb cmd c t s = Some s' \<and> tinv s' \<and>
    tcont s' t = Some (if c + p > now then pxCurrentTimerList s else pxOverflowTimerList s) \<and> expiry s' t = c + p \<and>
    expiry s' t - now = p - (now - c) \<and> (\<forall>m. m \<noteq> t \<longrightarrow> tcont s' m = tcont s m \<and> expiry s' m = expiry s m) \<and>
    timers s' = timers s \<and> xTimerQueue s' = xTimerQueue s \<and> queues (tipc s') = queues (tipc s) \<and> qbytes (tipc s') = qbytes (tipc s) \<and>
    evlists (TK s') = evlists (TK s)"
proof -
  let ?s1 = "if tcont s t \<noteq> None then set_lists (fst (uxListRemove (TimerItem t) (lists (TK s)))) s else s"
  have s1: "tinv ?s1" using s tinv_remove [OF s] by simp
  have o1: "tcont ?s1 t = None" "\<And>m. m \<noteq> t \<Longrightarrow> tcont ?s1 m = tcont s m" "\<And>m. expiry ?s1 m = expiry s m" by auto
  have f1: "timers ?s1 = timers s" "xTimerQueue ?s1 = xTimerQueue s" "queues (tipc ?s1) = queues (tipc s)" "qbytes (tipc ?s1) = qbytes (tipc s)"
    "evlists (TK ?s1) = evlists (TK s)" "pxCurrentTimerList ?s1 = pxCurrentTimerList s" "pxOverflowTimerList ?s1 = pxOverflowTimerList s"
    "xTickCount (TK ?s1) = now" "xLastTime ?s1 = xLastTime s" by (simp_all add: now_def)
  obtain s2 where s2: "prvSampleTimeNow cb ?s1 = Some (s2, now, False)" "tinv s2" "xLastTime s2 = now" "same_tasks (TK ?s1) (TK s2)"
    "timers s2 = timers s" "pxCurrentTimerList s2 = pxCurrentTimerList s" "pxOverflowTimerList s2 = pxOverflowTimerList s"
    "xTimerQueue s2 = xTimerQueue s" "queues (tipc s2) = queues (tipc s)" "qbytes (tipc s2) = qbytes (tipc s)"
    using sample_no_overflow [OF s1, of cb] n unfolding f1 now_def by blast
  have o2: "tcont s2 t = None" "\<And>m. m \<noteq> t \<Longrightarrow> tcont s2 m = tcont s m \<and> expiry s2 m = expiry s m"
    "evlists (TK s2) = evlists (TK s)" using o1 s2(4) f1(5) by (simp_all add: same_tasks_def)
  let ?r = "prvInsertTimerInActiveList t (c + p) now c s2"
  note r = insert_timer_ok [OF s2(2) o2(1) h, where c = c, unfolded s2(3,5-7), folded p_def]
  have nb: "\<not> snd ?r" using r(1) early by (simp add: not_le)
  have pt: "process_timer_command cb cmd c t s = Some (fst ?r)"
    using s2(1) cm nb s2(5) unfolding process_timer_command_def listIS_CONTAINED_WITHIN_def Let_def
    by (simp add: split_beta p_def)
  have fr: "xTimerQueue (fst ?r) = xTimerQueue s" "queues (tipc (fst ?r)) = queues (tipc s)" "qbytes (tipc (fst ?r)) = qbytes (tipc s)"
    "evlists (TK (fst ?r)) = evlists (TK s)"
    using s2(8-10) o2(3) by (simp_all add: prvInsertTimerInActiveList_def Let_def)
  show ?thesis
    by (intro exI [of _ "fst ?r"] conjI pt) (use r(2) r(3) [OF nb] r(5,6) o2(2) fr in auto)
qed

text \<open>A command goes through the queue: the timer task finds it, executes it and finds the queue empty again.\<close>

lemma start_command:
  assumes s: "tinv s" and h: "handle t" and n: "xLastTime s \<le> xTickCount (TK s)" and q: "timer_queue q s"
    and e: "messages q (tipc s) = []"
  defines "p \<equiv> xTimerPeriodInTicks (timers s t)" and "now \<equiv> xTickCount (TK s)"
  assumes early: "now - c < p"
  shows "\<exists>s1 s2. xTimerGenericCommand others t tmrCOMMAND_START c w s = Some (s1, True, False) \<and>
    prvProcessReceivedCommands cb pf s1 = Some s2 \<and> tinv s2 \<and> messages q (tipc s2) = [] \<and>
    tcont s2 t = Some (if c + p > now then pxCurrentTimerList s else pxOverflowTimerList s) \<and> expiry s2 t = c + p \<and>
    expiry s2 t - now = p - (now - c) \<and> (\<forall>m. m \<noteq> t \<longrightarrow> tcont s2 m = tcont s m \<and> expiry s2 m = expiry s m)"
proof -
  let ?m = "TimerParameters tmrCOMMAND_START c (of_nat t)"
  have room: "length (messages q (tipc s)) < cap (queues (tipc s) q)"
    using timer_queueD(3) [OF q] e by (simp add: item_queue_def ring_ok_def area_ok_def)
  have mo: "message_ok ?m" "sint tmrCOMMAND_START < 6" by (simp_all add: message_ok_def tmrCOMMAND_START_def)
  obtain s1 where s1: "xTimerGenericCommand others t tmrCOMMAND_START c w s = Some (s1, True, False)" "tinv s1" "same_timers s s1"
    "messages q (tipc s1) = [message_bytes ?m]" "item_queue q (tipc s1)" "queue_live q (tipc s1)"
    using command_sent [OF s q mo(2) room, of others t c w] unfolding e append_Nil by blast
  have q1: "xTimerQueue s1 = Some q" using same_timersD(5) [OF s1(3)] timer_queueD(1) [OF q] by simp
  obtain s2 where s2: "prvProcessReceivedCommands cb pf s1 = Option.bind (process_message cb pf ?m s2) (prvProcessReceivedCommands cb pf)"
    "tinv s2" "same_timers s1 s2" "messages q (tipc s2) = []" using message_received [OF s1(2) q1 s1(6,5,4) mo(1)] by blast
  note sd = same_timersD [OF same_timers_trans [OF s1(3) s2(3)]]
  have n2: "xLastTime s2 \<le> xTickCount (TK s2)" using n sd by simp
  obtain s3 where s3: "process_timer_command cb tmrCOMMAND_START c t s2 = Some s3" "tinv s3"
    "tcont s3 t = Some (if c + p > now then pxCurrentTimerList s else pxOverflowTimerList s)" "expiry s3 t = c + p"
    "expiry s3 t - now = p - (now - c)" "\<forall>m. m \<noteq> t \<longrightarrow> tcont s3 m = tcont s m \<and> expiry s3 m = expiry s m"
    "xTimerQueue s3 = xTimerQueue s" "queues (tipc s3) = queues (tipc s2)" "qbytes (tipc s3) = qbytes (tipc s2)"
    using start_processed [OF s2(2) h n2, of tmrCOMMAND_START c cb, unfolded sd] early by (auto simp: p_def now_def)
  have "unat (of_nat t :: u32) = t" using h by (simp add: handle_def unat_of_nat)
  then have p3: "process_message cb pf ?m s2 = Some s3" using s3(1) by (simp add: process_message_def)
  have q3: "xTimerQueue s3 = Some q" "messages q (tipc s3) = []" using s3(7-9) timer_queueD(1) [OF q] s2(4) by (simp_all add: messages_def)
  obtain s4 where s4: "prvProcessReceivedCommands cb pf s3 = Some s4" "tinv s4" "same_timers s3 s4" "messages q (tipc s4) = []"
    using no_more_messages [OF s3(2) q3] by blast
  note e4 = same_timersD(1,2) [OF s4(3)]
  show ?thesis
    by (intro exI [of _ s1] exI [of _ s4] conjI s1(1) s4(2,4)) (use s2(1) p3 s4(1) s3(3-6) in \<open>simp_all add: e4\<close>)
qed

text \<open>A pended function is called by the timer task with the arguments it was pended with.\<close>

lemma pended_function_called:
  assumes s: "tinv s" and q: "timer_queue q s" and e: "messages q (tipc s) = []"
  shows "\<exists>s1 s2. xTimerPendFunctionCall others f a b w s = Some (s1, True) \<and>
    prvProcessReceivedCommands cb pf s1 = Option.bind (pf f a b s2) (prvProcessReceivedCommands cb pf) \<and>
    tinv s2 \<and> same_timers s s2 \<and> messages q (tipc s2) = []"
proof -
  let ?m = "CallbackParameters tmrCOMMAND_EXECUTE_CALLBACK f a b"
  have room: "length (messages q (tipc s)) < cap (queues (tipc s) q)"
    using timer_queueD(3) [OF q] e by (simp add: item_queue_def ring_ok_def area_ok_def)
  obtain i where i: "xQueueGenericSend others q (message_bytes ?m) w queueSEND_TO_BACK (tipc s) = Some (i, True)"
    "tinv (s\<lparr>tipc := i\<rparr>)" "same_timers s (s\<lparr>tipc := i\<rparr>)" "messages q i = [message_bytes ?m]" "item_queue q i" "queue_live q i"
    using message_sent [OF s q room, where m = ?m] unfolding e append_Nil by blast
  have mo: "message_ok ?m" by (simp add: message_ok_def tmrCOMMAND_EXECUTE_CALLBACK_def)
  have q1: "xTimerQueue (s\<lparr>tipc := i\<rparr>) = Some q" using timer_queueD(1) [OF q] by simp
  obtain s2 where s2: "prvProcessReceivedCommands cb pf (s\<lparr>tipc := i\<rparr>) = Option.bind (process_message cb pf ?m s2) (prvProcessReceivedCommands cb pf)"
    "tinv s2" "same_timers (s\<lparr>tipc := i\<rparr>) s2" "messages q (tipc s2) = []"
    using message_received [OF i(2) q1 _ _ _ mo, of "[]"] i(4-6) by auto
  have "xTimerPendFunctionCall others f a b w s = Some (s\<lparr>tipc := i\<rparr>, True)"
    using timer_queueD(1) [OF q] i(1) by (simp add: xTimerPendFunctionCall_def del: message_bytes.simps)
  then show ?thesis using s2 same_timers_trans [OF i(3) s2(3)] by (auto simp: process_message_def)
qed

section \<open>Sleep\<close>

lemma may_block_sample:
  assumes m: "may_block (TK s) T l"
  defines "k2 \<equiv> fst (xTaskGetTickCount (vTaskSuspendAll (TK s)))"
  shows "kinv {} k2" "event_ready k2 T l" "calm k2" "quiet k2" "uxSchedulerSuspended k2 = 1"
proof -
  have c: "calm (vTaskSuspendAll (TK s))" using m by (simp add: may_block_def)
  have k2: "k2 = (vTaskSuspendAll (TK s))\<lparr>interrupts_on := True\<rparr>"
    using critical_pair [OF c] by (simp add: k2_def xTaskGetTickCount_def Let_def)
  show "kinv {} k2" "event_ready k2 T l" "calm k2" "quiet k2" "uxSchedulerSuspended k2 = 1"
    using m by (simp_all add: k2 may_block_def event_ready_def running_task_def quiet_def pending_def vTaskSuspendAll_def calm_def)
qed

text \<open>With no timer due the timer task sleeps until the first one expires, or until a command comes.\<close>

lemma timer_task_sleeps:
  assumes s: "tinv s" and m: "may_block (TK s) T (TasksWaitingToReceive q)" and q: "timer_queue q s" and u: "unlocked q (tipc s)"
    and e: "messages q (tipc s) = []" and n: "xLastTime s \<le> xTickCount (TK s)"
    and i: "items (lists (TK s)) (pxCurrentTimerList s) = TimerItem t # ts" and later: "xTickCount (TK s) < expiry s t"
  shows "\<exists>s'. prvProcessTimerOrBlockTask cb (expiry s t) False s = Some s' \<and> tinv s' \<and>
    econt (TK s') T = Some (TasksWaitingToReceive q) \<and> timed (TK s') T \<and> remaining (TK s') T = expiry s t - xTickCount (TK s) \<and>
    (\<forall>x. tcont s' x = tcont s x \<and> expiry s' x = expiry s x)"
proof -
  let ?now = "xTickCount (TK s)" and ?s1 = "on_t vTaskSuspendAll s" and ?R = "TasksWaitingToReceive q"
  let ?w = "expiry s t - ?now"
  let ?s2 = "(on_t (\<lambda>k. fst (xTaskGetTickCount k)) ?s1)\<lparr>xLastTime := ?now\<rparr>"
  have sm: "prvSampleTimeNow cb ?s1 = Some (?s2, ?now, False)"
    using n by (simp add: prvSampleTimeNow_def xTaskGetTickCount_def Let_def not_less [symmetric])
  have st: "same_tasks (TK s) (TK ?s2)"
    using same_tasks_trans [OF same_tasks_switch(5) same_tasks_trans [OF same_tasks_switch(3) same_tasks_switch(2)]]
    by (simp add: xTaskGetTickCount_def Let_def)
  note k2 = may_block_sample [OF m]
  have s2: "tinv ?s2" by (rule tinv_frame [OF s _ same_tasks_timers [OF st]]) (use k2(1) n in simp_all)
  have i2: "kinv {} (K (tipc ?s2))" "event_ready (K (tipc ?s2)) T ?R" "calm (K (tipc ?s2))" "pending (K (tipc ?s2)) = {}"
    "uxPendedTicks (K (tipc ?s2)) = 0" using k2 by (simp_all add: quiet_def)
  have u2: "unlocked q (tipc ?s2)" "uxMessagesWaiting (queues (tipc ?s2) q) = 0"
    using u e length_messages [of q "tipc s"] by (simp_all add: unlocked_def unat_eq_0 [symmetric])
  have w: "False \<or> ?w \<noteq> 0" using later by simp
  obtain i' where i': "vQueueWaitForMessageRestricted q ?w False (tipc ?s2) = Some i'" "kinv {} (K i')" "econt (K i') T = Some ?R"
    "timed (K i') T" "remaining (K i') T = ?w" "timer_frame (TK ?s2) (K i')" "pending (K i') = {}" "uxPendedTicks (K i') = 0"
    using restricted_wait_ok [OF i2(1-3) u2 w i2(4)] i2(5) by auto
  let ?s3 = "?s2\<lparr>tipc := i'\<rparr>"
  have s3: "tinv ?s3" by (rule tinv_frame [OF s2]) (use i' in simp_all)
  have q3: "quiet (TK ?s3)" using i'(7,8) by (simp add: quiet_def)
  obtain s4 b where s4: "resume_all ?s3 = Some (s4, b)" "tinv s4" "same_tasks (TK ?s3) (TK s4)"
    using resume_all_quiet [OF s3 q3] by blast
  let ?s5 = "if b then s4 else on_t portYIELD s4"
  have st5: "same_tasks (TK ?s3) (TK ?s5)" using s4(3) same_tasks_trans [OF s4(3) same_tasks_switch(1)] by simp
  have k5: "kinv {} (TK ?s5)" using tinvD(1) [OF s4(2)] by (simp add: kinv_portYIELD)
  have "tinv (on_t portYIELD s4)"
    by (rule tinv_frame [OF s4(2)]) (use tinvD(1) [OF s4(2)] same_tasks_timers [OF same_tasks_switch(1)] in \<open>simp_all add: kinv_portYIELD\<close>)
  with s4(2) have s5: "tinv ?s5" by simp
  have eq: "prvProcessTimerOrBlockTask cb (expiry s t) False s = Some ?s5"
    using sm later [unfolded not_le [symmetric]] i'(1) s4(1) timer_queueD(1) [OF q] by (simp add: prvProcessTimerOrBlockTask_def)
  have tf: "timer_frame (TK s) (TK ?s5)"
    using timer_frame_trans [OF same_tasks_timers [OF st] timer_frame_trans [OF i'(6) ]] same_tasks_timers [OF st5] by simp
  show ?thesis
    by (intro exI [of _ ?s5] conjI eq s5)
      (use st5 i'(3-5) tf in \<open>simp_all add: same_tasks_def timed_def remaining_def timer_frame_def\<close>)
qed

end
