(* ===== verification/TimerSwitch.thy ===== *)
theory TimerSwitch
  imports TimerOk
begin

text \<open>
  The overflow of the tick count: \<open>prvSwitchTimerLists\<close> empties the current list, calling back every timer
  in it, reloads what is still due before the overflow and exchanges the lists. It ends because a
  timer goes back into the list only with a later expiry time. What is assumed of the callbacks of the application is
  that they return and leave the timer lists to the timer task, as their documentation asks.
\<close>

section \<open>Steps that leave the timers alone\<close>

definition keeps_timers :: "nat \<Rightarrow> tmr \<Rightarrow> tmr \<Rightarrow> bool" where
  "keeps_timers q s s' \<longleftrightarrow> tinv s' \<and> timer_queue q s' \<and> timer_frame (TK s) (TK s') \<and> xLastTime s' = xLastTime s \<and>
     pxCurrentTimerList s' = pxCurrentTimerList s \<and> pxOverflowTimerList s' = pxOverflowTimerList s"

definition well_behaved :: "nat \<Rightarrow> callback \<Rightarrow> bool" where
  "well_behaved q cb \<longleftrightarrow> (\<forall>f t s. tinv s \<and> timer_queue q s \<longrightarrow> (\<exists>s'. cb f t s = Some s' \<and> keeps_timers q s s'))"

lemma keeps_timersD:
  assumes "tinv s" and "keeps_timers q s s'"
  shows "tinv s'" "timer_queue q s'" "tcont s' m = tcont s m" "expiry s' m = expiry s m" "xLastTime s' = xLastTime s"
    "pxCurrentTimerList s' = pxCurrentTimerList s" "pxOverflowTimerList s' = pxOverflowTimerList s"
    "l \<in> timer_lists \<Longrightarrow> items (lists (TK s')) l = items (lists (TK s)) l"
  using assms tinvD(3) [OF assms(1)] by (auto simp: keeps_timers_def timer_frame_def)

text \<open>A command to the timer task's own queue returns, whether there is room or not.\<close>

lemma restart_keeps:
  assumes s: "tinv s" and q: "timer_queue q s"
  shows "\<exists>s'. restart t v s = Some s' \<and> keeps_timers q s s'"
proof -
  let ?m = "TimerParameters tmrCOMMAND_START_DONT_TRACE v (of_nat t)"
  note qd = timer_queueD [OF q]
  have len: "length (message_bytes ?m) = isize (queues (tipc s) q)" using qd(5) by simp
  have nb: "queueSEND_TO_BACK \<noteq> queueOVERWRITE" by simp
  have "\<exists>i r. xQueueGenericSend (\<lambda>i. i) q (message_bytes ?m) 0 queueSEND_TO_BACK (tipc s) = Some (i, r) \<and> keeps_timers q s (s\<lparr>tipc := i\<rparr>)"
  proof (cases "length (messages q (tipc s)) < cap (queues (tipc s) q)")
    case True
    obtain i where i: "xQueueGenericSend_pass q (message_bytes ?m) queueSEND_TO_BACK None 0 (tipc s) = Some (i, Inl True)" "item_queue q i"
      "woke_first (TasksWaitingToReceive q) (TK s) (K i)" "shape q i = shape q (tipc s)"
      using send_room_ok [OF tinvD(1) [OF s] qd(2,4,3) len nb True, of None 0] by blast
    have "tinv (s\<lparr>tipc := i\<rparr>)" by (rule tinv_frame [OF s]) (use i(3) in \<open>simp_all add: woke_first_def\<close>)
    moreover have "timer_queue q (s\<lparr>tipc := i\<rparr>)"
      using q i(2-4) by (simp add: timer_queue_def queue_live_def woke_first_def shape_def)
    ultimately show ?thesis using i(3) send_returns [OF i(1)] by (auto simp: keeps_timers_def woke_first_def)
  next
    case False
    then have f: "waiting (queues (tipc s) q) = cap (queues (tipc s) q)"
      using qd(3) by (simp add: length_messages item_queue_def ring_ok_def)
    let ?i = "on_k vPortExitCritical (on_k vPortEnterCritical (tipc s))"
    have st: "same_tasks (TK s) (K ?i)" using same_tasks_trans [OF same_tasks_switch(3) same_tasks_switch(2)] by simp
    have k: "kinv {} (K ?i)" using tinvD(1) [OF s] by (simp add: kinv_exit_critical)
    have "tinv (s\<lparr>tipc := ?i\<rparr>)" by (rule tinv_frame [OF s]) (use k same_tasks_timers [OF st] in simp_all)
    moreover have "timer_queue q (s\<lparr>tipc := ?i\<rparr>)"
      using q st by (simp add: timer_queue_def queue_live_def item_queue_def same_tasks_def)
    ultimately show ?thesis
      using send_returns [OF send_refused [OF f nb]] same_tasks_timers [OF st] by (auto simp: keeps_timers_def)
  qed
  then obtain i r where i: "xQueueGenericSend (\<lambda>i. i) q (message_bytes ?m) 0 queueSEND_TO_BACK (tipc s) = Some (i, r)"
    "keeps_timers q s (s\<lparr>tipc := i\<rparr>)" by blast
  have "restart t v s = Some (s\<lparr>tipc := i\<rparr>)"
    using qd(1) i(1)
    by (simp add: restart_def xTimerGenericCommand_def tmrFIRST_FROM_ISR_COMMAND_def tmrCOMMAND_START_DONT_TRACE_def del: message_bytes.simps)
  then show ?thesis using i(2) by blast
qed

section \<open>The loop\<close>

definition ticks_left :: "u32 \<Rightarrow> nat" where
  "ticks_left v = 2 ^ 32 - unat v"

lemma ticks_left_bounds: "0 < ticks_left v" "v < v' \<Longrightarrow> ticks_left v' < ticks_left v"
  using unat_u32_less [of v] unat_u32_less [of v'] by (simp_all add: ticks_left_def word_less_nat_alt)

definition time_left :: "tmr \<Rightarrow> nat" where
  "time_left s = (\<Sum>i \<leftarrow> items (lists (TK s)) (pxCurrentTimerList s). ticks_left (xItemValue (lists (TK s)) (Item i)))"

lemma time_left_cong:
  assumes s: "tinv s" and k: "keeps_timers q s s'"
  shows "time_left s' = time_left s"
proof -
  have l: "pxCurrentTimerList s \<in> evlists (TK s) \<inter> timer_lists" using tinvD(3,4) [OF s] by auto
  have "map (\<lambda>i. ticks_left (xItemValue (lists (TK s')) (Item i))) (items (lists (TK s)) (pxCurrentTimerList s)) =
      map (\<lambda>i. ticks_left (xItemValue (lists (TK s)) (Item i))) (items (lists (TK s)) (pxCurrentTimerList s))"
  proof (rule map_cong [OF refl])
    fix i assume "i \<in> set (items (lists (TK s)) (pxCurrentTimerList s))"
    then obtain m where "i = TimerItem m" using timer_items(1) [OF tinvD(1) [OF s] l] by auto
    then show "ticks_left (xItemValue (lists (TK s')) (Item i)) = ticks_left (xItemValue (lists (TK s)) (Item i))"
      by (simp only: keeps_timersD(4) [OF s k])
  qed
  then show ?thesis unfolding time_left_def keeps_timersD(6) [OF s k] keeps_timersD(8) [OF s k tinvD(4) [OF s]] by (simp only:)
qed

lemma insert_by_sum: "sum_list (map f (insert_by g x xs)) = f x + sum_list (map f xs)" for f :: "'a \<Rightarrow> nat"
proof -
  have "sum_list (map f (takeWhile P xs)) + sum_list (map f (dropWhile P xs)) = sum_list (map f xs)" for P
    by (simp flip: sum_list_append map_append)
  then show ?thesis by (simp add: insert_by_def algebra_simps)
qed

lemma removed_head:
  assumes s: "tinv s" and i: "items (lists (TK s)) (pxCurrentTimerList s) = TimerItem t # ts"
  defines "s1 \<equiv> set_lists (fst (uxListRemove (TimerItem t) (lists (TK s)))) s"
  shows "tinv s1" and "items (lists (TK s1)) (pxCurrentTimerList s) = ts" and "tcont s1 m = (if m = t then None else tcont s m)"
    and "expiry s1 m = expiry s m" and "time_left s = ticks_left (expiry s t) + time_left s1"
proof -
  show "tinv s1" unfolding s1_def by (rule tinv_remove [OF s])
  show r: "items (lists (TK s1)) (pxCurrentTimerList s) = ts"
    using uxListRemove_store(2) [OF tinvD(2) [OF s] tinvD(7) [OF s], of "TimerItem t"] i by (simp add: s1_def)
  show "tcont s1 m = (if m = t then None else tcont s m)" and e: "expiry s1 m = expiry s m" for m by (simp_all add: s1_def)
  have "xItemValue (lists (TK s1)) = xItemValue (lists (TK s))" by (simp add: s1_def)
  moreover have "pxCurrentTimerList s1 = pxCurrentTimerList s" by (simp add: s1_def)
  ultimately show "time_left s = ticks_left (expiry s t) + time_left s1" using i r unfolding time_left_def by simp
qed

lemma rearmed:
  fixes e :: u32
  assumes s: "tinv s" and out: "tcont s t = None" and h: "handle t"
  defines "s1 \<equiv> arm t e (pxCurrentTimerList s) s"
  shows "tinv s1" and "time_left s1 = ticks_left e + time_left s"
    and "tcont s1 m = (if m = t then Some (pxCurrentTimerList s) else tcont s m)" and "m \<noteq> t \<Longrightarrow> expiry s1 m = expiry s m"
    and "pxCurrentTimerList s1 = pxCurrentTimerList s" "pxOverflowTimerList s1 = pxOverflowTimerList s" "xLastTime s1 = xLastTime s"
    and "timer_queue q s \<Longrightarrow> timer_queue q s1"
proof -
  have o: "pxCurrentTimerList s = pxOverflowTimerList s \<Longrightarrow> e \<le> xLastTime s" using tinvD(6) [OF s] by simp
  note a = arm_ok [OF s out h tinvD(4) [OF s] o, folded s1_def]
  show "tinv s1" using a(1) .
  show "tcont s1 m = (if m = t then Some (pxCurrentTimerList s) else tcont s m)" using a(2) .
  show "m \<noteq> t \<Longrightarrow> expiry s1 m = expiry s m" using a(3) by simp
  show c: "pxCurrentTimerList s1 = pxCurrentTimerList s" "pxOverflowTimerList s1 = pxOverflowTimerList s" "xLastTime s1 = xLastTime s"
    by (simp_all add: s1_def arm_def)
  let ?g = "\<lambda>i. ticks_left (xItemValue (lists (TK s1)) (Item i))" and ?xs = "items (lists (TK s)) (pxCurrentTimerList s)"
  have l: "pxCurrentTimerList s \<in> evlists (TK s) \<inter> timer_lists" using tinvD(3,4) [OF s] by auto
  have "map ?g ?xs = map (\<lambda>i. ticks_left (xItemValue (lists (TK s)) (Item i))) ?xs"
  proof (rule map_cong [OF refl])
    fix i assume "i \<in> set ?xs"
    then obtain m where m: "i = TimerItem m" "tcont s m = Some (pxCurrentTimerList s)"
      using timer_items(1) [OF tinvD(1) [OF s] l] by auto
    then have "m \<noteq> t" using out by auto
    then show "?g i = ticks_left (xItemValue (lists (TK s)) (Item i))" using a(3) [of m] m(1) by simp
  qed
  then have "sum_list (map ?g ?xs) = time_left s" unfolding time_left_def by (simp only:)
  then show "time_left s1 = ticks_left e + time_left s"
    using arg_cong [OF a(5), of "\<lambda>xs. sum_list (map ?g xs)"] a(3) [of t] unfolding insert_by_sum by (simp add: time_left_def c(1))
  show "timer_queue q s \<Longrightarrow> timer_queue q s1"
    by (simp add: s1_def arm_def timer_queue_def queue_live_def item_queue_def)
qed

text \<open>What the loop leaves: the timers of the current list are out, those of the overflow list are where they were.\<close>

definition switched_out :: "nat \<Rightarrow> tmr \<Rightarrow> tmr \<Rightarrow> bool" where
  "switched_out q s s' \<longleftrightarrow> tinv s' \<and> timer_queue q s' \<and> xLastTime s' = xLastTime s \<and>
     pxCurrentTimerList s' = pxCurrentTimerList s \<and> pxOverflowTimerList s' = pxOverflowTimerList s \<and>
     (\<forall>m. tcont s' m = (if tcont s m = Some (pxCurrentTimerList s) then None else tcont s m)) \<and>
     (\<forall>m. tcont s m = Some (pxOverflowTimerList s) \<longrightarrow> expiry s' m = expiry s m)"

lemma switched_out_after:
  assumes "switched_out q s1 s'" and "xLastTime s1 = xLastTime s" "pxCurrentTimerList s1 = pxCurrentTimerList s"
    "pxOverflowTimerList s1 = pxOverflowTimerList s" and t: "tcont s t = Some (pxCurrentTimerList s)"
    and "\<And>m. m \<noteq> t \<Longrightarrow> tcont s1 m = tcont s m \<and> expiry s1 m = expiry s m"
    and "tcont s1 t = None \<or> tcont s1 t = Some (pxCurrentTimerList s)" and ne: "pxCurrentTimerList s \<noteq> pxOverflowTimerList s"
  shows "switched_out q s s'"
  unfolding switched_out_def
proof (intro conjI allI impI)
  fix m
  show "tcont s' m = (if tcont s m = Some (pxCurrentTimerList s) then None else tcont s m)"
    using assms by (cases "m = t") (auto simp: switched_out_def)
  show "expiry s' m = expiry s m" if "tcont s m = Some (pxOverflowTimerList s)"
    using assms that by (cases "m = t") (auto simp: switched_out_def)
qed (use assms in \<open>simp_all add: switched_out_def\<close>)

text \<open>One turn: the first timer is called back and is out of the lists, or back in the current list with a later expiry time.\<close>

lemma switch_loop_turn:
  assumes w: "well_behaved q cb" and s: "tinv s" and q: "timer_queue q s"
    and i: "items (lists (TK s)) (pxCurrentTimerList s) = TimerItem t # ts"
  shows "\<exists>z. switch_loop cb s = switch_loop cb z \<and> tinv z \<and> timer_queue q z \<and> time_left z < time_left s \<and> xLastTime z = xLastTime s \<and>
    pxCurrentTimerList z = pxCurrentTimerList s \<and> pxOverflowTimerList z = pxOverflowTimerList s \<and>
    (\<forall>m. m \<noteq> t \<longrightarrow> tcont z m = tcont s m \<and> expiry z m = expiry s m) \<and>
    (tcont z t = None \<or> tcont z t = Some (pxCurrentTimerList s))"
proof -
  let ?l = "pxCurrentTimerList s" and ?v = "expiry s t" and ?s1 = "set_lists (fst (uxListRemove (TimerItem t) (lists (TK s)))) s"
  note f = first_timer [OF s i] and r = removed_head [OF s i] and em = timer_list_empty_iff [OF s tinvD(4) [OF s]]
  have hv: "listGET_ITEM_VALUE_OF_HEAD_ENTRY ?l (lists (TK s)) = ?v" using f(1) em i by (simp add: prvGetNextExpireTime_def)
  have q1: "timer_queue q ?s1" using q by (simp add: timer_queue_def queue_live_def item_queue_def)
  obtain s2 where s2: "call_back cb t ?s1 = Some s2" "keeps_timers q ?s1 s2"
    using w r(1) q1 unfolding well_behaved_def call_back_def by blast
  note k2 = keeps_timersD [OF r(1) s2(2)]
  have p2: "pxCurrentTimerList s2 = ?l" "pxOverflowTimerList s2 = pxOverflowTimerList s" "xLastTime s2 = xLastTime s"
    "tcont s2 t = None" "\<And>m. m \<noteq> t \<Longrightarrow> tcont s2 m = tcont s m \<and> expiry s2 m = expiry s m"
    using k2(3-7) r(3,4) by simp_all
  have lt: "time_left s2 < time_left s" "time_left s = ticks_left ?v + time_left s2"
    using r(5) time_left_cong [OF r(1) s2(2)] ticks_left_bounds(1) [of ?v] by simp_all
  let ?e = "?v + xTimerPeriodInTicks (timers s2 t)"
  obtain s3 where s3: "restart t ?v s2 = Some s3" "keeps_timers q s2 s3" using restart_keeps [OF k2(1,2)] by blast
  note k3 = keeps_timersD [OF k2(1) s3(2)] and a = rearmed [OF k2(1) p2(4) f(3), where e = ?e, unfolded p2(1-3)]
  let ?z = "if uxAutoReload (timers s2 t) = 1 then if ?e > ?v then arm t ?e ?l s2 else s3 else s2"
  have eq: "switch_loop cb s = switch_loop cb ?z"
    using em i f(4) hv s2(1) s3(1) p2(1) by (subst switch_loop.simps) (simp add: arm_def Let_def)
  have l3: "time_left s3 < time_left s" using time_left_cong [OF k2(1) s3(2)] lt(1) by simp
  have la: "time_left (arm t ?e ?l s2) < time_left s" if "?e > ?v" using a(2) lt(2) ticks_left_bounds(2) [OF that] by simp
  show ?thesis
    by (intro exI [of _ ?z] conjI eq) (use k2(1,2) k3(1-7) a(1,3-7) a(8) [OF k2(2)] p2 lt(1) l3 la in simp_all)
qed

lemma switch_loop_ok:
  assumes w: "well_behaved q cb" and "tinv s" and "timer_queue q s"
  shows "\<exists>s'. switch_loop cb s = Some s' \<and> switched_out q s s'"
  using assms(2,3)
proof (induction "time_left s" arbitrary: s rule: less_induct)
  case less
  note s = less.prems(1)
  let ?l = "pxCurrentTimerList s"
  have le: "?l \<in> evlists (TK s) \<inter> timer_lists" using tinvD(3,4) [OF s] by auto
  note ti = timer_items(1) [OF tinvD(1) [OF s] le] and em = timer_list_empty_iff [OF s tinvD(4) [OF s]]
  show ?case
  proof (cases "items (lists (TK s)) ?l")
    case Nil
    then have "\<And>m. tcont s m \<noteq> Some ?l" using ti by auto
    then have "switched_out q s s" using less.prems by (simp add: switched_out_def)
    then show ?thesis using Nil em by (subst switch_loop.simps) simp
  next
    case (Cons i ts)
    then obtain t where i: "items (lists (TK s)) ?l = TimerItem t # ts" using ti by auto
    obtain z where z: "switch_loop cb s = switch_loop cb z" "tinv z" "timer_queue q z" "time_left z < time_left s" "xLastTime z = xLastTime s"
      "pxCurrentTimerList z = ?l" "pxOverflowTimerList z = pxOverflowTimerList s"
      "\<And>m. m \<noteq> t \<Longrightarrow> tcont z m = tcont s m \<and> expiry z m = expiry s m" "tcont z t = None \<or> tcont z t = Some ?l"
      using switch_loop_turn [OF w less.prems i] by blast
    then show ?thesis
      using less.hyps [OF z(4,2,3)] switched_out_after [OF _ z(5-7) first_timer(2) [OF s i] z(8,9) tinvD(6) [OF s]] by auto
  qed
qed

section \<open>The exchange of the lists\<close>

lemma overflow_switches:
  assumes w: "well_behaved q cb" and s: "tinv s" and q: "timer_queue q s" and o: "xTickCount (TK s) < xLastTime s"
  shows "\<exists>s'. prvSampleTimeNow cb s = Some (s', xTickCount (TK s), True) \<and> tinv s' \<and> timer_queue q s' \<and> xLastTime s' = xTickCount (TK s) \<and>
    pxCurrentTimerList s' = pxOverflowTimerList s \<and> pxOverflowTimerList s' = pxCurrentTimerList s \<and>
    (\<forall>m. tcont s' m = (if tcont s m = Some (pxOverflowTimerList s) then Some (pxOverflowTimerList s) else None)) \<and>
    (\<forall>m. tcont s m = Some (pxOverflowTimerList s) \<longrightarrow> expiry s' m = expiry s m)"
proof -
  let ?s1 = "on_t (\<lambda>k. fst (xTaskGetTickCount k)) s" and ?now = "xTickCount (TK s)"
  have st: "same_tasks (TK s) (TK ?s1)"
    using same_tasks_trans [OF same_tasks_switch(3) same_tasks_switch(2)] by (simp add: xTaskGetTickCount_def Let_def)
  have k: "kinv {} (TK ?s1)" using tinvD(1) [OF s] by (simp add: xTaskGetTickCount_def Let_def kinv_exit_critical)
  have s1: "tinv ?s1" by (rule tinv_frame [OF s k same_tasks_timers [OF st]]) simp_all
  have q1: "timer_queue q ?s1" using q st by (simp add: timer_queue_def queue_live_def item_queue_def same_tasks_def)
  obtain s2 where s2: "switch_loop cb ?s1 = Some s2" "switched_out q ?s1 s2" using switch_loop_ok [OF w s1 q1] by blast
  let ?s' = "s2\<lparr>pxCurrentTimerList := pxOverflowTimerList s2, pxOverflowTimerList := pxCurrentTimerList s2, xLastTime := ?now\<rparr>"
  have p2: "pxCurrentTimerList s2 = pxCurrentTimerList s" "pxOverflowTimerList s2 = pxOverflowTimerList s" "tinv s2" "timer_queue q s2"
    using s2(2) by (simp_all add: switched_out_def)
  have c2: "tcont s2 m = (if tcont s m = Some (pxCurrentTimerList s) then None else tcont s m)" for m
    using s2(2) st by (simp add: switched_out_def same_tasks_def)
  have two: "tcont s m = None \<or> tcont s m = Some (pxCurrentTimerList s) \<or> tcont s m = Some (pxOverflowTimerList s)" for m
    using kinv_contD(7) [OF tinvD(1) [OF s], of m] tinvD(12) [OF s] by (cases "tcont s m") auto
  have eq: "prvSampleTimeNow cb s = Some (?s', ?now, True)"
    using s2(1) o by (simp add: prvSampleTimeNow_def prvSwitchTimerLists_def xTaskGetTickCount_def Let_def)
  have "tcont s2 m \<noteq> Some (pxCurrentTimerList s2)" for m using c2 [of m] p2(1) by auto
  then have "tinv ?s'" using p2(3) unfolding tinv_def by auto
  moreover have "timer_queue q ?s'" using p2(4) by (simp add: timer_queue_def)
  moreover have "tcont ?s' m = (if tcont s m = Some (pxOverflowTimerList s) then Some (pxOverflowTimerList s) else None)" for m
    using c2 [of m] two [of m] tinvD(6) [OF s] by auto
  moreover have "tcont s m = Some (pxOverflowTimerList s) \<Longrightarrow> expiry ?s' m = expiry s m" for m
    using s2(2) st by (simp add: switched_out_def same_tasks_def)
  ultimately show ?thesis using eq p2(1,2) by (intro exI [of _ ?s']) simp
qed

end
