(* ===== verification/ServiceScenario.thy ===== *)
theory ServiceScenario
  imports QueueScenario EventGroupOk TimerSwitch
begin

text \<open>
  Concrete states for event groups and timers: the running system with one empty event group, and
  with the timer lists and the timer queue set up, without and with an armed timer.
\<close>

section \<open>An event group\<close>

definition demo_eg :: evg where
  "demo_eg = \<lparr>gsys = demo_os demo, groups = (\<lambda>_. \<lparr>uxEventBits = 0\<rparr>)\<rparr>"

lemma demo_eg_facts:
  "G demo_eg = demo" "bits g demo_eg = 0" "group_live 0 demo_eg" "quiet (G demo_eg)" "kinv {} (G demo_eg)"
  "may_block (G demo_eg) 2 (TasksWaitingForBits 0)"
  using demo_calm demo_pending
  by (simp_all add: demo_eg_def demo_os_def group_live_def quiet_def may_block_def event_ready_def demo_facts demo_fields timer_lists_def)

section \<open>Timers\<close>

definition demo_timer_ipc :: ipc where
  "demo_timer_ipc = demo_ipc \<lparr>pcHead = 4096, pcTail = 4176, pcWriteTo = 4096, pcReadFrom = 4160, uxMessagesWaiting = 0,
     uxLength = 5, uxItemSize = 16, xRxLock = queueUNLOCKED, xTxLock = queueUNLOCKED, pxQueueSetContainer = None\<rparr> demo"

definition demo_tmr :: tmr where
  "demo_tmr = \<lparr>tipc = demo_timer_ipc, timers = (\<lambda>_. \<lparr>pcTimerName = ''t'', xTimerPeriodInTicks = 100, uxAutoReload = 1,
     pvTimerID = 0, pxCallbackFunction = 8192\<rparr>), pxCurrentTimerList = TimerList1, pxOverflowTimerList = TimerList2,
     xTimerQueue = Some 0, xLastTime = 0\<rparr>"

lemma demo_no_timer: "pvContainer (lists demo) (TimerItem m) = None"
proof -
  have 1: "pvContainer (lists demo1) (TimerItem m) = None"
    by (simp add: demo1_def boot_unfold boot0_def empty_store_def container_initialise_all)
  have "pvContainer (lists demo2) (TimerItem m) = None"
    using 1 by (simp add: demo2_def boot_unfold cur_def demo1_facts(2) demo1_fields)
  then show ?thesis by (simp add: demo_def)
qed

lemma demo_tmr_fields [simp]:
  "TK demo_tmr = demo" "xTimerQueue demo_tmr = Some 0" "xLastTime demo_tmr = 0" "pxCurrentTimerList demo_tmr = TimerList1"
  "pxOverflowTimerList demo_tmr = TimerList2" "xTimerPeriodInTicks (timers demo_tmr t) = 100" "uxAutoReload (timers demo_tmr t) = 1"
  by (simp_all add: demo_tmr_def demo_timer_ipc_def)

lemma demo_tmr_facts:
  "tinv demo_tmr" "timer_queue 0 demo_tmr" "unlocked 0 (tipc demo_tmr)" "messages 0 (tipc demo_tmr) = []"
  "may_block (TK demo_tmr) 2 (TasksWaitingToReceive 0)" "handle 9"
proof -
  have "timer_sorted (lists demo) l" if "l \<in> timer_lists" for l
  proof -
    have l: "l \<in> evlists demo \<inter> timer_lists" using that by (auto simp: timer_lists_def demo_fields)
    have "set (items (lists demo) l) = {}" unfolding timer_items(1) [OF demo_facts(1) l] by (simp add: demo_no_timer)
    then show ?thesis by (simp add: timer_sorted_def)
  qed
  then show "tinv demo_tmr" by (simp add: tinv_def demo_no_timer demo_facts(1) demo_fields timer_lists_def)
  show "timer_queue 0 demo_tmr" "unlocked 0 (tipc demo_tmr)" "messages 0 (tipc demo_tmr) = []"
    by (simp_all add: demo_tmr_def demo_timer_ipc_def timer_queue_def queue_live_def demo_fields item_queue_def ring_ok_def area_ok_def
        read_pos_def slot_def contents_def messages_def unlocked_def sizeof_DaemonTaskMessage_t_def)
  show "may_block (TK demo_tmr) 2 (TasksWaitingToReceive 0)" using demo_may_block by simp
  show "handle 9" by (simp add: handle_def)
qed

text \<open>The same with timer 9 armed to expire at time \<open>e\<close>.\<close>

definition demo_armed :: "u32 \<Rightarrow> tmr" where
  "demo_armed e = arm 9 e TimerList1 demo_tmr"

lemma demo_armed_facts:
  "tinv (demo_armed e)" "timer_queue 0 (demo_armed e)" "unlocked 0 (tipc (demo_armed e))" "messages 0 (tipc (demo_armed e)) = []"
  "may_block (TK (demo_armed e)) 2 (TasksWaitingToReceive 0)" "xLastTime (demo_armed e) \<le> xTickCount (TK (demo_armed e))"
  "items (lists (TK (demo_armed e))) (pxCurrentTimerList (demo_armed e)) = [TimerItem 9]" "expiry (demo_armed e) 9 = e"
  "xTickCount (TK (demo_armed e)) = 0" "timers (demo_armed e) = timers demo_tmr" "pxCurrentTimerList (demo_armed e) = TimerList1"
proof -
  have c: "tcont demo_tmr 9 = None" "TimerList1 \<in> timer_lists" "TimerList1 = pxOverflowTimerList demo_tmr \<Longrightarrow> e \<le> xLastTime demo_tmr"
    by (simp_all add: demo_no_timer timer_lists_def)
  note a = arm_ok [OF demo_tmr_facts(1) c(1) demo_tmr_facts(6) c(2,3), folded demo_armed_def]
  show t: "tinv (demo_armed e)" by (rule a(1))
  show f: "pxCurrentTimerList (demo_armed e) = TimerList1" "xTickCount (TK (demo_armed e)) = 0" "timers (demo_armed e) = timers demo_tmr"
    by (simp_all add: demo_armed_def arm_def demo_fields)
  show "expiry (demo_armed e) 9 = e" using a(3) by simp
  show "xLastTime (demo_armed e) \<le> xTickCount (TK (demo_armed e))" by (simp add: demo_armed_def arm_def)
  have l: "TimerList1 \<in> evlists demo \<inter> timer_lists" by (simp add: timer_lists_def demo_fields)
  have "set (items (lists demo) TimerList1) = {}" unfolding timer_items(1) [OF demo_facts(1) l] by (simp add: demo_no_timer)
  then show "items (lists (TK (demo_armed e))) (pxCurrentTimerList (demo_armed e)) = [TimerItem 9]"
    using a(5) by (simp add: f insert_by_def)
  show "timer_queue 0 (demo_armed e)" "unlocked 0 (tipc (demo_armed e))" "messages 0 (tipc (demo_armed e)) = []"
    using demo_tmr_facts(2-4)
    by (simp_all add: demo_armed_def arm_def timer_queue_def queue_live_def item_queue_def messages_def unlocked_def)
  show "may_block (TK (demo_armed e)) 2 (TasksWaitingToReceive 0)"
    using demo_may_block tinvD(1) [OF t] a(6)
    by (simp add: may_block_def demo_armed_def arm_def event_ready_def running_task_def calm_def pending_def)
qed

text \<open>The tick count has overflowed since the time was last sampled; timer 9 is due after the overflow.\<close>

definition demo_wrapped :: tmr where
  "demo_wrapped = arm 9 3 TimerList2 (demo_tmr\<lparr>xLastTime := 5\<rparr>)"

lemma demo_wrapped_facts:
  "tinv demo_wrapped" "timer_queue 0 demo_wrapped" "xTickCount (TK demo_wrapped) = 0" "xLastTime demo_wrapped = 5"
  "tcont demo_wrapped 9 = Some TimerList2" "expiry demo_wrapped 9 = 3" "pxOverflowTimerList demo_wrapped = TimerList2"
  "well_behaved 0 (\<lambda>_ _. Some)"
proof -
  let ?s = "demo_tmr\<lparr>xLastTime := 5\<rparr>"
  have s: "tinv ?s" by (rule tinv_frame [OF demo_tmr_facts(1)]) (simp_all add: demo_facts(1) timer_frame_refl)
  have c: "tcont ?s 9 = None" "TimerList2 \<in> timer_lists" "TimerList2 = pxOverflowTimerList ?s \<Longrightarrow> 3 \<le> xLastTime ?s"
    by (simp_all add: demo_no_timer timer_lists_def)
  note a = arm_ok [OF s c(1) demo_tmr_facts(6) c(2,3), folded demo_wrapped_def]
  show "tinv demo_wrapped" using a(1) by simp
  show "tcont demo_wrapped 9 = Some TimerList2" "expiry demo_wrapped 9 = 3" using a(2,3) [of 9] by simp_all
  show "timer_queue 0 demo_wrapped" using demo_tmr_facts(2)
    by (simp add: demo_wrapped_def arm_def timer_queue_def queue_live_def item_queue_def)
  show "xTickCount (TK demo_wrapped) = 0" "xLastTime demo_wrapped = 5" "pxOverflowTimerList demo_wrapped = TimerList2"
    by (simp_all add: demo_wrapped_def arm_def demo_fields)
  show "well_behaved 0 (\<lambda>_ _. Some)" by (simp add: well_behaved_def keeps_timers_def timer_frame_refl)
qed

end
