(* ===== verification/Port.thy ===== *)
theory Port
  imports KernelPrim
begin

unbundle bit_operations_syntax

text \<open>
  The processor side of the port (\<^verbatim>\<open>portable/GCC/IA32_flat\<close>): the stack frame a new task is started from, saving and
  restoring the registers at a context switch (\<^verbatim>\<open>portASM.S\<close>), the interrupt descriptor table, the table of registered
  handlers, and the common interrupt entry with its exit (\<^verbatim>\<open>ISR_Support.h\<close>). Memory is a function from addresses to
  32-bit words; stacks are aligned to words. The code segment, the addresses of the entry points, the code of
  registered handlers and \<open>pm_return_from_idle\<close> are arguments.
\<close>

section \<open>Registers and stacks\<close>

record cpu =
  eax :: u32
  ecx :: u32
  edx :: u32
  ebx :: u32
  esp :: u32
  ebp :: u32
  esi :: u32
  edi :: u32
  eip :: u32
  cs :: u32
  eflags :: u32

type_synonym words = "u32 \<Rightarrow> u32"

definition push :: "u32 \<Rightarrow> cpu \<times> words \<Rightarrow> cpu \<times> words" where
  "push w = (\<lambda>(c, m). (c\<lparr>esp := esp c - 4\<rparr>, m(esp c - 4 := w)))"

text \<open>The instructions: an interrupt saves flags, code segment and return address; \<open>pusha\<close> saves the rest.\<close>

definition int_frame :: "cpu \<times> words \<Rightarrow> cpu \<times> words" where
  "int_frame s = push (eip (fst s)) (push (cs (fst s)) (push (eflags (fst s)) s))"

definition pusha :: "cpu \<times> words \<Rightarrow> cpu \<times> words" where
  "pusha s = (let c = fst s in push (edi c) (push (esi c) (push (ebp c) (push (esp c)
     (push (ebx c) (push (edx c) (push (ecx c) (push (eax c) s))))))))"

definition popa :: "words \<Rightarrow> cpu \<Rightarrow> cpu" where
  "popa m c = (let p = esp c in c\<lparr>edi := m p, esi := m (p + 4), ebp := m (p + 8), ebx := m (p + 16), edx := m (p + 20),
     ecx := m (p + 24), eax := m (p + 28), esp := p + 32\<rparr>)"

definition iret :: "words \<Rightarrow> cpu \<Rightarrow> cpu" where
  "iret m c = (let p = esp c in c\<lparr>eip := m p, cs := m (p + 4), eflags := m (p + 8), esp := p + 12\<rparr>)"

text \<open>
  The two halves of a switch: the registers of the interrupted task go to its stack and the stack pointer to the first word
  of its TCB (\<open>tops\<close>); later they come back from there.
\<close>

record port =
  regs :: cpu
  ram :: words
  tops :: "nat \<Rightarrow> u32"

definition save_context :: "nat \<Rightarrow> port \<Rightarrow> port" where
  "save_context t s = (let (c, m) = pusha (int_frame (regs s, ram s)) in s\<lparr>regs := c, ram := m, tops := (tops s)(t := esp c)\<rparr>)"

definition restore_context :: "nat \<Rightarrow> port \<Rightarrow> port" where
  "restore_context t s = s\<lparr>regs := iret (ram s) (popa (ram s) ((regs s)\<lparr>esp := tops s t\<rparr>))\<rparr>"

definition vPortStartFirstTask :: "nat \<Rightarrow> port \<Rightarrow> port" where
  "vPortStartFirstTask pxCurrentTCB' s = restore_context pxCurrentTCB' s"

text \<open>
  The yield interrupt on registers and kernel state together, and the entry and exit of the other
  interrupts: the outermost one moves to the system stack and comes back to the task that is current then, a nested one stays
  on the stack it found. With no current task the code would read through a null pointer (\<open>None\<close>).
\<close>

definition vPortYieldCall_registers :: "kernel \<times> port \<Rightarrow> (kernel \<times> port) option" where
  "vPortYieldCall_registers = (\<lambda>(k, s). case (pxCurrentTCB k, pxCurrentTCB (vPortYieldCall k)) of
     (Some t, Some u) \<Rightarrow> Some (vPortYieldCall k, restore_context u (save_context t s)) | _ \<Rightarrow> None)"

definition vGenerateYieldInterrupt :: "kernel \<times> port \<Rightarrow> (kernel \<times> port) option" where
  "vGenerateYieldInterrupt x = vPortYieldCall_registers x"

definition portFREERTOS_INTERRUPT_ENTRY :: "u32 \<Rightarrow> nat \<Rightarrow> port \<times> u32 \<Rightarrow> port \<times> u32" where
  "portFREERTOS_INTERRUPT_ENTRY ulTopOfSystemStack t = (\<lambda>(s, ulInterruptNesting).
     (if ulInterruptNesting = 0
      then (save_context t s)\<lparr>regs := (regs (save_context t s))\<lparr>esp := ulTopOfSystemStack, ebp := ulTopOfSystemStack\<rparr>\<rparr>
      else (let (c, m) = pusha (int_frame (regs s, ram s)) in s\<lparr>regs := c, ram := m\<rparr>), ulInterruptNesting + 1))"

definition portFREERTOS_INTERRUPT_EXIT :: "nat \<Rightarrow> port \<times> u32 \<Rightarrow> port \<times> u32" where
  "portFREERTOS_INTERRUPT_EXIT t = (\<lambda>(s, ulInterruptNesting).
     (if ulInterruptNesting - 1 = 0 then restore_context t s else s\<lparr>regs := iret (ram s) (popa (ram s) (regs s))\<rparr>,
      ulInterruptNesting - 1))"

definition portINITIAL_EFLAGS :: u32 where
  "portINITIAL_EFLAGS = 0x200"

definition pxPortInitialiseStack :: "u32 \<Rightarrow> u32 \<Rightarrow> u32 \<Rightarrow> u32 \<Rightarrow> u32 \<Rightarrow> words \<Rightarrow> words \<times> u32" where
  "pxPortInitialiseStack prvTaskExitError ulCodeSegment pxTopOfStack pxCode pvParameters m =
     (m(pxTopOfStack := 0, pxTopOfStack - 4 := 0, pxTopOfStack - 8 := pvParameters, pxTopOfStack - 12 := prvTaskExitError,
        pxTopOfStack - 16 := portINITIAL_EFLAGS, pxTopOfStack - 20 := ulCodeSegment, pxTopOfStack - 24 := pxCode,
        pxTopOfStack - 28 := 0xEA, pxTopOfStack - 32 := 0xEC, pxTopOfStack - 36 := 0xED1, pxTopOfStack - 40 := 0xEB1,
        pxTopOfStack - 48 := 0, pxTopOfStack - 52 := 0xE5, pxTopOfStack - 56 := 0xEEEEEEEE),
      pxTopOfStack - 56)"

section \<open>Interrupt tables\<close>

record IDTEntry_t =
  usISRLow :: u16
  usSegmentSelector :: u16
  ucZero :: u8
  ucFlags :: u8
  usISRHigh :: u16

record irqs =
  xInterruptDescriptorTable :: "nat \<Rightarrow> IDTEntry_t"
  xInterruptHandlerTable :: "nat \<Rightarrow> u32"
  idtr :: "u16 \<times> u32"
  apic_writes :: "(u32 \<times> u32) list"
  unhandled :: "u32 list"
  idle_ticks :: u32

definition portNUM_VECTORS :: nat where
  "portNUM_VECTORS = 256"

definition portIDT_FLAGS :: u8 where
  "portIDT_FLAGS = 0x8E"

definition portAPIC_TIMER_INT_VECTOR :: nat where
  "portAPIC_TIMER_INT_VECTOR = 0x25"

definition portAPIC_YIELD_INT_VECTOR :: nat where
  "portAPIC_YIELD_INT_VECTOR = 0x24"

definition portAPIC_LVT_ERROR_VECTOR :: nat where
  "portAPIC_LVT_ERROR_VECTOR = 0xFE"

definition portAPIC_SPURIOUS_INT_VECTOR :: nat where
  "portAPIC_SPURIOUS_INT_VECTOR = 0xFF"

definition portAPIC_MIN_ALLOWABLE_VECTOR :: nat where
  "portAPIC_MIN_ALLOWABLE_VECTOR = 0x20"

definition prvSetInterruptGate :: "u16 \<Rightarrow> nat \<Rightarrow> u32 \<Rightarrow> u8 \<Rightarrow> irqs \<Rightarrow> irqs" where
  "prvSetInterruptGate usCodeSegment ucNumber ulBase ucFlags' s =
     s\<lparr>xInterruptDescriptorTable := (xInterruptDescriptorTable s)(ucNumber :=
        \<lparr>usISRLow = ucast (ulBase AND 0xFFFF), usSegmentSelector = usCodeSegment, ucZero = 0, ucFlags = ucFlags',
         usISRHigh = ucast (drop_bit 16 ulBase AND 0xFFFF)\<rparr>)\<rparr>"

definition fill_gate :: "u16 \<Rightarrow> u32 \<Rightarrow> nat \<Rightarrow> irqs \<Rightarrow> irqs" where
  "fill_gate seg wrapper n s =
     (if usISRLow (xInterruptDescriptorTable s n) = 0 \<and> usISRHigh (xInterruptDescriptorTable s n) = 0
      then prvSetInterruptGate seg n wrapper portIDT_FLAGS s else s)"

definition vPortSetupIDT :: "u16 \<Rightarrow> u32 \<Rightarrow> u32 \<Rightarrow> irqs \<Rightarrow> irqs" where
  "vPortSetupIDT seg vPortCentralInterruptWrapper' table s =
     (fold (fill_gate seg vPortCentralInterruptWrapper') [0..<portNUM_VECTORS] s)
       \<lparr>idtr := (of_nat (8 * portNUM_VECTORS) - 1, table)\<rparr>"

definition write32 :: "u32 \<Rightarrow> u32 \<Rightarrow> irqs \<Rightarrow> irqs" where
  "write32 a w s = s\<lparr>apic_writes := (a, w) # apic_writes s\<rparr>"

text \<open>
  The set-up of the local APIC. Its base address (\<open>configAPIC_BASE\<close>, which is \<open>LAPIC_BASE\<close> of the board), the four handlers and
  the vector of the watchdog are arguments, and so is the content of the logical destination register when it is read back.
\<close>

definition prvSetupTimerInterrupt :: "u32 \<Rightarrow> u16 \<Rightarrow> u32 \<Rightarrow> u32 \<Rightarrow> u32 \<Rightarrow> nat \<Rightarrow> u32 \<Rightarrow> u32 \<Rightarrow> irqs \<Rightarrow> irqs" where
  "prvSetupTimerInterrupt configAPIC_BASE seg errorWrapper yieldCall spurious WDT_VEC wdtHandler ldr s =
     (let s1 = write32 (configAPIC_BASE + 0xD0) 0xFFFFFFFF s;
          s2 = write32 (configAPIC_BASE + 0xD0) ((ldr AND 0x00FFFFFF) OR 1) s1;
          s3 = write32 (configAPIC_BASE + 0x320) (push_bit 16 1) s2;
          s4 = write32 (configAPIC_BASE + 0x340) (push_bit 8 4) s3;
          s5 = write32 (configAPIC_BASE + 0x350) (push_bit 16 1) s4;
          s6 = write32 (configAPIC_BASE + 0x360) (push_bit 16 1) s5;
          s7 = write32 (configAPIC_BASE + 0x80) 0 s6;
          s8 = prvSetInterruptGate seg portAPIC_LVT_ERROR_VECTOR errorWrapper portIDT_FLAGS s7;
          s9 = prvSetInterruptGate seg portAPIC_YIELD_INT_VECTOR yieldCall portIDT_FLAGS s8;
          s10 = prvSetInterruptGate seg portAPIC_SPURIOUS_INT_VECTOR spurious portIDT_FLAGS s9;
          s11 = prvSetInterruptGate seg WDT_VEC wdtHandler portIDT_FLAGS s10;
          s12 = write32 (configAPIC_BASE + 0xF0) (of_nat portAPIC_SPURIOUS_INT_VECTOR OR push_bit 8 1) s11
      in write32 (configAPIC_BASE + 0x370) (of_nat portAPIC_LVT_ERROR_VECTOR) s12)"

definition prvCheckValidityOfVectorNumber :: "nat \<Rightarrow> irqs \<Rightarrow> bool" where
  "prvCheckValidityOfVectorNumber ulVectorNumber s =
     (if ulVectorNumber \<ge> portNUM_VECTORS then False
      else if ulVectorNumber < portAPIC_MIN_ALLOWABLE_VECTOR then False
      else if ulVectorNumber = portAPIC_TIMER_INT_VECTOR then False
      else if ulVectorNumber = portAPIC_YIELD_INT_VECTOR then False
      else if ulVectorNumber = portAPIC_LVT_ERROR_VECTOR then False
      else if ulVectorNumber = portAPIC_SPURIOUS_INT_VECTOR then False
      else xInterruptHandlerTable s ulVectorNumber = 0)"

text \<open>The result of the next two is \<open>xReturn\<close>; \<open>None\<close> is the value of a variable nobody has set.\<close>

definition xPortRegisterCInterruptHandler :: "u32 \<Rightarrow> nat \<Rightarrow> irqs \<Rightarrow> irqs \<times> bool option" where
  "xPortRegisterCInterruptHandler pxHandler ulVectorNumber s =
     (if prvCheckValidityOfVectorNumber ulVectorNumber s
      then (s\<lparr>xInterruptHandlerTable := (xInterruptHandlerTable s)(ulVectorNumber := pxHandler)\<rparr>, Some True)
      else (s, None))"

definition xPortInstallInterruptHandler :: "u16 \<Rightarrow> u32 \<Rightarrow> nat \<Rightarrow> kernel \<times> irqs \<Rightarrow> (kernel \<times> irqs) \<times> bool option" where
  "xPortInstallInterruptHandler seg pxHandler ulVectorNumber = (\<lambda>(k, s).
     if prvCheckValidityOfVectorNumber ulVectorNumber s
     then ((vPortExitCritical (vPortEnterCritical k), prvSetInterruptGate seg ulVectorNumber pxHandler portIDT_FLAGS s), Some True)
     else ((k, s), None))"

definition hpet_timer_init :: "u32 \<Rightarrow> nat \<Rightarrow> (irqs \<Rightarrow> irqs) \<Rightarrow> irqs \<Rightarrow> irqs" where
  "hpet_timer_init hpet_isr HPET_TIMER0_VEC hpet_init s = hpet_init (fst (xPortRegisterCInterruptHandler hpet_isr HPET_TIMER0_VEC s))"

definition vPortAPICErrorHandler :: "u32 \<Rightarrow> irqs \<Rightarrow> irqs" where
  "vPortAPICErrorHandler configAPIC_BASE s = write32 (configAPIC_BASE + 0x280) 0 s"

text \<open>The tables as \<open>xPortStartScheduler\<close> leaves them; the entry points are those of \<^verbatim>\<open>portASM.S\<close>.\<close>

definition start_tables ::
  "u32 \<Rightarrow> u16 \<Rightarrow> u32 \<Rightarrow> u32 \<Rightarrow> u32 \<Rightarrow> u32 \<Rightarrow> u32 \<Rightarrow> nat \<Rightarrow> u32 \<Rightarrow> u32 \<Rightarrow> u32 \<Rightarrow> nat \<Rightarrow> (irqs \<Rightarrow> irqs) \<Rightarrow> irqs \<Rightarrow> irqs" where
  "start_tables configAPIC_BASE seg wrapper table errorWrapper yieldCall spurious WDT_VEC wdtHandler ldr hpet_isr HPET_TIMER0_VEC
     hpet_init s =
     hpet_timer_init hpet_isr HPET_TIMER0_VEC hpet_init
       (prvSetupTimerInterrupt configAPIC_BASE seg errorWrapper yieldCall spurious WDT_VEC wdtHandler ldr
          (vPortSetupIDT seg wrapper table s))"

section \<open>The common interrupt entry\<close>

definition vPortCentralInterruptHandler :: "(u32 \<Rightarrow> kernel \<Rightarrow> kernel) \<Rightarrow> nat \<Rightarrow> kernel \<times> irqs \<Rightarrow> kernel \<times> irqs" where
  "vPortCentralInterruptHandler call ulVector = (\<lambda>(k, s).
     if ulVector < portNUM_VECTORS
     then (if xInterruptHandlerTable s ulVector \<noteq> 0 then (call (xInterruptHandlerTable s ulVector) k, s)
           else (k, s\<lparr>unhandled := of_nat ulVector # unhandled s\<rparr>))
     else (k, s\<lparr>unhandled := of_nat ulVector # unhandled s\<rparr>))"

text \<open>The search through the eight in-service registers of the APIC, from the highest; \<open>isr n\<close> is the \<open>n\<close>-th.\<close>

fun next_isr_long_word :: "(nat \<Rightarrow> u32) \<Rightarrow> nat \<Rightarrow> nat option" where
  "next_isr_long_word isr 0 = None"
| "next_isr_long_word isr (Suc n) =
     (if isr n = 0 then next_isr_long_word isr n else map_option (\<lambda>b. 32 * n + b) (bsr_from 31 (isr n)))"

text \<open>
  The exit, with the nesting count: only the outermost interrupt performs a requested switch.
\<close>

definition portINTERRUPT_EPILOGUE :: "u32 \<Rightarrow> kernel \<Rightarrow> kernel \<times> u32" where
  "portINTERRUPT_EPILOGUE ulInterruptNesting k =
     (let n = ulInterruptNesting - 1
      in (if n = 0 \<and> ulPortYieldPending k then vTaskSwitchContext (k\<lparr>ulPortYieldPending := False\<rparr>) else k, n))"

definition vPortCentralInterruptWrapper ::
  "(u32 \<Rightarrow> kernel \<Rightarrow> kernel) \<Rightarrow> (u32 \<Rightarrow> kernel \<Rightarrow> kernel) \<Rightarrow> (nat \<Rightarrow> u32) \<Rightarrow> kernel \<times> irqs \<Rightarrow> u32 \<Rightarrow> (kernel \<times> irqs) \<times> u32" where
  "vPortCentralInterruptWrapper pm_return_from_idle call isr = (\<lambda>(k, s) ulInterruptNesting.
     let n = ulInterruptNesting + 1;
         (k1, s1) = (if idle_ticks s = 0 then (k, s) else (pm_return_from_idle (idle_ticks s) k, s\<lparr>idle_ticks := 0\<rparr>));
         (k2, s2) = (case next_isr_long_word isr 8 of None \<Rightarrow> (k1, s1) | Some v \<Rightarrow> vPortCentralInterruptHandler call v (k1, s1));
         (k3, n') = portINTERRUPT_EPILOGUE n k2
     in ((k3, s2), n'))"

end
