(* ===== verification/Platform.thy ===== *)
theory Platform
  imports Port "HOL-Library.Monad_Syntax"
begin

unbundle bit_operations_syntax

text \<open>
  The processor set-up of the platform (\<^verbatim>\<open>Platform/x86/Common\<close>): segment descriptors and the GDT, page directory and
  page table, the I/O APIC, the gates of the exceptions, the page fault hook and the walk over the call stack. Constants of the
  board and the page manager, which the repository does not contain, are arguments. Writing outside a table is \<open>None\<close>.
\<close>

section \<open>Segment descriptors\<close>

record tGdtDesc =
  low :: u32
  high :: u32

definition CREATE_GDT_SELECTOR_LOW :: "u32 \<Rightarrow> u32 \<Rightarrow> u32" where
  "CREATE_GDT_SELECTOR_LOW base limit = (drop_bit 12 limit AND 0xFFFF) OR push_bit 16 (base AND 0xFFFF)"

definition CREATE_GDT_SELECTOR_HIGH :: "u32 \<Rightarrow> u32 \<Rightarrow> u32 \<Rightarrow> u32" where
  "CREATE_GDT_SELECTOR_HIGH base limit flags =
     (drop_bit 16 base AND 0xFF) OR (push_bit 8 flags AND 0xFF00) OR (drop_bit 12 limit AND 0xFF0000) OR (base AND 0xFF000000) OR 0xC00000"

definition MAX_GDT_ENTRIES :: nat where
  "MAX_GDT_ENTRIES = 9 + 3"

record gdt =
  GdtEntries :: "tGdtDesc list"
  gdt_limit :: u16
  gdtr_limit :: u16

text \<open>The table with its nine initial entries and three spare ones, which are zero; the symbols of the linker are arguments.\<close>

definition initial_gdt :: "(u32 \<times> u32) \<Rightarrow> (u32 \<times> u32) \<Rightarrow> (u32 \<times> u32) \<Rightarrow> (u32 \<times> u32) \<Rightarrow> u32 \<Rightarrow> u32 \<Rightarrow> gdt" where
  "initial_gdt code data stack tss VTOP_ADDR MMIO_LIMIT =
     (let d = (\<lambda>(l, h). \<lparr>low = l, high = h\<rparr>);
          m = (\<lambda>b l f. \<lparr>low = CREATE_GDT_SELECTOR_LOW b l, high = CREATE_GDT_SELECTOR_HIGH b l f\<rparr>)
      in \<lparr>GdtEntries = [d (0, 0), d code, d data, m VTOP_ADDR 0xC01000 0x9B, m VTOP_ADDR 0xC01000 0x93, d stack,
            m 0 MMIO_LIMIT 0x93, m 0 0xFFFFFFFF 0x93, d tss, d (0, 0), d (0, 0), d (0, 0)],
          gdt_limit = of_nat (8 * (MAX_GDT_ENTRIES - 3)) - 1, gdtr_limit = of_nat (8 * (MAX_GDT_ENTRIES - 3)) - 1\<rparr>)"

definition nanoCpuGdtAdd :: "u32 \<Rightarrow> u32 \<Rightarrow> gdt \<Rightarrow> (gdt \<times> nat) option" where
  "nanoCpuGdtAdd desc1 desc2 g =
     (let index = (unat (gdt_limit g) + 1) div 8
      in if index < length (GdtEntries g)
         then Some (g\<lparr>GdtEntries := (GdtEntries g)[index := \<lparr>low = desc1, high = desc2\<rparr>], gdt_limit := gdt_limit g + 8,
                gdtr_limit := gdt_limit g + 8\<rparr>, (index + 1) * 8)
         else None)"

section \<open>Pages\<close>

record mmu =
  mmuPageDirectory :: "nat \<Rightarrow> u32"
  mmuPageTable :: "nat \<Rightarrow> u32"
  tlb_flushes :: nat
  dram_base :: u32
  page_calls :: "(string \<times> u32 list) list"

definition MMU_PTE_PAGE_MASK :: u32 where
  "MMU_PTE_PAGE_MASK = 0xFFFFF000"

definition MMU_4MB_PDE_PAGE_MASK :: u32 where
  "MMU_4MB_PDE_PAGE_MASK = 0xFFC00000"

definition MMU_ENTRY_PRESENT :: u32 where
  "MMU_ENTRY_PRESENT = 1"

definition MMU_ENTRY_WRITE :: u32 where
  "MMU_ENTRY_WRITE = 2"

definition MMU_ENTRY_DIRTY :: u32 where
  "MMU_ENTRY_DIRTY = 0x40"

definition MMU_4MB_PDE_SET_PS :: u32 where
  "MMU_4MB_PDE_SET_PS = 0x80"

definition MMU_ENTRY_ALLOC_MASK :: u32 where
  "MMU_ENTRY_ALLOC_MASK = 0x200"

text \<open>\<open>MMU_PAGE_NUM\<close> of a loop variable of type \<open>int\<close>: the shift of a negative one is arithmetic.\<close>

definition MMU_PAGE_NUM :: "int \<Rightarrow> nat" where
  "MMU_PAGE_NUM v = nat ((v div 4096) mod 1024)"

text \<open>
  The loops of \<open>mmuMap\<close> and \<open>mmuUnmap\<close>: \<open>v\<close> is a signed 32-bit variable, the comparison with the unsigned end is
  unsigned, and an overflow of \<open>v\<close> is undefined (\<open>None\<close>).
\<close>

function page_loop :: "(nat \<Rightarrow> 'a \<Rightarrow> u32 \<Rightarrow> 'a) \<Rightarrow> int \<Rightarrow> u32 \<Rightarrow> u32 \<Rightarrow> 'a \<Rightarrow> 'a option" where
  "page_loop f v e phys m =
     (if word_of_int v < e
      then (if v + 4096 > 2147483647 then None else page_loop f (v + 4096) e (phys + 4096) (f (MMU_PAGE_NUM v) m phys))
      else Some m)"
  by pat_completeness auto

termination
  by (relation "measure (\<lambda>(f, v, e, phys, m). nat (2147483647 - v))") auto

declare page_loop.simps [simp del]

definition set_page :: "u32 \<Rightarrow> nat \<Rightarrow> mmu \<Rightarrow> u32 \<Rightarrow> mmu" where
  "set_page value i m phys = m\<lparr>mmuPageTable := (mmuPageTable m)(i := value OR (phys AND MMU_PTE_PAGE_MASK))\<rparr>"

definition clear_present :: "nat \<Rightarrow> mmu \<Rightarrow> u32 \<Rightarrow> mmu" where
  "clear_present i m phys = m\<lparr>mmuPageTable := (mmuPageTable m)(i := mmuPageTable m i AND NOT MMU_ENTRY_PRESENT)\<rparr>"

definition invalidateTLB :: "mmu \<Rightarrow> mmu" where
  "invalidateTLB m = m\<lparr>tlb_flushes := Suc (tlb_flushes m)\<rparr>"

definition mmuMap :: "u32 \<Rightarrow> u32 \<Rightarrow> u32 \<Rightarrow> u32 \<Rightarrow> mmu \<Rightarrow> mmu option" where
  "mmuMap virt phys len flags m =
     map_option invalidateTLB (page_loop (set_page (flags OR MMU_ENTRY_ALLOC_MASK)) (sint virt) (virt + len) phys m)"

definition mmuUnmap :: "u32 \<Rightarrow> u32 \<Rightarrow> mmu \<Rightarrow> mmu option" where
  "mmuUnmap virt len m = map_option invalidateTLB (page_loop clear_present (sint virt) (virt + len) 0 m)"

text \<open>The translation; \<open>MMU_PAGE_SHIFT\<close> and \<open>MMU_PAGE_MASK\<close> come from the page manager.\<close>

definition nanoCpuMmuVirtToPhys :: "nat \<Rightarrow> u32 \<Rightarrow> u32 \<Rightarrow> mmu \<Rightarrow> u32 \<Rightarrow> u32" where
  "nanoCpuMmuVirtToPhys MMU_PAGE_SHIFT MMU_PAGE_MASK SRAM_BASE m vAddr =
     (let pdeIdx = unat (drop_bit 22 vAddr);
          PAGE_DIR_4MB_INDEX = unat (drop_bit 22 SRAM_BASE);
          pAddr = (if pdeIdx = PAGE_DIR_4MB_INDEX
                   then (mmuPageDirectory m PAGE_DIR_4MB_INDEX AND MMU_4MB_PDE_PAGE_MASK) OR (vAddr AND NOT MMU_4MB_PDE_PAGE_MASK)
                   else if pdeIdx = 0
                   then push_bit MMU_PAGE_SHIFT (drop_bit 12 (mmuPageTable m (unat (drop_bit 12 vAddr AND 0x3FF))))
                   else - 1)
      in pAddr OR (vAddr AND MMU_PAGE_MASK))"

definition mmuRemoveOneToOneMapping :: "u32 \<Rightarrow> mmu \<Rightarrow> mmu" where
  "mmuRemoveOneToOneMapping SRAM_BASE m = m\<lparr>mmuPageDirectory := (mmuPageDirectory m)(unat (drop_bit 22 SRAM_BASE) := 0)\<rparr>"

text \<open>The bounds of the sections, symbols of the linker.\<close>

record sections =
  bootcode_start :: u32
  bootcode_end :: u32
  bootdata_start :: u32
  bootdata_end :: u32
  stacks_start :: u32
  stacks_end :: u32
  code_start :: u32
  code_end :: u32
  data_start :: u32
  bss_end :: u32
  image_size :: u32
  ish_boot_start :: u32

definition LINEAR_TO_DRAM_PHYS :: "mmu \<Rightarrow> u32 \<Rightarrow> u32" where
  "LINEAR_TO_DRAM_PHYS m addr = (addr AND 0xFFFFF000) + dram_base m"

definition LINEAR_TO_SRAM_PHYS :: "u32 \<Rightarrow> sections \<Rightarrow> u32 \<Rightarrow> u32" where
  "LINEAR_TO_SRAM_PHYS SRAM_BASE x addr = ((addr - ish_boot_start x) AND 0xFFFFF000) + SRAM_BASE"

definition mmuPageTableInit :: "u32 \<Rightarrow> (u32 \<Rightarrow> u32) \<Rightarrow> sections \<Rightarrow> mmu \<Rightarrow> mmu option" where
  "mmuPageTableInit SRAM_BASE ALIGN_UP x m = do {
     m1 \<leftarrow> mmuMap (bootcode_start x) (LINEAR_TO_SRAM_PHYS SRAM_BASE x (bootcode_start x)) (bootcode_end x - bootcode_start x)
            MMU_ENTRY_PRESENT m;
     m2 \<leftarrow> mmuMap (bootdata_start x) (LINEAR_TO_SRAM_PHYS SRAM_BASE x (bootcode_end x)) (bootdata_end x - bootdata_start x)
            (MMU_ENTRY_PRESENT OR MMU_ENTRY_DIRTY OR MMU_ENTRY_WRITE) m1;
     m3 \<leftarrow> mmuMap (stacks_start x) (LINEAR_TO_DRAM_PHYS m2 (stacks_start x)) (stacks_end x - stacks_start x) MMU_ENTRY_WRITE m2;
     m4 \<leftarrow> mmuMap (code_start x) (LINEAR_TO_DRAM_PHYS m3 (code_start x)) (code_end x - code_start x) 0 m3;
     m5 \<leftarrow> mmuMap (data_start x) (LINEAR_TO_DRAM_PHYS m4 (data_start x)) (bss_end x - data_start x) MMU_ENTRY_WRITE m4;
     Some (m5\<lparr>page_calls := page_calls m5 @ [(''dram_mark_busy'', [drop_bit 12 (ALIGN_UP (image_size x))])]\<rparr>)
   }"

text \<open>
  The pages of the boot image are handed to the page manager, which keeps track of the SRAM; the sections come as a list of start,
  end and attributes in the order of the code, with the constants of \<open>page_mgr.h\<close> as attributes, and the memory of the always-on task, unless it has
  a bank of its own, with the number of its page.
\<close>

definition MMU_BCODE_PAGE_NUM :: "sections \<Rightarrow> u32 \<Rightarrow> u32" where
  "MMU_BCODE_PAGE_NUM x addr = (addr - bootcode_start x) div 4096"

definition mmuInitSramRange :: "(u32 \<Rightarrow> u32) \<Rightarrow> (u32 \<Rightarrow> u32) \<Rightarrow> u32 \<Rightarrow> u32 \<Rightarrow> u32 \<Rightarrow> u32 \<Rightarrow> mmu \<Rightarrow> mmu" where
  "mmuInitSramRange ALIGN_DOWN ALIGN_UP sec_start sec_end page flags m =
     (let aligned_sec_start = ALIGN_DOWN sec_start; aligned_sec_end = ALIGN_UP sec_end
      in m\<lparr>page_calls := page_calls m @ [(''alloc_sram'', [page, (aligned_sec_end - aligned_sec_start) div 4096, 0, aligned_sec_start,
           LINEAR_TO_DRAM_PHYS m aligned_sec_start, flags])]\<rparr>)"

definition mmuInitSram :: "(u32 \<Rightarrow> u32) \<Rightarrow> (u32 \<Rightarrow> u32) \<Rightarrow> sections \<Rightarrow> (u32 \<times> u32 \<times> u32) list \<Rightarrow> (u32 \<times> u32 \<times> u32 \<times> u32) option \<Rightarrow>
    mmu \<Rightarrow> mmu" where
  "mmuInitSram ALIGN_DOWN ALIGN_UP x ranges aon m =
     (let m1 = fold (\<lambda>(first, end', attr). mmuInitSramRange ALIGN_DOWN ALIGN_UP first end' (MMU_BCODE_PAGE_NUM x first) attr) ranges m
      in case aon of None \<Rightarrow> m1 | Some (first, end', page, attr) \<Rightarrow> mmuInitSramRange ALIGN_DOWN ALIGN_UP first end' page attr m1)"

text \<open>The page directory as \<open>mmuInit\<close> writes it, and its page table without demand paging.\<close>

definition four_mb_entry :: "u32 \<Rightarrow> u32" where
  "four_mb_entry base = MMU_ENTRY_PRESENT OR MMU_ENTRY_WRITE OR MMU_4MB_PDE_SET_PS OR (base AND MMU_4MB_PDE_PAGE_MASK)"

definition mmuInit_directory :: "u32 \<Rightarrow> u32 \<Rightarrow> u32 \<Rightarrow> mmu \<Rightarrow> mmu" where
  "mmuInit_directory SRAM_BASE AON_BASE mmuPageTablePhys m =
     m\<lparr>mmuPageDirectory := (mmuPageDirectory m)
        (unat (drop_bit 22 SRAM_BASE) := four_mb_entry SRAM_BASE,
         unat (drop_bit 22 AON_BASE) := four_mb_entry AON_BASE,
         0 := MMU_ENTRY_PRESENT OR MMU_ENTRY_WRITE OR (mmuPageTablePhys AND 0xFFFFF000))\<rparr>"

definition static_page :: "u32 \<Rightarrow> u32 \<Rightarrow> u32 \<Rightarrow> nat \<Rightarrow> u32" where
  "static_page SRAM_BASE DATA_CCM_OFFSET stacks page =
     (let value = MMU_ENTRY_PRESENT OR MMU_ENTRY_WRITE OR MMU_ENTRY_ALLOC_MASK; offset = of_nat (page - 1) * 4096
      in if of_nat page * 4096 \<ge> stacks then value OR ((SRAM_BASE + DATA_CCM_OFFSET + offset) AND MMU_PTE_PAGE_MASK)
         else value OR ((SRAM_BASE + offset) AND MMU_PTE_PAGE_MASK))"

definition mmuInit_static :: "u32 \<Rightarrow> u32 \<Rightarrow> u32 \<Rightarrow> u32 \<Rightarrow> u32 \<Rightarrow> u32 \<Rightarrow> mmu \<Rightarrow> mmu" where
  "mmuInit_static SRAM_BASE SRAM_SIZE AON_BASE DATA_CCM_OFFSET mmuPageTablePhys stacks m =
     fold (\<lambda>page m. m\<lparr>mmuPageTable := (mmuPageTable m)(page := static_page SRAM_BASE DATA_CCM_OFFSET stacks page)\<rparr>)
       [1..<unat (SRAM_SIZE div 4096)] (mmuInit_directory SRAM_BASE AON_BASE mmuPageTablePhys m)"

definition mmuInit_demand :: "(mmu \<Rightarrow> mmu) \<Rightarrow> (u32 \<Rightarrow> u32) \<Rightarrow> (u32 \<Rightarrow> u32) \<Rightarrow> u32 \<Rightarrow> u32 \<Rightarrow> u32 \<Rightarrow> sections \<Rightarrow> (u32 \<times> u32 \<times> u32) list \<Rightarrow>
    (u32 \<times> u32 \<times> u32 \<times> u32) option \<Rightarrow> mmu \<Rightarrow> mmu option" where
  "mmuInit_demand pageManagerInit ALIGN_DOWN ALIGN_UP SRAM_BASE AON_BASE mmuPageTablePhys x ranges aon m =
     map_option (mmuInitSram ALIGN_DOWN ALIGN_UP x ranges aon)
       (mmuPageTableInit SRAM_BASE ALIGN_UP x (pageManagerInit (mmuInit_directory SRAM_BASE AON_BASE mmuPageTablePhys m)))"

text \<open>The page fault hook: \<open>None\<close> is the fatal error, which does not return.\<close>

definition demandPgMgrHook :: "(u32 \<Rightarrow> mmu \<Rightarrow> mmu \<times> bool) \<Rightarrow> u32 \<Rightarrow> int \<times> mmu \<Rightarrow> (int \<times> mmu) option" where
  "demandPgMgrHook handler cr2 = (\<lambda>(pf_counter, m).
     if \<not> bit (mmuPageTable m (unat (drop_bit 12 cr2 AND 0x3FF))) 9 then None
     else if pf_counter \<noteq> 0 then None
     else let (m1, served) = handler cr2 m in if served then Some (pf_counter + 1 - 1, m1) else None)"

section \<open>The I/O APIC\<close>

text \<open>The registers are reached by an index of eight bits and keep what is written to them.\<close>

record ioapic =
  ioapic_regs :: "u8 \<Rightarrow> u32"
  ioapic_mask :: "64 word"

record irq_desc_t =
  irq :: nat
  trigger :: u32
  polarity :: u32
  vector :: u32

definition write_ioapic_reg :: "u32 \<Rightarrow> u32 \<Rightarrow> ioapic \<Rightarrow> ioapic" where
  "write_ioapic_reg reg val a = a\<lparr>ioapic_regs := (ioapic_regs a)(ucast reg := val)\<rparr>"

definition read_ioapic_reg :: "u32 \<Rightarrow> ioapic \<Rightarrow> u32" where
  "read_ioapic_reg reg a = ioapic_regs a (ucast reg)"

definition set_ioapic_redtbl_raw :: "u32 \<Rightarrow> nat \<Rightarrow> u32 \<Rightarrow> ioapic \<Rightarrow> ioapic" where
  "set_ioapic_redtbl_raw IOAPIC_IOREDTBL i val a =
     (let redtbl_lo = IOAPIC_IOREDTBL + 2 * of_nat i in write_ioapic_reg (redtbl_lo + 1) 0 (write_ioapic_reg redtbl_lo val a))"

definition set_ioapic_redtbl :: "u32 \<Rightarrow> u32 \<Rightarrow> irq_desc_t \<Rightarrow> ioapic \<Rightarrow> ioapic" where
  "set_ioapic_redtbl IOAPIC_IOREDTBL delivery d a =
     set_ioapic_redtbl_raw IOAPIC_IOREDTBL (irq d) (vector d OR delivery OR polarity d OR trigger d) a"

definition unmask_interrupt :: "u32 \<Rightarrow> u32 \<Rightarrow> nat \<Rightarrow> ioapic \<Rightarrow> ioapic" where
  "unmask_interrupt IOAPIC_IOREDTBL IOAPIC_REDTBL_MASK i a =
     (let val = read_ioapic_reg (IOAPIC_IOREDTBL + 2 * of_nat i) a AND NOT IOAPIC_REDTBL_MASK;
          a1 = set_ioapic_redtbl_raw IOAPIC_IOREDTBL i val a
      in a1\<lparr>ioapic_mask := ioapic_mask a1 OR push_bit i 1\<rparr>)"

definition mask_interrupt :: "u32 \<Rightarrow> u32 \<Rightarrow> nat \<Rightarrow> ioapic \<Rightarrow> ioapic" where
  "mask_interrupt IOAPIC_IOREDTBL IOAPIC_REDTBL_MASK i a =
     (let val = read_ioapic_reg (IOAPIC_IOREDTBL + 2 * of_nat i) a OR IOAPIC_REDTBL_MASK;
          a1 = set_ioapic_redtbl_raw IOAPIC_IOREDTBL i val a
      in a1\<lparr>ioapic_mask := ioapic_mask a1 AND NOT (push_bit i 1)\<rparr>)"

definition initIOApic :: "u32 \<Rightarrow> u32 \<Rightarrow> u32 \<Rightarrow> u32 \<Rightarrow> irq_desc_t list \<Rightarrow> ioapic \<Rightarrow> ioapic" where
  "initIOApic IOAPIC_VERSION IOAPIC_IOREDTBL IOAPIC_REDTBL_MASK delivery system_irqs a =
     (let max_entries = unat (drop_bit 16 (read_ioapic_reg IOAPIC_VERSION a) AND 0xFF);
          a1 = fold (\<lambda>entry. set_ioapic_redtbl_raw IOAPIC_IOREDTBL entry IOAPIC_REDTBL_MASK) [0..<max_entries] a
      in fold (\<lambda>d. set_ioapic_redtbl_raw IOAPIC_IOREDTBL (irq d)
           (vector d OR delivery OR IOAPIC_REDTBL_MASK OR polarity d OR trigger d)) system_irqs a1)"

section \<open>Exceptions\<close>

definition setExceptionGate :: "nat \<Rightarrow> u32 \<Rightarrow> irqs \<Rightarrow> irqs" where
  "setExceptionGate v handler s = prvSetInterruptGate 8 v handler portIDT_FLAGS s"

text \<open>The gates of \<open>setupInitialIDT\<close>: a list of vectors with their wrappers, in the order of the code.\<close>

definition setupInitialIDT :: "(nat \<times> u32) list \<Rightarrow> u32 \<Rightarrow> irqs \<Rightarrow> irqs" where
  "setupInitialIDT wrappers table s =
     (fold (\<lambda>(v, handler). setExceptionGate v handler) wrappers s)\<lparr>idtr := (of_nat (8 * portNUM_VECTORS) - 1, table)\<rparr>"

text \<open>
  The walk over the frames: \<open>n\<close> is the room left in \<open>call_stack\<close>, the result the words written from there on. The last
  return address is written when there is room, and then the end marker.
\<close>

fun get_exc_call_stack :: "words \<Rightarrow> bool \<Rightarrow> nat \<Rightarrow> u32 \<Rightarrow> u32 \<Rightarrow> u32 list" where
  "get_exc_call_stack m initDone 0 ret_addr next_frame = []"
| "get_exc_call_stack m initDone (Suc n) ret_addr next_frame =
     (if next_frame \<noteq> 0 \<and> initDone then ret_addr # get_exc_call_stack m initDone n (m (next_frame + 4)) (m next_frame)
      else ret_addr # (if n = 0 then [] else [0xFFFFFFFF]))"

fun callstack_dump :: "words \<Rightarrow> nat \<Rightarrow> u32 \<Rightarrow> u32 list" where
  "callstack_dump m 0 pEBP = []"
| "callstack_dump m (Suc n) pEBP = (if pEBP \<noteq> 0 then m (pEBP + 4) # callstack_dump m n (m pEBP) else [])"

end
