(* ===== verification/PortOk.thy ===== *)
theory PortOk
  imports Port
begin

unbundle bit_operations_syntax

text \<open>
  A task that is switched out and in again finds its registers as they were, a new task starts at its function with its
  parameter; every vector has a handler once the table is set up, registered handlers are reached and cannot be replaced, and
  a switch that a handler asks for happens when the outermost interrupt ends.
\<close>

section \<open>Contexts\<close>

text \<open>The words of a saved context, and that nobody has written to them.\<close>

definition context_kept :: "nat \<Rightarrow> port \<Rightarrow> port \<Rightarrow> bool" where
  "context_kept t s s' \<longleftrightarrow> tops s' t = tops s t \<and> (\<forall>i < 11. ram s' (tops s t + 4 * of_nat i) = ram s (tops s t + 4 * of_nat i))"

lemma context_keptD:
  assumes "context_kept t s s'"
  shows "tops s' t = tops s t" "ram s' (tops s t) = ram s (tops s t)" "ram s' (tops s t + 4) = ram s (tops s t + 4)"
    "ram s' (tops s t + 8) = ram s (tops s t + 8)" "ram s' (tops s t + 16) = ram s (tops s t + 16)"
    "ram s' (tops s t + 20) = ram s (tops s t + 20)" "ram s' (tops s t + 24) = ram s (tops s t + 24)"
    "ram s' (tops s t + 28) = ram s (tops s t + 28)" "ram s' (tops s t + 32) = ram s (tops s t + 32)"
    "ram s' (tops s t + 36) = ram s (tops s t + 36)" "ram s' (tops s t + 40) = ram s (tops s t + 40)"
proof -
  have a: "ram s' (tops s t + 4 * of_nat i) = ram s (tops s t + 4 * of_nat i)" if "i < 11" for i
    using assms that by (simp add: context_kept_def)
  show "tops s' t = tops s t" using assms by (simp add: context_kept_def)
  show "ram s' (tops s t) = ram s (tops s t)" "ram s' (tops s t + 4) = ram s (tops s t + 4)"
    "ram s' (tops s t + 8) = ram s (tops s t + 8)" "ram s' (tops s t + 16) = ram s (tops s t + 16)"
    "ram s' (tops s t + 20) = ram s (tops s t + 20)" "ram s' (tops s t + 24) = ram s (tops s t + 24)"
    "ram s' (tops s t + 28) = ram s (tops s t + 28)" "ram s' (tops s t + 32) = ram s (tops s t + 32)"
    "ram s' (tops s t + 36) = ram s (tops s t + 36)" "ram s' (tops s t + 40) = ram s (tops s t + 40)"
    using a [of 0] a [of 1] a [of 2] a [of 4] a [of 5] a [of 6] a [of 7] a [of 8] a [of 9] a [of 10] by simp_all
qed

lemma saved_words:
  fixes t s
  defines "c \<equiv> regs s" and "s1 \<equiv> save_context t s"
  shows "tops s1 t = esp c - 44" "ram s1 (esp c - 44) = edi c" "ram s1 (esp c - 40) = esi c" "ram s1 (esp c - 36) = ebp c"
    "ram s1 (esp c - 28) = ebx c" "ram s1 (esp c - 24) = edx c" "ram s1 (esp c - 20) = ecx c" "ram s1 (esp c - 16) = eax c"
    "ram s1 (esp c - 12) = eip c" "ram s1 (esp c - 8) = cs c" "ram s1 (esp c - 4) = eflags c"
  by (simp_all add: s1_def c_def save_context_def pusha_def int_frame_def push_def Let_def split_beta)

lemma context_round_trip:
  assumes "context_kept t (save_context t s) s'"
  shows "regs (restore_context t s') = regs s"
proof -
  note w = saved_words [of t s] and k = context_keptD [OF assms, unfolded saved_words(1)]
  show ?thesis
    by (intro cpu.equality) (use k w in \<open>simp_all add: restore_context_def popa_def iret_def Let_def\<close>)
qed

text \<open>The eleven words a context takes below the stack pointer; another task that saves its own elsewhere leaves them alone.\<close>

definition frame_at :: "u32 \<Rightarrow> u32 list" where
  "frame_at e = map (\<lambda>i. e - 44 + 4 * of_nat i) [0..<11]"

lemma saved_elsewhere: "a \<notin> set (frame_at (esp (regs s))) \<Longrightarrow> ram (save_context u s) a = ram s a"
  by (simp add: frame_at_def save_context_def pusha_def int_frame_def push_def Let_def split_beta upt_rec)

lemma kept_over_save:
  assumes "context_kept t (save_context t s) s'" and "u \<noteq> t"
    and "set (frame_at (esp (regs s))) \<inter> set (frame_at (esp (regs s'))) = {}"
  shows "context_kept t (save_context t s) (save_context u s')"
proof -
  have m: "esp (regs s) - 44 + 4 * of_nat i \<in> set (frame_at (esp (regs s)))" if "i < 11" for i :: nat
    using that by (auto simp: frame_at_def)
  have "ram (save_context u s') (esp (regs s) - 44 + 4 * of_nat i) = ram s' (esp (regs s) - 44 + 4 * of_nat i)" if "i < 11" for i
    using m [OF that] assms(3) saved_elsewhere [of _ s' u] by blast
  moreover have "tops (save_context u s') t = tops s' t" using assms(2) by (simp add: save_context_def Let_def split_beta)
  ultimately show ?thesis using assms(1) by (simp add: context_kept_def saved_words(1))
qed

lemma switch_back:
  assumes "context_kept t (save_context t s) s'" and "pxCurrentTCB k = Some u" and "u \<noteq> t" and "pxCurrentTCB (vPortYieldCall k) = Some t"
    and "set (frame_at (esp (regs s))) \<inter> set (frame_at (esp (regs s'))) = {}"
  shows "\<exists>s''. vPortYieldCall_registers (k, s') = Some (vPortYieldCall k, s'') \<and> regs s'' = regs s"
  using assms(2,4) context_round_trip [OF kept_over_save [OF assms(1,3,5)]] by (simp add: vPortYieldCall_registers_def)

text \<open>Interrupts: the outermost one gives the current task its registers back, a nested one the code it interrupted.\<close>

lemma interrupt_round_trip:
  assumes e: "portFREERTOS_INTERRUPT_ENTRY tos t (s, n) = (s1, n1)"
    and k: "n = 0 \<Longrightarrow> context_kept t s1 s2"
    and b: "n \<noteq> 0 \<Longrightarrow> esp (regs s2) = esp (regs s1) \<and> (\<forall>a \<in> set (frame_at (esp (regs s))). ram s2 a = ram s1 a)"
  shows "n1 = n + 1 \<and> (\<exists>s3. portFREERTOS_INTERRUPT_EXIT t (s2, n1) = (s3, n) \<and> regs s3 = regs s)"
proof (cases "n = 0")
  case True
  then have "context_kept t (save_context t s) s2" using e k by (auto simp: portFREERTOS_INTERRUPT_ENTRY_def context_kept_def)
  then show ?thesis using e True context_round_trip by (auto simp: portFREERTOS_INTERRUPT_ENTRY_def portFREERTOS_INTERRUPT_EXIT_def)
next
  case False
  then have s: "regs s1 = regs (save_context t s)" "ram s1 = ram (save_context t s)" "n1 = n + 1"
    using e by (auto simp: portFREERTOS_INTERRUPT_ENTRY_def save_context_def Let_def split_beta)
  have p: "esp (regs s2) = esp (regs s) - 44"
    using b False s by (simp add: save_context_def pusha_def int_frame_def push_def Let_def split_beta)
  have r: "ram s2 (esp (regs s) - 44 + 4 * of_nat i) = ram (save_context t s) (esp (regs s) - 44 + 4 * of_nat i)" if "i < 11" for i
    using b False s that by (auto simp: frame_at_def)
  let ?s' = "s2\<lparr>tops := (tops s2)(t := esp (regs s) - 44)\<rparr>"
  have "context_kept t (save_context t s) ?s'" using r by (simp add: context_kept_def saved_words(1))
  moreover have "(regs ?s')\<lparr>esp := tops ?s' t\<rparr> = regs s2" using p by simp
  ultimately have "iret (ram s2) (popa (ram s2) (regs s2)) = regs s"
    using context_round_trip [of t s ?s'] by (simp add: restore_context_def)
  then show ?thesis using s False by (simp add: portFREERTOS_INTERRUPT_EXIT_def)
qed

lemma first_run:
  assumes "pxPortInitialiseStack exit_error seg tos code par m = (m', p)" and "tops s t = p" and "ram s = m'"
  defines "c \<equiv> regs (vPortStartFirstTask t s)"
  shows "eip c = code \<and> cs c = seg \<and> eflags c = portINITIAL_EFLAGS \<and> ram s (esp c) = exit_error \<and> ram s (esp c + 4) = par"
proof -
  have "tops s t = tos - 56" "ram s = fst (pxPortInitialiseStack exit_error seg tos code par m)"
    using assms(1-3) by (auto simp: pxPortInitialiseStack_def)
  then show ?thesis
    by (simp add: c_def pxPortInitialiseStack_def vPortStartFirstTask_def restore_context_def popa_def iret_def Let_def)
qed

section \<open>Interrupt tables\<close>

text \<open>The address the processor reads from a gate.\<close>

definition gate_address :: "IDTEntry_t \<Rightarrow> u32" where
  "gate_address g = push_bit 16 (ucast (usISRHigh g)) OR ucast (usISRLow g)"

lemma gate_set: "gate_address (xInterruptDescriptorTable (prvSetInterruptGate seg n h f s) n) = h"
proof (rule bit_word_eqI)
  have m: "(0xFFFF :: u32) = mask 16" by (simp add: mask_eq_exp_minus_1)
  fix i assume "i < LENGTH(32)"
  then show "bit (gate_address (xInterruptDescriptorTable (prvSetInterruptGate seg n h f s) n)) i = bit h i"
    by (cases "i < 16") (auto simp: prvSetInterruptGate_def gate_address_def m bit_simps)
qed

lemma gate_empty: "usISRLow g = 0 \<and> usISRHigh g = 0 \<longleftrightarrow> gate_address g = 0"
proof
  assume z: "gate_address g = 0"
  have "bit (usISRLow g) i = bit (gate_address g) i" "bit (usISRHigh g) i = bit (gate_address g) (16 + i)" if "i < 16" for i
    using that by (auto simp: gate_address_def bit_simps dest: bit_imp_le_length)
  then show "usISRLow g = 0 \<and> usISRHigh g = 0" using z by (auto intro!: bit_word_eqI)
qed (simp add: gate_address_def)

lemma gate_other: "m \<noteq> n \<Longrightarrow> xInterruptDescriptorTable (prvSetInterruptGate seg n h f s) m = xInterruptDescriptorTable s m"
  by (simp add: prvSetInterruptGate_def)

lemma fill_gates:
  assumes "distinct ns"
  shows "gate_address (xInterruptDescriptorTable (fold (fill_gate seg w) ns s) n) =
    (if n \<in> set ns \<and> gate_address (xInterruptDescriptorTable s n) = 0 then w else gate_address (xInterruptDescriptorTable s n))"
  using assms
proof (induction ns arbitrary: s)
  case (Cons k ns)
  have "gate_address (xInterruptDescriptorTable (fill_gate seg w k s) n) =
      (if n = k \<and> gate_address (xInterruptDescriptorTable s n) = 0 then w else gate_address (xInterruptDescriptorTable s n))"
    using gate_set gate_other [of n k] by (auto simp: fill_gate_def gate_empty)
  then show ?case using Cons by auto
qed simp

lemma every_vector_handled:
  "n < portNUM_VECTORS \<Longrightarrow> gate_address (xInterruptDescriptorTable (vPortSetupIDT seg w table s) n) =
     (if gate_address (xInterruptDescriptorTable s n) = 0 then w else gate_address (xInterruptDescriptorTable s n))"
  by (simp add: vPortSetupIDT_def fill_gates)

text \<open>
  After the start every vector leads to a handler: the four of the port to theirs, what was installed before to its
  own, all others to the common entry.
\<close>

lemma started_gates:
  assumes n: "n < portNUM_VECTORS" and d: "WDT_VEC \<notin> {0x24, 0xFE, 0xFF}"
    and h: "\<And>s. xInterruptDescriptorTable (hpet_init s) = xInterruptDescriptorTable s"
  shows "gate_address (xInterruptDescriptorTable
      (start_tables apic seg w table errorWrapper yieldCall spurious WDT_VEC wdtHandler ldr hpet_isr v hpet_init s) n) =
    (if n = 0x24 then yieldCall else if n = 0xFE then errorWrapper else if n = 0xFF then spurious else if n = WDT_VEC then wdtHandler
     else if gate_address (xInterruptDescriptorTable s n) = 0 then w else gate_address (xInterruptDescriptorTable s n))"
proof -
  have w: "xInterruptDescriptorTable (write32 a x z) = xInterruptDescriptorTable z" for a x z by (simp add: write32_def)
  have r: "xInterruptDescriptorTable (fst (xPortRegisterCInterruptHandler a b z)) = xInterruptDescriptorTable z" for a b z
    by (simp add: xPortRegisterCInterruptHandler_def)
  have g: "gate_address (xInterruptDescriptorTable (prvSetInterruptGate seg m a f z) n) =
      (if n = m then a else gate_address (xInterruptDescriptorTable z n))" for m a f z
    using gate_set gate_other [of n m] by auto
  show ?thesis
    unfolding start_tables_def hpet_timer_init_def h r prvSetupTimerInterrupt_def Let_def w g every_vector_handled [OF n]
    using d by (auto simp: portAPIC_YIELD_INT_VECTOR_def portAPIC_LVT_ERROR_VECTOR_def portAPIC_SPURIOUS_INT_VECTOR_def)
qed

text \<open>Registration: a free vector of the application gets the handler; any other is refused and nothing changes.\<close>

definition free_vector :: "nat \<Rightarrow> irqs \<Rightarrow> bool" where
  "free_vector v s \<longleftrightarrow> v \<in> {0x20..<0x100} - {0x24, 0x25, 0xFE, 0xFF} \<and> xInterruptHandlerTable s v = 0"

lemma valid_vector: "prvCheckValidityOfVectorNumber v s \<longleftrightarrow> free_vector v s"
  by (auto simp: prvCheckValidityOfVectorNumber_def free_vector_def portNUM_VECTORS_def portAPIC_MIN_ALLOWABLE_VECTOR_def
      portAPIC_TIMER_INT_VECTOR_def portAPIC_YIELD_INT_VECTOR_def portAPIC_LVT_ERROR_VECTOR_def portAPIC_SPURIOUS_INT_VECTOR_def)

lemma registered_handler_called:
  assumes "free_vector v s" and "h \<noteq> 0"
  shows "\<exists>s'. xPortRegisterCInterruptHandler h v s = (s', Some True) \<and> vPortCentralInterruptHandler call v (k, s') = (call h k, s') \<and>
    (\<forall>h'. xPortRegisterCInterruptHandler h' v s' = (s', None)) \<and> (\<forall>v'. v' \<noteq> v \<longrightarrow> xInterruptHandlerTable s' v' = xInterruptHandlerTable s v')"
proof -
  let ?s' = "s\<lparr>xInterruptHandlerTable := (xInterruptHandlerTable s)(v := h)\<rparr>"
  have "v < portNUM_VECTORS" using assms(1) by (simp add: free_vector_def portNUM_VECTORS_def)
  moreover have "\<not> free_vector v ?s'" using assms(2) by (simp add: free_vector_def)
  ultimately show ?thesis
    using assms by (intro exI [of _ ?s']) (simp add: xPortRegisterCInterruptHandler_def valid_vector vPortCentralInterruptHandler_def)
qed

text \<open>A refused registration leaves the result unset: the caller reads an indeterminate value.\<close>

lemma refused_registration: "\<not> free_vector v s \<Longrightarrow> xPortRegisterCInterruptHandler h v s = (s, None) \<and>
    xPortInstallInterruptHandler seg h v (k, s) = ((k, s), None)"
  by (simp add: xPortRegisterCInterruptHandler_def xPortInstallInterruptHandler_def valid_vector)

section \<open>Interrupts\<close>

text \<open>The vector that is served is the highest one in service.\<close>

definition in_service :: "(nat \<Rightarrow> u32) \<Rightarrow> nat \<Rightarrow> bool" where
  "in_service isr v \<longleftrightarrow> bit (isr (v div 32)) (v mod 32)"

lemma highest_in_service:
  assumes "next_isr_long_word isr n = Some v"
  shows "v < 32 * n \<and> in_service isr v \<and> (\<forall>u. v < u \<and> u < 32 * n \<longrightarrow> \<not> in_service isr u)"
  using assms
proof (induction n)
  case (Suc n)
  show ?case
  proof (cases "isr n = 0")
    case True
    have o: "\<not> in_service isr u" if "32 * n \<le> u" "u < 32 * Suc n" for u
    proof -
      have "u div 32 = n" using that by (intro div_nat_eqI) simp_all
      then show ?thesis using True by (simp add: in_service_def)
    qed
    have i: "v < 32 * n" "in_service isr v" "\<And>u. v < u \<Longrightarrow> u < 32 * n \<Longrightarrow> \<not> in_service isr u"
      using Suc True by simp_all
    have "\<not> in_service isr u" if "v < u" "u < 32 * Suc n" for u
      using o [of u] i(3) [of u] that by (cases "u < 32 * n") simp_all
    then show ?thesis using i(1,2) by simp
  next
    case False
    then obtain b where b: "bsr_from 31 (isr n) = Some b" "v = 32 * n + b" using Suc.prems by auto
    note s = bsr_from_Some [OF b(1)]
    have "\<not> in_service isr u" if "v < u" "u < 32 * Suc n" for u
    proof -
      have n: "u div 32 = n" using that b(2) by (intro div_nat_eqI) simp_all
      have u: "u div 32 = n" "u = 32 * n + u mod 32" using n div_mult_mod_eq [of u 32] by simp_all
      have "b < u mod 32" "u mod 32 \<le> 31" using u(2) that(1) b(2) by simp_all
      then show ?thesis using s u(1) by (simp add: in_service_def)
    qed
    then show ?thesis using s b(2) by (simp add: in_service_def)
  qed
qed simp

lemma none_in_service:
  assumes "next_isr_long_word isr n = None" and "u < 32 * n"
  shows "\<not> in_service isr u"
  using assms
proof (induction n)
  case (Suc n)
  have z: "isr n = 0"
  proof (rule ccontr)
    assume "isr n \<noteq> 0"
    then have "\<forall>j \<le> 31. \<not> bit (isr n) j" using Suc.prems(1) bsr_from_None [of 31 "isr n"] by (simp split: if_splits)
    then have "isr n = 0" by (intro bit_word_eqI) auto
    then show False using \<open>isr n \<noteq> 0\<close> by simp
  qed
  show ?case
  proof (cases "u < 32 * n")
    case True
    then show ?thesis using Suc z by simp
  next
    case False
    then have "u div 32 = n" using Suc.prems(2) by (intro div_nat_eqI) simp_all
    then show ?thesis using z by (simp add: in_service_def)
  qed
qed simp

lemma serves_the_highest:
  assumes "in_service isr v" and "v < 32 * n" and "\<forall>u. v < u \<and> u < 32 * n \<longrightarrow> \<not> in_service isr u"
  shows "next_isr_long_word isr n = Some v"
proof (cases "next_isr_long_word isr n")
  case None
  then show ?thesis using none_in_service assms(1,2) by blast
next
  case (Some w)
  have "w = v" using highest_in_service [OF Some] assms by (cases w v rule: linorder_cases) auto
  then show ?thesis using Some by simp
qed

lemma wrapper_serves:
  assumes "next_isr_long_word isr 8 = Some v" and "v < portNUM_VECTORS" and "xInterruptHandlerTable s v = h" and "h \<noteq> 0" and "idle_ticks s = 0"
  shows "vPortCentralInterruptWrapper pm call isr (k, s) n =
    (let (k', n') = portINTERRUPT_EPILOGUE (n + 1) (call h k) in ((k', s), n'))"
  using assms by (simp add: vPortCentralInterruptWrapper_def vPortCentralInterruptHandler_def Let_def split_beta)

lemma switch_at_exit:
  assumes "kinv {} k" and "uxSchedulerSuspended k = 0" and "gcont k u = Some (Ready p)"
  shows "n \<noteq> 0 \<Longrightarrow> portINTERRUPT_EPILOGUE (n + 1) (portEND_SWITCHING_ISR True k) = (portEND_SWITCHING_ISR True k, n)"
    and "\<exists>t. pxCurrentTCB (fst (portINTERRUPT_EPILOGUE 1 (portEND_SWITCHING_ISR True k))) = Some t \<and>
      highest_ready (fst (portINTERRUPT_EPILOGUE 1 (portEND_SWITCHING_ISR True k))) t"
    and "\<not> ulPortYieldPending k \<Longrightarrow> portINTERRUPT_EPILOGUE 1 (portEND_SWITCHING_ISR False k) = (k, 0)"
proof -
  have "kinv {} (k\<lparr>ulPortYieldPending := False\<rparr>)" using assms(1) by simp
  then show "\<exists>t. pxCurrentTCB (fst (portINTERRUPT_EPILOGUE 1 (portEND_SWITCHING_ISR True k))) = Some t \<and>
      highest_ready (fst (portINTERRUPT_EPILOGUE 1 (portEND_SWITCHING_ISR True k))) t"
    using switch_selects [of "k\<lparr>ulPortYieldPending := False\<rparr>" u p] assms(2,3)
    by (simp add: portINTERRUPT_EPILOGUE_def portEND_SWITCHING_ISR_def Let_def)
qed (simp_all add: portINTERRUPT_EPILOGUE_def portEND_SWITCHING_ISR_def Let_def)

end
