(* ===== verification/PlatformOk.thy ===== *)
theory PlatformOk
  imports Platform PortOk
begin

unbundle bit_operations_syntax

text \<open>
  What the set-up achieves: descriptors carry base and limit as given, mapped pages are translated to
  the physical addresses they were mapped to, the mask kept for the I/O APIC says which interrupts are open, and the
  exception gates installed at boot are still in place when the scheduler has started.
\<close>

section \<open>Descriptors\<close>

text \<open>Base and limit (in pages) as the processor reads them from a descriptor.\<close>

definition descriptor_base :: "tGdtDesc \<Rightarrow> u32" where
  "descriptor_base d = (drop_bit 16 (low d) AND mask 16) OR push_bit 16 (high d AND mask 8) OR (high d AND push_bit 24 (mask 8))"

definition descriptor_limit :: "tGdtDesc \<Rightarrow> u32" where
  "descriptor_limit d = (low d AND mask 16) OR (high d AND push_bit 16 (mask 4))"

lemma descriptor_masks: "(0xFFFF :: u32) = mask 16" "(0xFF :: u32) = mask 8" "(0xFF00 :: u32) = push_bit 8 (mask 8)"
  "(0xFF0000 :: u32) = push_bit 16 (mask 8)" "(0xFF000000 :: u32) = push_bit 24 (mask 8)" "(0xC00000 :: u32) = push_bit 22 (mask 2)"
  by (simp_all add: mask_eq_exp_minus_1 push_bit_eq_mult)

lemma descriptor_round_trip:
  "descriptor_base \<lparr>low = CREATE_GDT_SELECTOR_LOW b l, high = CREATE_GDT_SELECTOR_HIGH b l f\<rparr> = b"
  "descriptor_limit \<lparr>low = CREATE_GDT_SELECTOR_LOW b l, high = CREATE_GDT_SELECTOR_HIGH b l f\<rparr> = drop_bit 12 l"
proof -
  show "descriptor_base \<lparr>low = CREATE_GDT_SELECTOR_LOW b l, high = CREATE_GDT_SELECTOR_HIGH b l f\<rparr> = b"
  proof (rule bit_word_eqI)
    fix i assume "i < LENGTH(32)"
    then have "i < 16 \<or> 16 \<le> i \<and> i < 24 \<or> 24 \<le> i \<and> i < 32" by auto
    then show "bit (descriptor_base \<lparr>low = CREATE_GDT_SELECTOR_LOW b l, high = CREATE_GDT_SELECTOR_HIGH b l f\<rparr>) i = bit b i"
      by (elim disjE) (auto simp: descriptor_base_def CREATE_GDT_SELECTOR_LOW_def CREATE_GDT_SELECTOR_HIGH_def descriptor_masks bit_simps)
  qed
  show "descriptor_limit \<lparr>low = CREATE_GDT_SELECTOR_LOW b l, high = CREATE_GDT_SELECTOR_HIGH b l f\<rparr> = drop_bit 12 l"
  proof (rule bit_word_eqI)
    fix i assume "i < LENGTH(32)"
    then have "i < 16 \<or> 16 \<le> i \<and> i < 20 \<or> 20 \<le> i \<and> i < 32" by auto
    then show "bit (descriptor_limit \<lparr>low = CREATE_GDT_SELECTOR_LOW b l, high = CREATE_GDT_SELECTOR_HIGH b l f\<rparr>) i = bit (drop_bit 12 l) i"
      by (elim disjE) (auto simp: descriptor_limit_def CREATE_GDT_SELECTOR_LOW_def CREATE_GDT_SELECTOR_HIGH_def descriptor_masks bit_simps
        dest: bit_imp_le_length)
  qed
qed

definition gdt_used :: "nat \<Rightarrow> gdt \<Rightarrow> bool" where
  "gdt_used n g \<longleftrightarrow> length (GdtEntries g) = MAX_GDT_ENTRIES \<and> 0 < n \<and> unat (gdt_limit g) + 1 = 8 * n"

lemma initial_gdt_used: "gdt_used 9 (initial_gdt code data stack tss v l)"
  by (simp add: gdt_used_def initial_gdt_def MAX_GDT_ENTRIES_def Let_def)

lemma gdt_add:
  assumes "gdt_used n g"
  shows "n < MAX_GDT_ENTRIES \<Longrightarrow> \<exists>g'. nanoCpuGdtAdd d1 d2 g = Some (g', 8 * (n + 1)) \<and> gdt_used (n + 1) g' \<and>
      GdtEntries g' = (GdtEntries g)[n := \<lparr>low = d1, high = d2\<rparr>]"
    and "n \<ge> MAX_GDT_ENTRIES \<Longrightarrow> nanoCpuGdtAdd d1 d2 g = None"
proof -
  have i: "(unat (gdt_limit g) + 1) div 8 = n" using assms by (simp add: gdt_used_def)
  { assume "n < MAX_GDT_ENTRIES"
    moreover from this have "unat (gdt_limit g + 8) = unat (gdt_limit g) + 8"
      using assms by (subst unat_add_lem [THEN iffD1]) (simp_all add: gdt_used_def MAX_GDT_ENTRIES_def)
    ultimately show "\<exists>g'. nanoCpuGdtAdd d1 d2 g = Some (g', 8 * (n + 1)) \<and> gdt_used (n + 1) g' \<and>
        GdtEntries g' = (GdtEntries g)[n := \<lparr>low = d1, high = d2\<rparr>]"
      using assms i by (simp add: nanoCpuGdtAdd_def gdt_used_def Let_def) }
  { assume "n \<ge> MAX_GDT_ENTRIES"
    then show "nanoCpuGdtAdd d1 d2 g = None" using assms i by (simp add: nanoCpuGdtAdd_def gdt_used_def Let_def) }
qed

section \<open>Pages\<close>

lemma page_loop_fold:
  assumes "0 \<le> v" and "v + 4096 * int n < 2147483647" and "\<forall>k < n. v + 4096 * int k < uint e" and "uint e \<le> v + 4096 * int n"
  shows "page_loop f v e phys m =
    Some (fold (\<lambda>k m. f (MMU_PAGE_NUM (v + 4096 * int k)) m (phys + 4096 * of_nat k)) [0..<n] m)"
  using assms
proof (induction n arbitrary: v phys m)
  case 0
  then have "\<not> word_of_int v < e" by (simp add: word_less_def uint_word_of_int take_bit_int_eq_self)
  then show ?case by (simp add: page_loop.simps)
next
  case (Suc n)
  have l: "word_of_int v < e" using Suc.prems(1,2) spec [OF Suc.prems(3), of 0]
    by (simp add: word_less_def uint_word_of_int take_bit_int_eq_self)
  have k: "\<forall>k < n. v + 4096 + 4096 * int k < uint e" using Suc.prems(3) by (auto simp: algebra_simps dest: spec [of _ "Suc _"])
  have u: "[0..<Suc n] = 0 # map Suc [0..<n]" by (simp add: map_Suc_upt upt_conv_Cons del: upt_Suc)
  have "page_loop f (v + 4096) e (phys + 4096) (f (MMU_PAGE_NUM v) m phys) =
      Some (fold (\<lambda>k m. f (MMU_PAGE_NUM (v + 4096 + 4096 * int k)) m (phys + 4096 + 4096 * of_nat k)) [0..<n] (f (MMU_PAGE_NUM v) m phys))"
    by (rule Suc.IH) (use Suc.prems k in \<open>simp_all add: algebra_simps\<close>)
  then show ?case
    unfolding u using l Suc.prems(2) by (subst page_loop.simps) (simp add: fold_map comp_def algebra_simps)
qed

text \<open>
  A range of the first four megabytes that starts at a page: \<open>a\<close> is the number of its first page and \<open>n\<close> the number of pages it
  touches.
\<close>

definition range_pages :: "u32 \<Rightarrow> u32 \<Rightarrow> nat \<Rightarrow> nat \<Rightarrow> bool" where
  "range_pages virt len a n \<longleftrightarrow> unat virt = 4096 * a \<and> unat virt + unat len \<le> 4194304 \<and> n = (unat len + 4095) div 4096"

lemma page_num: "a + k < 1024 \<Longrightarrow> MMU_PAGE_NUM (4096 * int a + 4096 * int k) = a + k"
proof -
  assume l: "a + k < 1024"
  have "(4096 * int a + 4096 * int k) div 4096 = int (a + k)" by simp
  then show ?thesis using l unfolding MMU_PAGE_NUM_def by (simp add: mod_pos_pos_trivial)
qed

lemma range_loop:
  assumes "range_pages virt len a n"
  shows "page_loop f (sint virt) (virt + len) phys m = Some (fold (\<lambda>k m. f (a + k) m (phys + 4096 * of_nat k)) [0..<n] m)" and "a + n \<le> 1024"
proof -
  have v: "unat virt = 4096 * a" "unat virt + unat len \<le> 4194304" "n = (unat len + 4095) div 4096" using assms by (simp_all add: range_pages_def)
  show an: "a + n \<le> 1024" using v by linarith
  have u: "uint virt = 4096 * int a" using v(1) by (simp add: uint_nat)
  have b: "4096 * int a \<le> 4194304" using v(1,2) by linarith
  have s: "sint virt = 4096 * int a" using b u by (simp add: sint_uint signed_take_bit_int_eq_self)
  have e: "uint (virt + len) = 4096 * int a + int (unat len)"
  proof -
    have "int (unat virt) + int (unat len) \<le> 4194304" using v(2) by linarith
    then have "uint virt + uint len < 2 ^ LENGTH(32)" by simp
    then have "uint (virt + len) = uint virt + uint len" using uint_add_lem by blast
    then show ?thesis using u by simp
  qed
  have "page_loop f (sint virt) (virt + len) phys m =
      Some (fold (\<lambda>k m. f (MMU_PAGE_NUM (sint virt + 4096 * int k)) m (phys + 4096 * of_nat k)) [0..<n] m)"
  proof (rule page_loop_fold)
    have "4096 * k < unat len" if "k < n" for k using that v(3) by linarith
    then show "\<forall>k < n. sint virt + 4096 * int k < uint (virt + len)" unfolding s e by (metis add_less_cancel_left int_ops(7) of_nat_less_iff of_nat_numeral)
    have "unat len \<le> 4096 * n" using v(3) by linarith
    then show "uint (virt + len) \<le> sint virt + 4096 * int n" unfolding s e by linarith
    show "0 \<le> sint virt" "sint virt + 4096 * int n < 2147483647" using s an by simp_all
  qed
  also have "\<dots> = Some (fold (\<lambda>k m. f (a + k) m (phys + 4096 * of_nat k)) [0..<n] m)"
    using an by (intro arg_cong [of _ _ Some] fold_cong) (simp_all add: s page_num)
  finally show "page_loop f (sint virt) (virt + len) phys m = Some (fold (\<lambda>k m. f (a + k) m (phys + 4096 * of_nat k)) [0..<n] m)" .
qed

lemma fold_set_page:
  "mmuPageTable (fold (\<lambda>k m. set_page value (a + k) m (phys + 4096 * of_nat k)) [0..<n] m) i =
     (if a \<le> i \<and> i < a + n then value OR ((phys + 4096 * of_nat (i - a)) AND MMU_PTE_PAGE_MASK) else mmuPageTable m i)"
  by (induction n) (auto simp: set_page_def)

lemma fold_clear:
  "mmuPageTable (fold (\<lambda>k m. clear_present (a + k) m (phys + 4096 * of_nat k)) [0..<n] m) i =
     (if a \<le> i \<and> i < a + n then mmuPageTable m i AND NOT MMU_ENTRY_PRESENT else mmuPageTable m i)"
  by (induction n) (auto simp: clear_present_def)

lemma mapped_table:
  assumes "range_pages virt len a n"
  shows "\<exists>m'. mmuMap virt phys len flags m = Some m' \<and> (\<forall>i. mmuPageTable m' i = (if a \<le> i \<and> i < a + n
    then (flags OR MMU_ENTRY_ALLOC_MASK) OR ((phys + 4096 * of_nat (i - a)) AND MMU_PTE_PAGE_MASK) else mmuPageTable m i))"
  using range_loop(1) [OF assms, of "set_page (flags OR MMU_ENTRY_ALLOC_MASK)" phys m]
  by (auto simp: mmuMap_def invalidateTLB_def fold_set_page)

lemma unmapped_table:
  assumes "range_pages virt len a n"
  shows "\<exists>m'. mmuUnmap virt len m = Some m' \<and> (\<forall>i. mmuPageTable m' i = (if a \<le> i \<and> i < a + n
    then mmuPageTable m i AND NOT MMU_ENTRY_PRESENT else mmuPageTable m i))"
  using range_loop(1) [OF assms, of clear_present 0] fold_clear [of a 0 n m] by (auto simp: mmuUnmap_def invalidateTLB_def)

text \<open>The translation of an address in the first four megabytes, by bits.\<close>

lemma translation:
  assumes "unat v < 4194304" and "unat (drop_bit 22 SRAM_BASE) \<noteq> 0"
  shows "nanoCpuMmuVirtToPhys 12 0xFFF SRAM_BASE m v = (mmuPageTable m (unat v div 4096) AND NOT (mask 12)) OR (v AND mask 12)"
proof -
  have d: "unat (drop_bit 22 v) = 0" unfolding unat_drop_bit_eq using assms(1) by (simp add: drop_bit_eq_div)
  have m: "(0xFFF :: u32) = mask 12" "(0x3FF :: u32) = mask 10" by (simp_all add: mask_eq_exp_minus_1)
  have i: "unat (drop_bit 12 v AND 0x3FF) = unat v div 4096"
    unfolding m(2) take_bit_eq_mask [symmetric] unsigned_take_bit_eq unat_drop_bit_eq
    using assms(1) by (simp add: drop_bit_eq_div take_bit_eq_mod)
  have p: "push_bit 12 (drop_bit 12 w) = w AND NOT (mask 12)" for w :: u32
    by (rule bit_word_eqI) (auto simp: bit_simps)
  show ?thesis using assms(2) by (simp add: nanoCpuMmuVirtToPhys_def Let_def d i p m(1))
qed

lemma entry_page: "flags AND NOT (mask 12) = 0 \<Longrightarrow>
    ((flags OR MMU_ENTRY_ALLOC_MASK) OR (p AND MMU_PTE_PAGE_MASK)) AND NOT (mask 12) = p AND NOT (mask 12)"
proof -
  assume f: "flags AND NOT (mask 12) = 0"
  have c: "MMU_PTE_PAGE_MASK = NOT (mask 12)" "MMU_ENTRY_ALLOC_MASK AND NOT (mask 12) = 0"
    by (simp_all add: MMU_PTE_PAGE_MASK_def MMU_ENTRY_ALLOC_MASK_def mask_eq_exp_minus_1)
  show ?thesis unfolding bit.conj_disj_distrib2 f c by (simp add: and.assoc)
qed

lemma page_sum:
  fixes phys :: u32
  assumes "phys AND mask 12 = 0"
  shows "(phys + 4096 * k) AND NOT (mask 12) = phys + 4096 * k"
proof -
  have d: "4096 dvd x mod 2 ^ LENGTH(32)" if "4096 dvd x" for x :: int using that by (rule dvd_mod) simp
  have "4096 dvd uint phys" using assms and_mask_dvd [of 12 phys] by simp
  moreover have "4096 dvd uint (4096 * k)" unfolding uint_word_ariths by (rule d) simp
  ultimately have "4096 dvd uint (phys + 4096 * k)" unfolding uint_word_ariths(1) by (intro d dvd_add)
  then have z: "take_bit 12 (phys + 4096 * k) = 0" using and_mask_dvd [of 12 "phys + 4096 * k"] by (simp add: take_bit_eq_mask)
  show ?thesis
  proof (rule bit_word_eqI)
    fix i
    have "i < 12 \<Longrightarrow> \<not> bit (phys + 4096 * k) i" using arg_cong [OF z, of "\<lambda>w. bit w i"] by (simp add: bit_take_bit_iff)
    then show "bit ((phys + 4096 * k) AND NOT (mask 12)) i = bit (phys + 4096 * k) i"
      by (auto simp: bit_simps dest: bit_imp_le_length)
  qed
qed

text \<open>A mapped page translates to the physical page it was mapped to, any other as before; taking the mapping away keeps the translation.\<close>

lemma mapped_translates:
  assumes r: "range_pages virt len a n" and f: "flags AND NOT (mask 12) = 0" and p: "phys AND mask 12 = 0"
    and b: "unat (drop_bit 22 SRAM_BASE) \<noteq> 0" and v: "unat v < 4194304"
  shows "\<exists>m'. mmuMap virt phys len flags m = Some m' \<and> nanoCpuMmuVirtToPhys 12 0xFFF SRAM_BASE m' v =
    (if a \<le> unat v div 4096 \<and> unat v div 4096 < a + n then phys + (v - virt) else nanoCpuMmuVirtToPhys 12 0xFFF SRAM_BASE m v)"
proof -
  obtain m' where m': "mmuMap virt phys len flags m = Some m'" "\<And>i. mmuPageTable m' i = (if a \<le> i \<and> i < a + n
      then (flags OR MMU_ENTRY_ALLOC_MASK) OR ((phys + 4096 * of_nat (i - a)) AND MMU_PTE_PAGE_MASK) else mmuPageTable m i)"
    using mapped_table [OF r] by blast
  let ?i = "unat v div 4096"
  show ?thesis
  proof (cases "a \<le> ?i \<and> ?i < a + n")
    case True
    let ?q = "phys + 4096 * of_nat (?i - a)"
    have w: "v = 4096 * of_nat ?i + (v AND mask 12)"
    proof -
      have "unat (take_bit 12 v) = unat v mod 4096" by (simp add: unsigned_take_bit_eq take_bit_eq_mod [of 12 "unat v"])
      moreover have "(of_nat (unat (take_bit 12 v)) :: u32) = take_bit 12 v" by simp
      ultimately have "v AND mask 12 = of_nat (unat v mod 4096)" by (simp only: take_bit_eq_mask)
      moreover have "(of_nat (4096 * (unat v div 4096) + unat v mod 4096) :: u32) = of_nat (unat v)" by (simp only: mult_div_mod_eq)
      then have "v = 4096 * of_nat (unat v div 4096) + of_nat (unat v mod 4096)"
        by (simp only: of_nat_add of_nat_mult of_nat_numeral of_nat_unat ucast_id)
      ultimately show ?thesis by simp
    qed
    have "unat virt = 4096 * a" using r by (simp add: range_pages_def)
    then have "(of_nat (unat virt) :: u32) = of_nat (4096 * a)" by simp
    then have virt: "virt = 4096 * of_nat a" by simp
    have q: "?q AND NOT (mask 12) = ?q" by (rule page_sum [OF p])
    have "nanoCpuMmuVirtToPhys 12 0xFFF SRAM_BASE m' v = (?q AND NOT (mask 12)) OR (v AND mask 12)"
      using translation [OF v b] m'(2) True entry_page [OF f] by simp
    also have "\<dots> = ?q + (v AND mask 12)"
    proof -
      have "(?q AND NOT (mask 12)) AND (v AND mask 12) = 0" by (rule bit_word_eqI) (auto simp: bit_simps)
      from disjunctive_add_eq_or [OF this] show ?thesis by (simp add: q)
    qed
    also have "\<dots> = phys + (v - virt)" using w virt True by (simp add: algebra_simps of_nat_diff)
    finally show ?thesis using m'(1) True by simp
  next
    case False
    then show ?thesis using translation [OF v b] m' by auto
  qed
qed

lemma unmapped_translates:
  assumes r: "range_pages virt len a n" and b: "unat (drop_bit 22 SRAM_BASE) \<noteq> 0" and v: "unat v < 4194304"
  shows "\<exists>m'. mmuUnmap virt len m = Some m' \<and> nanoCpuMmuVirtToPhys 12 0xFFF SRAM_BASE m' v = nanoCpuMmuVirtToPhys 12 0xFFF SRAM_BASE m v \<and>
    (a \<le> unat v div 4096 \<and> unat v div 4096 < a + n \<longrightarrow> \<not> bit (mmuPageTable m' (unat v div 4096)) 0)"
proof -
  have c: "(w AND NOT MMU_ENTRY_PRESENT) AND NOT (mask 12) = w AND NOT (mask 12)" "\<not> bit (w AND NOT MMU_ENTRY_PRESENT) 0" for w
    by (rule bit_word_eqI) (auto simp: bit_simps MMU_ENTRY_PRESENT_def)
  show ?thesis using unmapped_table [OF r, of m] c translation [OF v b] by auto
qed

lemma outside_the_table:
  assumes "unat (drop_bit 22 v) \<noteq> 0" and "unat (drop_bit 22 v) \<noteq> unat (drop_bit 22 SRAM_BASE)"
  shows "nanoCpuMmuVirtToPhys sh k SRAM_BASE m v = - 1"
  using assms by (simp add: nanoCpuMmuVirtToPhys_def Let_def)

lemma sram_is_identity:
  assumes "drop_bit 22 v = drop_bit 22 SRAM_BASE" and "drop_bit 22 AON_BASE \<noteq> drop_bit 22 SRAM_BASE" and "drop_bit 22 SRAM_BASE \<noteq> 0"
  shows "nanoCpuMmuVirtToPhys sh 0xFFF SRAM_BASE (mmuInit_directory SRAM_BASE AON_BASE pt m) v = v"
proof -
  have d: "unat (drop_bit 22 SRAM_BASE) \<noteq> 0" "unat (drop_bit 22 SRAM_BASE) \<noteq> unat (drop_bit 22 AON_BASE)"
    using assms(2,3) by (simp_all add: unat_eq_0) (metis word_unat_eq_iff)
  have m: "(0xFFF :: u32) = mask 12" "MMU_4MB_PDE_PAGE_MASK = NOT (mask 22)"
    by (simp_all add: MMU_4MB_PDE_PAGE_MASK_def mask_eq_exp_minus_1)
  have e: "four_mb_entry SRAM_BASE AND NOT (mask 22) = v AND NOT (mask 22)"
  proof (rule bit_word_eqI)
    fix i
    have h: "bit SRAM_BASE i = bit v i" if "22 \<le> i"
      using that arg_cong [OF assms(1), of "\<lambda>w. bit w (i - 22)"] by (simp add: bit_drop_bit_eq)
    have f: "four_mb_entry SRAM_BASE = 0x83 OR (SRAM_BASE AND NOT (mask 22))"
      by (simp flip: or.assoc add: four_mb_entry_def MMU_ENTRY_PRESENT_def MMU_ENTRY_WRITE_def MMU_4MB_PDE_SET_PS_def m(2))
    have z: "(0x83 :: u32) AND NOT (mask 22) = 0" by (simp add: mask_eq_exp_minus_1)
    have "four_mb_entry SRAM_BASE AND NOT (mask 22) = SRAM_BASE AND NOT (mask 22)"
      unfolding f bit.conj_disj_distrib2 z by (simp add: and.assoc)
    then show "bit (four_mb_entry SRAM_BASE AND NOT (mask 22)) i = bit (v AND NOT (mask 22)) i"
      using h by (auto simp: bit_simps)
  qed
  have "nanoCpuMmuVirtToPhys sh 0xFFF SRAM_BASE (mmuInit_directory SRAM_BASE AON_BASE pt m) v =
      ((v AND NOT (mask 22)) OR (v AND mask 22)) OR (v AND mask 12)"
    using d by (simp add: nanoCpuMmuVirtToPhys_def mmuInit_directory_def Let_def assms(1) m e)
  also have "\<dots> = v" by (rule bit_word_eqI) (auto simp: bit_simps)
  finally show ?thesis .
qed

text \<open>A page fault: on a page that is not allocated, within another fault, or that the page manager cannot serve, it is fatal.\<close>

lemma page_fault:
  "demandPgMgrHook handler cr2 (c, m) = (if bit (mmuPageTable m (unat (drop_bit 12 cr2 AND 0x3FF))) 9 \<and> c = 0 \<and> snd (handler cr2 m)
     then Some (0, fst (handler cr2 m)) else None)"
  by (auto simp: demandPgMgrHook_def split_beta Let_def)

section \<open>The I/O APIC\<close>

text \<open>The table of \<open>N\<close> entries fits the eight-bit index; \<open>ioapic_mask\<close> tells which of them are open.\<close>

abbreviation redirection :: "u32 \<Rightarrow> nat \<Rightarrow> ioapic \<Rightarrow> u32" where
  "redirection R i a \<equiv> read_ioapic_reg (R + 2 * of_nat i) a"

definition ioapic_ok :: "u32 \<Rightarrow> u32 \<Rightarrow> nat \<Rightarrow> ioapic \<Rightarrow> bool" where
  "ioapic_ok R M N a \<longleftrightarrow> (\<forall>i < N. bit (ioapic_mask a) i \<longleftrightarrow> redirection R i a AND M = 0)"

lemma index_value:
  assumes "unat R + 2 * N \<le> 256" and "2 * i + k < 2 * N"
  shows "unat (ucast (R + 2 * of_nat i + of_nat k :: u32) :: u8) = unat R + 2 * i + k"
proof -
  have "R + 2 * of_nat i + of_nat k = of_nat (unat R + 2 * i + k)" by simp
  moreover have "unat (ucast (of_nat (unat R + 2 * i + k) :: u32) :: u8) = unat R + 2 * i + k"
    using assms by (simp add: unsigned_ucast_eq unsigned_of_nat take_bit_nat_eq_self del: of_nat_add of_nat_mult)
  ultimately show ?thesis by simp
qed

lemma index_distinct:
  fixes R :: u32
  assumes f: "unat R + 2 * N \<le> 256" and "i < N" and "j < N"
  shows "(ucast (R + 2 * of_nat i) :: u8) = ucast (R + 2 * of_nat j) \<longleftrightarrow> i = j"
    and "(ucast (R + 2 * of_nat i) :: u8) \<noteq> ucast (R + 2 * of_nat j + 1)"
proof -
  have e: "unat (ucast (R + 2 * of_nat k) :: u8) = unat R + 2 * k" "unat (ucast (R + 2 * of_nat k + 1) :: u8) = unat R + 2 * k + 1"
    if "k < N" for k
  proof -
    have "2 * k + 0 < 2 * N" "2 * k + 1 < 2 * N" using that by linarith+
    from index_value [OF f this(1)] index_value [OF f this(2)]
    show "unat (ucast (R + 2 * of_nat k) :: u8) = unat R + 2 * k" "unat (ucast (R + 2 * of_nat k + 1) :: u8) = unat R + 2 * k + 1"
      by (simp_all only: semiring_1_class.of_nat_simps(1) of_nat_1 add_0_right)
  qed
  note v = e(1) [OF assms(2)] e [OF assms(3)]
  show "(ucast (R + 2 * of_nat i) :: u8) = ucast (R + 2 * of_nat j) \<longleftrightarrow> i = j" unfolding word_unat_eq_iff v by simp
  have "2 * i \<noteq> 2 * j + 1" by presburger
  then show "(ucast (R + 2 * of_nat i) :: u8) \<noteq> ucast (R + 2 * of_nat j + 1)" unfolding word_unat_eq_iff v by simp
qed

lemma redirection_set:
  assumes "unat R + 2 * N \<le> 256" and "i < N" and "j < N"
  shows "redirection R i (set_ioapic_redtbl_raw R j w a) = (if i = j then w else redirection R i a)"
  using index_distinct [OF assms] by (simp add: set_ioapic_redtbl_raw_def write_ioapic_reg_def read_ioapic_reg_def Let_def)

lemma set_raw_mask [simp]: "ioapic_mask (set_ioapic_redtbl_raw R j w a) = ioapic_mask a"
  by (simp add: set_ioapic_redtbl_raw_def write_ioapic_reg_def Let_def)

lemma mask_unmask_ok:
  assumes ok: "ioapic_ok R M N a" and f: "unat R + 2 * N \<le> 256" "N \<le> 64" "M \<noteq> 0" and i: "i < N"
  shows "ioapic_ok R M N (unmask_interrupt R M i a)" "ioapic_ok R M N (mask_interrupt R M i a)"
proof -
  have z: "(w AND NOT M) AND M = 0" "(w OR M) AND M = M" for w by (rule bit_word_eqI, auto simp: bit_simps)+
  show "ioapic_ok R M N (unmask_interrupt R M i a)" "ioapic_ok R M N (mask_interrupt R M i a)"
    unfolding ioapic_ok_def
    using ok f i z redirection_set [OF f(1) _ i]
    by (auto simp: unmask_interrupt_def mask_interrupt_def ioapic_ok_def Let_def bit_simps read_ioapic_reg_def)
qed

lemma all_masked:
  assumes f: "unat R + 2 * N \<le> 256" and "\<forall>(j, w) \<in> set es. j < N \<and> w AND M = M" and "i < N" and "i \<in> fst ` set es \<or> redirection R i a AND M = M"
  shows "redirection R i (fold (\<lambda>(j, w). set_ioapic_redtbl_raw R j w) es a) AND M = M"
  using assms(2,4)
proof (induction es arbitrary: a)
  case (Cons e es)
  obtain j w where e: "e = (j, w)" by force
  have "i \<in> fst ` set es \<or> redirection R i (set_ioapic_redtbl_raw R j w a) AND M = M"
    using Cons.prems redirection_set [OF f assms(3), of j w a] e by auto
  then show ?case using Cons.IH Cons.prems(1) e by simp
qed simp

lemma fold_pairs: "fold (\<lambda>x. g (h x) (k x)) xs = fold (\<lambda>(j, w). g j w) (map (\<lambda>x. (h x, k x)) xs)"
  by (simp add: fold_map comp_def)

lemma raw_entries_mask: "ioapic_mask (fold (\<lambda>(j, w). set_ioapic_redtbl_raw R j w) es a) = ioapic_mask a"
  by (induction es arbitrary: a) auto

lemma init_masks_all:
  assumes f: "unat R + 2 * N \<le> 256" and n: "N = unat (drop_bit 16 (read_ioapic_reg V a) AND 0xFF)" and "M \<noteq> 0" and "ioapic_mask a = 0"
    and "\<forall>d \<in> set irqs. irq d < N"
  shows "ioapic_ok R M N (initIOApic V R M delivery irqs a)"
proof -
  let ?e1 = "map (\<lambda>e. (e, M)) [0..<N]"
    and ?e2 = "map (\<lambda>d. (irq d, vector d OR delivery OR M OR polarity d OR trigger d)) irqs"
  have i: "initIOApic V R M delivery irqs a =
      fold (\<lambda>(j, w). set_ioapic_redtbl_raw R j w) ?e2 (fold (\<lambda>(j, w). set_ioapic_redtbl_raw R j w) ?e1 a)"
    unfolding initIOApic_def n [symmetric] Let_def
    by (simp only: fold_pairs [of "set_ioapic_redtbl_raw R" "\<lambda>x. x" "\<lambda>_. M"] fold_pairs [of "set_ioapic_redtbl_raw R" irq])
  have w: "(x OR d OR M OR y OR z) AND M = M" for x d y z by (rule bit_word_eqI) (auto simp: bit_simps)
  have "redirection R j (initIOApic V R M delivery irqs a) AND M = M" if "j < N" for j
    unfolding i
  proof (rule all_masked [OF f _ that])
    show "\<forall>(j, w) \<in> set ?e2. j < N \<and> w AND M = M" using assms(5) w by auto
    have "redirection R j (fold (\<lambda>(j, w). set_ioapic_redtbl_raw R j w) ?e1 a) AND M = M"
      by (rule all_masked [OF f _ that]) (use that in force)+
    then show "j \<in> fst ` set ?e2 \<or> redirection R j (fold (\<lambda>(j, w). set_ioapic_redtbl_raw R j w) ?e1 a) AND M = M" by blast
  qed
  moreover have "ioapic_mask (initIOApic V R M delivery irqs a) = 0" unfolding i raw_entries_mask by (rule assms(4))
  ultimately show ?thesis using assms(3) by (simp add: ioapic_ok_def)
qed

section \<open>Exceptions\<close>

lemma exception_gates:
  assumes "distinct (map fst ws)"
  shows "gate_address (xInterruptDescriptorTable (fold (\<lambda>(v, h). setExceptionGate v h) ws s) v) =
    (case map_of ws v of None \<Rightarrow> gate_address (xInterruptDescriptorTable s v) | Some h \<Rightarrow> h)"
  using assms
proof (induction ws arbitrary: s)
  case (Cons e ws)
  obtain u h where e: "e = (u, h)" by force
  have g: "gate_address (xInterruptDescriptorTable (setExceptionGate u h s) v) =
      (if v = u then h else gate_address (xInterruptDescriptorTable s v))"
    using gate_set gate_other [of v u] by (auto simp: setExceptionGate_def)
  have "v = u \<Longrightarrow> map_of ws v = None" using Cons.prems e by (simp add: map_of_eq_None_iff)
  then show ?case using Cons g e by (auto split: option.split)
qed simp

text \<open>The wrappers installed at boot are in place after the start of the scheduler, and every other vector has a handler.\<close>

lemma exceptions_survive_the_start:
  assumes ws: "distinct (map fst ws)" "(v, h) \<in> set ws" "h \<noteq> 0" and v: "v < portNUM_VECTORS" "v \<notin> {0x24, 0xFE, 0xFF, WDT_VEC}"
    and d: "WDT_VEC \<notin> {0x24, 0xFE, 0xFF}" and i: "\<And>s. xInterruptDescriptorTable (hpet_init s) = xInterruptDescriptorTable s"
  shows "gate_address (xInterruptDescriptorTable (start_tables apic seg w table err yieldCall spurious WDT_VEC wdt ldr hpet_isr hv hpet_init
    (setupInitialIDT ws table s)) v) = h"
proof -
  have "gate_address (xInterruptDescriptorTable (setupInitialIDT ws table s) v) = h"
    using exception_gates [OF ws(1)] ws(1,2) by (simp add: setupInitialIDT_def)
  then show ?thesis using started_gates [OF v(1) d i] v(2) ws(3) by simp
qed

text \<open>The call stack: the faulting address and the return addresses, cut off at the size of the record, else closed by a marker.\<close>

lemma call_stack: "get_exc_call_stack m True n pc fp = take n (pc # callstack_dump m n fp @ [0xFFFFFFFF])"
  by (induction n arbitrary: pc fp) (auto simp: take_Cons')

lemma call_stack_fits: "length (get_exc_call_stack m d n pc fp) \<le> n \<and> length (callstack_dump m n fp) \<le> n"
proof
  show "length (get_exc_call_stack m d n pc fp) \<le> n" by (induction n arbitrary: pc fp) auto
  show "length (callstack_dump m n fp) \<le> n" by (induction n arbitrary: fp) auto
qed

end
