(* ===== verification/SlotTable.thy ===== *)
theory SlotTable
  imports Prelude
begin

text \<open>
  The contract of a table of numbered slots, which the timer and the GPIO service both hand out to their clients: an
  allocation returns the number of a slot that was free, or -1 when none is, and touches no other slot. What a client relies on
  follows from it once: handles given out one after the other differ, and exactly as many as the table has room for are given out.
\<close>

fun alloc_many :: "('s \<Rightarrow> 's \<times> int) \<Rightarrow> nat \<Rightarrow> 's \<Rightarrow> 's \<times> int list" where
  "alloc_many a 0 s = (s, [])"
| "alloc_many a (Suc n) s = (let (s1, i) = a s; (s2, ids) = alloc_many a n s1 in (s2, i # ids))"

locale slot_table =
  fixes ok :: "'s \<Rightarrow> bool" and used :: "'s \<Rightarrow> nat \<Rightarrow> bool" and capacity :: nat and allocate :: "'s \<Rightarrow> 's \<times> int"
  assumes alloc_free: "\<lbrakk>ok s; j < capacity; \<not> used s j\<rbrakk> \<Longrightarrow> \<exists>i s'. allocate s = (s', int i) \<and> i < capacity \<and> \<not> used s i \<and>
      (\<forall>j. used s' j \<longleftrightarrow> j = i \<or> used s j)"
    and alloc_full: "\<lbrakk>ok s; \<forall>j < capacity. used s j\<rbrakk> \<Longrightarrow> allocate s = (s, -1)"
    and alloc_ok: "ok s \<Longrightarrow> ok (fst (allocate s))"
begin

definition free :: "'s \<Rightarrow> nat set" where
  "free s = {j. j < capacity \<and> \<not> used s j}"

lemma finite_free [simp]: "finite (free s)"
  by (simp add: free_def)

lemma alloc_step:
  assumes "ok s" and "free s \<noteq> {}"
  obtains i s' where "allocate s = (s', int i)" "i \<in> free s" "free s' = free s - {i}" "ok s'"
proof -
  obtain j where "j < capacity" "\<not> used s j" using assms(2) by (auto simp: free_def)
  from alloc_free [OF assms(1) this] obtain i s' where
    a: "allocate s = (s', int i)" "i < capacity" "\<not> used s i" "\<forall>j. used s' j \<longleftrightarrow> j = i \<or> used s j" by blast
  from a(2,3) have "i \<in> free s" by (simp add: free_def)
  moreover have "free s' = free s - {i}" using a(4) by (auto simp: free_def)
  moreover have "ok s'" using alloc_ok [OF assms(1)] a(1) by simp
  ultimately show thesis using a(1) that by blast
qed

lemma handles_distinct:
  assumes "ok s" and "n \<le> card (free s)"
  shows "\<exists>s' ids. alloc_many allocate n s = (s', map int ids) \<and> length ids = n \<and> distinct ids \<and> set ids \<subseteq> free s \<and>
    free s' = free s - set ids \<and> ok s'"
  using assms
proof (induction n arbitrary: s)
  case (Suc n)
  have "card (free s) \<noteq> 0" using Suc.prems(2) by linarith
  then have "free s \<noteq> {}" by force
  from alloc_step [OF Suc.prems(1) this] obtain i s1 where
    a: "allocate s = (s1, int i)" "i \<in> free s" "free s1 = free s - {i}" "ok s1" by blast
  have "n \<le> card (free s1)" using Suc.prems(2) a(2,3) by simp
  from Suc.IH [OF a(4) this] obtain s' js where
    r: "alloc_many allocate n s1 = (s', map int js)" "length js = n" "distinct js" "set js \<subseteq> free s1"
      "free s' = free s1 - set js" "ok s'" by blast
  show ?case
    by (intro exI [of _ s'] exI [of _ "i # js"]) (use a r in auto)
qed simp

lemma table_full: "\<lbrakk>ok s; free s = {}\<rbrakk> \<Longrightarrow> allocate s = (s, -1)"
  by (rule alloc_full) (auto simp: free_def)

end

end
