(* ===== verification/ServiceTimer.thy ===== *)
theory ServiceTimer
  imports SlotTable
begin

text \<open>
  The timer service (\<^verbatim>\<open>services/service_timer.c\<close>): twenty software timers on one hardware timer. The clock
  (\<open>CURRENT_HPET_CYCLE\<close>, the argument \<open>now\<close>), the conversion \<open>US_TO_HPET_CYCLE\<close>, the event flag, the hardware timer and the
  effect of a callback on the service are parameters. What stands between \<open>Take_LOCK\<close> and \<open>Give_LOCK\<close> is one step. A read or
  write outside an array is the outcome \<open>None\<close>.
\<close>

section \<open>State\<close>

type_synonym u64 = "64 word"

record service_timer =
  inited :: bool
  us :: u64
  us_ticks :: u64
  expires :: u64
  timer_cb :: u32
  timer_param :: u32
  one_shot :: bool
  active :: bool

record timer_ctrl =
  module_inited :: bool
  bsp_timer_id :: int
  event :: u32
  lock :: u32
  in_task :: bool

record timer_service =
  controller :: timer_ctrl
  timerset :: "service_timer list"
  signalled :: "u32 list"
  called_back :: "(u32 \<times> u32) list"
  armed :: "u64 list"
  daemons :: nat
  destroyed :: "u32 list"

definition TIMER_NUM_LIMIT :: nat where
  "TIMER_NUM_LIMIT = 20"

definition MASK_START :: u32 where
  "MASK_START = 1"

definition MASK_RESET :: u32 where
  "MASK_RESET = 2"

definition MASK_STOP :: u32 where
  "MASK_STOP = 4"

definition MASK_KILL :: u32 where
  "MASK_KILL = 8"

definition MASK_ISR :: u32 where
  "MASK_ISR = 16"

definition ULONG_MAX :: u64 where
  "ULONG_MAX = 0xFFFFFFFF"

definition ULLONG_MAX :: u64 where
  "ULLONG_MAX = 0xFFFFFFFFFFFFFFFF"

definition zero_timer :: service_timer where
  "zero_timer = \<lparr>inited = False, us = 0, us_ticks = 0, expires = 0, timer_cb = 0, timer_param = 0, one_shot = False, active = False\<rparr>"

definition signal :: "u32 \<Rightarrow> timer_service \<Rightarrow> timer_service" where
  "signal m s = s\<lparr>signalled := signalled s @ [m]\<rparr>"

definition upd_slot :: "nat \<Rightarrow> (service_timer \<Rightarrow> service_timer) \<Rightarrow> timer_service \<Rightarrow> timer_service" where
  "upd_slot i f s = s\<lparr>timerset := (timerset s)[i := f (timerset s ! i)]\<rparr>"

section \<open>Calls of the clients\<close>

fun first_free :: "service_timer list \<Rightarrow> nat \<Rightarrow> int" where
  "first_free [] i = -1"
| "first_free (t # ts) i = (if \<not> inited t then int i else first_free ts (Suc i))"

definition find_free_timer :: "timer_service \<Rightarrow> int" where
  "find_free_timer s = first_free (timerset s) 0"

definition fill_timer :: "(u64 \<Rightarrow> u64) \<Rightarrow> u64 \<Rightarrow> u32 \<Rightarrow> u32 \<Rightarrow> bool \<Rightarrow> service_timer \<Rightarrow> service_timer" where
  "fill_timer US_TO_HPET_CYCLE microseconds callback p o1 t =
     t\<lparr>inited := True, us := microseconds, us_ticks := US_TO_HPET_CYCLE microseconds, expires := 0, timer_cb := callback, timer_param := p,
       one_shot := o1, active := False\<rparr>"

definition service_init_timer :: "(u64 \<Rightarrow> u64) \<Rightarrow> u64 \<Rightarrow> u32 \<Rightarrow> u32 \<Rightarrow> bool \<Rightarrow> timer_service \<Rightarrow> timer_service \<times> int" where
  "service_init_timer cyc microseconds callback p o1 s =
     (if microseconds > ULONG_MAX \<or> callback = 0 then (s, -1)
      else let index = find_free_timer s
           in if index = -1 then (s, -1) else (upd_slot (nat index) (fill_timer cyc microseconds callback p o1) s, index))"

text \<open>\<open>CHECK_TIMER_ID\<close>: the value returned early, or 0 to go on; the array is read at \<open>id\<close> before anything else is known.\<close>

definition CHECK_TIMER_ID :: "int \<Rightarrow> timer_service \<Rightarrow> int option" where
  "CHECK_TIMER_ID i s =
     (if i < 0 \<or> i > int TIMER_NUM_LIMIT then Some (-1)
      else if nat i < length (timerset s) then Some (if inited (timerset s ! nat i) then 0 else -2)
      else None)"

definition checked :: "int \<Rightarrow> (nat \<Rightarrow> timer_service \<Rightarrow> timer_service) \<Rightarrow> timer_service \<Rightarrow> (timer_service \<times> int) option" where
  "checked i f s = (case CHECK_TIMER_ID i s of None \<Rightarrow> None | Some r \<Rightarrow> Some (if r = 0 then (f (nat i) s, 0) else (s, r)))"

definition service_reset_timer :: "(u64 \<Rightarrow> u64) \<Rightarrow> u64 \<Rightarrow> int \<Rightarrow> u64 \<Rightarrow> timer_service \<Rightarrow> (timer_service \<times> int) option" where
  "service_reset_timer cyc now timer_id microseconds = checked timer_id (\<lambda>i s.
     let s1 = upd_slot i (\<lambda>t. t\<lparr>us := microseconds, us_ticks := cyc microseconds, expires := now + cyc microseconds\<rparr>) s
     in if active (timerset s1 ! i) \<and> \<not> in_task (controller s1) then signal MASK_RESET s1 else s1)"

definition service_start_timer :: "u64 \<Rightarrow> int \<Rightarrow> timer_service \<Rightarrow> (timer_service \<times> int) option" where
  "service_start_timer now timer_id = checked timer_id (\<lambda>i s.
     let s1 = upd_slot i (\<lambda>t. t\<lparr>active := True, expires := now + us_ticks t\<rparr>) s
     in if \<not> in_task (controller s1) then signal MASK_START s1 else s1)"

definition service_stop_timer :: "int \<Rightarrow> timer_service \<Rightarrow> (timer_service \<times> int) option" where
  "service_stop_timer timer_id = checked timer_id (\<lambda>i s.
     if active (timerset s ! i)
     then let s1 = upd_slot i (\<lambda>t. t\<lparr>active := False\<rparr>) s in if \<not> in_task (controller s1) then signal MASK_STOP s1 else s1
     else s)"

definition service_kill_timer :: "int \<Rightarrow> timer_service \<Rightarrow> (timer_service \<times> int) option" where
  "service_kill_timer timer_id = checked timer_id (\<lambda>i s.
     if active (timerset s ! i)
     then let s1 = upd_slot i (\<lambda>_. zero_timer) s in if \<not> in_task (controller s1) then signal MASK_KILL s1 else s1
     else s)"

section \<open>The daemon task\<close>

text \<open>One slot of the pass: update, call back (with the lock released), and the minimum of the expiry times seen so far.\<close>

definition daemon_slot :: "(u32 \<Rightarrow> u32 \<Rightarrow> timer_service \<Rightarrow> timer_service) \<Rightarrow> u64 \<Rightarrow> nat \<Rightarrow> timer_service \<times> u64 \<Rightarrow> timer_service \<times> u64" where
  "daemon_slot call curtick i = (\<lambda>(s, minimum).
     let t = timerset s ! i
     in if \<not> inited t \<or> \<not> active t then (s, minimum)
        else let s1 = (if expires t \<le> curtick
                       then let s0 = upd_slot i (\<lambda>t. if one_shot t then t\<lparr>active := False\<rparr> else t\<lparr>expires := curtick + us_ticks t\<rparr>) s;
                                c = timer_cb (timerset s0 ! i); p = timer_param (timerset s0 ! i)
                            in call c p (s0\<lparr>called_back := called_back s0 @ [(c, p)]\<rparr>)
                       else s);
                 t1 = timerset s1 ! i
             in (s1, if active t1 \<and> minimum > expires t1 then expires t1 else minimum))"

definition daemon_pass :: "(u32 \<Rightarrow> u32 \<Rightarrow> timer_service \<Rightarrow> timer_service) \<Rightarrow> u64 \<Rightarrow> timer_service \<Rightarrow> timer_service \<times> u64" where
  "daemon_pass call curtick s = fold (daemon_slot call curtick) [0..<TIMER_NUM_LIMIT] (s, ULLONG_MAX)"

text \<open>
  One iteration, from the return of the wait (\<open>result\<close>) to the next one; the second component of the state is
  \<open>last_expires_set\<close>.
\<close>

definition set_in_task :: "bool \<Rightarrow> timer_service \<Rightarrow> timer_service" where
  "set_in_task b s = s\<lparr>controller := (controller s)\<lparr>in_task := b\<rparr>\<rparr>"

definition daemon_iteration ::
  "(u32 \<Rightarrow> u32 \<Rightarrow> timer_service \<Rightarrow> timer_service) \<Rightarrow> u64 \<Rightarrow> int \<Rightarrow> timer_service \<times> u64 \<Rightarrow> timer_service \<times> u64" where
  "daemon_iteration call now result = (\<lambda>(s, last_expires_set).
     if result \<noteq> 0 then (s, last_expires_set)
     else let (s1, minimum) = daemon_pass call now (set_in_task True s);
              s2 = set_in_task False s1
          in if minimum \<noteq> ULLONG_MAX \<and> last_expires_set \<noteq> minimum then (s2\<lparr>armed := armed s2 @ [minimum]\<rparr>, minimum)
             else (s2, last_expires_set))"

definition bsp_timer_callback :: "timer_service \<Rightarrow> timer_service" where
  "bsp_timer_callback s = signal MASK_ISR s"

section \<open>Initialisation\<close>

text \<open>The results of \<open>event_flag_init_handle\<close> (with the handle), \<open>Create_LOCK\<close> and \<open>bsp_init_timer\<close> are arguments.\<close>

definition service_timer_module_init :: "int \<times> u32 \<Rightarrow> u32 \<Rightarrow> int \<Rightarrow> timer_service \<Rightarrow> timer_service \<times> int" where
  "service_timer_module_init ev lk bsp s =
     (if module_inited (controller s) then (s, -1)
      else let s1 = s\<lparr>controller := \<lparr>module_inited = False, bsp_timer_id = 0, event = 0, lock = 0, in_task = False\<rparr>,
                      timerset := replicate TIMER_NUM_LIMIT zero_timer\<rparr>;
               s2 = s1\<lparr>controller := (controller s1)\<lparr>event := snd ev\<rparr>\<rparr>
           in if fst ev \<noteq> 0 then (s2, -2)
              else let s3 = s2\<lparr>controller := (controller s2)\<lparr>lock := lk\<rparr>\<rparr>
                   in if lk = 0 then (s3\<lparr>destroyed := snd ev # destroyed s3\<rparr>, -3)
                      else let s4 = s3\<lparr>controller := (controller s3)\<lparr>bsp_timer_id := bsp\<rparr>\<rparr>
                           in if bsp = -1 then (s4\<lparr>destroyed := snd ev # destroyed s4\<rparr>, -4)
                              else (s4\<lparr>daemons := Suc (daemons s4), controller := (controller s4)\<lparr>module_inited := True\<rparr>\<rparr>, 0))"

end
