(* ===== verification/ServiceTimerOk.thy ===== *)
theory ServiceTimerOk
  imports ServiceTimer
begin

text \<open>
  The timer service keeps its table well formed, hands out different timers, answers wrong numbers with an error (but reads past
  the table for one of them), and a pass of the daemon calls back exactly the timers that are due and arms the hardware for the
  earliest of the others.
\<close>

section \<open>The table of timers\<close>

definition timers_ok :: "timer_service \<Rightarrow> bool" where
  "timers_ok s \<longleftrightarrow> length (timerset s) = TIMER_NUM_LIMIT \<and> (\<forall>t \<in> set (timerset s). active t \<longrightarrow> inited t)"

abbreviation used_timer :: "timer_service \<Rightarrow> nat \<Rightarrow> bool" where
  "used_timer s j \<equiv> j < TIMER_NUM_LIMIT \<and> inited (timerset s ! j)"

lemma upd_slot_simps [simp]:
  "controller (upd_slot i f s) = controller s" "signalled (upd_slot i f s) = signalled s"
  "called_back (upd_slot i f s) = called_back s" "armed (upd_slot i f s) = armed s"
  "length (timerset (upd_slot i f s)) = length (timerset s)"
  "timerset (upd_slot i f s) ! j = (if j = i \<and> i < length (timerset s) then f (timerset s ! i) else timerset s ! j)"
  by (simp_all add: upd_slot_def) (cases "i < length (timerset s)"; simp add: nth_list_update list_update_beyond)

lemma signal_simps [simp]:
  "timerset (signal m s) = timerset s" "controller (signal m s) = controller s" "called_back (signal m s) = called_back s"
  "armed (signal m s) = armed s" "signalled (signal m s) = signalled s @ [m]"
  by (simp_all add: signal_def)

lemma timers_ok_cong: "timerset s' = timerset s \<Longrightarrow> timers_ok s' = timers_ok s"
  by (simp add: timers_ok_def)

lemma timers_ok_signal [simp]: "timers_ok (signal m s) = timers_ok s"
  by (rule timers_ok_cong) simp

lemma timers_ok_upd:
  assumes "timers_ok s" and "active (f (timerset s ! i)) \<Longrightarrow> inited (f (timerset s ! i))"
  shows "timers_ok (upd_slot i f s)"
  using assms set_update_subset_insert [of "timerset s" i "f (timerset s ! i)"]
  by (fastforce simp: timers_ok_def upd_slot_def)

lemma timers_ok_nth: "\<lbrakk>timers_ok s; i < TIMER_NUM_LIMIT; active (timerset s ! i)\<rbrakk> \<Longrightarrow> inited (timerset s ! i)"
  by (simp add: timers_ok_def)

text \<open>The outcome of \<open>CHECK_TIMER_ID\<close>; the number 20 is let through although the table ends at 19.\<close>

lemma check_timer_id:
  assumes "timers_ok s"
  shows "CHECK_TIMER_ID i s = (if i = 20 then None else if i < 0 \<or> i > 20 then Some (-1)
    else Some (if inited (timerset s ! nat i) then 0 else -2))"
  using assms by (auto simp: CHECK_TIMER_ID_def timers_ok_def TIMER_NUM_LIMIT_def)

lemma checked_outcome:
  assumes "timers_ok s"
  shows "checked i f s = (if i = 20 then None else if i < 0 \<or> i > 20 then Some (s, -1)
    else if inited (timerset s ! nat i) then Some (f (nat i) s, 0) else Some (s, -2))"
  using assms by (simp add: checked_def check_timer_id)

lemma checked_ok:
  assumes "timers_ok s" and "checked i f s = Some (s', r)" and "\<And>j. used_timer s j \<Longrightarrow> timers_ok (f j s)"
  shows "timers_ok s'"
proof (cases "0 \<le> i \<and> i < 20 \<and> inited (timerset s ! nat i)")
  case True
  then have "used_timer s (nat i)" by (simp add: TIMER_NUM_LIMIT_def nat_less_iff)
  then show ?thesis using assms True by (auto simp: checked_outcome)
qed (use assms in \<open>auto simp: checked_outcome split: if_splits\<close>)

lemma calls_keep_timers_ok:
  assumes "timers_ok s"
  shows "service_reset_timer cyc now i m s = Some (s', r) \<Longrightarrow> timers_ok s'"
    and "service_start_timer now i s = Some (s', r) \<Longrightarrow> timers_ok s'"
    and "service_stop_timer i s = Some (s', r) \<Longrightarrow> timers_ok s'"
    and "service_kill_timer i s = Some (s', r) \<Longrightarrow> timers_ok s'"
  unfolding service_reset_timer_def service_start_timer_def service_stop_timer_def service_kill_timer_def
  by (erule checked_ok [OF assms], use assms in \<open>auto simp: Let_def zero_timer_def intro!: timers_ok_upd dest: timers_ok_nth\<close>)+

lemma first_free_spec:
  "first_free ts n = -1 \<and> (\<forall>t \<in> set ts. inited t) \<or>
   (\<exists>i < length ts. first_free ts n = int (n + i) \<and> \<not> inited (ts ! i) \<and> (\<forall>j < i. inited (ts ! j)))"
proof (induction ts arbitrary: n)
  case (Cons t ts)
  show ?case
  proof (cases "inited t")
    case True
    from Cons [of "Suc n"] show ?thesis
    proof
      assume "\<exists>i < length ts. first_free ts (Suc n) = int (Suc n + i) \<and> \<not> inited (ts ! i) \<and> (\<forall>j < i. inited (ts ! j))"
      then obtain i where i: "i < length ts" "first_free ts (Suc n) = int (Suc n + i)" "\<not> inited (ts ! i)" "\<forall>j < i. inited (ts ! j)"
        by blast
      have "\<forall>j < Suc i. inited ((t # ts) ! j)" using True i(4) by (simp add: nth_Cons split: nat.split)
      then show ?thesis using True i by (intro disjI2 exI [of _ "Suc i"]) simp
    qed (use True in simp)
  next
    case False
    then show ?thesis by (intro disjI2 exI [of _ 0]) simp
  qed
qed simp

lemma init_timer_free:
  assumes "timers_ok s" and "m \<le> ULONG_MAX" and "c \<noteq> 0" and "j < TIMER_NUM_LIMIT" and "\<not> inited (timerset s ! j)"
  shows "\<exists>i. service_init_timer cyc m c p b s = (upd_slot i (fill_timer cyc m c p b) s, int i) \<and> i < TIMER_NUM_LIMIT \<and>
    \<not> inited (timerset s ! i)"
proof -
  have l: "length (timerset s) = TIMER_NUM_LIMIT" using assms(1) by (simp add: timers_ok_def)
  then have "\<not> (\<forall>t \<in> set (timerset s). inited t)" using assms(4,5) nth_mem [of j "timerset s"] by auto
  then obtain i where "i < TIMER_NUM_LIMIT" "find_free_timer s = int i" "\<not> inited (timerset s ! i)"
    using first_free_spec [of "timerset s" 0] l by (auto simp: find_free_timer_def)
  then show ?thesis using assms(2,3) by (intro exI [of _ i]) (simp add: service_init_timer_def Let_def not_less)
qed

lemma init_timer_full:
  assumes "timers_ok s" and "\<forall>j < TIMER_NUM_LIMIT. inited (timerset s ! j)"
  shows "service_init_timer cyc m c p b s = (s, -1)"
proof -
  have "find_free_timer s = -1"
    using first_free_spec [of "timerset s" 0] assms by (auto simp: find_free_timer_def timers_ok_def)
  then show ?thesis by (simp add: service_init_timer_def)
qed

lemma init_timer_keeps_ok: "timers_ok s \<Longrightarrow> timers_ok (fst (service_init_timer cyc m c p b s))"
  by (auto simp: service_init_timer_def Let_def fill_timer_def intro!: timers_ok_upd)

text \<open>The service is a slot table, for every request that the parameter check lets through.\<close>

locale timer_request =
  fixes cyc :: "u64 \<Rightarrow> u64" and m :: u64 and c :: u32 and p :: u32 and b :: bool
  assumes period: "m \<le> ULONG_MAX" and callback: "c \<noteq> 0"

sublocale timer_request \<subseteq> slot_table timers_ok used_timer TIMER_NUM_LIMIT "service_init_timer cyc m c p b"
proof
  fix s j assume "timers_ok s" "j < TIMER_NUM_LIMIT" "\<not> used_timer s j"
  then have n: "\<not> inited (timerset s ! j)" and l: "length (timerset s) = TIMER_NUM_LIMIT" by (simp_all add: timers_ok_def)
  obtain i where "service_init_timer cyc m c p b s = (upd_slot i (fill_timer cyc m c p b) s, int i)" "i < TIMER_NUM_LIMIT"
      "\<not> inited (timerset s ! i)"
    using init_timer_free [OF \<open>timers_ok s\<close> period callback \<open>j < TIMER_NUM_LIMIT\<close> n] by blast
  then show "\<exists>i s'. service_init_timer cyc m c p b s = (s', int i) \<and> i < TIMER_NUM_LIMIT \<and> \<not> used_timer s i \<and>
      (\<forall>j. used_timer s' j \<longleftrightarrow> j = i \<or> used_timer s j)"
    using l by (intro exI [of _ i] exI [of _ "upd_slot i (fill_timer cyc m c p b) s"]) (auto simp: fill_timer_def)
next
  fix s assume "timers_ok s" "\<forall>j < TIMER_NUM_LIMIT. used_timer s j"
  then show "service_init_timer cyc m c p b s = (s, -1)" by (intro init_timer_full) auto
next
  fix s assume "timers_ok s"
  then show "timers_ok (fst (service_init_timer cyc m c p b s))" by (rule init_timer_keeps_ok)
qed

interpretation one_shot_ms: timer_request "\<lambda>u. u" 1000 1 0 True
  by unfold_locales (simp_all add: ULONG_MAX_def)

context timer_request
begin

lemma request_numbers:
  assumes "timers_ok s" and "n \<le> card {j. j < TIMER_NUM_LIMIT \<and> \<not> inited (timerset s ! j)}"
  shows "\<exists>s' ids. alloc_many (service_init_timer cyc m c p b) n s = (s', map int ids) \<and> length ids = n \<and> distinct ids \<and>
    (\<forall>j \<in> set ids. j < TIMER_NUM_LIMIT \<and> \<not> inited (timerset s ! j))"
proof -
  have f: "free s = {j. j < TIMER_NUM_LIMIT \<and> \<not> inited (timerset s ! j)}" by (auto simp: free_def)
  obtain s' ids where "alloc_many (service_init_timer cyc m c p b) n s = (s', map int ids)" "length ids = n" "distinct ids" "set ids \<subseteq> free s"
    using handles_distinct [OF assms(1), of n] assms(2) f by auto
  then show ?thesis unfolding f by blast
qed

end

lemma requests_distinct:
  assumes "timers_ok s" and "m \<le> ULONG_MAX" and "c \<noteq> 0" and "n \<le> card {j. j < TIMER_NUM_LIMIT \<and> \<not> inited (timerset s ! j)}"
  shows "\<exists>s' ids. alloc_many (service_init_timer cyc m c p b) n s = (s', map int ids) \<and> length ids = n \<and> distinct ids \<and>
    (\<forall>j \<in> set ids. j < TIMER_NUM_LIMIT \<and> \<not> inited (timerset s ! j))"
proof -
  have "timer_request m c" using assms(2,3) by unfold_locales
  then show ?thesis by (rule timer_request.request_numbers [OF _ assms(1,4)])
qed

text \<open>Killing gives the slot back only while the timer is active.\<close>

lemma kill_active:
  assumes "timers_ok s" and "i < TIMER_NUM_LIMIT" and "active (timerset s ! i)"
  shows "\<exists>s'. service_kill_timer (int i) s = Some (s', 0) \<and> timerset s' = (timerset s)[i := zero_timer]"
  using assms timers_ok_nth [OF assms]
  by (auto simp: service_kill_timer_def checked_outcome TIMER_NUM_LIMIT_def Let_def signal_def upd_slot_def)

lemma kill_inactive:
  assumes "timers_ok s" and "i < TIMER_NUM_LIMIT" and "inited (timerset s ! i)" and "\<not> active (timerset s ! i)"
  shows "service_kill_timer (int i) s = Some (s, 0)"
  using assms by (auto simp: service_kill_timer_def checked_outcome TIMER_NUM_LIMIT_def)

section \<open>A pass of the daemon\<close>

definition timer_due :: "u64 \<Rightarrow> service_timer \<Rightarrow> bool" where
  "timer_due now t \<longleftrightarrow> inited t \<and> active t \<and> expires t \<le> now"

definition serviced :: "u64 \<Rightarrow> service_timer \<Rightarrow> service_timer" where
  "serviced now t = (if timer_due now t then (if one_shot t then t\<lparr>active := False\<rparr> else t\<lparr>expires := now + us_ticks t\<rparr>) else t)"

definition earliest :: "service_timer list \<Rightarrow> u64" where
  "earliest ts = fold (\<lambda>t e. if inited t \<and> active t then min e (expires t) else e) ts ULLONG_MAX"

definition quiet_callbacks :: "(u32 \<Rightarrow> u32 \<Rightarrow> timer_service \<Rightarrow> timer_service) \<Rightarrow> bool" where
  "quiet_callbacks call \<longleftrightarrow> (\<forall>c p s. timerset (call c p s) = timerset s \<and> controller (call c p s) = controller s \<and>
     called_back (call c p s) = called_back s \<and> armed (call c p s) = armed s \<and> signalled (call c p s) = signalled s)"

lemma slot_outcome:
  fixes now e :: u64
  assumes q: "quiet_callbacks call" and i: "i < length (timerset s)"
  defines "t \<equiv> timerset s ! i"
  defines "r \<equiv> daemon_slot call now i (s, e)"
  shows "timerset (fst r) = (timerset s)[i := serviced now t]"
    and "called_back (fst r) = called_back s @ (if timer_due now t then [(timer_cb t, timer_param t)] else [])"
    and "snd r = (if inited (serviced now t) \<and> active (serviced now t) then min e (expires (serviced now t)) else e)"
    and "controller (fst r) = controller s" and "armed (fst r) = armed s" and "signalled (fst r) = signalled s"
  using q i unfolding r_def t_def
  by (auto simp: daemon_slot_def Let_def timer_due_def serviced_def quiet_callbacks_def upd_slot_def min_def)

lemma pass_prefix:
  fixes now :: u64
  assumes q: "quiet_callbacks call" and n: "n \<le> length (timerset s)"
  defines "r \<equiv> fold (daemon_slot call now) [0..<n] (s, ULLONG_MAX)"
  shows "timerset (fst r) = map (serviced now) (take n (timerset s)) @ drop n (timerset s) \<and>
    called_back (fst r) = called_back s @ map (\<lambda>t. (timer_cb t, timer_param t)) (filter (timer_due now) (take n (timerset s))) \<and>
    snd r = earliest (map (serviced now) (take n (timerset s))) \<and>
    controller (fst r) = controller s \<and> armed (fst r) = armed s \<and> signalled (fst r) = signalled s"
  using n unfolding r_def
proof (induction n)
  case (Suc n)
  let ?r = "fold (daemon_slot call now) [0..<n] (s, ULLONG_MAX)" and ?ts = "timerset s"
  have ih: "timerset (fst ?r) = map (serviced now) (take n ?ts) @ drop n ?ts"
    "called_back (fst ?r) = called_back s @ map (\<lambda>t. (timer_cb t, timer_param t)) (filter (timer_due now) (take n ?ts))"
    "snd ?r = earliest (map (serviced now) (take n ?ts))"
    "controller (fst ?r) = controller s" "armed (fst ?r) = armed s" "signalled (fst ?r) = signalled s" using Suc by simp_all
  have l: "n < length ?ts" using Suc.prems by simp
  have t: "timerset (fst ?r) ! n = ?ts ! n" and n: "n < length (timerset (fst ?r))" using ih(1) l by (simp_all add: nth_append)
  have k: "take (Suc n) ?ts = take n ?ts @ [?ts ! n]" and d: "drop n ?ts = ?ts ! n # drop (Suc n) ?ts"
    using l by (simp_all add: take_Suc_conv_app_nth Cons_nth_drop_Suc)
  note o = slot_outcome [OF q n, of now "snd ?r", unfolded t prod.collapse]
  have "(timerset (fst ?r))[n := serviced now (?ts ! n)] = map (serviced now) (take (Suc n) ?ts) @ drop (Suc n) ?ts"
    using l unfolding ih(1) k d by (simp add: list_update_append)
  moreover have "earliest (map (serviced now) (take (Suc n) ?ts)) =
      (if inited (serviced now (?ts ! n)) \<and> active (serviced now (?ts ! n))
       then min (snd ?r) (expires (serviced now (?ts ! n))) else snd ?r)"
    unfolding k ih(3) by (simp add: earliest_def)
  ultimately show ?case using ih o by (simp add: k)
qed (simp add: earliest_def)

lemma earliest_below:
  assumes "t \<in> set ts" and "inited t" and "active t"
  shows "earliest ts \<le> expires t"
proof -
  have m: "fold (\<lambda>t e. if inited t \<and> active t then min e (expires t) else e) us e \<le> e" for us e
    by (induction us arbitrary: e) (auto intro: order_trans [OF _ min.cobounded1] split: if_splits)
  have "fold (\<lambda>t e. if inited t \<and> active t then min e (expires t) else e) ts e \<le> expires t" for e
    using assms
  proof (induction ts arbitrary: e)
    case (Cons a ts)
    then show ?case using m [of ts "min e (expires t)"] by (cases "a = t") (auto simp: min_def intro: order_trans)
  qed simp
  then show ?thesis by (simp add: earliest_def)
qed

lemma earliest_attained:
  "earliest ts = ULLONG_MAX \<or> (\<exists>t \<in> set ts. inited t \<and> active t \<and> expires t = earliest ts)"
proof -
  have "fold (\<lambda>t e. if inited t \<and> active t then min e (expires t) else e) ts e = e \<or>
    (\<exists>t \<in> set ts. inited t \<and> active t \<and> expires t = fold (\<lambda>t e. if inited t \<and> active t then min e (expires t) else e) ts e)" for e
  proof (induction ts arbitrary: e)
    case (Cons a ts)
    show ?case using Cons [of e] Cons [of "min e (expires a)"] by (auto simp: min_def split: if_splits)
  qed simp
  then show ?thesis by (simp add: earliest_def)
qed

lemma pass_outcome:
  assumes "quiet_callbacks call" and "timers_ok s" and "daemon_iteration call now 0 (s, l0) = (s', l1)"
  shows "timerset s' = map (serviced now) (timerset s)"
    and "called_back s' = called_back s @ map (\<lambda>t. (timer_cb t, timer_param t)) (filter (timer_due now) (timerset s))"
    and "earliest (timerset s') \<noteq> ULLONG_MAX \<Longrightarrow> l1 = earliest (timerset s')"
    and "armed s' = armed s @ (if earliest (timerset s') \<noteq> ULLONG_MAX \<and> l0 \<noteq> earliest (timerset s') then [earliest (timerset s')] else [])"
    and "\<not> in_task (controller s')" and "signalled s' = signalled s"
proof -
  have l: "length (timerset (set_in_task True s)) = TIMER_NUM_LIMIT" using assms(2) by (simp add: timers_ok_def set_in_task_def)
  have t: "timerset (set_in_task b x) = timerset x" "called_back (set_in_task b x) = called_back x" "armed (set_in_task b x) = armed x"
    "signalled (set_in_task b x) = signalled x" for b x
    by (simp_all add: set_in_task_def)
  note r = pass_prefix [OF assms(1), of TIMER_NUM_LIMIT "set_in_task True s" now, folded daemon_pass_def, unfolded t]
  have r': "timerset (fst (daemon_pass call now (set_in_task True s))) = map (serviced now) (timerset s)"
    "called_back (fst (daemon_pass call now (set_in_task True s))) =
       called_back s @ map (\<lambda>t. (timer_cb t, timer_param t)) (filter (timer_due now) (timerset s))"
    "snd (daemon_pass call now (set_in_task True s)) = earliest (map (serviced now) (timerset s))"
    "armed (fst (daemon_pass call now (set_in_task True s))) = armed s"
    "signalled (fst (daemon_pass call now (set_in_task True s))) = signalled s"
    using r l t(1) [of True s] by simp_all
  note d = assms(3) [unfolded daemon_iteration_def, simplified, unfolded split_beta Let_def r'(3)]
  show s: "timerset s' = map (serviced now) (timerset s)" using d r'(1) t(1) by (auto split: if_splits)
  show "called_back s' = called_back s @ map (\<lambda>t. (timer_cb t, timer_param t)) (filter (timer_due now) (timerset s))"
    using d r'(2) t(2) by (auto split: if_splits)
  show "earliest (timerset s') \<noteq> ULLONG_MAX \<Longrightarrow> l1 = earliest (timerset s')" using d s by (auto split: if_splits)
  show "armed s' = armed s @ (if earliest (timerset s') \<noteq> ULLONG_MAX \<and> l0 \<noteq> earliest (timerset s') then [earliest (timerset s')] else [])"
    using d s r'(4) t(3) by (auto split: if_splits)
  show "\<not> in_task (controller s')" using d by (auto simp: set_in_task_def split: if_splits)
  show "signalled s' = signalled s" using d r'(5) t(4) by (auto split: if_splits)
qed

text \<open>
  A callback that starts a timer the pass has already gone by: nobody is signalled, because the daemon is at work, and
  the hardware is not armed for it.
\<close>

lemma idle_slots: "(\<forall>k \<in> set ks. \<not> active (timerset s ! k)) \<Longrightarrow> fold (daemon_slot call now) ks (s, e) = (s, e)"
  by (induction ks) (simp_all add: daemon_slot_def Let_def)

lemma start_in_task:
  assumes "timers_ok x" and "in_task (controller x)" and "j < TIMER_NUM_LIMIT" and "inited (timerset x ! j)"
  shows "service_start_timer now (int j) x = Some (upd_slot j (\<lambda>t. t\<lparr>active := True, expires := now + us_ticks t\<rparr>) x, 0)"
  using assms by (simp add: service_start_timer_def checked_outcome Let_def TIMER_NUM_LIMIT_def)

lemma restart_slot:
  assumes ok: "timers_ok x" and task: "in_task (controller x)" and i: "i < TIMER_NUM_LIMIT" and j: "j < i"
    and ti: "inited (timerset x ! i)" "active (timerset x ! i)" "one_shot (timerset x ! i)" "expires (timerset x ! i) \<le> now"
    and tj: "inited (timerset x ! j)"
  defines "call \<equiv> \<lambda>c p y. fst (the (service_start_timer now (int j) y))"
  shows "\<exists>y. daemon_slot call now i (x, e) = (y, e) \<and> active (timerset y ! j) \<and> armed y = armed x \<and> signalled y = signalled x \<and>
    (\<forall>k > i. timerset y ! k = timerset x ! k)"
proof -
  let ?z = "(upd_slot i (\<lambda>t. if one_shot t then t\<lparr>active := False\<rparr> else t\<lparr>expires := now + us_ticks t\<rparr>) x)
      \<lparr>called_back := called_back x @ [(timer_cb (timerset x ! i), timer_param (timerset x ! i))]\<rparr>"
  let ?y = "upd_slot j (\<lambda>t. t\<lparr>active := True, expires := now + us_ticks t\<rparr>) ?z"
  have l: "length (timerset x) = TIMER_NUM_LIMIT" using ok by (simp add: timers_ok_def)
  have z: "timerset ?z = (timerset x)[i := (timerset x ! i)\<lparr>active := False\<rparr>]" "controller ?z = controller x"
    using ti(3) by (simp_all add: upd_slot_def)
  have "timers_ok (upd_slot i (\<lambda>t. if one_shot t then t\<lparr>active := False\<rparr> else t\<lparr>expires := now + us_ticks t\<rparr>) x)"
    by (rule timers_ok_upd [OF ok]) (simp add: ti(3))
  then have "timers_ok ?z" by (simp add: timers_ok_def)
  then have c: "service_start_timer now (int j) ?z = Some (?y, 0)"
    using start_in_task [of ?z j now] z task i j tj by simp
  have "daemon_slot call now i (x, e) = (?y, e)"
    using ti i j l c by (simp add: daemon_slot_def call_def Let_def)
  then show ?thesis using i j l by (intro exI [of _ ?y]) simp
qed

lemma restart_is_lost:
  assumes ok: "timers_ok s" and i: "i < TIMER_NUM_LIMIT" and j: "j < i"
    and ti: "active (timerset s ! i)" "one_shot (timerset s ! i)" "expires (timerset s ! i) \<le> now"
    and tj: "inited (timerset s ! j)" and others: "\<forall>k < TIMER_NUM_LIMIT. k \<noteq> i \<longrightarrow> \<not> active (timerset s ! k)"
  shows "\<exists>s'. daemon_iteration (\<lambda>c p y. fst (the (service_start_timer now (int j) y))) now 0 (s, l0) = (s', l0) \<and>
    active (timerset s' ! j) \<and> armed s' = armed s \<and> signalled s' = signalled s"
proof -
  let ?call = "\<lambda>(c :: u32) (p :: u32) y. fst (the (service_start_timer now (int j) y))" and ?x = "set_in_task True s"
  have x: "timerset ?x = timerset s" "armed ?x = armed s" "signalled ?x = signalled s" "in_task (controller ?x)"
    by (simp_all add: set_in_task_def)
  have okx: "timers_ok ?x" using ok x(1) by (simp add: timers_ok_def)
  have u: "[0..<TIMER_NUM_LIMIT] = [0..<i] @ i # [Suc i..<TIMER_NUM_LIMIT]"
    using i upt_add_eq_append [of 0 i "TIMER_NUM_LIMIT - i"] by (simp add: upt_conv_Cons)
  have b: "fold (daemon_slot ?call now) [0..<i] (?x, ULLONG_MAX) = (?x, ULLONG_MAX)"
    by (rule idle_slots) (use others i x(1) in simp)
  obtain y where y: "daemon_slot ?call now i (?x, ULLONG_MAX) = (y, ULLONG_MAX)" "active (timerset y ! j)" "armed y = armed s"
      "signalled y = signalled s" "\<forall>k > i. timerset y ! k = timerset s ! k"
    using restart_slot [OF okx x(4) i j, of now ULLONG_MAX] timers_ok_nth [OF ok i ti(1)] ti tj x by auto
  have a: "fold (daemon_slot ?call now) [Suc i..<TIMER_NUM_LIMIT] (y, ULLONG_MAX) = (y, ULLONG_MAX)"
    by (rule idle_slots) (use others y(5) in simp)
  have "daemon_pass ?call now ?x = (y, ULLONG_MAX)" unfolding daemon_pass_def u by (simp add: b y(1) a)
  then have "daemon_iteration ?call now 0 (s, l0) = (set_in_task False y, l0)" by (simp add: daemon_iteration_def)
  then show ?thesis using y by (intro exI [of _ "set_in_task False y"]) (simp add: set_in_task_def)
qed

end
