(* ===== verification/ServiceGpio.thy ===== *)
theory ServiceGpio
  imports SlotTable
begin

unbundle bit_operations_syntax

text \<open>
  The GPIO service (\<^verbatim>\<open>services/service_gpio.c\<close>): up to twelve clients share the pins of one driver. Parameters are the number of
  pins (\<open>ISH_PIN_NUM\<close>), \<open>FIND_FREE_ID\<close>, and the world of the pins \<open>'e\<close> with the level of a pin (\<open>True\<close> is
  \<open>GPIO_ACTIVE_HIGH\<close>) and the effect and result of a top half. Calls of the driver and signals to clients are recorded.
  What stands between \<open>Take_LOCK\<close> and \<open>Give_LOCK\<close> is one step.
\<close>

section \<open>State\<close>

datatype gpio_interrupt_mode_e = GPIO_INT_MODE_LOW_LEVEL_SW | GPIO_INT_MODE_FALLING_EDGE | GPIO_INT_MODE_HIGH_LEVEL_SW
  | GPIO_INT_MODE_RISING_EDGE | OTHER_INT_MODE nat

record service_gpio_pin_conf_t =
  int_mode :: gpio_interrupt_mode_e
  event_mask :: u32
  enabled :: bool
  top_half :: u32
  top_half_result :: bool

record service_gpio_handle_ctx_t =
  event_flag :: u32
  pins :: "nat \<Rightarrow> service_gpio_pin_conf_t"
  registered_pin_map :: u32
  gisr :: u32
  valid :: bool

record gpio_ioctl_param_t =
  gc_pin :: nat
  enable_int :: bool
  rising_edge :: bool
  falling_edge :: bool

record gpio_service =
  service_gpio_started :: bool
  ctx :: "service_gpio_handle_ctx_t list"
  ioctls :: "gpio_ioctl_param_t list"
  signals :: "(u32 \<times> u32) list"
  release_failed :: "nat list"
  gpio_tasks :: nat

definition configServices_GPIO_Max_CTX :: nat where
  "configServices_GPIO_Max_CTX = 12"

definition zero_ctx :: service_gpio_handle_ctx_t where
  "zero_ctx = \<lparr>event_flag = 0, pins = (\<lambda>_. \<lparr>int_mode = OTHER_INT_MODE 0, event_mask = 0, enabled = False, top_half = 0,
     top_half_result = False\<rparr>), registered_pin_map = 0, gisr = 0, valid = False\<rparr>"

text \<open>\<open>(map >> pin) & 0x1\<close>, and the contexts that hold a pin.\<close>

definition pin_registered :: "service_gpio_handle_ctx_t \<Rightarrow> nat \<Rightarrow> bool" where
  "pin_registered c pin \<longleftrightarrow> drop_bit pin (registered_pin_map c) AND 1 = 1"

fun GET_NEXT_BY_PIN :: "service_gpio_handle_ctx_t list \<Rightarrow> nat \<Rightarrow> nat \<Rightarrow> int" where
  "GET_NEXT_BY_PIN [] pin i = -1"
| "GET_NEXT_BY_PIN (c # cs) pin i = (if valid c \<and> pin_registered c pin then int i else GET_NEXT_BY_PIN cs pin (Suc i))"

fun OTHER_CONTEXT_HOLD_THIS_PIN :: "service_gpio_handle_ctx_t list \<Rightarrow> nat \<Rightarrow> nat \<Rightarrow> nat \<Rightarrow> int" where
  "OTHER_CONTEXT_HOLD_THIS_PIN [] h pin i = -1"
| "OTHER_CONTEXT_HOLD_THIS_PIN (c # cs) h pin i =
     (if valid c \<and> pin_registered c pin \<and> i \<noteq> h then int i else OTHER_CONTEXT_HOLD_THIS_PIN cs h pin (Suc i))"

definition ID_IS_VALID :: "service_gpio_handle_ctx_t list \<Rightarrow> int \<Rightarrow> bool" where
  "ID_IS_VALID cs i \<longleftrightarrow> 0 \<le> i \<and> i < int (length cs) \<and> valid (cs ! nat i)"

section \<open>Calls of the clients\<close>

definition upd_ctx :: "nat \<Rightarrow> (service_gpio_handle_ctx_t \<Rightarrow> service_gpio_handle_ctx_t) \<Rightarrow> gpio_service \<Rightarrow> gpio_service" where
  "upd_ctx h f s = s\<lparr>ctx := (ctx s)[h := f (ctx s ! h)]\<rparr>"

definition upd_pin :: "nat \<Rightarrow> (service_gpio_pin_conf_t \<Rightarrow> service_gpio_pin_conf_t) \<Rightarrow> service_gpio_handle_ctx_t \<Rightarrow> service_gpio_handle_ctx_t" where
  "upd_pin pin f c = c\<lparr>pins := (pins c)(pin := f (pins c pin))\<rparr>"

definition service_gpio_init_handle :: "(service_gpio_handle_ctx_t list \<Rightarrow> int) \<Rightarrow> u32 \<Rightarrow> gpio_service \<Rightarrow> gpio_service \<times> int" where
  "service_gpio_init_handle FIND_FREE_ID ev s =
     (if \<not> service_gpio_started s then (s, -1)
      else let ctx_id = FIND_FREE_ID (ctx s)
           in if ctx_id < 0 then (s, -1)
              else (upd_ctx (nat ctx_id) (\<lambda>c. c\<lparr>event_flag := ev, valid := True\<rparr>) s, ctx_id))"

text \<open>The guards shared by the calls: service started, handle valid, pin supported; then \<open>f\<close> on the number of the context.\<close>

definition guarded :: "nat \<Rightarrow> int \<Rightarrow> nat \<Rightarrow> (nat \<Rightarrow> gpio_service \<Rightarrow> gpio_service \<times> int) \<Rightarrow> gpio_service \<Rightarrow> gpio_service \<times> int" where
  "guarded ISH_PIN_NUM handle pin f s =
     (if \<not> service_gpio_started s then (s, -1)
      else if \<not> ID_IS_VALID (ctx s) handle then (s, -1)
      else if pin \<ge> ISH_PIN_NUM then (s, -1)
      else f (nat handle) s)"

definition shared_pin_error :: "int \<Rightarrow> nat \<Rightarrow> gpio_interrupt_mode_e \<Rightarrow> gpio_service \<Rightarrow> bool" where
  "shared_pin_error other_ctx pin mode s =
     (if other_ctx \<ge> 0
      then (if int_mode (pins (ctx s ! nat other_ctx) pin) = mode \<and> mode = GPIO_INT_MODE_FALLING_EDGE then False
            else if int_mode (pins (ctx s ! nat other_ctx) pin) = mode \<and> mode = GPIO_INT_MODE_LOW_LEVEL_SW then False
            else True)
      else False)"

definition service_gpio_register_interrupt ::
  "nat \<Rightarrow> int \<Rightarrow> nat \<Rightarrow> gpio_interrupt_mode_e \<Rightarrow> u32 \<Rightarrow> gpio_service \<Rightarrow> gpio_service \<times> int" where
  "service_gpio_register_interrupt ISH_PIN_NUM handle pin mode evm = guarded ISH_PIN_NUM handle pin (\<lambda>h s.
     let other_ctx = OTHER_CONTEXT_HOLD_THIS_PIN (ctx s) h pin 0
     in if shared_pin_error other_ctx pin mode s then (s, -1)
        else (upd_ctx h (\<lambda>c. (upd_pin pin (\<lambda>p. p\<lparr>int_mode := mode, event_mask := evm, enabled := False\<rparr>) c)
                \<lparr>registered_pin_map := registered_pin_map c OR push_bit pin 1\<rparr>) s, 0))"

definition service_gpio_register_top_half :: "nat \<Rightarrow> int \<Rightarrow> nat \<Rightarrow> u32 \<Rightarrow> gpio_service \<Rightarrow> gpio_service \<times> int" where
  "service_gpio_register_top_half ISH_PIN_NUM handle pin th = guarded ISH_PIN_NUM handle pin (\<lambda>h s.
     if th = 0 then (s, -1) else (upd_ctx h (upd_pin pin (\<lambda>p. p\<lparr>top_half := th\<rparr>)) s, 0))"

text \<open>The call of the driver for the first context that holds the pin, and its setting.\<close>

definition gpio_setup :: "bool \<Rightarrow> nat \<Rightarrow> nat \<Rightarrow> gpio_service \<Rightarrow> gpio_service" where
  "gpio_setup on pin same_pin_id s =
     (let r = (int_mode (pins (ctx s ! same_pin_id) pin) = GPIO_INT_MODE_RISING_EDGE)
      in s\<lparr>ioctls := ioctls s @ [\<lparr>gc_pin = pin, enable_int = on, rising_edge = r, falling_edge = \<not> r\<rparr>]\<rparr>)"

definition service_gpio_enable_interrupt :: "nat \<Rightarrow> int \<Rightarrow> nat \<Rightarrow> gpio_service \<Rightarrow> gpio_service \<times> int" where
  "service_gpio_enable_interrupt ISH_PIN_NUM handle pin = guarded ISH_PIN_NUM handle pin (\<lambda>h s.
     if \<not> pin_registered (ctx s ! h) pin then (s, -1)
     else if enabled (pins (ctx s ! h) pin) then (s, 0)
     else let same_pin_id = GET_NEXT_BY_PIN (ctx s) pin 0;
              s1 = (if same_pin_id \<ge> 0 \<and> enabled (pins (ctx s ! nat same_pin_id) pin) then s else gpio_setup True pin (nat same_pin_id) s)
          in (upd_ctx h (upd_pin pin (\<lambda>p. p\<lparr>enabled := True\<rparr>)) s1, 0))"

definition service_gpio_disable_interrupt :: "nat \<Rightarrow> int \<Rightarrow> nat \<Rightarrow> gpio_service \<Rightarrow> gpio_service \<times> int" where
  "service_gpio_disable_interrupt ISH_PIN_NUM handle pin = guarded ISH_PIN_NUM handle pin (\<lambda>h s.
     if \<not> pin_registered (ctx s ! h) pin then (s, -1)
     else if \<not> enabled (pins (ctx s ! h) pin) then (s, 0)
     else let same_pin_id = GET_NEXT_BY_PIN (ctx s) pin 0;
              s1 = (if same_pin_id \<ge> 0 \<and> enabled (pins (ctx s ! nat same_pin_id) pin) then s else gpio_setup False pin (nat same_pin_id) s)
          in (upd_ctx h (upd_pin pin (\<lambda>p. p\<lparr>enabled := False\<rparr>)) s1, 0))"

definition service_gpio_unregister_interrupt :: "nat \<Rightarrow> int \<Rightarrow> nat \<Rightarrow> gpio_service \<Rightarrow> gpio_service \<times> int" where
  "service_gpio_unregister_interrupt ISH_PIN_NUM handle pin = guarded ISH_PIN_NUM handle pin (\<lambda>h s.
     if \<not> pin_registered (ctx s ! h) pin then (s, 0)
     else let s1 = fst (service_gpio_disable_interrupt ISH_PIN_NUM handle pin s)
          in (upd_ctx h (\<lambda>c. (upd_pin pin (\<lambda>p. p\<lparr>event_mask := 0, enabled := False, top_half := 0, top_half_result := False\<rparr>) c)
                \<lparr>registered_pin_map := registered_pin_map c AND NOT (push_bit pin 1)\<rparr>) s1, 0))"

text \<open>The result pointer may be null (\<open>want = False\<close>); the third component is what is stored through it.\<close>

definition service_gpio_get_isr :: "int \<Rightarrow> bool \<Rightarrow> bool \<Rightarrow> gpio_service \<Rightarrow> gpio_service \<times> int \<times> u32 option" where
  "service_gpio_get_isr handle want peek s =
     (if \<not> service_gpio_started s then (s, -1, None)
      else if \<not> ID_IS_VALID (ctx s) handle then (s, -1, None)
      else if want then (if peek then s else upd_ctx (nat handle) (\<lambda>c. c\<lparr>gisr := 0\<rparr>) s, 0, Some (gisr (ctx s ! nat handle)))
      else (s, 0, None))"

section \<open>The service task\<close>

definition listens :: "nat \<Rightarrow> service_gpio_handle_ctx_t \<Rightarrow> bool" where
  "listens pin c \<longleftrightarrow> valid c \<and> pin_registered c pin \<and> enabled (pins c pin)"

text \<open>One context of a round of \<open>try_release_gpio\<close>: the state carries \<open>loop_end\<close> and \<open>find_top_half\<close>.\<close>

definition release_ctx :: "(u32 \<Rightarrow> 'e \<Rightarrow> 'e \<times> bool) \<Rightarrow> (nat \<Rightarrow> 'e \<Rightarrow> bool) \<Rightarrow> nat \<Rightarrow> nat \<Rightarrow>
    (gpio_service \<times> 'e) \<times> bool \<times> bool \<Rightarrow> (gpio_service \<times> 'e) \<times> bool \<times> bool" where
  "release_ctx run level pin i = (\<lambda>((s, e), loop_end, find_top_half).
     if listens pin (ctx s ! i) \<and> top_half (pins (ctx s ! i) pin) \<noteq> 0
     then let (e1, r) = run (top_half (pins (ctx s ! i) pin)) e;
              s1 = upd_ctx i (upd_pin pin (\<lambda>p. p\<lparr>top_half_result := r\<rparr>)) s;
              released = (case int_mode (pins (ctx s ! i) pin) of
                 GPIO_INT_MODE_LOW_LEVEL_SW \<Rightarrow> level pin e1 | GPIO_INT_MODE_FALLING_EDGE \<Rightarrow> level pin e1
               | GPIO_INT_MODE_HIGH_LEVEL_SW \<Rightarrow> \<not> level pin e1 | GPIO_INT_MODE_RISING_EDGE \<Rightarrow> \<not> level pin e1
               | OTHER_INT_MODE n \<Rightarrow> False)
          in ((s1, e1), loop_end \<or> released, True)
     else ((s, e), loop_end, find_top_half))"

fun release_rounds :: "(u32 \<Rightarrow> 'e \<Rightarrow> 'e \<times> bool) \<Rightarrow> (nat \<Rightarrow> 'e \<Rightarrow> bool) \<Rightarrow> nat \<Rightarrow> nat \<Rightarrow>
    (gpio_service \<times> 'e) \<times> bool \<times> bool \<Rightarrow> ((gpio_service \<times> 'e) \<times> bool \<times> bool) \<times> nat" where
  "release_rounds run level pin 0 x = (x, 0)"
| "release_rounds run level pin (Suc n) x =
     (if fst (snd x) then (x, Suc n)
      else release_rounds run level pin n (fold (release_ctx run level pin) [0..<configServices_GPIO_Max_CTX] x))"

text \<open>The second component of \<open>release_rounds\<close> is \<open>3 - loopcnt\<close>; zero means that the message is written.\<close>

definition try_release_gpio :: "(u32 \<Rightarrow> 'e \<Rightarrow> 'e \<times> bool) \<Rightarrow> (nat \<Rightarrow> 'e \<Rightarrow> bool) \<Rightarrow> nat \<Rightarrow> gpio_service \<times> 'e \<Rightarrow> gpio_service \<times> 'e" where
  "try_release_gpio run level pin x =
     (let (((s, e), _, find_top_half), left) = release_rounds run level pin 3 (x, False, False)
      in (if find_top_half \<and> left = 0 then s\<lparr>release_failed := release_failed s @ [pin]\<rparr> else s, e))"

definition dispatch_ctx :: "u32 \<Rightarrow> nat \<Rightarrow> nat \<Rightarrow> gpio_service \<Rightarrow> gpio_service" where
  "dispatch_ctx g_isr pin i s =
     (if listens pin (ctx s ! i)
      then let s1 = upd_ctx i (\<lambda>c. c\<lparr>gisr := gisr c OR g_isr\<rparr>) s
           in if top_half (pins (ctx s ! i) pin) \<noteq> 0 \<and> \<not> top_half_result (pins (ctx s ! i) pin) then s1
              else s1\<lparr>signals := signals s1 @ [(event_flag (ctx s ! i), event_mask (pins (ctx s ! i) pin))]\<rparr>
      else s)"

definition dispatch_pin :: "(u32 \<Rightarrow> 'e \<Rightarrow> 'e \<times> bool) \<Rightarrow> (nat \<Rightarrow> 'e \<Rightarrow> bool) \<Rightarrow> u32 \<Rightarrow> nat \<Rightarrow> gpio_service \<times> 'e \<Rightarrow> gpio_service \<times> 'e" where
  "dispatch_pin run level g_isr pin x =
     (if drop_bit pin g_isr AND 1 = 1
      then let (s, e) = try_release_gpio run level pin x
           in (fold (dispatch_ctx g_isr pin) [0..<configServices_GPIO_Max_CTX] s, e)
      else x)"

text \<open>One turn of the task: the result of the wait, whether the driver's flag is set, and the interrupt status it reads.\<close>

definition service_gpio_task :: "nat \<Rightarrow> (u32 \<Rightarrow> 'e \<Rightarrow> 'e \<times> bool) \<Rightarrow> (nat \<Rightarrow> 'e \<Rightarrow> bool) \<Rightarrow> int \<Rightarrow> bool \<Rightarrow> u32 \<Rightarrow>
    gpio_service \<times> 'e \<Rightarrow> gpio_service \<times> 'e" where
  "service_gpio_task ISH_PIN_NUM run level result flagged g_isr x =
     (if result \<noteq> 0 then x else if flagged then fold (dispatch_pin run level g_isr) [0..<ISH_PIN_NUM] x else x)"

definition service_gpio_start :: "bool \<Rightarrow> gpio_service \<Rightarrow> gpio_service" where
  "service_gpio_start event_ok s =
     (if service_gpio_started s then s
      else if \<not> event_ok then s
      else s\<lparr>ctx := replicate configServices_GPIO_Max_CTX zero_ctx, gpio_tasks := Suc (gpio_tasks s), service_gpio_started := True\<rparr>)"

end
