(* ===== verification/ServiceGpioOk.thy ===== *)
theory ServiceGpioOk
  imports ServiceGpio
begin

unbundle bit_operations_syntax

text \<open>
  The GPIO service: contexts that share a pin agree on a mode in which it can be shared, an interrupt reaches exactly the
  contexts that listen to its pin, and wrong arguments are refused without effect. The interrupt of the driver, however, follows the first
  context that holds the pin, so it may stay on when nobody listens and go off while somebody does.
\<close>

section \<open>Pins and contexts\<close>

lemma pin_registered_bit: "pin_registered c pin \<longleftrightarrow> bit (registered_pin_map c) pin"
  by (simp add: pin_registered_def bit_iff_odd_drop_bit and_one_eq odd_iff_mod_2_eq_one)

abbreviation holds_pin :: "service_gpio_handle_ctx_t \<Rightarrow> nat \<Rightarrow> bool" where
  "holds_pin c pin \<equiv> valid c \<and> pin_registered c pin"

lemma upd_ctx_simps [simp]:
  "service_gpio_started (upd_ctx h f s) = service_gpio_started s" "ioctls (upd_ctx h f s) = ioctls s"
  "signals (upd_ctx h f s) = signals s" "length (ctx (upd_ctx h f s)) = length (ctx s)"
  "ctx (upd_ctx h f s) ! j = (if j = h \<and> h < length (ctx s) then f (ctx s ! h) else ctx s ! j)"
  by (simp_all add: upd_ctx_def) (cases "h < length (ctx s)"; simp add: nth_list_update list_update_beyond)

lemma upd_pin_simps [simp]:
  "valid (upd_pin pin f c) = valid c" "registered_pin_map (upd_pin pin f c) = registered_pin_map c"
  "event_flag (upd_pin pin f c) = event_flag c" "gisr (upd_pin pin f c) = gisr c"
  "pins (upd_pin pin f c) q = (if q = pin then f (pins c pin) else pins c q)"
  by (simp_all add: upd_pin_def)

lemma get_next_spec:
  "GET_NEXT_BY_PIN cs pin n = -1 \<and> (\<forall>c \<in> set cs. \<not> holds_pin c pin) \<or>
   (\<exists>i < length cs. GET_NEXT_BY_PIN cs pin n = int (n + i) \<and> holds_pin (cs ! i) pin \<and> (\<forall>j < i. \<not> holds_pin (cs ! j) pin))"
proof (induction cs arbitrary: n)
  case (Cons c cs)
  show ?case
  proof (cases "holds_pin c pin")
    case False
    from Cons [of "Suc n"] show ?thesis
    proof
      assume "\<exists>i < length cs. GET_NEXT_BY_PIN cs pin (Suc n) = int (Suc n + i) \<and> holds_pin (cs ! i) pin \<and> (\<forall>j < i. \<not> holds_pin (cs ! j) pin)"
      then obtain i where i: "i < length cs" "GET_NEXT_BY_PIN cs pin (Suc n) = int (Suc n + i)" "holds_pin (cs ! i) pin"
          "\<forall>j < i. \<not> holds_pin (cs ! j) pin" by blast
      have "\<forall>j < Suc i. \<not> holds_pin ((c # cs) ! j) pin" using False i(4) by (simp add: nth_Cons split: nat.split)
      then show ?thesis using False i by (intro disjI2 exI [of _ "Suc i"]) auto
    qed (use False in auto)
  qed (auto intro!: disjI2 exI [of _ 0])
qed simp

lemma other_context_spec:
  "OTHER_CONTEXT_HOLD_THIS_PIN cs h pin n = -1 \<and> (\<forall>i < length cs. n + i \<noteq> h \<longrightarrow> \<not> holds_pin (cs ! i) pin) \<or>
   (\<exists>i < length cs. OTHER_CONTEXT_HOLD_THIS_PIN cs h pin n = int (n + i) \<and> n + i \<noteq> h \<and> holds_pin (cs ! i) pin)"
proof (induction cs arbitrary: n)
  case (Cons c cs)
  show ?case
  proof (cases "holds_pin c pin \<and> n \<noteq> h")
    case False
    from Cons [of "Suc n"] show ?thesis
    proof
      assume a: "OTHER_CONTEXT_HOLD_THIS_PIN cs h pin (Suc n) = -1 \<and> (\<forall>i < length cs. Suc n + i \<noteq> h \<longrightarrow> \<not> holds_pin (cs ! i) pin)"
      then show ?thesis using False by (intro disjI1) (auto simp: nth_Cons split: nat.split)
    next
      assume "\<exists>i < length cs. OTHER_CONTEXT_HOLD_THIS_PIN cs h pin (Suc n) = int (Suc n + i) \<and> Suc n + i \<noteq> h \<and> holds_pin (cs ! i) pin"
      then obtain i where "i < length cs" "OTHER_CONTEXT_HOLD_THIS_PIN cs h pin (Suc n) = int (Suc n + i)" "Suc n + i \<noteq> h"
          "holds_pin (cs ! i) pin" by blast
      then show ?thesis using False by (intro disjI2 exI [of _ "Suc i"]) auto
    qed
  qed (auto intro!: disjI2 exI [of _ 0])
qed simp

section \<open>The invariant\<close>

definition shareable :: "gpio_interrupt_mode_e \<Rightarrow> bool" where
  "shareable m \<longleftrightarrow> m = GPIO_INT_MODE_FALLING_EDGE \<or> m = GPIO_INT_MODE_LOW_LEVEL_SW"

definition ctx_ok :: "nat \<Rightarrow> service_gpio_handle_ctx_t \<Rightarrow> bool" where
  "ctx_ok N c \<longleftrightarrow> (\<not> valid c \<longrightarrow> registered_pin_map c = 0) \<and>
     (\<forall>pin. (pin_registered c pin \<longrightarrow> pin < N) \<and> (enabled (pins c pin) \<longrightarrow> pin_registered c pin))"

definition shared_ok :: "service_gpio_handle_ctx_t list \<Rightarrow> bool" where
  "shared_ok cs \<longleftrightarrow> (\<forall>i < length cs. \<forall>j < length cs. \<forall>pin. i \<noteq> j \<and> holds_pin (cs ! i) pin \<and> holds_pin (cs ! j) pin \<longrightarrow>
     int_mode (pins (cs ! i) pin) = int_mode (pins (cs ! j) pin) \<and> shareable (int_mode (pins (cs ! i) pin)))"

definition gpio_ok :: "nat \<Rightarrow> gpio_service \<Rightarrow> bool" where
  "gpio_ok N s \<longleftrightarrow> service_gpio_started s \<and> length (ctx s) = configServices_GPIO_Max_CTX \<and> (\<forall>c \<in> set (ctx s). ctx_ok N c) \<and>
     shared_ok (ctx s)"

lemma shared_okI:
  assumes "\<And>i j pin. \<lbrakk>i < length cs; j < length cs; i \<noteq> j; holds_pin (cs ! i) pin; holds_pin (cs ! j) pin\<rbrakk> \<Longrightarrow>
    int_mode (pins (cs ! i) pin) = int_mode (pins (cs ! j) pin) \<and> shareable (int_mode (pins (cs ! i) pin))"
  shows "shared_ok cs"
  using assms unfolding shared_ok_def by blast

lemma shared_okD:
  assumes "shared_ok cs" and "i < length cs" and "j < length cs" and "i \<noteq> j" and "holds_pin (cs ! i) pin" and "holds_pin (cs ! j) pin"
  shows "int_mode (pins (cs ! i) pin) = int_mode (pins (cs ! j) pin) \<and> shareable (int_mode (pins (cs ! i) pin))"
  using assms unfolding shared_ok_def by blast

lemma gpio_ok_cong: "\<lbrakk>ctx s' = ctx s; service_gpio_started s' = service_gpio_started s\<rbrakk> \<Longrightarrow> gpio_ok N s' = gpio_ok N s"
  by (simp add: gpio_ok_def)

text \<open>An update of one context that keeps its pins and modes, or gives one up, keeps the invariant.\<close>

lemma gpio_ok_upd:
  assumes "gpio_ok N s" and "ctx_ok N (ctx s ! h) \<Longrightarrow> ctx_ok N (f (ctx s ! h))"
    and "\<And>pin. holds_pin (f (ctx s ! h)) pin \<Longrightarrow> holds_pin (ctx s ! h) pin \<and> int_mode (pins (f (ctx s ! h)) pin) = int_mode (pins (ctx s ! h) pin)"
  shows "gpio_ok N (upd_ctx h f s)"
proof (cases "h < length (ctx s)")
  case True
  let ?cs = "ctx (upd_ctx h f s)"
  have old: "holds_pin (ctx s ! k) q \<and> int_mode (pins (?cs ! k) q) = int_mode (pins (ctx s ! k) q)" if "holds_pin (?cs ! k) q" for k q
    using that assms(3) [of q] True by (cases "k = h") simp_all
  have sh: "shared_ok (ctx s)" using assms(1) by (simp add: gpio_ok_def)
  have "shared_ok ?cs"
  proof (rule shared_okI)
    fix i j q assume a: "i < length ?cs" "j < length ?cs" "i \<noteq> j" "holds_pin (?cs ! i) q" "holds_pin (?cs ! j) q"
    have "i < length (ctx s)" "j < length (ctx s)" using a(1,2) by simp_all
    from shared_okD [OF sh this a(3), of q] old [OF a(4)] old [OF a(5)]
    show "int_mode (pins (?cs ! i) q) = int_mode (pins (?cs ! j) q) \<and> shareable (int_mode (pins (?cs ! i) q))" by argo
  qed
  moreover have "\<forall>c \<in> set (ctx (upd_ctx h f s)). ctx_ok N c"
    using assms(1,2) True set_update_subset_insert [of "ctx s" h "f (ctx s ! h)"] by (fastforce simp: gpio_ok_def upd_ctx_def)
  ultimately show ?thesis using assms(1) by (simp add: gpio_ok_def)
qed (use assms(1) in \<open>simp add: upd_ctx_def list_update_beyond\<close>)

lemma guarded_ok:
  assumes "gpio_ok N s" and "\<And>h. \<lbrakk>h < length (ctx s); valid (ctx s ! h); pin < N\<rbrakk> \<Longrightarrow> gpio_ok N (fst (f h s))"
  shows "gpio_ok N (fst (guarded N handle pin f s))"
  using assms by (auto simp: guarded_def ID_IS_VALID_def nat_less_iff)

lemma start_ok: "event_ok \<Longrightarrow> \<not> service_gpio_started s \<Longrightarrow> gpio_ok N (service_gpio_start event_ok s)"
  by (simp add: service_gpio_start_def gpio_ok_def ctx_ok_def shared_ok_def zero_ctx_def pin_registered_bit)

lemma init_handle_ok:
  assumes "gpio_ok N s"
  shows "gpio_ok N (fst (service_gpio_init_handle find_id ev s))"
proof (cases "find_id (ctx s) < 0 \<or> nat (find_id (ctx s)) \<ge> length (ctx s)")
  case True
  then show ?thesis using assms by (auto simp: service_gpio_init_handle_def Let_def upd_ctx_def list_update_beyond)
next
  case False
  let ?h = "nat (find_id (ctx s))"
  have c: "ctx_ok N (ctx s ! ?h)" using assms False by (simp add: gpio_ok_def)
  have "gpio_ok N (upd_ctx ?h (\<lambda>c. c\<lparr>event_flag := ev, valid := True\<rparr>) s)"
  proof (rule gpio_ok_upd [OF assms])
    show "ctx_ok N (ctx s ! ?h) \<Longrightarrow> ctx_ok N ((ctx s ! ?h)\<lparr>event_flag := ev, valid := True\<rparr>)"
      by (simp add: ctx_ok_def pin_registered_bit)
    fix pin assume "holds_pin ((ctx s ! ?h)\<lparr>event_flag := ev, valid := True\<rparr>) pin"
    then have "pin_registered (ctx s ! ?h) pin" by (simp add: pin_registered_bit)
    moreover from this c have "valid (ctx s ! ?h)" by (auto simp: ctx_ok_def pin_registered_bit)
    ultimately show "holds_pin (ctx s ! ?h) pin \<and>
        int_mode (pins ((ctx s ! ?h)\<lparr>event_flag := ev, valid := True\<rparr>) pin) = int_mode (pins (ctx s ! ?h) pin)" by simp
  qed
  then show ?thesis using assms by (simp add: service_gpio_init_handle_def Let_def gpio_ok_def)
qed

lemma enable_disable_ok:
  assumes "gpio_ok N s"
  shows "gpio_ok N (fst (service_gpio_enable_interrupt N handle pin s))" "gpio_ok N (fst (service_gpio_disable_interrupt N handle pin s))"
proof -
  have g: "gpio_ok N (gpio_setup b p k s)" for b p k
    using assms by (subst gpio_ok_cong) (simp_all add: gpio_setup_def Let_def)
  have x: "gpio_ok N (upd_ctx h (upd_pin pin (\<lambda>p. p\<lparr>enabled := b\<rparr>)) x)"
    if "gpio_ok N x" "pin_registered (ctx x ! h) pin" for x h b
    by (rule gpio_ok_upd [OF that(1)]) (use that(2) in \<open>auto simp: ctx_ok_def pin_registered_bit split: if_splits\<close>)
  have c: "ctx (gpio_setup b p k s) = ctx s" for b p k by (simp add: gpio_setup_def Let_def)
  show "gpio_ok N (fst (service_gpio_enable_interrupt N handle pin s))" "gpio_ok N (fst (service_gpio_disable_interrupt N handle pin s))"
    unfolding service_gpio_enable_interrupt_def service_gpio_disable_interrupt_def
    by (rule guarded_ok [OF assms], simp add: Let_def assms g x c)+
qed

text \<open>A registration that passes the check for sharing agrees with every other context that holds the pin.\<close>

lemma others_agree:
  assumes sh: "shared_ok (ctx s)" and e: "\<not> shared_pin_error (OTHER_CONTEXT_HOLD_THIS_PIN (ctx s) h pin 0) pin mode s"
    and k: "k < length (ctx s)" "k \<noteq> h" "holds_pin (ctx s ! k) pin"
  shows "int_mode (pins (ctx s ! k) pin) = mode \<and> shareable mode"
proof -
  let ?o = "OTHER_CONTEXT_HOLD_THIS_PIN (ctx s) h pin 0"
  from other_context_spec [of "ctx s" h pin 0] obtain i where
    i: "i < length (ctx s)" "?o = int i" "i \<noteq> h" "holds_pin (ctx s ! i) pin" using k by auto
  then have "int_mode (pins (ctx s ! i) pin) = mode \<and> shareable mode"
    using e by (auto simp: shared_pin_error_def shareable_def split: if_splits)
  then show ?thesis using shared_okD [OF sh i(1) k(1) _ i(4) k(3)] by (cases "i = k") simp_all
qed

lemma register_ok:
  assumes "gpio_ok N s" and "N \<le> 32"
  shows "gpio_ok N (fst (service_gpio_register_interrupt N handle pin mode evm s))"
  unfolding service_gpio_register_interrupt_def
proof (rule guarded_ok [OF assms(1)])
  fix h assume h: "h < length (ctx s)" "valid (ctx s ! h)" "pin < N"
  let ?f = "\<lambda>c. (upd_pin pin (\<lambda>p. p\<lparr>int_mode := mode, event_mask := evm, enabled := False\<rparr>) c)
      \<lparr>registered_pin_map := registered_pin_map c OR push_bit pin 1\<rparr>"
  let ?o = "OTHER_CONTEXT_HOLD_THIS_PIN (ctx s) h pin 0"
  have b: "pin_registered (?f c) q \<longleftrightarrow> q = pin \<or> pin_registered c q" for c q
    using h(3) assms(2) by (auto simp: pin_registered_bit bit_simps)
  have "gpio_ok N (upd_ctx h ?f s)" if e: "\<not> shared_pin_error ?o pin mode s"
  proof -
    have sh: "shared_ok (ctx s)" using assms(1) by (simp add: gpio_ok_def)
    note m = others_agree [OF sh e]
    let ?cs = "ctx (upd_ctx h ?f s)"
    have "shared_ok ?cs"
    proof (rule shared_okI)
      fix i j q assume a: "i < length ?cs" "j < length ?cs" "i \<noteq> j" "holds_pin (?cs ! i) q" "holds_pin (?cs ! j) q"
      have l: "i < length (ctx s)" "j < length (ctx s)" using a(1,2) by simp_all
      have old: "holds_pin (ctx s ! k) q \<and> pins (?cs ! k) q = pins (ctx s ! k) q" if "holds_pin (?cs ! k) q" "q \<noteq> pin \<or> k \<noteq> h" for k
        using that h(1) b by (cases "k = h") simp_all
      have new: "int_mode (pins (?cs ! h) pin) = mode" using h(1) by simp
      show "int_mode (pins (?cs ! i) q) = int_mode (pins (?cs ! j) q) \<and> shareable (int_mode (pins (?cs ! i) q))"
      proof (cases "q = pin")
        case True
        have mm: "int_mode (pins (?cs ! k) pin) = mode \<and> (k \<noteq> h \<longrightarrow> shareable mode)"
          if "k < length (ctx s)" "holds_pin (?cs ! k) q" for k
          using new m [OF that(1)] old [OF that(2)] True by (cases "k = h") simp_all
        show ?thesis using mm [OF l(1) a(4)] mm [OF l(2) a(5)] a(3) True by (cases "i = h") simp_all
      next
        case False
        then show ?thesis using shared_okD [OF sh l a(3), of q] old [OF a(4)] old [OF a(5)] by argo
      qed
    qed
    moreover have "ctx_ok N (?f (ctx s ! h))"
      using assms(1) h b [of "ctx s ! h"] by (auto simp: gpio_ok_def ctx_ok_def)
    ultimately show ?thesis
      using assms(1) set_update_subset_insert [of "ctx s" h "?f (ctx s ! h)"] unfolding gpio_ok_def by (auto simp: upd_ctx_def)
  qed
  then show "gpio_ok N (fst (let other_ctx = ?o in if shared_pin_error other_ctx pin mode s then (s, - 1) else (upd_ctx h ?f s, 0)))"
    using assms(1) by simp
qed

lemma top_half_ok:
  assumes "gpio_ok N s"
  shows "gpio_ok N (fst (service_gpio_register_top_half N handle pin th s))"
  unfolding service_gpio_register_top_half_def
proof (rule guarded_ok [OF assms])
  fix h
  have "gpio_ok N (upd_ctx h (upd_pin pin (\<lambda>p. p\<lparr>top_half := th\<rparr>)) s)"
    by (rule gpio_ok_upd [OF assms]) (auto simp: ctx_ok_def pin_registered_bit split: if_splits)
  then show "gpio_ok N (fst (if th = 0 then (s, - 1) else (upd_ctx h (upd_pin pin (\<lambda>p. p\<lparr>top_half := th\<rparr>)) s, 0)))"
    using assms by simp
qed

lemma unregister_ok:
  assumes "gpio_ok N s" and "N \<le> 32"
  shows "gpio_ok N (fst (service_gpio_unregister_interrupt N handle pin s))"
  unfolding service_gpio_unregister_interrupt_def
proof (rule guarded_ok [OF assms(1)])
  fix h assume "pin < N"
  let ?f = "\<lambda>c. (upd_pin pin (\<lambda>p. p\<lparr>event_mask := 0, enabled := False, top_half := 0, top_half_result := False\<rparr>) c)
      \<lparr>registered_pin_map := registered_pin_map c AND NOT (push_bit pin 1)\<rparr>"
  have b: "pin_registered (?f c) q \<longleftrightarrow> q \<noteq> pin \<and> pin_registered c q" for c q
    using \<open>pin < N\<close> assms(2) by (auto simp: pin_registered_bit bit_simps dest: bit_imp_le_length)
  have "gpio_ok N (upd_ctx h ?f x)" if "gpio_ok N x" for x
    by (rule gpio_ok_upd [OF that]) (use b in \<open>auto simp: ctx_ok_def simp del: push_bit_of_1 split: if_splits\<close>)
  from this [OF enable_disable_ok(2) [OF assms(1)]]
  show "gpio_ok N (fst (if \<not> pin_registered (ctx s ! h) pin then (s, 0)
      else let s1 = fst (service_gpio_disable_interrupt N handle pin s) in (upd_ctx h ?f s1, 0)))"
    using assms(1) by (simp add: Let_def)
qed

text \<open>Calls before the start, with a handle that is not valid or a pin the platform does not have, are refused.\<close>

lemma refused: "\<not> (service_gpio_started s \<and> ID_IS_VALID (ctx s) handle \<and> pin < N) \<Longrightarrow> guarded N handle pin f s = (s, -1)"
  by (auto simp: guarded_def)

lemma gpio_refused:
  assumes "\<not> (service_gpio_started s \<and> ID_IS_VALID (ctx s) handle \<and> pin < N)"
  shows "service_gpio_register_interrupt N handle pin mode evm s = (s, -1)" "service_gpio_register_top_half N handle pin th s = (s, -1)"
    "service_gpio_enable_interrupt N handle pin s = (s, -1)" "service_gpio_disable_interrupt N handle pin s = (s, -1)"
    "service_gpio_unregister_interrupt N handle pin s = (s, -1)"
  using refused [OF assms] by (simp_all add: service_gpio_register_interrupt_def service_gpio_register_top_half_def
    service_gpio_enable_interrupt_def service_gpio_disable_interrupt_def service_gpio_unregister_interrupt_def)

section \<open>Handles\<close>

text \<open>What the service relies on in \<open>FIND_FREE_ID\<close>: it returns the number of an entry that is not valid, if there is one.\<close>

locale free_ids =
  fixes FIND_FREE_ID :: "service_gpio_handle_ctx_t list \<Rightarrow> int" and ev :: u32 and N :: nat
  assumes found: "\<lbrakk>j < length cs; \<not> valid (cs ! j)\<rbrakk> \<Longrightarrow> \<exists>i < length cs. FIND_FREE_ID cs = int i \<and> \<not> valid (cs ! i)"
    and none: "\<forall>c \<in> set cs. valid c \<Longrightarrow> FIND_FREE_ID cs < 0"

abbreviation used_handle :: "gpio_service \<Rightarrow> nat \<Rightarrow> bool" where
  "used_handle s j \<equiv> j < configServices_GPIO_Max_CTX \<and> valid (ctx s ! j)"

sublocale free_ids \<subseteq> slot_table "gpio_ok N" used_handle configServices_GPIO_Max_CTX "service_gpio_init_handle FIND_FREE_ID ev"
proof
  fix s j assume ok: "gpio_ok N s" and "j < configServices_GPIO_Max_CTX" "\<not> used_handle s j"
  then have l: "length (ctx s) = configServices_GPIO_Max_CTX" "service_gpio_started s" and "j < length (ctx s)" "\<not> valid (ctx s ! j)"
    by (simp_all add: gpio_ok_def)
  from found [OF this(3,4)] obtain i where i: "i < length (ctx s)" "FIND_FREE_ID (ctx s) = int i" "\<not> valid (ctx s ! i)" by blast
  then show "\<exists>i s'. service_gpio_init_handle FIND_FREE_ID ev s = (s', int i) \<and> i < configServices_GPIO_Max_CTX \<and> \<not> used_handle s i \<and>
      (\<forall>j. used_handle s' j \<longleftrightarrow> j = i \<or> used_handle s j)"
    using l by (intro exI [of _ i] exI [of _ "upd_ctx i (\<lambda>c. c\<lparr>event_flag := ev, valid := True\<rparr>) s"])
      (auto simp: service_gpio_init_handle_def)
next
  fix s assume "gpio_ok N s" "\<forall>j < configServices_GPIO_Max_CTX. used_handle s j"
  then have "\<forall>c \<in> set (ctx s). valid c" by (auto simp: gpio_ok_def in_set_conv_nth)
  from none [OF this] show "service_gpio_init_handle FIND_FREE_ID ev s = (s, -1)" by (simp add: service_gpio_init_handle_def)
next
  fix s assume "gpio_ok N s"
  then show "gpio_ok N (fst (service_gpio_init_handle FIND_FREE_ID ev s))" by (rule init_handle_ok)
qed

fun first_invalid :: "nat \<Rightarrow> service_gpio_handle_ctx_t list \<Rightarrow> int" where
  "first_invalid i [] = -1"
| "first_invalid i (c # cs) = (if valid c then first_invalid (Suc i) cs else int i)"

lemma first_invalid_spec:
  "(\<forall>c \<in> set cs. valid c) \<and> first_invalid n cs = -1 \<or> (\<exists>i < length cs. first_invalid n cs = int (n + i) \<and> \<not> valid (cs ! i))"
proof (induction cs arbitrary: n)
  case (Cons c cs)
  show ?case
  proof (cases "valid c")
    case True
    from Cons [of "Suc n"] show ?thesis
    proof
      assume "\<exists>i < length cs. first_invalid (Suc n) cs = int (Suc n + i) \<and> \<not> valid (cs ! i)"
      then obtain i where "i < length cs" "first_invalid (Suc n) cs = int (Suc n + i)" "\<not> valid (cs ! i)" by blast
      then show ?thesis using True by (intro disjI2 exI [of _ "Suc i"]) simp
    qed (use True in simp)
  qed (auto intro!: disjI2 exI [of _ 0])
qed simp

interpretation in_order: free_ids "first_invalid 0" ev N for ev N
proof
  fix j and cs :: "service_gpio_handle_ctx_t list" assume "j < length cs" "\<not> valid (cs ! j)"
  then have "\<not> (\<forall>c \<in> set cs. valid c)" by (meson nth_mem)
  then show "\<exists>i < length cs. first_invalid 0 cs = int i \<and> \<not> valid (cs ! i)" using first_invalid_spec [of cs 0] by auto
next
  fix cs :: "service_gpio_handle_ctx_t list" assume "\<forall>c \<in> set cs. valid c"
  then show "first_invalid 0 cs < 0" using first_invalid_spec [of cs 0] nth_mem [of _ cs] by auto
qed

section \<open>The interrupt of the driver\<close>

definition driver_on :: "nat \<Rightarrow> gpio_service \<Rightarrow> bool" where
  "driver_on pin s = fold (\<lambda>g b. if gc_pin g = pin then enable_int g else b) (ioctls s) False"

lemma driver_setup [simp]: "driver_on q (gpio_setup b pin k s) = (if q = pin then b else driver_on q s)"
  by (simp add: driver_on_def gpio_setup_def Let_def)

lemma setup_ctx [simp]: "ctx (gpio_setup b pin k s) = ctx s"
  by (simp add: gpio_setup_def Let_def)

lemma driver_upd [simp]: "driver_on q (upd_ctx h f s) = driver_on q s"
  by (simp add: driver_on_def)

text \<open>The first context that holds a pin decides for all.\<close>

definition first_holder :: "nat \<Rightarrow> nat \<Rightarrow> gpio_service \<Rightarrow> bool" where
  "first_holder pin a s \<longleftrightarrow> a < length (ctx s) \<and> holds_pin (ctx s ! a) pin \<and> (\<forall>j < a. \<not> holds_pin (ctx s ! j) pin)"

lemma first_holder_found:
  assumes "first_holder pin a s"
  shows "GET_NEXT_BY_PIN (ctx s) pin 0 = int a"
  using get_next_spec [of "ctx s" pin 0]
proof
  assume "\<exists>i < length (ctx s). GET_NEXT_BY_PIN (ctx s) pin 0 = int (0 + i) \<and> holds_pin (ctx s ! i) pin \<and> (\<forall>j < i. \<not> holds_pin (ctx s ! j) pin)"
  then obtain i where "GET_NEXT_BY_PIN (ctx s) pin 0 = int i" "holds_pin (ctx s ! i) pin" "\<forall>j < i. \<not> holds_pin (ctx s ! j) pin" by auto
  then show ?thesis using assms by (cases i a rule: linorder_cases) (auto simp: first_holder_def)
qed (use assms nth_mem [of a "ctx s"] in \<open>auto simp: first_holder_def\<close>)

lemma valid_guard:
  assumes "gpio_ok N s" and "h < length (ctx s)" and "valid (ctx s ! h)" and "pin < N"
  shows "guarded N (int h) pin f s = f h s"
  using assms by (simp add: guarded_def gpio_ok_def ID_IS_VALID_def)

lemma enable_outcome:
  assumes "gpio_ok N s" and "first_holder pin a s" and "h < length (ctx s)" and "holds_pin (ctx s ! h) pin" and "pin < N"
    and "\<not> enabled (pins (ctx s ! h) pin)"
  shows "service_gpio_enable_interrupt N (int h) pin s = (upd_ctx h (upd_pin pin (\<lambda>p. p\<lparr>enabled := True\<rparr>))
    (if enabled (pins (ctx s ! a) pin) then s else gpio_setup True pin a s), 0)"
  using assms first_holder_found [OF assms(2)] by (simp add: service_gpio_enable_interrupt_def valid_guard Let_def)

lemma disable_outcome:
  assumes "gpio_ok N s" and "first_holder pin a s" and "h < length (ctx s)" and "holds_pin (ctx s ! h) pin" and "pin < N"
    and "enabled (pins (ctx s ! h) pin)"
  shows "service_gpio_disable_interrupt N (int h) pin s = (upd_ctx h (upd_pin pin (\<lambda>p. p\<lparr>enabled := False\<rparr>))
    (if enabled (pins (ctx s ! a) pin) then s else gpio_setup False pin a s), 0)"
  using assms first_holder_found [OF assms(2)] by (simp add: service_gpio_disable_interrupt_def valid_guard Let_def)

lemma first_holder_enabled [simp]:
  "first_holder pin a (upd_ctx h (upd_pin pin (\<lambda>p. p\<lparr>enabled := b\<rparr>)) s) = first_holder pin a s"
  by (simp add: first_holder_def pin_registered_bit) (use upd_ctx_simps(5) in auto)

lemma first_holder_setup [simp]: "first_holder pin a (gpio_setup b q k s) = first_holder pin a s"
  by (simp add: first_holder_def)

text \<open>The only client of a pin enables and disables it: the interrupt of the driver is on, and stays on.\<close>

lemma sole_client_leaves_it_on:
  assumes ok: "gpio_ok N s" and a: "first_holder pin a s" and "pin < N" and "\<not> enabled (pins (ctx s ! a) pin)"
  shows "\<exists>s1 s2. service_gpio_enable_interrupt N (int a) pin s = (s1, 0) \<and> service_gpio_disable_interrupt N (int a) pin s1 = (s2, 0) \<and>
    driver_on pin s1 \<and> \<not> enabled (pins (ctx s2 ! a) pin) \<and> driver_on pin s2"
proof -
  let ?s1 = "upd_ctx a (upd_pin pin (\<lambda>p. p\<lparr>enabled := True\<rparr>)) (gpio_setup True pin a s)"
  have h: "a < length (ctx s)" "holds_pin (ctx s ! a) pin" using a by (simp_all add: first_holder_def)
  have e: "service_gpio_enable_interrupt N (int a) pin s = (?s1, 0)" using enable_outcome [OF ok a h assms(3,4)] assms(4) by simp
  have ok1: "gpio_ok N ?s1" using enable_disable_ok(1) [OF ok, of "int a" pin] e by simp
  have "service_gpio_disable_interrupt N (int a) pin ?s1 = (upd_ctx a (upd_pin pin (\<lambda>p. p\<lparr>enabled := False\<rparr>)) ?s1, 0)"
    using disable_outcome [OF ok1, of pin a a] a h assms(3) by (simp add: pin_registered_bit)
  then show ?thesis using e h(1) by simp
qed

text \<open>Another client disables the pin while the first one has it disabled: whoever else listens is cut off.\<close>

lemma others_are_cut_off:
  assumes ok: "gpio_ok N s" and a: "first_holder pin a s" and "pin < N" and "\<not> enabled (pins (ctx s ! a) pin)"
    and h: "h < length (ctx s)" "listens pin (ctx s ! h)" and k: "k < length (ctx s)" "k \<noteq> h" "listens pin (ctx s ! k)"
  shows "\<exists>s'. service_gpio_disable_interrupt N (int h) pin s = (s', 0) \<and> listens pin (ctx s' ! k) \<and> \<not> driver_on pin s'"
  using disable_outcome [OF ok a h(1) _ assms(3)] h k assms(4) by (auto simp: listens_def)

section \<open>Interrupts\<close>

definition notice :: "nat \<Rightarrow> service_gpio_handle_ctx_t \<Rightarrow> (u32 \<times> u32) list" where
  "notice pin c = (if listens pin c \<and> (top_half (pins c pin) = 0 \<or> top_half_result (pins c pin))
     then [(event_flag c, event_mask (pins c pin))] else [])"

definition noted :: "u32 \<Rightarrow> nat \<Rightarrow> service_gpio_handle_ctx_t \<Rightarrow> service_gpio_handle_ctx_t" where
  "noted g pin c = (if listens pin c then c\<lparr>gisr := gisr c OR g\<rparr> else c)"

lemma dispatch_prefix:
  fixes g :: u32 and pin :: nat
  assumes "n \<le> length (ctx s)"
  defines "r \<equiv> fold (dispatch_ctx g pin) [0..<n] s"
  shows "ctx r = map (noted g pin) (take n (ctx s)) @ drop n (ctx s) \<and> signals r = signals s @ concat (map (notice pin) (take n (ctx s)))"
  using assms(1) unfolding r_def
proof (induction n)
  case (Suc n)
  let ?r = "fold (dispatch_ctx g pin) [0..<n] s" and ?cs = "ctx s"
  have ih: "ctx ?r = map (noted g pin) (take n ?cs) @ drop n ?cs" "signals ?r = signals s @ concat (map (notice pin) (take n ?cs))"
    using Suc by simp_all
  have l: "n < length ?cs" using Suc.prems by simp
  have t: "ctx ?r ! n = ?cs ! n" and n: "n < length (ctx ?r)" using ih(1) l by (simp_all add: nth_append)
  have k: "take (Suc n) ?cs = take n ?cs @ [?cs ! n]" and d: "drop n ?cs = ?cs ! n # drop (Suc n) ?cs"
    using l by (simp_all add: take_Suc_conv_app_nth Cons_nth_drop_Suc)
  have c: "ctx (dispatch_ctx g pin n x) = (ctx x)[n := noted g pin (ctx x ! n)]" for x
    by (simp add: dispatch_ctx_def noted_def upd_ctx_def Let_def)
  have q: "signals (dispatch_ctx g pin n x) = signals x @ notice pin (ctx x ! n)" for x
    by (simp add: dispatch_ctx_def notice_def upd_ctx_def Let_def)
  have "(ctx ?r)[n := noted g pin (?cs ! n)] = map (noted g pin) (take (Suc n) ?cs) @ drop (Suc n) ?cs"
    using l unfolding ih(1) k d by (simp add: list_update_append)
  then show ?case using ih(2) c [of ?r] q [of ?r] by (simp add: t k)
qed simp

lemma dispatch_all:
  fixes g :: u32 and pin :: nat
  assumes "length (ctx s) = configServices_GPIO_Max_CTX"
  defines "r \<equiv> fold (dispatch_ctx g pin) [0..<configServices_GPIO_Max_CTX] s"
  shows "ctx r = map (noted g pin) (ctx s)" "signals r = signals s @ concat (map (notice pin) (ctx s))"
  using dispatch_prefix [of configServices_GPIO_Max_CTX s g pin] assms(1) unfolding r_def by simp_all

text \<open>Running the top halves changes nothing but their results; without a top half there is nothing to run.\<close>

definition same_but_result :: "service_gpio_handle_ctx_t \<Rightarrow> service_gpio_handle_ctx_t \<Rightarrow> bool" where
  "same_but_result c c' \<longleftrightarrow> event_flag c' = event_flag c \<and> registered_pin_map c' = registered_pin_map c \<and> gisr c' = gisr c \<and>
     valid c' = valid c \<and> (\<forall>q. \<exists>b. pins c' q = (pins c q)\<lparr>top_half_result := b\<rparr>)"

definition results_only :: "gpio_service \<Rightarrow> gpio_service \<Rightarrow> bool" where
  "results_only s s' \<longleftrightarrow> service_gpio_started s' = service_gpio_started s \<and> ioctls s' = ioctls s \<and> signals s' = signals s \<and>
     list_all2 same_but_result (ctx s) (ctx s')"

lemma same_but_result_refl: "same_but_result c c"
proof -
  have "pins c q = (pins c q)\<lparr>top_half_result := top_half_result (pins c q)\<rparr>" for q by simp
  then show ?thesis unfolding same_but_result_def by blast
qed

lemma same_but_result_trans:
  assumes "same_but_result a b" and "same_but_result b c"
  shows "same_but_result a c"
proof -
  have "\<exists>r. pins c q = (pins a q)\<lparr>top_half_result := r\<rparr>" for q
  proof -
    obtain r r' where "pins b q = (pins a q)\<lparr>top_half_result := r\<rparr>" "pins c q = (pins b q)\<lparr>top_half_result := r'\<rparr>"
      using assms unfolding same_but_result_def by blast
    then show ?thesis by (intro exI [of _ r']) simp
  qed
  then show ?thesis using assms unfolding same_but_result_def by argo
qed

lemma results_only_refl: "results_only s s"
  by (simp add: results_only_def list_all2_conv_all_nth same_but_result_refl)

lemma results_only_trans:
  assumes "results_only a b" and "results_only b c"
  shows "results_only a c"
proof -
  have "list_all2 same_but_result (ctx a) (ctx b)" "list_all2 same_but_result (ctx b) (ctx c)"
    using assms by (simp_all add: results_only_def)
  then have "list_all2 same_but_result (ctx a) (ctx c)" 
    unfolding list_all2_conv_all_nth using same_but_result_trans by fastforce
  then show ?thesis using assms by (simp add: results_only_def)
qed

lemma result_stored: "results_only s (upd_ctx i (upd_pin pin (\<lambda>p. p\<lparr>top_half_result := r\<rparr>)) s)"
proof -
  have "same_but_result c (upd_pin pin (\<lambda>p. p\<lparr>top_half_result := r\<rparr>) c)" for c
    using same_but_result_refl [of c] by (auto simp: same_but_result_def)
  then show ?thesis by (simp add: results_only_def list_all2_conv_all_nth same_but_result_refl)
qed

lemma release_ctx_frame: "results_only (fst (fst x)) (fst (fst (release_ctx run level pin i x)))"
  by (auto simp: release_ctx_def split_beta Let_def results_only_refl result_stored)

lemma release_round_frame: "results_only (fst (fst x)) (fst (fst (fold (release_ctx run level pin) ks x)))"
proof (induction ks arbitrary: x)
  case (Cons k ks)
  show ?case using results_only_trans [OF release_ctx_frame Cons] by simp
qed (simp add: results_only_refl)

lemma release_rounds_frame: "results_only (fst (fst x)) (fst (fst (fst (release_rounds run level pin n x))))"
proof (induction n arbitrary: x)
  case (Suc n)
  show ?case using results_only_trans [OF release_round_frame Suc] by (simp add: results_only_refl)
qed (simp add: results_only_refl)

lemma try_release_frame: "results_only s (fst (try_release_gpio run level pin (s, e)))"
proof -
  have c: "results_only a (b\<lparr>release_failed := f\<rparr>) = results_only a b" for a b f by (simp add: results_only_def)
  show ?thesis using release_rounds_frame [of "((s, e), False, False)" run level pin 3]
    by (simp add: try_release_gpio_def split_beta Let_def c)
qed

text \<open>One pin: the contexts that listen and whose top half, if any, asked for it, are signalled, in the order of the table.\<close>

lemma pin_dispatched:
  assumes "length (ctx s) = configServices_GPIO_Max_CTX" and "bit g pin"
  shows "\<exists>s1 e1 s'. try_release_gpio run level pin (s, e) = (s1, e1) \<and> results_only s s1 \<and>
    dispatch_pin run level g pin (s, e) = (s', e1) \<and> ctx s' = map (noted g pin) (ctx s1) \<and>
    signals s' = signals s @ concat (map (notice pin) (ctx s1))"
proof -
  obtain s1 e1 where r: "try_release_gpio run level pin (s, e) = (s1, e1)" by force
  have f: "results_only s s1" using try_release_frame [of s run level pin e] r by simp
  then have l: "length (ctx s1) = configServices_GPIO_Max_CTX" using assms(1) by (auto simp: results_only_def dest: list_all2_lengthD)
  have "drop_bit pin g AND 1 = 1" using assms(2) by (simp add: bit_iff_odd_drop_bit and_one_eq odd_iff_mod_2_eq_one)
  then have "dispatch_pin run level g pin (s, e) = (fold (dispatch_ctx g pin) [0..<configServices_GPIO_Max_CTX] s1, e1)"
    by (simp add: dispatch_pin_def r)
  then show ?thesis using dispatch_all [OF l, of g pin] r f by (simp add: results_only_def)
qed

lemma no_top_half:
  assumes "\<forall>c \<in> set (ctx s). \<forall>q. top_half (pins c q) = 0" and "length (ctx s) = configServices_GPIO_Max_CTX"
  shows "try_release_gpio run level pin (s, e) = (s, e)"
proof -
  have "release_ctx run level pin i ((s, e), x) = ((s, e), x)" if "i < configServices_GPIO_Max_CTX" for i x
    using assms that by (simp add: release_ctx_def split_beta)
  then have f: "fold (release_ctx run level pin) ks ((s, e), x) = ((s, e), x)" if "\<forall>i \<in> set ks. i < configServices_GPIO_Max_CTX" for ks x
    using that by (induction ks) simp_all
  have "fst (release_rounds run level pin n ((s, e), x)) = ((s, e), x)" for n x
    by (induction n) (simp_all add: f)
  from this [of 3 "(False, False)"] show ?thesis by (simp add: try_release_gpio_def split_beta Let_def)
qed

text \<open>
  The whole turn for clients without top halves: what is signalled is decided by the table at its start, pin by pin and
  within a pin in the order of the contexts, and whoever listens to one of the pins finds the status in its \<open>gisr\<close>.
\<close>

definition told :: "u32 \<Rightarrow> nat \<Rightarrow> service_gpio_handle_ctx_t \<Rightarrow> service_gpio_handle_ctx_t" where
  "told g n c = (if \<exists>pin < n. bit g pin \<and> listens pin c then c\<lparr>gisr := gisr c OR g\<rparr> else c)"

lemma gisr_update [simp]:
  "listens pin (c\<lparr>gisr := x\<rparr>) = listens pin c" "notice pin (c\<lparr>gisr := x\<rparr>) = notice pin c"
  by (simp_all add: listens_def notice_def pin_registered_bit)

lemma told_simps [simp]: "listens pin (told g n c) = listens pin c" "notice pin (told g n c) = notice pin c" "pins (told g n c) = pins c"
  by (simp_all add: told_def)

lemma told_Suc: "told g (Suc n) c = (if bit g n then noted g n (told g n c) else told g n c)"
proof -
  have i: "gisr c OR g OR g = gisr c OR g" by (simp add: or.assoc)
  show ?thesis by (auto simp: told_def noted_def less_Suc_eq i)
qed

lemma turn_prefix:
  assumes t: "\<forall>c \<in> set (ctx s). \<forall>q. top_half (pins c q) = 0" and l: "length (ctx s) = configServices_GPIO_Max_CTX"
  shows "\<exists>s'. fold (dispatch_pin run level g) [0..<n] (s, e) = (s', e) \<and> ctx s' = map (told g n) (ctx s) \<and>
    signals s' = signals s @ concat (map (\<lambda>pin. if bit g pin then concat (map (notice pin) (ctx s)) else []) [0..<n])"
proof (induction n)
  case 0
  have "map (told g 0) (ctx s) = ctx s" by (simp add: told_def map_idI)
  then show ?case by simp
next
  case (Suc n)
  then obtain s' where s': "fold (dispatch_pin run level g) [0..<n] (s, e) = (s', e)" "ctx s' = map (told g n) (ctx s)"
    "signals s' = signals s @ concat (map (\<lambda>pin. if bit g pin then concat (map (notice pin) (ctx s)) else []) [0..<n])" by blast
  have t': "\<forall>c \<in> set (ctx s'). \<forall>q. top_half (pins c q) = 0" and l': "length (ctx s') = configServices_GPIO_Max_CTX"
    using t l s'(2) by simp_all
  show ?case
  proof (cases "bit g n")
    case True
    have r: "try_release_gpio run level n (s', e) = (s', e)" by (rule no_top_half [OF t' l'])
    from pin_dispatched [OF l' True, of run level e] r obtain s2 where
      "dispatch_pin run level g n (s', e) = (s2, e)" "ctx s2 = map (noted g n) (ctx s')"
      "signals s2 = signals s' @ concat (map (notice n) (ctx s'))" by auto
    then show ?thesis using s' True by (simp add: told_Suc comp_def)
  next
    case False
    then have "dispatch_pin run level g n (s', e) = (s', e)"
      by (simp add: dispatch_pin_def bit_iff_odd_drop_bit and_one_eq odd_iff_mod_2_eq_one)
    then show ?thesis using s' False by (simp add: told_Suc)
  qed
qed

text \<open>The task keeps the invariant, whatever the top halves do to the pins.\<close>

lemma same_but_result_ok:
  assumes "same_but_result c c'"
  shows "ctx_ok N c' = ctx_ok N c" "holds_pin c' q = holds_pin c q" "int_mode (pins c' q) = int_mode (pins c q)"
proof -
  have p: "int_mode (pins c' q) = int_mode (pins c q) \<and> enabled (pins c' q) = enabled (pins c q)" for q
  proof -
    obtain b where "pins c' q = (pins c q)\<lparr>top_half_result := b\<rparr>" using assms unfolding same_but_result_def by blast
    then show ?thesis by simp
  qed
  have m: "registered_pin_map c' = registered_pin_map c" "valid c' = valid c" using assms by (simp_all add: same_but_result_def)
  show "ctx_ok N c' = ctx_ok N c" "holds_pin c' q = holds_pin c q" "int_mode (pins c' q) = int_mode (pins c q)"
    using p m by (simp_all add: ctx_ok_def pin_registered_bit)
qed

lemma shared_ok_same:
  assumes "shared_ok cs" and "length cs' = length cs"
    and "\<And>i q. i < length cs \<Longrightarrow> holds_pin (cs' ! i) q = holds_pin (cs ! i) q \<and> int_mode (pins (cs' ! i) q) = int_mode (pins (cs ! i) q)"
  shows "shared_ok cs'"
proof (rule shared_okI)
  fix i j q assume a: "i < length cs'" "j < length cs'" "i \<noteq> j" "holds_pin (cs' ! i) q" "holds_pin (cs' ! j) q"
  then have l: "i < length cs" "j < length cs" using assms(2) by simp_all
  show "int_mode (pins (cs' ! i) q) = int_mode (pins (cs' ! j) q) \<and> shareable (int_mode (pins (cs' ! i) q))"
    using shared_okD [OF assms(1) l a(3), of q] assms(3) [OF l(1), of q] assms(3) [OF l(2), of q] a(4,5) by argo
qed

lemma results_only_ok:
  assumes "gpio_ok N s" and "results_only s s'"
  shows "gpio_ok N s'"
proof -
  have r: "length (ctx s') = length (ctx s)" "\<And>i. i < length (ctx s) \<Longrightarrow> same_but_result (ctx s ! i) (ctx s' ! i)"
    "service_gpio_started s' = service_gpio_started s" using assms(2) by (auto simp: results_only_def list_all2_conv_all_nth)
  have "shared_ok (ctx s')"
    by (rule shared_ok_same [of "ctx s"]) (use assms(1) r(1) same_but_result_ok(2,3) [OF r(2)] in \<open>simp_all add: gpio_ok_def\<close>)
  moreover have "\<forall>c \<in> set (ctx s'). ctx_ok N c"
    using assms(1) r(1) same_but_result_ok(1) [OF r(2)] by (simp add: gpio_ok_def all_set_conv_all_nth)
  ultimately show ?thesis using assms(1) r by (simp add: gpio_ok_def)
qed

lemma dispatch_ok: "gpio_ok N s \<Longrightarrow> gpio_ok N (dispatch_ctx g pin i s)"
proof -
  assume ok: "gpio_ok N s"
  have "gpio_ok N (upd_ctx i (\<lambda>c. c\<lparr>gisr := gisr c OR g\<rparr>) s)"
    by (rule gpio_ok_upd [OF ok]) (auto simp: ctx_ok_def pin_registered_bit)
  then show ?thesis using ok gpio_ok_cong [of "_\<lparr>signals := _\<rparr>"] by (simp add: dispatch_ctx_def Let_def)
qed

lemma task_ok:
  assumes "gpio_ok N s"
  shows "gpio_ok N (fst (service_gpio_task P run level result flagged g (s, e)))"
proof -
  have f: "gpio_ok N (fold (dispatch_ctx g pin) ks x)" if "gpio_ok N x" for x ks pin
    using that by (induction ks arbitrary: x) (simp_all add: dispatch_ok)
  have p: "gpio_ok N (fst (dispatch_pin run level g pin (x, y)))" if "gpio_ok N x" for x y pin
    using f [OF results_only_ok [OF that try_release_frame [of x run level pin y]]] that by (simp add: dispatch_pin_def split_beta Let_def)
  have "gpio_ok N (fst (fold (dispatch_pin run level g) ps (x, y)))" if "gpio_ok N x" for x y ps
    using that
  proof (induction ps arbitrary: x y)
    case (Cons q ps)
    then show ?case using p [OF Cons.prems, of q y] Cons.IH by (cases "dispatch_pin run level g q (x, y)") simp
  qed simp
  then show ?thesis using assms by (simp add: service_gpio_task_def)
qed

lemma get_isr_ok:
  assumes "gpio_ok N s"
  shows "gpio_ok N (fst (service_gpio_get_isr handle want peek s))"
proof -
  have "gpio_ok N (upd_ctx h (\<lambda>c. c\<lparr>gisr := 0\<rparr>) s)" for h by (rule gpio_ok_upd [OF assms]) (auto simp: ctx_ok_def pin_registered_bit)
  then show ?thesis using assms by (simp add: service_gpio_get_isr_def)
qed

lemma conflict_refused:
  assumes ok: "gpio_ok N s" and h: "h < length (ctx s)" "valid (ctx s ! h)" "pin < N"
    and k: "k < length (ctx s)" "k \<noteq> h" "holds_pin (ctx s ! k) pin" and m: "int_mode (pins (ctx s ! k) pin) \<noteq> mode \<or> \<not> shareable mode"
  shows "service_gpio_register_interrupt N (int h) pin mode evm s = (s, -1)"
proof -
  have "shared_pin_error (OTHER_CONTEXT_HOLD_THIS_PIN (ctx s) h pin 0) pin mode s"
    using others_agree [of s h pin mode k] ok k m by (auto simp: gpio_ok_def)
  then show ?thesis using valid_guard [OF ok h] by (simp add: service_gpio_register_interrupt_def)
qed

end
