(* ===== verification/BoardScenario.thy ===== *)
theory BoardScenario
  imports Scenario PlatformOk ServiceTimerOk ServiceGpioOk
begin

unbundle bit_operations_syntax

text \<open>
  Concrete states of the port, the platform and the two services, reached by their own operations, on which the hypotheses of the
  properties hold.
\<close>

section \<open>Port\<close>

definition cpu_of :: "u32 \<Rightarrow> cpu" where
  "cpu_of sp = \<lparr>eax = 1, ecx = 2, edx = 3, ebx = 4, esp = sp, ebp = 6, esi = 7, edi = 8, eip = 0x5000, cs = 8, eflags = 0x202\<rparr>"

definition port_app :: port where
  "port_app = \<lparr>regs = cpu_of 0x1000, ram = (\<lambda>_. 0), tops = (\<lambda>_. 0)\<rparr>"

text \<open>The application task is saved and the idle task runs on its own stack.\<close>

definition port_idle :: port where
  "port_idle = (save_context 2 port_app)\<lparr>regs := cpu_of 0x2000\<rparr>"

lemma port_idle_kept: "context_kept 2 (save_context 2 port_app) port_idle"
  by (simp add: context_kept_def port_idle_def)

lemma port_stacks_apart: "set (frame_at (esp (regs port_app))) \<inter> set (frame_at (esp (regs port_idle))) = {}"
  by (simp add: port_app_def port_idle_def cpu_of_def frame_at_def upt_rec)

definition idle_runs :: kernel where
  "idle_runs = demo\<lparr>pxCurrentTCB := Some 7\<rparr>"

lemma idle_yields: "pxCurrentTCB idle_runs = Some 7" "pxCurrentTCB (vPortYieldCall idle_runs) = Some 2"
proof -
  show "pxCurrentTCB idle_runs = Some 7" by (simp add: idle_runs_def)
  let ?k = "vTaskSwitchContext idle_runs"
  have k: "kinv {} idle_runs" and g: "gcont idle_runs 2 = Some (Ready 3)" and n: "uxSchedulerSuspended idle_runs = 0"
    using demo_facts demo_fields by (simp_all add: idle_runs_def)
  obtain t where t: "pxCurrentTCB ?k = Some t" "highest_ready ?k t" using switch_selects [OF k n g] by blast
  have f: "gcont ?k u = gcont demo u" "prio ?k u = prio demo u" for u by (simp_all add: idle_runs_def)
  have "3 \<le> prio demo t" "gcont demo t = Some (Ready (prio demo t))"
    using t(2) demo_facts(2) unfolding highest_ready_def f by blast+
  moreover have "t \<in> {2, 7}" using calculation kinv_liveD(1) [OF demo_facts(1)] demo_facts(4) by blast
  ultimately have "t = 2" using demo_facts(7) by auto
  then show "pxCurrentTCB (vPortYieldCall idle_runs) = Some 2" using t(1) by (simp add: vPortYieldCall_def)
qed

definition irqs0 :: irqs where
  "irqs0 = \<lparr>xInterruptDescriptorTable = (\<lambda>_. \<lparr>usISRLow = 0, usSegmentSelector = 0, ucZero = 0, ucFlags = 0, usISRHigh = 0\<rparr>),
     xInterruptHandlerTable = (\<lambda>_. 0), idtr = (0, 0), apic_writes = [], unhandled = [], idle_ticks = 0\<rparr>"

text \<open>Vectors 0x21 and 0x30 are in service.\<close>

definition isr_words :: "nat \<Rightarrow> u32" where
  "isr_words n = (if n = 1 then push_bit 16 1 OR push_bit 1 1 else 0)"

lemma highest_is_0x30: "in_service isr_words 0x30" "\<forall>u. 0x30 < u \<and> u < 256 \<longrightarrow> \<not> in_service isr_words u"
proof -
  show "in_service isr_words 0x30" by (simp add: in_service_def isr_words_def bit_simps)
  have "\<not> in_service isr_words u" if "0x30 < u" for u
  proof (cases "u div 32 = 1")
    case True
    then have "16 < u mod 32" using that div_mult_mod_eq [of u 32] by simp
    then have "\<not> bit (push_bit 16 1 OR push_bit 1 1 :: u32) (u mod 32)" by (simp only: bit_or_iff bit_push_bit_iff bit_1_iff) simp
    then show ?thesis using True by (simp add: in_service_def isr_words_def)
  qed (simp add: in_service_def isr_words_def)
  then show "\<forall>u. 0x30 < u \<and> u < 256 \<longrightarrow> \<not> in_service isr_words u" by blast
qed

section \<open>Platform\<close>

definition mmu0 :: mmu where
  "mmu0 = \<lparr>mmuPageDirectory = (\<lambda>_. 0), mmuPageTable = (\<lambda>_. 0), tlb_flushes = 0, dram_base = 0, page_calls = []\<rparr>"

lemma demo_range: "range_pages 0x3000 0x1800 3 2"
  by (simp add: range_pages_def)

section \<open>Services\<close>

definition timers_off :: timer_service where
  "timers_off = \<lparr>controller = \<lparr>module_inited = False, bsp_timer_id = 0, event = 0, lock = 0, in_task = False\<rparr>, timerset = [],
     signalled = [], called_back = [], armed = [], daemons = 0, destroyed = []\<rparr>"

definition timers_on :: timer_service where
  "timers_on = fst (service_timer_module_init (0, 5) 6 3 timers_off)"

lemma timers_on_ok: "timers_ok timers_on"
  by (simp add: timers_on_def timers_off_def service_timer_module_init_def timers_ok_def zero_timer_def Let_def)

text \<open>One one-shot timer of 1000 microseconds, a cycle of the clock each.\<close>

definition timers_one :: timer_service where
  "timers_one = fst (service_init_timer (\<lambda>u. u) 1000 1 0 True timers_on)"

lemma timers_one_facts:
  "timers_ok timers_one" "inited (timerset timers_one ! 0)" "us_ticks (timerset timers_one ! 0) = 1000 \<and> one_shot (timerset timers_one ! 0)"
  "\<not> active (timerset timers_one ! 0)"
proof -
  show "timers_ok timers_one" unfolding timers_one_def by (rule init_timer_keeps_ok [OF timers_on_ok])
  have "replicate TIMER_NUM_LIMIT zero_timer = zero_timer # replicate 19 zero_timer" by (simp add: TIMER_NUM_LIMIT_def flip: replicate_Suc)
  then have "timerset timers_on = zero_timer # replicate 19 zero_timer"
    by (simp add: timers_on_def timers_off_def service_timer_module_init_def Let_def)
  moreover have "\<not> inited zero_timer" "\<not> ULONG_MAX < 1000" by (simp_all add: zero_timer_def ULONG_MAX_def)
  ultimately have "timerset timers_one ! 0 = fill_timer (\<lambda>u. u) 1000 1 0 True zero_timer"
    by (simp add: timers_one_def service_init_timer_def find_free_timer_def Let_def)
  then show "inited (timerset timers_one ! 0)" "us_ticks (timerset timers_one ! 0) = 1000 \<and> one_shot (timerset timers_one ! 0)"
    "\<not> active (timerset timers_one ! 0)" by (simp_all add: fill_timer_def)
qed

definition gpio_off :: gpio_service where
  "gpio_off = \<lparr>service_gpio_started = False, ctx = [], ioctls = [], signals = [], release_failed = [], gpio_tasks = 0\<rparr>"

definition gpio_on :: gpio_service where
  "gpio_on = service_gpio_start True gpio_off"

lemma gpio_on_ok: "gpio_ok N gpio_on"
  unfolding gpio_on_def by (rule start_ok) (simp_all add: gpio_off_def)

text \<open>One client with a handle that has registered pin 4 for the falling edge.\<close>

definition gpio_client :: gpio_service where
  "gpio_client = fst (service_gpio_register_interrupt 16 0 4 GPIO_INT_MODE_FALLING_EDGE 0x10
     (fst (service_gpio_init_handle (first_invalid 0) 77 gpio_on)))"

lemma gpio_client_ok: "gpio_ok 16 gpio_client"
  unfolding gpio_client_def by (intro register_ok init_handle_ok gpio_on_ok) simp

lemma gpio_client_ctx: "ctx gpio_client ! 0 = zero_ctx\<lparr>event_flag := 77, valid := True, registered_pin_map := 0x10,
    pins := (pins zero_ctx)(4 := \<lparr>int_mode = GPIO_INT_MODE_FALLING_EDGE, event_mask = 0x10, enabled = False, top_half = 0,
      top_half_result = False\<rparr>)\<rparr>" "length (ctx gpio_client) = 12"
  by (simp_all add: gpio_client_def gpio_on_def gpio_off_def service_gpio_start_def service_gpio_init_handle_def
      service_gpio_register_interrupt_def guarded_def ID_IS_VALID_def upd_ctx_def upd_pin_def zero_ctx_def shared_pin_error_def
      configServices_GPIO_Max_CTX_def pin_registered_def Let_def numeral_eq_Suc)

definition gpio_listening :: gpio_service where
  "gpio_listening = fst (service_gpio_enable_interrupt 16 0 4 gpio_client)"

definition bare :: "gpio_service \<Rightarrow> bool" where
  "bare s \<longleftrightarrow> (\<forall>c \<in> set (ctx s). \<forall>q. top_half (pins c q) = 0)"

lemma bare_upd:
  assumes "bare s" and "\<And>c q. top_half (pins (f c) q) = top_half (pins c q)"
  shows "bare (upd_ctx h f s)"
proof (cases "h < length (ctx s)")
  case True
  then have "\<forall>q. top_half (pins (f (ctx s ! h)) q) = 0" using assms by (simp add: bare_def)
  then show ?thesis using assms(1) set_update_subset_insert [of "ctx s" h "f (ctx s ! h)"] by (auto simp: bare_def upd_ctx_def)
qed (use assms(1) in \<open>simp add: upd_ctx_def list_update_beyond\<close>)

lemma bare_calls:
  assumes "bare s"
  shows "bare (fst (service_gpio_init_handle f ev s))" "bare (fst (service_gpio_register_interrupt N h p m w s))"
    "bare (fst (service_gpio_enable_interrupt N h p s))"
proof -
  have g: "bare (gpio_setup b p k s)" for b p k using assms by (simp add: bare_def)
  show "bare (fst (service_gpio_init_handle f ev s))" by (simp add: service_gpio_init_handle_def Let_def assms bare_upd)
  show "bare (fst (service_gpio_register_interrupt N h p m w s))"
    by (simp add: service_gpio_register_interrupt_def guarded_def Let_def assms bare_upd)
  show "bare (fst (service_gpio_enable_interrupt N h p s))"
    by (simp add: service_gpio_enable_interrupt_def guarded_def Let_def assms g bare_upd)
qed

lemma gpio_client_top_halves: "bare gpio_client"
  unfolding gpio_client_def
  by (intro bare_calls) (simp add: bare_def gpio_on_def gpio_off_def service_gpio_start_def zero_ctx_def)

lemma gpio_listening_facts:
  "gpio_ok 16 gpio_listening" "\<forall>c \<in> set (ctx gpio_listening). \<forall>q. top_half (pins c q) = 0"
  "notice 4 (ctx gpio_listening ! 0) = [(77, 0x10)]" "ctx gpio_listening ! 0 \<in> set (ctx gpio_listening)"
proof -
  have f: "first_holder 4 0 gpio_client" "\<not> enabled (pins (ctx gpio_client ! 0) 4)" "holds_pin (ctx gpio_client ! 0) 4"
    by (simp_all add: first_holder_def gpio_client_ctx pin_registered_bit bit_numeral_rec)
  have e: "ctx gpio_listening = (ctx gpio_client)[0 := upd_pin 4 (\<lambda>p. p\<lparr>enabled := True\<rparr>) (ctx gpio_client ! 0)]"
    using enable_outcome [OF gpio_client_ok f(1) _ f(3) _ f(2)] f(2) gpio_client_ctx(2)
    by (simp add: gpio_listening_def upd_ctx_def)
  show "gpio_ok 16 gpio_listening" unfolding gpio_listening_def by (rule enable_disable_ok [OF gpio_client_ok])
  show "\<forall>c \<in> set (ctx gpio_listening). \<forall>q. top_half (pins c q) = 0"
    using bare_calls(3) [OF gpio_client_top_halves] by (simp add: bare_def gpio_listening_def)
  show "notice 4 (ctx gpio_listening ! 0) = [(77, 0x10)]"
    unfolding e using gpio_client_ctx by (simp add: notice_def listens_def pin_registered_bit bit_numeral_rec)
  show "ctx gpio_listening ! 0 \<in> set (ctx gpio_listening)" unfolding e using gpio_client_ctx(2) by (intro nth_mem) simp
qed

end
