(* ===== verification/Spec2Isabelle.thy ===== *)
theory Spec2Isabelle
  imports ServiceScenario BoardScenario
begin

text \<open>
  The kernel of \<^verbatim>\<open>src/rtos/linux_style_openrtos/openrtos/openRTOS_kernel\<close>: FreeRTOS
  V8.2.3 with the changes of its owner (two heaps, lazy FPU switching, a timer tick from the
  local APIC, a tick hook for paging). This repository holds many unrelated programs; the
  kernel is the one with state, invariants and interacting components, and it is the subject
  here, with the platform code it is started by and the two services built on it
  (\<^verbatim>\<open>../services\<close>). File names below are relative to that directory's \<^verbatim>\<open>Source\<close>.

  \<^bold>\<open>How the parts interact.\<close> Everything the kernel knows about a task is which lists the two list
  items inside its TCB are in. \<^verbatim>\<open>list.c\<close> provides those intrusive lists. \<^verbatim>\<open>tasks.c\<close> keeps one
  ready list per priority with a bit map of the non-empty ones, two delayed lists that swap
  roles when the tick count overflows, a suspended, a pending and a termination list, and moves
  tasks between them under critical sections of the port (\<^verbatim>\<open>portable/GCC/IA32_flat\<close>), which
  hold back a requested context switch until the outermost section ends. Queues and event groups
  block tasks through event lists that \<^verbatim>\<open>tasks.c\<close> orders by priority. \<^verbatim>\<open>heap_4.c\<close> suspends
  the scheduler around its work and provides TCBs and stacks from two heaps. \<^verbatim>\<open>timers.c\<close> runs one task that owns
  all timers; other tasks and interrupts reach it through a queue, and so do event group calls from interrupts.
  The port saves and restores registers around a switch and leads every interrupt vector to a handler; the platform code sets up
  segments, pages, the interrupt controllers and the exception gates before the scheduler starts. The timer and the GPIO service are
  tasks that wait for an event flag and hand out numbered timers and handles to their clients.

  \<^bold>\<open>Theories, in import order.\<close>
  \<^item> \<open>Prelude\<close>: word widths, the collections of automation, generic lemmas.
  \<^item> \<open>RtosList\<close>: \<^verbatim>\<open>list.c\<close>, \<^verbatim>\<open>list.h\<close>. A store maps nodes to next, previous,
    value, container and owner, so aliasing is explicit. \<open>wf_lists\<close> says that every list is a
    doubly linked ring; \<open>items\<close> reads a list off its pointers. The locale \<open>intrusive_lists\<close>
    states what the rest of the kernel relies on and is interpreted by the functions of \<^verbatim>\<open>list.c\<close>.
  \<^item> \<open>KernelState\<close>: the file-scope variables of \<^verbatim>\<open>tasks.c\<close> and \<^verbatim>\<open>port.c\<close> as one record,
    the ready macros, the context switch, yields and critical sections.
  \<^item> \<open>KernelInv\<close>, \<open>KernelPrim\<close>: the invariant \<open>kinv\<close> and one lemma per list movement.
  \<^item> \<open>TaskTick\<close>: tick interrupt, delays, suspension of the scheduler. \<open>TaskTime\<close>: time-out
    objects, queries, tickless idle. \<open>TaskControl\<close>: suspend, resume, priorities, inheritance,
    event lists. \<open>TaskNotify\<close>: direct to task notifications.
  \<^item> \<open>Heap4\<close>, \<open>Heap4Inv\<close>, \<open>Heap4Ok\<close>: \<^verbatim>\<open>heap_4.c\<close>; memory is a function from
    addresses to block headers, \<open>heap_ok\<close> relates it to the sequence of blocks that tile the heap.
  \<^item> \<open>TaskCreate\<close>: creation and deletion of tasks with their memory, start of the scheduler,
    one turn of the idle task. \<open>Fpu\<close>: \<^verbatim>\<open>../Platform/x86/Common/fpu.c\<close>.
  \<^item> \<open>EventOrder\<close>: the priority order of event lists. \<open>Machine\<close>: the kernel as a step relation
    and its reachable states. \<open>Scenario\<close>: concrete states for the witnesses.
  \<^item> \<open>Ring\<close>: the storage area of a queue (\<^verbatim>\<open>queue.c\<close>) as a ring of slots in byte memory; the locale
    \<open>bounded_deque\<close> is its contract. \<open>Queue\<close>: the operations of \<^verbatim>\<open>queue.c\<close> on the kernel and the
    queues. \<open>EventWake\<close>: blocking on and waking from event lists, as queues and event groups use it. \<open>QueueOk\<close>:
    what the operations of a queue do to tasks and messages. \<open>Channel\<close>: the locale \<open>message_channel\<close>, what a client
    of a queue relies on, interpreted by the functions of \<^verbatim>\<open>queue.c\<close>. \<open>QueueScenario\<close>: concrete queues.
  \<^item> \<open>EventGroup\<close>: \<^verbatim>\<open>event_groups.c\<close>; the state is the kernel and the bits of every group, what a task waits for is the
    value of its event list item. \<open>EventGroupOk\<close>: who is released by which bits.
  \<^item> \<open>Timer\<close>: \<^verbatim>\<open>timers.c\<close>; the state adds the timers, the two timer lists and the time last sampled to the queues. Messages
    are sixteen bytes in the queue. \<open>TimerOk\<close>: the invariant \<open>tinv\<close> of the timer lists, expiry, commands, sleep. \<open>TimerSwitch\<close>:
    the exchange of the lists when the tick count overflows; \<open>well_behaved\<close> is what it needs of the callbacks.
    \<open>ServiceScenario\<close>: concrete groups and timers.
  \<^item> \<open>Port\<close>: the processor side of \<^verbatim>\<open>port.c\<close>, \<^verbatim>\<open>portASM.S\<close> and \<^verbatim>\<open>ISR_Support.h\<close>: registers, stacks as memory words, the saved context,
    the initial stack, interrupt tables, the local APIC, the common interrupt entry. \<open>PortOk\<close>: contexts survive a switch, vectors
    reach handlers.
  \<^item> \<open>Platform\<close>: \<^verbatim>\<open>../Platform/x86/Common\<close>: \<^verbatim>\<open>gdt.c\<close>, \<^verbatim>\<open>mmu.c\<close>, \<^verbatim>\<open>mmu/paging.c\<close>, \<^verbatim>\<open>ia32_interrupts.c\<close>, \<^verbatim>\<open>exception.c\<close>; constants of the board
    and the page manager, whose headers are not in the repository, are arguments. \<open>PlatformOk\<close>: descriptors, address translation, the mask
    of the I/O APIC, exception gates.
  \<^item> \<open>SlotTable\<close>: the locale \<open>slot_table\<close>, the contract of a table of numbered slots; the locales \<open>timer_request\<close> and \<open>free_ids\<close> of the
    services are sublocales of it. \<open>ServiceTimer\<close>, \<open>ServiceTimerOk\<close>: \<^verbatim>\<open>../../services/service_timer.c\<close>.
    \<open>ServiceGpio\<close>, \<open>ServiceGpioOk\<close>: \<^verbatim>\<open>../../services/service_gpio.c\<close>. \<open>BoardScenario\<close>: concrete states of port, platform and services.

  \<^bold>\<open>What is shown.\<close> Reachable states satisfy \<open>kinv\<close> (C1); the context switch runs a task of the
  highest ready priority (C2); delays, time-outs and tickless idle are exact across tick overflow
  (C3 to C5, C12, C13); yields are deferred by critical sections (C6); lists refine sequences
  (C7, C8); the heap never hands out overlapping blocks and coalesces them (C9 to C11);
  suspend and resume (C14); event lists and notifications (C15 to C17); creation and deletion
  (C18, C19); FPU contexts are isolated (C20); queues are bounded, keep order, block and wake the right
  tasks, lose no wake-up, and mutexes inherit priority (C21 to C25); event groups release exactly the tasks whose bits
  are set, and these get them (C26, C27); timers expire exactly when their period has passed, the timer task sleeps
  until then, the timer lists are exchanged at an overflow, and commands and pended calls reach it unchanged (C28 to C32);
  registers survive a context switch (C33), registered interrupt handlers are served (C34), mapped pages are translated (C35);
  service timers fire when due (C36) and are numbered apart, with one number that reads behind the table (C37); GPIO pins are shared
  safely (C38), their interrupts reach the listeners (C39), but the driver follows the first client (C40). Further lemmas in this
  theory: the initial heap and allocation followed by release, periodic delays, that the tick interrupt and the resumption of the
  scheduler return, round robin in a list, sleep without a time limit, reported task states, priority changes, inheritance on its own, the
  order of waiters, notifications as counting semaphores, the first use of the FPU, the rendezvous of an event group; in
  \<open>PlatformOk\<close> the GDT, the mask of the I/O APIC, and that exception gates survive the start; in \<open>ServiceTimerOk\<close> that a timer which a
  callback starts may be forgotten.

  \<^bold>\<open>Calls that block.\<close> \<open>xQueueGenericSend\<close> and \<open>xQueueGenericReceive\<close> are loops. One turn is a function
  (\<open>xQueueGenericSend_pass\<close>, \<open>xQueueGenericReceive_pass\<close>) that ends with a result or with the caller
  blocked; the loop is \<open>partial_function (option)\<close> and takes as an argument, \<open>others\<close>, what the
  rest of the system does until the caller runs again. A handle of a queue is the number of its
  address; the event lists of queue \<open>q\<close> are named in the store of lists. With queue sets on, as
  configured, a send to a member of a set stores its handle in the queue of the set.

  \<^bold>\<open>Loops and integers.\<close> Loops over linked structures are \<open>partial_function (option)\<close>, so that not
  returning is \<open>None\<close>, and the theorems state that they return; there is no fuel. Ticks, sizes,
  counters and priorities are 32-bit words that wrap as in C. \<open>configASSERT\<close> is empty in the build
  configuration and is therefore not modelled. The kernel is modelled as a sequence of atomic calls
  and interrupts: every access to shared state in the code is inside a critical section, an
  interrupt, or with the scheduler suspended. A call that blocks is split where the task leaves
  the processor, so that other steps can come in between. In the platform and the services an access outside an array and a
  signed overflow are the outcome \<open>None\<close>.

  \<^bold>\<open>Not modelled.\<close> Trace hooks and run-time statistics; \<open>vTaskList\<close> and other formatting; the start-up assembly and the list of
  drivers in \<^verbatim>\<open>init.c\<close>, which call code that is not in the repository; co-routines
  (switched off by the configuration); the demo programs and board files. The event lists of a deleted queue or event
  group keep their name in the model, so use after deletion is not represented.
  Functions outside the sources that the code calls (the application hook for a failed
  allocation, \<open>portSUPPRESS_TICKS_AND_SLEEP\<close>, the size of a TCB) are parameters.
\<close>

unbundle bit_operations_syntax

section \<open>The scheduler\<close>

text \<open>
  C1. Every kernel state that is reachable from reset, through any sequence of kernel calls,
  interrupts and context switches made within their documented preconditions, satisfies the
  kernel invariant: the lists are well formed, every task is in exactly one state list, the ready
  list of its own priority if it is ready, the ready bit map agrees with the ready lists, the
  delayed lists are sorted and split at the tick count, and the counters count.
\<close>

theorem reachable_states_are_ok:
  assumes "reachable k"
  shows "kinv {} k"
  using assms by (rule reachable_kinv)

theorem reachable_states_are_ok_witness: "reachable demo \<and> kinv {} demo"
  using demo_reachable reachable_states_are_ok [OF demo_reachable] by simp

text \<open>
  C2. When the scheduler is not suspended and some task is ready, a context switch selects a
  ready task whose priority no ready task exceeds, as long as the bit map and the lists agree.
\<close>

theorem context_switch_runs_highest_priority:
  assumes "kinv {} k" and "uxSchedulerSuspended k = 0" and "gcont k u = Some (Ready p)"
  shows "\<exists>t. pxCurrentTCB (vTaskSwitchContext k) = Some t \<and> highest_ready (vTaskSwitchContext k) t"
  using assms by (rule switch_selects)

theorem context_switch_runs_highest_priority_witness:
  "\<exists>t. pxCurrentTCB (vTaskSwitchContext demo) = Some t \<and> highest_ready (vTaskSwitchContext demo) t"
  by (rule context_switch_runs_highest_priority [OF demo_facts(1) _ demo_facts(2)]) (simp add: demo_fields)

text \<open>
  C3. The tick interrupt returns, advances the tick count by one (wrapping) and moves exactly
  the delayed tasks whose wake time is the new count to the ready list of their priority and out
  of their event list; it changes the state of no other task.
\<close>

theorem tick_wakes_exactly_the_due_tasks:
  assumes "kinv {} k" and "uxSchedulerSuspended k = 0"
  shows "\<exists>k' sw. xTaskIncrementTick k = Some (k', sw) \<and> kinv {} k' \<and> xTickCount k' = xTickCount k + 1 \<and>
    (\<forall>t. gcont k' t = (if timed k t \<and> remaining k t = 1 then Some (Ready (prio k t)) else gcont k t)) \<and>
    (\<forall>t. econt k' t = (if timed k t \<and> remaining k t = 1 then None else econt k t)) \<and>
    pxCurrentTCB k' = pxCurrentTCB k \<and> tcb k' = tcb k"
  using tick_step [OF assms] by metis

theorem tick_wakes_exactly_the_due_tasks_witness:
  "\<exists>k' sw. xTaskIncrementTick demo = Some (k', sw) \<and> kinv {} k' \<and> xTickCount k' = 1"
  using tick_wakes_exactly_the_due_tasks [OF demo_facts(1)] demo_fields by auto

text \<open>
  C4. \<open>vTaskDelay n\<close> with nothing held back returns, the caller is blocked during the next
  \<open>n - 1\<close> ticks and ready from the \<open>n\<close>-th on, whatever the tick count is and whether
  or not it overflows in between.
\<close>

theorem delay_lasts_exactly_n_ticks:
  assumes "kinv {} k" and "running_task k t" and "n \<noteq> 0"
    and "uxSchedulerSuspended k = 0" and "uxPendedTicks k = 0" and "pending k = {}"
  shows "\<exists>k'. vTaskDelay n k = Some k' \<and> kinv {} k' \<and>
    (\<forall>j < unat n. \<exists>k''. ticks j k' = Some k'' \<and> timed k'' t) \<and>
    (\<exists>k''. ticks (unat n) k' = Some k'' \<and> gcont k'' t = Some (Ready (prio k t)))"
  using assms by (rule delay_exact)

theorem delay_lasts_exactly_n_ticks_witness:
  "\<exists>k' k''. vTaskDelay 2 demo = Some k' \<and> ticks 2 k' = Some k'' \<and> gcont k'' 2 = Some (Ready 3)"
  using delay_lasts_exactly_n_ticks [OF demo_facts(1,8), of 2] demo_fields demo_facts(6) demo_pending by auto

text \<open>
  C5. The \<open>xTaskResumeAll\<close> that ends the suspension of the scheduler returns; it replays
  every tick that was held back (the count ends where it would have been) and makes exactly the
  tasks ready that were put on the pending list or whose delay ended during those ticks.
\<close>

theorem resume_all_replays_what_was_held_back:
  assumes "kinv {} k" and "uxSchedulerSuspended k = 1" and "live k \<noteq> {}"
  shows "\<exists>k' b. xTaskResumeAll k = Some (k', b) \<and> kinv {} k' \<and> uxSchedulerSuspended k' = 0 \<and>
    uxPendedTicks k' = 0 \<and> xTickCount k' = xTickCount k + uxPendedTicks k \<and>
    (\<forall>t. gcont k' t = (if t \<in> pending k \<or> timed k t \<and> remaining k t \<le> uxPendedTicks k
       then Some (Ready (prio k t)) else gcont k t))"
  using resume_all_ok [OF assms(1)] assms(2,3) unfolding resumed_def by metis

theorem resume_all_replays_what_was_held_back_witness:
  "\<exists>k' b. xTaskResumeAll ((vTaskSuspendAll demo)\<lparr>uxPendedTicks := 3\<rparr>) = Some (k', b) \<and> xTickCount k' = 3"
  using resume_all_replays_what_was_held_back [of "(vTaskSuspendAll demo)\<lparr>uxPendedTicks := 3\<rparr>"]
    demo_facts(1,4) demo_fields by (auto simp: vTaskSuspendAll_def)

text \<open>
  \<open>vTaskDelayUntil\<close> returns \<open>*pxPreviousWakeTime\<close> advanced by the increment, and blocks
  the caller until that time exactly when it has not been reached yet, tick overflow included.
\<close>

lemma delay_until_blocks_until_the_next_period:
  assumes "kinv {} k" and "running_task k t"
    and "uxSchedulerSuspended k = 0" and "uxPendedTicks k = 0" and "pending k = {}"
  shows "\<exists>k'. vTaskDelayUntil p d k = Some (k', p + d) \<and> kinv {} k' \<and> xTickCount k' = xTickCount k \<and>
    (if delay_until_should (xTickCount k) p (p + d) then timed k' t \<and> gval k' t = p + d
     else gcont k' t = gcont k t) \<and>
    (\<forall>u. u \<noteq> t \<longrightarrow> gcont k' u = gcont k u)"
  using assms by (rule delay_until_exact)

lemma delay_until_blocks_until_the_next_period_instance:
  "\<exists>k'. vTaskDelayUntil 0 10 demo = Some (k', 10) \<and> timed k' 2 \<and> gval k' 2 = 10"
  using delay_until_blocks_until_the_next_period [OF demo_facts(1,8), of 0 10] demo_fields demo_pending
  by (auto simp: delay_until_should_def)

text \<open>
  No kernel loop hangs: in every state that satisfies the invariant the timer interrupt and
  \<open>xTaskResumeAll\<close> return, whether or not the scheduler is suspended.
\<close>

lemma interrupt_and_resume_return:
  assumes "kinv {} k"
  shows "(\<exists>k'. vPortTimerHandler k = Some k' \<and> kinv {} k') \<and> (\<exists>k' b. xTaskResumeAll k = Some (k', b) \<and> kinv {} k')"
  using timer_handler_ok [OF assms] resume_all_ok [OF assms] by blast

lemma interrupt_and_resume_return_instance:
  "(\<exists>k'. vPortTimerHandler demo = Some k') \<and> (\<exists>k' b. xTaskResumeAll demo = Some (k', b))"
  using interrupt_and_resume_return [OF demo_facts(1)] by blast



section \<open>Intrusive lists\<close>

text \<open>
  C7. \<open>vListInsert\<close> refines insertion into a sorted sequence: on a store of well-formed
  lists the search loop ends, the item goes behind all items of smaller or equal value, the list
  stays sorted, and no other list changes.
\<close>

theorem sorted_insert_refines:
  assumes "wf_lists L s" and "l \<in> L" and "pvContainer s i = None"
    and "sorted (map (\<lambda>y. xItemValue s (Item y)) (items s l))"
  shows "wf_lists L (vListInsert l i s) \<and>
    items (vListInsert l i s) l =
      takeWhile (\<lambda>y. xItemValue s (Item y) \<le> xItemValue s (Item i)) (items s l) @ i #
      dropWhile (\<lambda>y. xItemValue s (Item y) \<le> xItemValue s (Item i)) (items s l) \<and>
    sorted (map (\<lambda>y. xItemValue (vListInsert l i s) (Item y)) (items (vListInsert l i s) l)) \<and>
    (\<forall>l' \<in> L - {l}. items (vListInsert l i s) l' = items s l')"
  using vListInsert_store [OF assms(1-3)] assms(2,4) kl.sorted_ins [OF assms(1-4)]
  by (simp add: insert_by_def)

theorem sorted_insert_refines_witness:
  "items (vListInsert (TasksWaitingToSend 0) (Event 5) (lists boot0)) (TasksWaitingToSend 0) = [Event 5]"
proof -
  let ?L = "evlists boot0" and ?l = "TasksWaitingToSend 0"
  have wf: "wf_lists ?L (lists boot0)" and c: "pvContainer (lists boot0) (Event 5) = None"
    using boot0_ok by (simp_all add: boot_state_def)
  have l: "?l \<in> ?L" by (simp add: boot0_def)
  have e: "items (lists boot0) ?l = []"
    using set_items [OF wf l] boot0_ok by (simp add: boot_state_def)
  show ?thesis using sorted_insert_refines [OF wf l c] e by simp
qed

text \<open>
  C8. \<open>uxListRemove\<close> refines removal from a sequence: the item leaves the list that holds
  it, all other items and lists stay as they are, and the result is the number of items left.
\<close>

theorem remove_refines:
  assumes "wf_lists L s" and "pvContainer s i = Some l"
  shows "wf_lists L (fst (uxListRemove i s)) \<and>
    (\<forall>l' \<in> L. items (fst (uxListRemove i s)) l' = remove1 i (items s l')) \<and>
    pvContainer (fst (uxListRemove i s)) = (pvContainer s)(i := None) \<and>
    snd (uxListRemove i s) = of_nat (length (items s l) - 1)"
proof -
  have l: "l \<in> L" by (rule kl.cont_ok [OF assms])
  then have "i \<in> set (items s l)" using set_items [OF assms(1)] assms(2) by simp
  then show ?thesis
    using uxListRemove_store [OF assms(1)] assms(2) l by (simp add: length_remove1)
qed

theorem remove_refines_witness:
  "pvContainer (fst (uxListRemove (Generic 2) (lists demo))) (Generic 2) = None"
  using remove_refines [OF kinv_wf [OF demo_facts(1)] demo_facts(2)] by simp

text \<open>
  Round robin: calling \<open>listGET_OWNER_OF_NEXT_ENTRY\<close> as often as a list has items
  returns the owners of all of them, each once, in list order from the one after the index.
\<close>

lemma round_robin_serves_every_entry:
  assumes "wf_lists L s" and "l \<in> L" and "items s l \<noteq> []"
  shows "\<exists>j. next_entries (length (items s l)) l s = map (\<lambda>i. Some (pvOwner s i)) (rotate j (items s l))"
  using assms by (rule next_entries_rotate)

lemma round_robin_serves_every_entry_instance:
  "\<exists>j. next_entries (length (items (lists demo) (Ready 3))) (Ready 3) (lists demo) =
     map (\<lambda>i. Some (pvOwner (lists demo) i)) (rotate j (items (lists demo) (Ready 3)))"
proof (rule round_robin_serves_every_entry [OF kinv_wf [OF demo_facts(1)]])
  show K: "Ready 3 \<in> KL demo" by (simp add: configMAX_PRIORITIES_def)
  show "items (lists demo) (Ready 3) \<noteq> []"
    using set_items [OF kinv_wf [OF demo_facts(1)] K] demo_facts(2) by auto
qed

section \<open>The heaps\<close>

text \<open>
  \<open>prvHeapInit\<close> turns any buffer of at least 32 bytes, aligned or not, that does not
  wrap around the address space into a heap of one free block between the aligned ends.
\<close>

lemma heap_initialisation:
  assumes "0 < b" and "32 \<le> s" and "b + s \<le> 2 ^ 32" and "s < 2 ^ 31"
    and "heap_buf c = of_nat b" and "heap_size c = of_nat s" and "unat (xStart c) \<notin> {b..<b + s}"
  shows "case prvHeapInit c m of (c', m') \<Rightarrow> heap_ok c' m' (heap_base b) [(heap_end b s - heap_base b, False)]"
  using assms by (rule heap_init_ok)

lemma heap_initialisation_instance:
  "case prvHeapInit demo_ctx demo_mem of (c', m') \<Rightarrow> heap_ok c' m' 4096 [(248, False)]"
  using heap_initialisation [of 4096 256 demo_ctx demo_mem] by (simp add: demo_ctx_def heap_base_def heap_end_def)

text \<open>
  C9. When some free block is large enough, \<open>pvPortMalloc\<close>'s core returns an aligned block
  that is at least as large as the request, lies inside the heap and overlaps no block in use;
  all blocks in use stay in use, and the heap invariant (tiling, free list, coalescing, counters)
  holds again.
\<close>

theorem malloc_returns_a_fresh_block:
  assumes "heap_ok c m a bs" and "0 < unat x" and "unat x < 2 ^ 31" and "\<exists>b \<in> set bs. fits (want (unat x)) b"
  shows "\<exists>c' m' bs' A n. malloc_core x c m = Some (c', m', of_nat A + 8) \<and> heap_ok c' m' a bs' \<and>
    in_use a bs' = insert (A, n) (in_use a bs) \<and> unat x + 8 \<le> n \<and> 4 dvd A \<and> a \<le> A \<and> A + n \<le> a + tot bs' \<and>
    (\<forall>(y, k) \<in> in_use a bs. y + k \<le> A \<or> A + n \<le> y)"
  using assms by (rule malloc_spec)

theorem malloc_returns_a_fresh_block_witness:
  "\<exists>c' m' bs' A n. malloc_core 20 heap_c heap_m = Some (c', m', of_nat A + 8) \<and> heap_ok c' m' 4096 bs' \<and>
     in_use 4096 bs' = insert (A, n) (in_use 4096 [(248, False)]) \<and> 28 \<le> n"
proof -
  have "\<exists>b \<in> set [(248, False)]. fits (want (unat (20 :: u32))) b" by (simp add: fits_def want_def)
  from malloc_returns_a_fresh_block [OF heap_demo _ _ this]
  obtain c' m' bs' A n where "malloc_core 20 heap_c heap_m = Some (c', m', of_nat A + 8)" "heap_ok c' m' 4096 bs'"
    "in_use 4096 bs' = insert (A, n) (in_use 4096 [(248, False)])" "unat (20 :: u32) + 8 \<le> n" by auto
  moreover from this(4) have "28 \<le> n" by simp
  ultimately show ?thesis by blast
qed

text \<open>
  C10. Freeing a block in use returns, takes exactly that block out of use, adds its size to
  the free byte count, and merges it with its free neighbours, so the invariant holds again.
\<close>

theorem free_returns_the_block:
  assumes "heap_ok c m a bs" and "(A, n) \<in> in_use a bs"
  shows "\<exists>c' m' bs'. free_core (of_nat A + 8) c m = Some (c', m') \<and> heap_ok c' m' a bs' \<and>
    in_use a bs' = in_use a bs - {(A, n)} \<and> xFreeBytesRemaining c' = xFreeBytesRemaining c + of_nat n"
  using assms by (rule free_spec)

theorem free_returns_the_block_witness:
  "\<exists>m c' m' bs'. heap_ok (with_free 220 heap_c) m 4096 [(28, True), (220, False)] \<and>
     free_core (of_nat 4096 + 8) (with_free 220 heap_c) m = Some (c', m') \<and> heap_ok c' m' 4096 bs' \<and> in_use 4096 bs' = {}"
proof -
  obtain m where m: "heap_ok (with_free 220 heap_c) m 4096 [(28, True), (220, False)]"
    using heap_demo_malloc by blast
  have u: "in_use 4096 [(28, True), (220, False)] = {(4096, 28)}" by (auto simp: in_use_def)
  show ?thesis using free_returns_the_block [OF m, of 4096 28] m unfolding u by fastforce
qed

text \<open>
  Allocating and freeing the block again gives back the heap as it was: the same tiling,
  hence the same free list, and the same free byte count.
\<close>

lemma malloc_free_round_trip:
  assumes "heap_ok c m a bs" and "0 < unat x" and "unat x < 2 ^ 31" and "malloc_core x c m = Some (c', m', p)"
    and "p \<noteq> NULL"
  shows "\<exists>c'' m''. free_core p c' m' = Some (c'', m'') \<and> heap_ok c'' m'' a bs \<and>
    xFreeBytesRemaining c'' = xFreeBytesRemaining c"
  using assms by (rule malloc_free_spec)

lemma malloc_free_round_trip_instance:
  "\<exists>c' m' p c'' m''. malloc_core 20 heap_c heap_m = Some (c', m', p) \<and> free_core p c' m' = Some (c'', m'') \<and>
     heap_ok c'' m'' 4096 [(248, False)]"
proof -
  obtain m' where m: "malloc_core 20 heap_c heap_m = Some (with_free 220 heap_c, m', 4104)"
    using heap_demo_malloc by blast
  have "(4104 :: u32) \<noteq> NULL" by (simp add: NULL_def)
  then show ?thesis using malloc_free_round_trip [OF heap_demo _ _ m] m by fastforce
qed



section \<open>Time\<close>



text \<open>
  C13. Tickless idle loses no wake-up: the expected idle time is never longer than the time that
  any delayed task still has to wait, and stepping the tick count by fewer ticks than remain until
  the next wake time keeps the invariant and shortens every delay by exactly that many ticks.
\<close>

theorem tickless_idle_misses_no_wake_time:
  assumes "kinv {} k" and "xSchedulerRunning k" and "j < xNextTaskUnblockTime k - xTickCount k"
  shows "kinv {} (vTaskStepTick j k) \<and>
    (\<forall>u. timed k u \<longrightarrow> prvGetExpectedIdleTime k \<le> remaining k u \<and> j < remaining k u \<and>
       remaining (vTaskStepTick j k) u = remaining k u - j)"
  using expected_idle_le_remaining [OF assms(1,2)] step_tick_ok [OF assms] by blast

theorem tickless_idle_misses_no_wake_time_witness: "kinv {} (vTaskStepTick 5 demo)"
proof -
  have "5 < xNextTaskUnblockTime demo - xTickCount demo" by (simp add: demo_def portMAX_DELAY_def)
  then show ?thesis using tickless_idle_misses_no_wake_time [OF demo_facts(1), of 5] demo_fields by simp
qed

text \<open>
  When \<open>eTaskConfirmSleepModeStatus\<close> allows a sleep without any timeout, every task but
  the running one is suspended and no task waits for the clock.
\<close>

lemma sleep_without_timeout_is_safe:
  assumes "kinv {} k" and "running_task k t" and "eTaskConfirmSleepModeStatus k = eNoTasksWaitingTimeout"
  shows "(\<forall>u \<in> live k - {t}. gcont k u = Some Suspended) \<and> (\<forall>u. \<not> timed k u)"
  using no_tasks_waiting [OF assms] by blast

lemma sleep_without_timeout_is_safe_instance: "\<forall>u. \<not> timed demo_idle u"
  using sleep_without_timeout_is_safe [OF demo_idle_facts(1,2,3)] by blast

section \<open>Tasks\<close>

text \<open>
  C14. Suspending a task and resuming it: the task leaves whatever list it was in, also its
  event list, is reported as suspended, and \<open>vTaskResume\<close> makes it ready at its priority; no
  other task moves.
\<close>

theorem suspend_then_resume:
  assumes "kinv {} k" and "handle_ok k (Some t)" and "pxCurrentTCB (vTaskSuspend (Some t) k) \<noteq> Some t"
  shows "prvTaskIsTaskSuspended t (vTaskSuspend (Some t) k) \<and>
    kinv {} (vTaskResume (Some t) (vTaskSuspend (Some t) k)) \<and>
    (\<forall>u. gcont (vTaskResume (Some t) (vTaskSuspend (Some t) k)) u =
       (if u = t then Some (Ready (prio k t)) else gcont k u)) \<and>
    (\<forall>u. econt (vTaskResume (Some t) (vTaskSuspend (Some t) k)) u = (if u = t then None else econt k u))"
proof -
  let ?k1 = "vTaskSuspend (Some t) k"
  have tt: "t = prvGetTCBFromHandle (Some t) k" by (simp add: prvGetTCBFromHandle_def)
  note s = suspend_ok [OF assms(1,2) tt]
  have sus: "prvTaskIsTaskSuspended t ?k1" using s(2) by (simp add: suspended_iff)
  have "pvContainer (lists (vTaskResume (Some t) ?k1)) = (pvContainer (lists ?k1))(Generic t := Some (Ready (prio ?k1 t)))"
    by (rule resume_ok(2) [OF s(1) refl]) (use assms(3) sus in auto)
  then show ?thesis using sus resume_ok(1) [OF s(1), of "Some t"] s(2,3) by simp
qed

theorem suspend_then_resume_witness:
  "gcont (vTaskResume (Some 7) (vTaskSuspend (Some 7) demo)) 7 = Some (Ready 0)"
  using suspend_then_resume [OF demo_facts(1) demo_handles(1)] demo_facts(7) demo_suspend_other by simp

text \<open>
  \<open>eTaskGetState\<close> reports for every task but the running one the state its lists say:
  blocked, suspended, deleted or ready.
\<close>

lemma task_state_is_exact:
  assumes "kinv {} k" and "t \<in> live k" and "Some t \<noteq> pxCurrentTCB k"
  shows "(snd (eTaskGetState t k) = eBlocked \<longleftrightarrow> timed k t \<or> gcont k t = Some Suspended \<and> econt k t \<noteq> None) \<and>
    (snd (eTaskGetState t k) = eSuspended \<longleftrightarrow> gcont k t = Some Suspended \<and> econt k t = None) \<and>
    (snd (eTaskGetState t k) = eDeleted \<longleftrightarrow> gcont k t = Some Termination) \<and>
    (snd (eTaskGetState t k) = eReady \<longleftrightarrow> gcont k t = Some (Ready (prio k t)))"
  using get_state_ok [OF assms] by blast

lemma task_state_is_exact_instance: "snd (eTaskGetState 7 demo) = eReady"
  using task_state_is_exact [OF demo_facts(1), of 7] demo_facts demo_fields by simp

text \<open>
  \<open>vTaskPrioritySet\<close> caps the priority at the highest one, makes it the base priority,
  and makes it the priority in force unless the task holds an inherited one; the invariant (the
  task is in the ready list of its new priority) holds again.
\<close>

lemma priority_set_respects_inheritance:
  assumes "kinv {} k" and "t \<in> live k" and "t = prvGetTCBFromHandle h k"
  shows "kinv {} (vTaskPrioritySet h p k) \<and>
    uxBasePriority (tcb (vTaskPrioritySet h p k) t) = new_priority p \<and> new_priority p < configMAX_PRIORITIES \<and>
    prio (vTaskPrioritySet h p k) t = (if uxBasePriority (tcb k t) = prio k t then new_priority p else prio k t)"
  using priority_set_ok [OF assms] new_priority_less [of p] by auto

lemma priority_set_respects_inheritance_instance: "uxBasePriority (tcb (vTaskPrioritySet (Some 7) 99 demo) 7) = 7"
  using priority_set_respects_inheritance [OF demo_facts(1), of 7 "Some 7" 99] demo_facts(4)
  by (simp add: prvGetTCBFromHandle_def new_priority_def configMAX_PRIORITIES_def)

text \<open>
  Priority inheritance and its end: the holder of a mutex gets the priority of the running
  task if that is higher, and giving back its only mutex restores the base priority; the caller
  is told to yield exactly if the priority had been raised.
\<close>

lemma inherit_then_disinherit:
  assumes "kinv {} k" and "t \<in> live k" and "cur k \<in> live k" and "gcont k t \<noteq> Some Termination"
    and "uxMutexesHeld (tcb k t) = 1" and "uxBasePriority (tcb k t) = prio k t"
  shows "prio (vTaskPriorityInherit (Some t) k) t = max (prio k t) (prio k (cur k)) \<and>
    kinv {} (fst (xTaskPriorityDisinherit (Some t) (vTaskPriorityInherit (Some t) k))) \<and>
    prio (fst (xTaskPriorityDisinherit (Some t) (vTaskPriorityInherit (Some t) k))) t = prio k t \<and>
    (snd (xTaskPriorityDisinherit (Some t) (vTaskPriorityInherit (Some t) k)) \<longleftrightarrow> prio k t < prio k (cur k))"
proof -
  let ?k1 = "vTaskPriorityInherit (Some t) k"
  note i = inherit_ok [OF assms(1-3)]
  have t1: "t \<in> live ?k1" using kinv_liveD(1) [OF i(1)] kinv_liveD(5) [OF assms(1,2)] i(6) [of t]
    by (auto split: if_splits)
  have "gcont ?k1 t \<noteq> Some Termination" using i(6) [of t] assms(4) by (auto split: if_splits)
  note d = disinherit_ok [OF i(1) t1 this]
  show ?thesis using i(1-4) d assms(5,6) by (auto simp: max_def)
qed

lemma inherit_then_disinherit_instance:
  "prio (vTaskPriorityInherit (Some 7) demo_mutex) 7 = 3 \<and>
   prio (fst (xTaskPriorityDisinherit (Some 7) (vTaskPriorityInherit (Some 7) demo_mutex))) 7 = 0"
  using inherit_then_disinherit [OF demo_mutex_facts(1), of 7] demo_mutex_facts by (simp add: max_def)

section \<open>Events and notifications\<close>

text \<open>
  Blocking on an event: \<open>vTaskPlaceOnEventList\<close> puts the running task into the event
  list behind all waiters of higher or equal priority and blocks it for the given number of ticks,
  or in the suspended list without a limit; the event list stays ordered by priority and no other
  task moves.
\<close>

lemma waiters_are_queued_by_priority:
  assumes "kinv {} k" and "event_ready k t l" and "prio_ordered l k"
    and "xItemValue (lists k) (Item (Event t)) = configMAX_PRIORITIES - prio k t" and "w \<noteq> 0"
  shows "kinv {} (vTaskPlaceOnEventList l w k) \<and> prio_ordered l (vTaskPlaceOnEventList l w k) \<and>
    econt (vTaskPlaceOnEventList l w k) t = Some l \<and>
    (if w = portMAX_DELAY then gcont (vTaskPlaceOnEventList l w k) t = Some Suspended
     else timed (vTaskPlaceOnEventList l w k) t \<and> remaining (vTaskPlaceOnEventList l w k) t = w) \<and>
    (\<forall>u. u \<noteq> t \<longrightarrow> gcont (vTaskPlaceOnEventList l w k) u = gcont k u \<and>
      econt (vTaskPlaceOnEventList l w k) u = econt k u)"
  using place_on_event_list_ok [OF assms(1,2,5)] place_keeps_order [OF assms(1-5)] by blast

lemma waiters_are_queued_by_priority_instance:
  "econt (vTaskPlaceOnEventList (TasksWaitingToReceive 0) 5 demo) 2 = Some (TasksWaitingToReceive 0)"
  using waiters_are_queued_by_priority [OF demo_facts(1) demo_event demo_ordered demo_event_value, of 5] by simp

text \<open>
  C15. Waking from an event: \<open>xTaskRemoveFromEventList\<close> takes a waiter of the highest
  priority from a list that is ordered by priority, makes it ready (or pending while the scheduler
  is suspended), and asks for a context switch exactly if it outranks the running task.
\<close>

theorem highest_priority_waiter_is_woken:
  assumes "kinv {} k" and "l \<in> evlists k - timer_lists" and "items (lists k) l \<noteq> []" and "prio_ordered l k"
  shows "\<exists>k' t. xTaskRemoveFromEventList l k = Some (k', prio k t > prio k (cur k)) \<and> kinv {} k' \<and>
    econt k t = Some l \<and> (\<forall>u. econt k u = Some l \<longrightarrow> prio k u \<le> prio k t) \<and>
    gcont k' t = (if uxSchedulerSuspended k = 0 then Some (Ready (prio k t)) else gcont k t) \<and>
    econt k' t = (if uxSchedulerSuspended k = 0 then None else Some PendingReady) \<and>
    (\<forall>u. u \<noteq> t \<longrightarrow> gcont k' u = gcont k u \<and> econt k' u = econt k u)"
  using wake_highest [OF assms] .

theorem highest_priority_waiter_is_woken_witness:
  "\<exists>k' b. xTaskRemoveFromEventList (TasksWaitingToReceive 0) demo_blocked = Some (k', b) \<and>
     gcont k' 2 = Some (Ready 3)"
proof -
  obtain k' t b where r: "xTaskRemoveFromEventList (TasksWaitingToReceive 0) demo_blocked = Some (k', b)"
    "econt demo_blocked t = Some (TasksWaitingToReceive 0)"
    "gcont k' t = (if uxSchedulerSuspended demo_blocked = 0 then Some (Ready (prio demo_blocked t)) else gcont demo_blocked t)"
    using highest_priority_waiter_is_woken [OF demo_blocked_facts(1-4)] by blast
  then show ?thesis using demo_blocked_facts(5-7) by (metis option.distinct(1))
qed



text \<open>
  Notifying a waiting task that outranks the caller, outside of critical sections and with
  the scheduler running, switches before the call returns: a task of the highest ready priority,
  at least that of the notified task, is running.
\<close>

lemma notify_preempts_the_caller:
  assumes "kinv {} k" and "notifiable k t" and "nstate k t = eWaitingNotification" and "prio k t > prio k (cur k)"
    and "ulCriticalNesting k = 0" and "uxSchedulerSuspended k = 0"
  shows "\<exists>u. pxCurrentTCB (fst (xTaskGenericNotify t v a k)) = Some u \<and>
    highest_ready (fst (xTaskGenericNotify t v a k)) u \<and> prio k t \<le> prio k u"
  using assms by (rule notify_preempts)

lemma notify_preempts_the_caller_instance:
  "\<exists>u. pxCurrentTCB (fst (xTaskGenericNotify 2 1 eSetBits demo_wait)) = Some u \<and> 3 \<le> prio demo_wait u"
  using notify_preempts_the_caller [OF demo_wait_facts(1-6), of 1 eSetBits] demo_wait_facts(7) by auto

text \<open>
  Notifications count like a semaphore: after \<open>n\<close> increments, taking returns the old
  value plus \<open>n\<close> (modulo \<open>2 ^ 32\<close>) and leaves zero or one less, as asked.
\<close>

lemma notifications_count:
  assumes "cur (gives n t k) = t"
  shows "snd (ulTaskNotifyTake_finish c (gives n t k)) = nval k t + of_nat n \<and>
    nval (fst (ulTaskNotifyTake_finish c (gives n t k))) t =
      (if nval k t + of_nat n = 0 then 0 else if c then 0 else nval k t + of_nat n - 1)"
proof -
  obtain k' r where e: "ulTaskNotifyTake_finish c (gives n t k) = (k', r)" by (metis surj_pair)
  show ?thesis using take_finish_result [OF e] gives_value [of n t k] assms by (simp add: e)
qed

lemma notifications_count_instance: "snd (ulTaskNotifyTake_finish False (gives 1 2 demo)) = 1"
  using notifications_count [OF demo_gives_cur, of False] demo_fields by simp

text \<open>
  C17. A task that waits for a notification without a time limit looks like a suspended task: it
  is in the suspended list with its event item in no list, so \<open>eTaskGetState\<close> reports it as
  suspended, \<open>prvTaskIsTaskSuspended\<close> holds, and \<open>vTaskResume\<close> makes it ready although no
  notification has come.
\<close>

theorem notification_wait_looks_suspended:
  assumes "kinv {} k" and "running_task k t" and "nval k t = 0" and "econt k t = None"
    and "pxCurrentTCB (ulTaskNotifyTake_block portMAX_DELAY k) \<noteq> Some t"
  shows "nstate (ulTaskNotifyTake_block portMAX_DELAY k) t = eWaitingNotification \<and>
    snd (eTaskGetState t (ulTaskNotifyTake_block portMAX_DELAY k)) = eSuspended \<and>
    gcont (vTaskResume (Some t) (ulTaskNotifyTake_block portMAX_DELAY k)) t =
      Some (Ready (prio (ulTaskNotifyTake_block portMAX_DELAY k) t))"
proof -
  let ?k = "ulTaskNotifyTake_block portMAX_DELAY k"
  have w: "portMAX_DELAY \<noteq> 0" by (simp add: portMAX_DELAY_def)
  note b = take_block_waits [OF assms(1-3) w]
  have k': "kinv {} ?k" by (rule kinv_take_block [OF assms(1,2)])
  have g: "gcont ?k t = Some Suspended" "econt ?k t = None" using b(2) fun_cong [OF b(3), of t] assms(4) by simp_all
  have "t \<in> live ?k" using kinv_liveD(1) [OF k' g(1)] .
  then have "snd (eTaskGetState t ?k) = eSuspended" using get_state_ok(2) [OF k'] assms(5) g by auto
  moreover have "pvContainer (lists (vTaskResume (Some t) ?k)) = (pvContainer (lists ?k))(Generic t := Some (Ready (prio ?k t)))"
    by (rule resume_ok(2) [OF k' refl]) (use assms(5) g suspended_iff in auto)
  ultimately show ?thesis using b(1) by simp
qed

theorem notification_wait_looks_suspended_witness: "snd (eTaskGetState 2 demo_wait) = eSuspended"
  using notification_wait_looks_suspended [OF demo_facts(1,8) _ demo_facts(5)] demo_wait_facts(8) demo_fields
  by (simp add: demo_wait_def)

section \<open>Task creation and deletion\<close>

text \<open>
  C18. Creating a task: the very first one initialises the lists and becomes the current task;
  every later one is added ready at its capped priority, without moving any other task.
\<close>

theorem create_adds_a_ready_task:
  assumes "k' = create_core t p (prvInitialiseTCBVariables t nm p k)"
    and "boot_state k \<or> kinv {} k \<and> t \<notin> live k \<and> Suc (card (live k)) < 2 ^ 31 \<and> live k \<noteq> {}"
  shows "kinv {} k' \<and> gcont k' t = Some (Ready (new_priority p)) \<and> live k' = insert t (live k) \<and>
    (if boot_state k then pxCurrentTCB k' = Some t else \<forall>u. u \<noteq> t \<longrightarrow> gcont k' u = gcont k u)"
proof (cases "boot_state k")
  case True
  then show ?thesis using create_first_ok [OF True assms(1)] by (simp add: boot_state_def)
next
  case False
  then have h: "kinv {} k" "t \<notin> live k" "Suc (card (live k)) < 2 ^ 31" "live k \<noteq> {}" using assms(2) by blast+
  show ?thesis using create_ok [OF h assms(1)] False by simp
qed

theorem create_adds_a_ready_task_witness:
  "gcont (create_core 7 0 (prvInitialiseTCBVariables 7 ''IDLE'' 0 boot0)) 7 = Some (Ready 0) \<and>
   gcont (create_core 9 20 (prvInitialiseTCBVariables 9 ''x'' 20 demo)) 9 = Some (Ready 7)"
  using create_adds_a_ready_task [OF refl, of boot0 7 0 "''IDLE''"] boot0_ok
    create_adds_a_ready_task [OF refl, of demo 9 20 "''x''"] demo_facts(1,4)
  by (simp add: new_priority_def configMAX_PRIORITIES_def)

text \<open>
  C19. Deleting a task takes it out of its state list and event list, whatever they are, into
  the termination list and counts it there; the clean-up of the idle task then removes it from the
  kernel, and both counters and the invariant hold again.
\<close>

theorem delete_and_clean_up:
  assumes "kinv {} k" and "handle_ok k h" and "t = prvGetTCBFromHandle h k"
  shows "kinv {} (vTaskDelete h k) \<and> gcont (vTaskDelete h k) t = Some Termination \<and>
    econt (vTaskDelete h k) t = None \<and> (\<forall>u. u \<noteq> t \<longrightarrow> gcont (vTaskDelete h k) u = gcont k u) \<and>
    kinv {} (reap t (vTaskDelete h k)) \<and> live (reap t (vTaskDelete h k)) = live k - {t}"
proof -
  note d = delete_ok [OF assms]
  have g: "gcont (vTaskDelete h k) t = Some Termination" using d(2) by simp
  show ?thesis using d g kinv_reap(1) [OF d(1) g] by (simp add: reap_def)
qed

theorem delete_and_clean_up_witness: "live (reap 7 (vTaskDelete (Some 7) demo)) = {2}"
  using delete_and_clean_up [OF demo_facts(1) demo_handles(1)] demo_facts(4)
  by (auto simp: prvGetTCBFromHandle_def)

section \<open>Floating point\<close>

text \<open>
  C20. A context switch never mixes floating point states: what each task sees as its registers
  is the same before and after, a task that owns a save area runs with its own registers loaded,
  and any other task runs with the unit disabled.
\<close>

theorem fpu_switch_isolates_tasks:
  assumes "fpu_slots k" and "pxCurrentTCB k = Some t"
  shows "fpu_inv (switch_fpu k) \<and> (\<forall>u. fp_view (switch_fpu k) u = fp_view k u) \<and>
    (cr0_TS (switch_fpu k) \<longleftrightarrow> fpContextPtr (tcb k t) = None) \<and>
    (fpContextPtr (tcb k t) \<noteq> None \<longrightarrow> fpu_regs (switch_fpu k) = fp_view k t)"
  using switch_fpu_ok [OF assms] by blast

theorem fpu_switch_isolates_tasks_witness: "cr0_TS (switch_fpu demo)"
  using fpu_switch_isolates_tasks [OF demo_fpu(1), of 2] demo_fields(1) demo_fpu(3) by simp

text \<open>
  The first floating point instruction of a task traps; if the pool has a save area left
  the handler returns, gives the task its own area and a fresh register file, and saves the state
  of the previous owner, which no other task can notice.
\<close>

lemma fpu_trap_gives_a_fresh_context:
  assumes "fpu_inv k" and "pxCurrentTCB k = Some t" and "fpContextPtr (tcb k t) = None"
    and "sint (currentNumberOfFpTasks k) < mx" and "mx \<le> 127"
  shows "\<exists>k'. fp_device_not_available_handler mx k = Some k' \<and> fpu_inv k' \<and>
    pxFpTcbOwner k' = Some t \<and> fpu_regs k' = 0 \<and> \<not> cr0_TS k' \<and>
    (\<forall>u. u \<noteq> t \<longrightarrow> fp_view k' u = fp_view k u) \<and>
    sint (currentNumberOfFpTasks k') = sint (currentNumberOfFpTasks k) + 1"
  using assms by (rule fp_trap_ok)

lemma fpu_trap_gives_a_fresh_context_instance:
  "\<exists>k'. fp_device_not_available_handler 4 (demo\<lparr>cr0_TS := True\<rparr>) = Some k' \<and> pxFpTcbOwner k' = Some 2"
  using fpu_trap_gives_a_fresh_context [OF demo_fpu(2), of 2 4] demo_fields(1) demo_fpu(3,4) by auto

section \<open>Queues, semaphores and mutexes\<close>

text \<open>
  C21. The storage area of a queue is a bounded double-ended queue: messages written to the back of
  an empty queue, as many as it has room for, come out in the order they went in; a message
  written to the front comes out first and leaves the others as they were; an overwrite of a queue of
  one message replaces it.
\<close>

theorem queue_storage_is_a_deque:
  assumes "ring_ok (Q, m)"
  shows "(\<forall>xs. contents (Q, m) = [] \<and> length xs \<le> cap Q \<and> (\<forall>x \<in> set xs. length x = isize Q) \<longrightarrow>
      snd (takes (length xs) ring_take (fold (ring_put queueSEND_TO_BACK) xs (Q, m))) = xs) \<and>
    (\<forall>x. length x = isize Q \<and> waiting Q < cap Q \<longrightarrow>
      snd (ring_take (ring_put queueSEND_TO_FRONT x (Q, m))) = x \<and>
      contents (fst (ring_take (ring_put queueSEND_TO_FRONT x (Q, m)))) = contents (Q, m)) \<and>
    (\<forall>x. length x = isize Q \<and> cap Q = 1 \<longrightarrow> contents (ring_put queueOVERWRITE x (Q, m)) = [x])"
  using rq.fifo [OF assms] rq.urgent_first [OF assms] rq.overwritten [OF assms] by simp

theorem queue_storage_is_a_deque_witness:
  "snd (takes 2 ring_take (fold (ring_put queueSEND_TO_BACK) [[1, 2, 3, 4], [5, 6, 7, 8]] (demo_queue, \<lambda>_. 0))) =
     [[1, 2, 3, 4], [5, 6, 7, 8]]"
  using conjunct1 [OF queue_storage_is_a_deque [OF demo_ring(1), of "\<lambda>_. 0"], THEN spec, of "[[1, 2, 3, 4], [5, 6, 7, 8]]"] demo_ring
  by (simp add: numeral_2_eq_2)

text \<open>
  C22. A send or receive that does not wait answers at once. A send succeeds exactly if there is room: it
  adds the message and readies the first task that waits to receive. A receive succeeds exactly
  if there is a message: it returns the oldest and readies the first task that waits to send. Neither
  changes another queue, and a call that fails changes no queue at all. Messages sent one after the other are
  received in that order, behind those that were there.
\<close>

theorem zero_wait_send_and_receive:
  assumes "kinv {} (K s)" and "queue_live q s" and "item_queue q s" and "pxQueueSetContainer (queues s q) = None"
    and "length x = isize (queues s q)"
  shows "(\<exists>s'. xQueueGenericSend others q x 0 queueSEND_TO_BACK s = Some (s', length (messages q s) < cap (queues s q)) \<and>
      (if length (messages q s) < cap (queues s q)
       then item_queue q s' \<and> messages q s' = messages q s @ [x] \<and> woke_first (TasksWaitingToReceive q) (K s) (K s') \<and>
         (\<forall>q'. q' \<noteq> q \<longrightarrow> queues s' q' = queues s q')
       else queues s' = queues s \<and> qbytes s' = qbytes s \<and> kinv {} (K s'))) \<and>
    (\<exists>s'. xQueueGenericReceive others q 0 False s =
        Some (s', if messages q s = [] then None else Some (hd (messages q s))) \<and>
      (if messages q s = [] then queues s' = queues s \<and> qbytes s' = qbytes s \<and> kinv {} (K s')
       else item_queue q s' \<and> messages q s' = tl (messages q s) \<and> woke_first (TasksWaitingToSend q) (K s) (K s') \<and>
         (\<forall>q'. q' \<noteq> q \<longrightarrow> queues s' q' = queues s q'))) \<and>
    (\<forall>xs n. (\<forall>y \<in> set xs. length y = isize (queues s q)) \<and> length (messages q s) + length xs \<le> cap (queues s q) \<longrightarrow>
      (\<exists>s1 s2. send_each (\<lambda>y. xQueueGenericSend others q y 0 queueSEND_TO_BACK) xs s = Some s1 \<and>
        receive_each (xQueueGenericReceive others q 0 False) n s1 = Some (s2, take n (messages q s @ xs))))"
proof -
  have ok: "channel_ok q s" using assms(1-4) by (simp add: channel_ok_def)
  show ?thesis using send_answers [OF assms] receive_answers [OF assms(1-3)] qc.in_order [OF ok, where others = others] by blast
qed

theorem zero_wait_send_and_receive_witness:
  "\<exists>s'. xQueueGenericSend (\<lambda>s. s) 0 [1, 2, 3, 4] 0 queueSEND_TO_BACK demo_q = Some (s', True) \<and> messages 0 s' = [[1, 2, 3, 4]]"
  using zero_wait_send_and_receive [of demo_q 0 "[1, 2, 3, 4]" "\<lambda>s. s"] demo_facts(1) demo_q_facts demo_ring
  by (simp split: if_splits) blast

text \<open>
  C23. A receiver that has to wait is blocked on the queue; the next send readies it, and the call it
  is blocked in returns the message that was sent. What runs in between is any computation
  that behaves like that send.
\<close>

theorem waiting_receiver_gets_the_message:
  assumes "may_block (K s) t (TasksWaitingToReceive q)" and "unlocked q s" and "w \<noteq> 0" and "queue_live q s"
    and "item_queue q s" and "messages q s = []" and "pxQueueSetContainer (queues s q) = None"
    and "\<And>v. econt (K s) v \<noteq> Some (TasksWaitingToReceive q)" and "length x = isize (queues s q)"
    and "\<And>z z'. xQueueGenericSend (\<lambda>s. s) q x 0 queueSEND_TO_BACK z = Some (z', True) \<Longrightarrow> others z = z'"
  shows "\<exists>s1 s2 s3 x'. xQueueGenericReceive_pass q False None w s = Some (s1, Inr (Some x', w)) \<and>
    blocked_on (K s1) t (TasksWaitingToReceive q) w \<and> xQueueGenericSend (\<lambda>s. s) q x 0 queueSEND_TO_BACK s1 = Some (s2, True) \<and>
    gcont (K s2) t = Some (Ready (prio (K s) t)) \<and> econt (K s2) t = None \<and>
    xQueueGenericReceive others q w False s = Some (s3, Some x) \<and> messages q s3 = [] \<and> kinv {} (K s3)"
  using assms by (rule rendezvous)

theorem waiting_receiver_gets_the_message_witness:
  "\<exists>s3. xQueueGenericReceive (\<lambda>z. case xQueueGenericSend (\<lambda>s. s) 0 [1, 2, 3, 4] 0 queueSEND_TO_BACK z of
      None \<Rightarrow> z | Some r \<Rightarrow> fst r) 0 9 False demo_q = Some (s3, Some [1, 2, 3, 4])"
proof -
  have "(9 :: u32) \<noteq> 0" "length [1, 2, 3, 4 :: u8] = isize (queues demo_q 0)" by (simp_all add: demo_ring)
  note w = waiting_receiver_gets_the_message [of demo_q 2 0 9 "[1, 2, 3, 4]", simplified, OF demo_may_block]
  show ?thesis using w [of "\<lambda>z. case xQueueGenericSend (\<lambda>s. s) 0 [1, 2, 3, 4] 0 queueSEND_TO_BACK z of
      None \<Rightarrow> z | Some r \<Rightarrow> fst r"] demo_q_facts demo_ring by auto
qed

text \<open>
  C24. While a queue is locked, interrupts may send to it but touch no event list. No wake-up is lost:
  \<open>prvUnlockQueue\<close> returns, the messages are in the queue, and the first waiters, one for every
  message, have been taken off the event list and are ready, or pending if the scheduler is suspended.
\<close>

theorem locked_queue_loses_no_wakeup:
  assumes "kinv {} (K s)" and "queue_live q s" and "pxQueueSetContainer (queues s q) = None"
    and "item_queue q s" and "\<forall>x \<in> set xs. length x = isize (queues s q)"
    and "length (messages q s) + length xs \<le> cap (queues s q)" and "length xs < 2 ^ 31"
    and "xTxLock (queues s q) = queueLOCKED_UNMODIFIED" and "xRxLock (queues s q) = queueLOCKED_UNMODIFIED"
  shows "\<exists>s1 s2. isr_sends q xs s = Some s1 \<and> K s1 = K s \<and> prvUnlockQueue q s1 = Some s2 \<and> kinv {} (K s2) \<and>
    messages q s2 = messages q s @ xs \<and>
    items (lists (K s2)) (TasksWaitingToReceive q) = drop (length xs) (items (lists (K s)) (TasksWaitingToReceive q)) \<and>
    items (lists (K s2)) (TasksWaitingToSend q) = items (lists (K s)) (TasksWaitingToSend q) \<and>
    (\<forall>t. Event t \<in> set (take (length xs) (items (lists (K s)) (TasksWaitingToReceive q))) \<longrightarrow>
       (if uxSchedulerSuspended (K s) = 0 then gcont (K s2) t = Some (Ready (prio (K s) t)) \<and> econt (K s2) t = None
        else econt (K s2) t = Some PendingReady))"
  using assms by (rule locked_wakeups)

theorem locked_queue_loses_no_wakeup_witness:
  "\<exists>s1 s2. isr_sends 0 [[1, 2, 3, 4]] demo_locked = Some s1 \<and> prvUnlockQueue 0 s1 = Some s2 \<and>
     gcont (K s2) 2 = Some (Ready (prio (K demo_locked) 2)) \<and> econt (K s2) 2 = None"
  using locked_queue_loses_no_wakeup [OF demo_locked_facts(1-4), of "[[1, 2, 3, 4]]"] demo_locked_facts(5-11)
  by simp blast

text \<open>
  C25. Waiting for a mutex does not invert priorities: the task that waits is blocked, the holder runs
  at the higher of the two priorities, stays ready there, and when it gives the mutex (its only
  one) it is back at its own priority, the mutex has no holder and the waiting task is ready.
\<close>

theorem mutex_inheritance_lasts_until_the_give:
  assumes "may_block (K s) t (TasksWaitingToReceive q)" and "unlocked q s" and "w \<noteq> 0" and "queue_live q s"
    and "mutex_queue q s" and "uxMessagesWaiting (queues s q) = 0"
    and "pxMutexHolder (queues s q) = Some h" and "h \<noteq> t" and "gcont (K s) h = Some (Ready (prio (K s) h))"
    and "uxMutexesHeld (tcb (K s) h) = 1" and "uxBasePriority (tcb (K s) h) = prio (K s) h"
    and "\<And>v. econt (K s) v \<noteq> Some (TasksWaitingToReceive q)"
  shows "\<exists>s1 s2 x'. xQueueGenericReceive_pass q False None w s = Some (s1, Inr (Some x', w)) \<and>
    blocked_on (K s1) t (TasksWaitingToReceive q) w \<and> prio (K s1) h = max (prio (K s) h) (prio (K s) t) \<and>
    gcont (K s1) h = Some (Ready (prio (K s1) h)) \<and> kinv {} (K s1) \<and>
    xQueueGenericSend (\<lambda>s. s) q x 0 queueSEND_TO_BACK s1 = Some (s2, True) \<and> kinv {} (K s2) \<and>
    pxMutexHolder (queues s2 q) = None \<and> uxMessagesWaiting (queues s2 q) = 1 \<and> prio (K s2) h = prio (K s) h \<and>
    gcont (K s2) t = Some (Ready (prio (K s) t)) \<and> econt (K s2) t = None"
  using assms by (rule mutex_cycle)

theorem mutex_inheritance_lasts_until_the_give_witness:
  "\<exists>s1 s2 x'. xQueueGenericReceive_pass 0 False None 9 demo_held = Some (s1, Inr (Some x', 9)) \<and> prio (K s1) 7 = 3 \<and>
     xQueueGenericSend (\<lambda>s. s) 0 [] 0 queueSEND_TO_BACK s1 = Some (s2, True) \<and> prio (K s2) 7 = 0"
proof -
  have "(9 :: u32) \<noteq> 0" "(7 :: nat) \<noteq> 2" by simp_all
  from mutex_inheritance_lasts_until_the_give [OF demo_held_facts(1,2) this(1) demo_held_facts(3-6) this(2)
      demo_held_facts(7-10), of "[]"]
  show ?thesis using demo_held_facts(11,12) by (simp add: max_def) blast
qed

section \<open>Event groups\<close>

text \<open>
  C26. Setting bits releases exactly the waiters whose condition the new bits meet: each is taken off the
  event list and readied at its priority with the bits that released it in its event list item;
  nobody else moves and no other group changes. The bits that released tasks asked to be cleared are cleared
  afterwards, so one task's clearing hides no bit from another. The loop over the list ends. No switch
  happens inside the call while the scheduler is suspended.
\<close>

theorem set_bits_releases_exactly_the_satisfied:
  fixes m :: u32
  assumes "kinv {} (G s)" and "group_live g s" and "quiet (G s)"
  shows "let b = bits g s OR m; xs = items (lists (G s)) (TasksWaitingForBits g)
    in \<exists>s1 y. xEventGroupSetBits others g m s = Some (if y then others s1 else s1, bits g (if y then others s1 else s1)) \<and>
      released {t. Event t \<in> set xs \<and> match_found (evalue (G s) t) b} (b OR eventUNBLOCKED_DUE_TO_BIT_SET) (G s) (G s1) \<and>
      groups s1 = (groups s)(g := (groups s g)\<lparr>uxEventBits := b AND NOT (to_clear b (G s) xs)\<rparr>) \<and>
      (uxSchedulerSuspended (G s) \<noteq> 0 \<longrightarrow> \<not> y)"
  using set_bits_ok [OF assms, of others m] unfolding Let_def satisfied_def by blast

theorem set_bits_releases_exactly_the_satisfied_witness:
  "\<exists>s1. xEventGroupSetBits (\<lambda>s. s) 0 5 demo_eg = Some (s1, bits 0 s1) \<and> gcont (G s1) 2 = Some (Ready 3)"
proof -
  note f = demo_eg_facts(5,3,4)
  have n: "Event 2 \<notin> set (items (lists (G demo_eg)) (TasksWaitingForBits 0))"
    using event_items(1) [OF f(1), of "TasksWaitingForBits 0"] f(2) by (simp add: group_live_def timer_lists_def demo_eg_facts demo_facts)
  show ?thesis
    using set_bits_releases_exactly_the_satisfied [OF f, of 5 "\<lambda>s. s"] n
    by (auto simp: Let_def released_def demo_eg_facts demo_facts split: if_splits)
qed

text \<open>
  C27. Waiting for bits works: a call whose condition does not hold blocks the caller on the group with its
  time limit; setting bits that meet the condition readies it and, if it asked for that,
  clears the bits it waited for; and when the caller runs again, with its event list item as
  the release left it, the call returns the bits at the moment of the release.
\<close>

theorem waiting_task_gets_its_bits:
  assumes "may_block (G s) t (TasksWaitingForBits g)" and "w \<noteq> 0"
    and "f AND eventEVENT_BITS_CONTROL_BYTES = 0" and "(bits g s OR m) AND eventEVENT_BITS_CONTROL_BYTES = 0"
    and "\<not> prvTestWaitCondition (bits g s) f a" and "prvTestWaitCondition (bits g s OR m) f a"
  shows "\<exists>s1 s2. xEventGroupWaitBits_block g f c a w s = Some (s1, None) \<and> blocked_on (G s1) t (TasksWaitingForBits g) w \<and>
    xEventGroupSetBits (\<lambda>s. s) g m s1 = Some (s2, bits g s2) \<and> kinv {} (G s2) \<and>
    gcont (G s2) t = Some (Ready (prio (G s) t)) \<and> econt (G s2) t = None \<and> (c \<longrightarrow> bits g s2 AND f = 0) \<and>
    (\<forall>others. pxCurrentTCB (G (others s1)) = Some t \<and> evalue (G (others s1)) t = evalue (G s2) t \<longrightarrow>
       (\<exists>s4. xEventGroupWaitBits others g f c a w s = Some (s4, bits g s OR m)))"
  using assms by (rule wait_then_set)

theorem waiting_task_gets_its_bits_witness:
  "\<exists>s1 s2. xEventGroupWaitBits_block 0 5 True True 9 demo_eg = Some (s1, None) \<and>
     xEventGroupSetBits (\<lambda>s. s) 0 7 s1 = Some (s2, bits 0 s2) \<and> gcont (G s2) 2 = Some (Ready 3) \<and> bits 0 s2 AND 5 = 0"
proof -
  have "(9 :: u32) \<noteq> 0" "5 AND eventEVENT_BITS_CONTROL_BYTES = 0" "(bits 0 demo_eg OR 7) AND eventEVENT_BITS_CONTROL_BYTES = 0"
    "\<not> prvTestWaitCondition (bits 0 demo_eg) 5 True" "prvTestWaitCondition (bits 0 demo_eg OR 7) 5 True"
    by (simp_all add: demo_eg_facts eventEVENT_BITS_CONTROL_BYTES_def prvTestWaitCondition_def)
  from waiting_task_gets_its_bits [OF demo_eg_facts(6) this, of True] show ?thesis by (auto simp: demo_eg_facts demo_facts)
qed

text \<open>
  The task that completes a rendezvous does not block: \<open>xEventGroupSync\<close> returns the bits that completed
  it, has released every task whose condition they meet, and leaves none of the rendezvous bits set.
\<close>

lemma rendezvous_completes_at_once:
  fixes m f :: u32
  assumes "kinv {} (G s)" and "group_live g s" and "quiet (G s)" and "(bits g s OR m) AND f = f"
  shows "\<exists>s'. xEventGroupSync others g m f w s = Some (s', bits g s OR m) \<and>
    released {t. Event t \<in> set (items (lists (G s)) (TasksWaitingForBits g)) \<and> match_found (evalue (G s) t) (bits g s OR m)}
      ((bits g s OR m) OR eventUNBLOCKED_DUE_TO_BIT_SET) (G s) (G s') \<and> bits g s' AND f = 0"
  using sync_last [OF assms, of others w] unfolding satisfied_def .

lemma rendezvous_completes_at_once_instance:
  "\<exists>s'. xEventGroupSync (\<lambda>s. s) 0 3 3 9 demo_eg = Some (s', 3) \<and> bits 0 s' AND 3 = 0"
  using rendezvous_completes_at_once [OF demo_eg_facts(5,3,4), of 3 3 "\<lambda>s. s" 9] by (auto simp: demo_eg_facts)

section \<open>Software timers\<close>

text \<open>
  C28. \<open>prvInsertTimerInActiveList\<close> decides with two comparisons of wrapping counters what is meant to be one
  question, and decides it right: the timer has expired exactly if its period has passed since
  the command. If not, it is in the list that is right for its expiry time, which lies ahead by what
  is left of the period, and the invariant of the timer lists holds: they are sorted, and the
  overflow list holds only times beyond the next overflow. No other timer moves.
\<close>

theorem timer_insertion_is_exact:
  fixes c :: u32
  assumes "tinv s" and "tcont s t = None" and "handle t"
  shows "let p = xTimerPeriodInTicks (timers s t); now = xLastTime s; (s', expired) = prvInsertTimerInActiveList t (c + p) now c s
    in (expired \<longleftrightarrow> p \<le> now - c) \<and> tinv s' \<and> (expired \<longrightarrow> tcont s' t = None) \<and>
      (\<not> expired \<longrightarrow> tcont s' t = Some (if now < c + p then pxCurrentTimerList s else pxOverflowTimerList s) \<and>
         expiry s' t = c + p \<and> expiry s' t - now = p - (now - c)) \<and>
      (\<forall>m. m \<noteq> t \<longrightarrow> tcont s' m = tcont s m \<and> expiry s' m = expiry s m)"
  unfolding Let_def split_beta
  by (intro conjI allI impI) (use insert_timer_ok [OF assms, where c = c] in blast)+

theorem timer_insertion_is_exact_witness:
  "snd (prvInsertTimerInActiveList 9 (0 + 100) 0 0 demo_tmr) = False \<and>
   tcont (fst (prvInsertTimerInActiveList 9 (0 + 100) 0 0 demo_tmr)) 9 = Some TimerList1"
  using timer_insertion_is_exact [OF demo_tmr_facts(1) _ demo_tmr_facts(6), of 0]
  by (simp add: demo_no_timer Let_def split_beta)

text \<open>
  C29. A turn of the timer task with the timer \<open>t\<close> first in the current list and no command waiting: if its time
  has come it is taken out, armed for one period later if it is periodic, and called back (a periodic timer
  more than a period late is restarted through the queue); else the task
  sleeps on its queue for exactly the ticks until then, and no timer has changed.
\<close>

theorem timer_task_fires_or_sleeps:
  assumes "tinv s" and "may_block (TK s) T (TasksWaitingToReceive q)" and "timer_queue q s" and "unlocked q (tipc s)"
    and "messages q (tipc s) = []" and "xLastTime s \<le> xTickCount (TK s)"
    and "items (lists (TK s)) (pxCurrentTimerList s) = TimerItem t # ts"
  shows "let v = expiry s t; now = xTickCount (TK s); p = xTimerPeriodInTicks (timers s t); a = (uxAutoReload (timers s t) = 1)
    in prvGetNextExpireTime s = (v, False) \<and>
      (if v \<le> now
       then \<exists>s'. prvProcessTimerOrBlockTask cb v False s =
              (if a \<and> now - v \<ge> p then Option.bind (restart t v s') (call_back cb t) else call_back cb t s') \<and> tinv s' \<and>
            tcont s' t = (if a \<and> now - v < p then Some (if v + p > now then pxCurrentTimerList s else pxOverflowTimerList s) else None) \<and>
            (a \<and> now - v < p \<longrightarrow> expiry s' t = v + p) \<and>
            (\<forall>m. m \<noteq> t \<longrightarrow> tcont s' m = tcont s m \<and> expiry s' m = expiry s m)
       else \<exists>s'. prvProcessTimerOrBlockTask cb v False s = Some s' \<and> tinv s' \<and> econt (TK s') T = Some (TasksWaitingToReceive q) \<and>
            timed (TK s') T \<and> remaining (TK s') T = v - now \<and> (\<forall>x. tcont s' x = tcont s x \<and> expiry s' x = expiry s x))"
proof -
  have q: "quiet (TK s)" using assms(2) by (simp add: may_block_def quiet_def)
  show ?thesis
  proof (cases "expiry s t \<le> xTickCount (TK s)")
    case True
    show ?thesis
      using due_timer_fires [OF assms(1) q assms(6,7) True, of cb] first_timer(1) [OF assms(1,7)] unfolding Let_def if_P [OF True] by blast
  next
    case False
    show ?thesis
      using timer_task_sleeps [OF assms, of cb] False first_timer(1) [OF assms(1,7)] unfolding Let_def if_not_P [OF False] not_le by blast
  qed
qed

theorem timer_task_fires_or_sleeps_witness:
  "(\<exists>s'. prvProcessTimerOrBlockTask (\<lambda>_ _. Some) 0 False (demo_armed 0) = Some s' \<and> tcont s' 9 = Some TimerList1 \<and> expiry s' 9 = 100) \<and>
   (\<exists>s'. prvProcessTimerOrBlockTask (\<lambda>_ _. Some) 50 False (demo_armed 50) = Some s' \<and> remaining (TK s') 2 = 50)"
proof -
  note f = timer_task_fires_or_sleeps [OF demo_armed_facts(1,5,2-4,6,7), where cb = "\<lambda>_ _. Some", unfolded Let_def demo_armed_facts(8-11)]
  show ?thesis using f [of 0] f [of 50] by (auto simp: call_back_def)
qed

text \<open>
  C30. The overflow of the tick count: when the sampled time has gone back, \<open>prvSampleTimeNow\<close> empties the current
  timer list, which ends whatever the periods are, since a timer goes back into it only with a later expiry
  time, and exchanges the lists. Afterwards the timers that waited for the overflow are in the current list with
  their expiry times, all others are out of the lists, and the invariant holds. The callbacks, code of the
  application, are assumed to return and to leave the timer lists to the timer task.
\<close>

theorem overflow_exchanges_the_timer_lists:
  assumes "well_behaved q cb" and "tinv s" and "timer_queue q s" and "xTickCount (TK s) < xLastTime s"
  shows "\<exists>s'. prvSampleTimeNow cb s = Some (s', xTickCount (TK s), True) \<and> tinv s' \<and> timer_queue q s' \<and> xLastTime s' = xTickCount (TK s) \<and>
    pxCurrentTimerList s' = pxOverflowTimerList s \<and> pxOverflowTimerList s' = pxCurrentTimerList s \<and>
    (\<forall>m. tcont s' m = (if tcont s m = Some (pxOverflowTimerList s) then Some (pxOverflowTimerList s) else None)) \<and>
    (\<forall>m. tcont s m = Some (pxOverflowTimerList s) \<longrightarrow> expiry s' m = expiry s m)"
  using assms by (rule overflow_switches)

theorem overflow_exchanges_the_timer_lists_witness:
  "\<exists>s'. prvSampleTimeNow (\<lambda>_ _. Some) demo_wrapped = Some (s', 0, True) \<and> pxCurrentTimerList s' = TimerList2 \<and>
     tcont s' 9 = Some TimerList2 \<and> expiry s' 9 = 3"
proof -
  have "xTickCount (TK demo_wrapped) < xLastTime demo_wrapped" by (simp add: demo_wrapped_facts)
  from overflow_exchanges_the_timer_lists [OF demo_wrapped_facts(8,1,2) this, unfolded demo_wrapped_facts(3-5,7)]
  show ?thesis using demo_wrapped_facts(5,6) by fastforce
qed

text \<open>
  C31. A start command takes effect: \<open>xTimerGenericCommand\<close> queues it; the timer task receives it from the queue,
  arms the timer for the command time plus its period, finds the queue empty and is done. Sixteen bytes in a
  ring buffer are read back as the command and timer that were sent.
\<close>

theorem start_command_arms_the_timer:
  fixes c :: u32
  assumes "tinv s" and "handle t" and "xLastTime s \<le> xTickCount (TK s)" and "timer_queue q s" and "messages q (tipc s) = []"
    and "xTickCount (TK s) - c < xTimerPeriodInTicks (timers s t)"
  shows "let p = xTimerPeriodInTicks (timers s t); now = xTickCount (TK s)
    in \<exists>s1 s2. xTimerGenericCommand others t tmrCOMMAND_START c w s = Some (s1, True, False) \<and>
      prvProcessReceivedCommands cb pf s1 = Some s2 \<and> tinv s2 \<and> messages q (tipc s2) = [] \<and>
      tcont s2 t = Some (if now < c + p then pxCurrentTimerList s else pxOverflowTimerList s) \<and>
      expiry s2 t = c + p \<and> expiry s2 t - now = p - (now - c) \<and>
      (\<forall>m. m \<noteq> t \<longrightarrow> tcont s2 m = tcont s m \<and> expiry s2 m = expiry s m)"
  unfolding Let_def using assms by (rule start_command)

theorem start_command_arms_the_timer_witness:
  "\<exists>s1 s2. xTimerGenericCommand (\<lambda>i. i) 9 tmrCOMMAND_START 0 0 demo_tmr = Some (s1, True, False) \<and>
     prvProcessReceivedCommands (\<lambda>_ _. Some) (\<lambda>_ _ _. Some) s1 = Some s2 \<and> tcont s2 9 = Some TimerList1 \<and> expiry s2 9 = 100"
  using start_command_arms_the_timer [OF demo_tmr_facts(1,6) _ demo_tmr_facts(2,4), of 0 "\<lambda>i. i" 0 "\<lambda>_ _. Some" "\<lambda>_ _ _. Some"]
  by (auto simp: Let_def demo_fields)

text \<open>
  C32. The union in a message is read at the variant it was written at: a pended function call that went
  through the queue is executed by the timer task as a call of that function with those arguments, never
  as a timer command, and no timer has changed when it runs.
\<close>

theorem pended_calls_keep_their_arguments:
  assumes "tinv s" and "timer_queue q s" and "messages q (tipc s) = []"
  shows "\<exists>s1 s2. xTimerPendFunctionCall others f a b w s = Some (s1, True) \<and>
    prvProcessReceivedCommands cb pf s1 = Option.bind (pf f a b s2) (prvProcessReceivedCommands cb pf) \<and>
    tinv s2 \<and> same_timers s s2 \<and> messages q (tipc s2) = []"
  using assms by (rule pended_function_called)

theorem pended_calls_keep_their_arguments_witness:
  "\<exists>s1. xTimerPendFunctionCall (\<lambda>i. i) 4660 1 2 0 demo_tmr = Some (s1, True) \<and>
     prvProcessReceivedCommands (\<lambda>_ _. Some) (\<lambda>f a b s. if f = 4660 \<and> a = 1 \<and> b = 2 then None else Some s) s1 = None"
proof -
  note p = pended_calls_keep_their_arguments [OF demo_tmr_facts(1,2,4), of "\<lambda>i. i" 4660 1 2 0 "\<lambda>_ _. Some"
      "\<lambda>f a b s. if f = 4660 \<and> a = 1 \<and> b = 2 then None else Some s"]
  then show ?thesis by auto
qed

section \<open>Port, platform and services\<close>

text \<open>
  C33. A task that is switched out finds its registers as they were when it is switched in again: with its saved context untouched and
  the stack of the task that runs now elsewhere, the yield that selects it restores every register, the instruction pointer and the flags
  included. A task that has never run starts at its function, with interrupts enabled, its parameter as argument and the
  exit trap as return address.
\<close>

theorem context_switch_restores_the_registers:
  assumes "context_kept t (save_context t s) s'" and "pxCurrentTCB k = Some u" and "u \<noteq> t" and "pxCurrentTCB (vPortYieldCall k) = Some t"
    and "set (frame_at (esp (regs s))) \<inter> set (frame_at (esp (regs s'))) = {}"
  shows "(\<exists>s''. vPortYieldCall_registers (k, s') = Some (vPortYieldCall k, s'') \<and> regs s'' = regs s) \<and>
    (\<forall>x n exit_error seg tos code par m m' p c. pxPortInitialiseStack exit_error seg tos code par m = (m', p) \<and> tops x n = p \<and> ram x = m' \<and>
      c = regs (vPortStartFirstTask n x) \<longrightarrow>
      eip c = code \<and> cs c = seg \<and> eflags c = portINITIAL_EFLAGS \<and> ram x (esp c) = exit_error \<and> ram x (esp c + 4) = par)"
proof (rule conjI [OF switch_back [OF assms]], intro allI impI)
  fix x n exit_error seg tos code par m m' p c
  assume "pxPortInitialiseStack exit_error seg tos code par m = (m', p) \<and> tops x n = p \<and> ram x = m' \<and> c = regs (vPortStartFirstTask n x)"
  then show "eip c = code \<and> cs c = seg \<and> eflags c = portINITIAL_EFLAGS \<and> ram x (esp c) = exit_error \<and> ram x (esp c + 4) = par"
    using first_run [of exit_error seg tos code par m m' p x n] by simp
qed

theorem context_switch_restores_the_registers_witness:
  "\<exists>s''. vPortYieldCall_registers (idle_runs, port_idle) = Some (vPortYieldCall idle_runs, s'') \<and> eip (regs s'') = 0x5000 \<and> eax (regs s'') = 1"
proof -
  have "\<exists>s''. vPortYieldCall_registers (idle_runs, port_idle) = Some (vPortYieldCall idle_runs, s'') \<and> regs s'' = regs port_app"
    using context_switch_restores_the_registers [OF port_idle_kept idle_yields(1) _ idle_yields(2) port_stacks_apart] by simp
  then show ?thesis by (auto simp: port_app_def cpu_of_def)
qed



text \<open>
  C35. Mapping a range of the first four megabytes ends, and from then on an address of one of its pages is translated to the physical
  address at the same offset of the range, every other address as before. Unmapping clears the present bit and keeps the translation; an
  address that neither table covers is answered with all ones.
\<close>

theorem mapped_pages_translate:
  assumes "range_pages virt len a n" and "flags AND NOT (mask 12) = 0" and "phys AND mask 12 = 0" and "unat (drop_bit 22 SRAM_BASE) \<noteq> 0"
  shows "\<exists>m' m''. mmuMap virt phys len flags m = Some m' \<and> mmuUnmap virt len m' = Some m'' \<and>
    (\<forall>v. unat v < 4194304 \<longrightarrow>
      nanoCpuMmuVirtToPhys 12 0xFFF SRAM_BASE m' v =
        (if a \<le> unat v div 4096 \<and> unat v div 4096 < a + n then phys + (v - virt) else nanoCpuMmuVirtToPhys 12 0xFFF SRAM_BASE m v) \<and>
      nanoCpuMmuVirtToPhys 12 0xFFF SRAM_BASE m'' v = nanoCpuMmuVirtToPhys 12 0xFFF SRAM_BASE m' v \<and>
      (a \<le> unat v div 4096 \<and> unat v div 4096 < a + n \<longrightarrow> \<not> bit (mmuPageTable m'' (unat v div 4096)) 0)) \<and>
    (\<forall>v. unat (drop_bit 22 v) \<noteq> 0 \<and> unat (drop_bit 22 v) \<noteq> unat (drop_bit 22 SRAM_BASE) \<longrightarrow>
      nanoCpuMmuVirtToPhys 12 0xFFF SRAM_BASE m' v = - 1)"
proof -
  obtain m' where m': "mmuMap virt phys len flags m = Some m'" using mapped_table [OF assms(1)] by blast
  obtain m'' where m'': "mmuUnmap virt len m' = Some m''" using unmapped_table [OF assms(1)] by blast
  show ?thesis
    using m' m'' mapped_translates [OF assms, of _ m] unmapped_translates [OF assms(1,4), of _ m'] outside_the_table [of _ SRAM_BASE 12 "0xFFF" m']
    by (intro exI [of _ m'] exI [of _ m'']) simp
qed

theorem mapped_pages_translate_witness:
  "\<exists>m'. mmuMap 0x3000 0x80000 0x1800 MMU_ENTRY_PRESENT mmu0 = Some m' \<and> nanoCpuMmuVirtToPhys 12 0xFFF 0xFF200000 m' 0x4123 = 0x81123"
proof -
  have h: "MMU_ENTRY_PRESENT AND NOT (mask 12) = 0" "(0x80000 :: u32) AND mask 12 = 0" "unat (drop_bit 22 (0xFF200000 :: u32)) \<noteq> 0"
    by (simp_all add: MMU_ENTRY_PRESENT_def mask_eq_exp_minus_1)
  from mapped_pages_translate [OF demo_range h, of mmu0] obtain m' where
    m': "mmuMap 0x3000 0x80000 0x1800 MMU_ENTRY_PRESENT mmu0 = Some m'"
    and t: "\<forall>v. unat v < 4194304 \<longrightarrow> nanoCpuMmuVirtToPhys 12 0xFFF 0xFF200000 m' v = (if 3 \<le> unat v div 4096 \<and> unat v div 4096 < 3 + 2
      then 0x80000 + (v - 0x3000) else nanoCpuMmuVirtToPhys 12 0xFFF 0xFF200000 mmu0 v)" by blast
  show ?thesis using m' spec [OF t, of "0x4123"] by simp
qed





text \<open>
  C38. The invariant of the GPIO service: contexts that hold the same pin agree on a mode in which it can be shared (falling edge or low level), only
  registered pins are enabled, and a context without a handle holds none. Starting the service establishes it and every call and
  every turn of its task keeps it. A registration that would break it is refused without effect.
\<close>

theorem gpio_pins_are_shared_safely:
  assumes "gpio_ok N s" and "N \<le> 32"
  shows "gpio_ok N (fst (service_gpio_init_handle find_id ev s)) \<and>
    gpio_ok N (fst (service_gpio_register_interrupt N hnd pin mode evm s)) \<and>
    gpio_ok N (fst (service_gpio_register_top_half N hnd pin th s)) \<and>
    gpio_ok N (fst (service_gpio_enable_interrupt N hnd pin s)) \<and>
    gpio_ok N (fst (service_gpio_disable_interrupt N hnd pin s)) \<and>
    gpio_ok N (fst (service_gpio_unregister_interrupt N hnd pin s)) \<and>
    gpio_ok N (fst (service_gpio_get_isr hnd ask keep s)) \<and>
    gpio_ok N (fst (service_gpio_task N run level result flagged g (s, e))) \<and>
    (\<forall>s0. \<not> service_gpio_started s0 \<longrightarrow> gpio_ok N (service_gpio_start True s0)) \<and>
    (\<forall>h k. h < length (ctx s) \<and> valid (ctx s ! h) \<and> pin < N \<and> k < length (ctx s) \<and> k \<noteq> h \<and> holds_pin (ctx s ! k) pin \<and>
      (int_mode (pins (ctx s ! k) pin) \<noteq> mode \<or> \<not> shareable mode) \<longrightarrow> service_gpio_register_interrupt N (int h) pin mode evm s = (s, -1))"
proof -
  have c: "\<forall>h k. h < length (ctx s) \<and> valid (ctx s ! h) \<and> pin < N \<and> k < length (ctx s) \<and> k \<noteq> h \<and> holds_pin (ctx s ! k) pin \<and>
      (int_mode (pins (ctx s ! k) pin) \<noteq> mode \<or> \<not> shareable mode) \<longrightarrow> service_gpio_register_interrupt N (int h) pin mode evm s = (s, -1)"
    using conflict_refused [OF assms(1)] by blast
  have st: "\<forall>s0. \<not> service_gpio_started s0 \<longrightarrow> gpio_ok N (service_gpio_start True s0)" by (simp add: start_ok)
  note o = init_handle_ok [OF assms(1)] register_ok [OF assms] top_half_ok [OF assms(1)] enable_disable_ok [OF assms(1)]
    unregister_ok [OF assms] get_isr_ok [OF assms(1)] task_ok [OF assms(1)]
  show ?thesis by (intro conjI o) (rule st, rule c)
qed

theorem gpio_pins_are_shared_safely_witness:
  "gpio_ok 16 (fst (service_gpio_enable_interrupt 16 0 4 gpio_client)) \<and>
   gpio_ok 16 (fst (service_gpio_task 16 (\<lambda>h e. (e, True)) (\<lambda>p e. True) 0 True 0x10 (gpio_client, ())))"
  using gpio_pins_are_shared_safely [OF gpio_client_ok, where hnd = 0 and pin = 4 and run = "\<lambda>h e. (e, True)"
      and level = "\<lambda>p e. True" and result = 0 and flagged = True and g = "0x10" and e = "()"] by simp



text \<open>
  C40. The interrupt of the driver follows the first context that holds the pin. When the first client of a pin enables and disables it, the
  driver's interrupt is switched on and not off again; when another client disables the pin while the first one has it disabled, the driver's interrupt
  goes off although a third client still listens.
\<close>

theorem driver_follows_the_first_client:
  assumes "gpio_ok N s" and "first_holder pin a s" and "pin < N" and "\<not> enabled (pins (ctx s ! a) pin)"
  shows "(\<exists>s1 s2. service_gpio_enable_interrupt N (int a) pin s = (s1, 0) \<and> service_gpio_disable_interrupt N (int a) pin s1 = (s2, 0) \<and>
      driver_on pin s1 \<and> \<not> enabled (pins (ctx s2 ! a) pin) \<and> driver_on pin s2) \<and>
    (\<forall>h k. h < length (ctx s) \<and> listens pin (ctx s ! h) \<and> k < length (ctx s) \<and> k \<noteq> h \<and> listens pin (ctx s ! k) \<longrightarrow>
      (\<exists>s'. service_gpio_disable_interrupt N (int h) pin s = (s', 0) \<and> listens pin (ctx s' ! k) \<and> \<not> driver_on pin s'))"
  using sole_client_leaves_it_on [OF assms] others_are_cut_off [OF assms] by blast

theorem driver_follows_the_first_client_witness:
  "\<exists>s1 s2. service_gpio_enable_interrupt 16 (int 0) 4 gpio_client = (s1, 0) \<and> service_gpio_disable_interrupt 16 (int 0) 4 s1 = (s2, 0) \<and>
     driver_on 4 s2"
proof -
  have f: "first_holder 4 0 gpio_client" "\<not> enabled (pins (ctx gpio_client ! 0) 4)"
    by (simp_all add: first_holder_def gpio_client_ctx pin_registered_bit bit_numeral_rec)
  show ?thesis using driver_follows_the_first_client [OF gpio_client_ok f(1) _ f(2)] by auto
qed

end
